(* ===== verification/Prelude.thy ===== *)
theory Prelude
  imports Main "HOL-Library.Word" "HOL-Library.Monad_Syntax"
begin

text \<open>
  Shared vocabulary of the development: the C integer types of the 32-bit big-endian
  PowerPC 460EX target, byte order conversions, the fact collections the components
  add to, and generic lemmas on words and lists.
\<close>

unbundle bit_operations_syntax

section \<open>C integer types\<close>

type_synonym u8 = "8 word"
type_synonym u16 = "16 word"
type_synonym u32 = "32 word"
type_synonym u64 = "64 word"

named_theorems word_bits \<open>facts that turn word equations into statements about single bits\<close>
named_theorems c_loops \<open>closed forms of the loops of the C code\<close>

section \<open>Characters\<close>

text \<open>C strings are lists of non-NUL characters; \<open>char\<close> is unsigned on the target.\<close>

abbreviation NUL :: char where
  "NUL \<equiv> CHR 0x00"

definition byte_of :: "char \<Rightarrow> u8" where
  "byte_of c = of_nat (of_char c)"

definition char_of_byte :: "u8 \<Rightarrow> char" where
  "char_of_byte b = char_of (unat b)"

lemma of_char_less: "(of_char c :: nat) < 256"
  using char_of_nat [of "of_char c"] by (metis nat_of_char_less_256)

lemma unat_byte_of: "unat (byte_of c) = of_char c"
  using of_char_less [of c] by (simp add: byte_of_def unat_of_nat)

lemma char_of_byte_of [simp]: "char_of_byte (byte_of c) = c"
  by (simp add: char_of_byte_def unat_byte_of)

lemma byte_of_char_of [simp]: "byte_of (char_of_byte b) = b"
proof -
  have "unat b < 2 ^ LENGTH(8)" by (rule unsigned_less)
  then show ?thesis by (simp add: byte_of_def char_of_byte_def)
qed

lemma byte_of_eq [simp]: "byte_of c = byte_of d \<longleftrightarrow> c = d"
  by (metis char_of_byte_of)

text \<open>The character a string pointer sees: NUL at the end.\<close>

definition peek :: "string \<Rightarrow> nat \<Rightarrow> char" where
  "peek s i = (if i < length s then s ! i else NUL)"

lemma peek_Nil [simp]: "peek [] i = NUL"
  by (simp add: peek_def)

lemma peek_Cons_0 [simp]: "peek (c # s) 0 = c"
  by (simp add: peek_def)

lemma peek_Cons_Suc [simp]: "peek (c # s) (Suc i) = peek s i"
  by (simp add: peek_def)

section \<open>Arrays\<close>

text \<open>Reading and writing an element of a C array; an index outside the array has no defined
  effect and gives \<open>None\<close>.\<close>

definition rd :: "'a list \<Rightarrow> nat \<Rightarrow> 'a option" where
  "rd r i = (if i < length r then Some (r ! i) else None)"

definition wr :: "'a list \<Rightarrow> nat \<Rightarrow> 'a \<Rightarrow> 'a list option" where
  "wr r i p = (if i < length r then Some (r[i := p]) else None)"

lemma rd_Some [simp]: "i < length r \<Longrightarrow> rd r i = Some (r ! i)"
  by (simp add: rd_def)

lemma wr_Some [simp]: "i < length r \<Longrightarrow> wr r i p = Some (r[i := p])"
  by (simp add: wr_def)

lemma rd_None [simp]: "length r \<le> i \<Longrightarrow> rd r i = None"
  by (simp add: rd_def)

lemma rd_append [simp]: "rd (xs @ y # ys) (length xs) = Some y"
  by (simp add: rd_def)

section \<open>Byte order\<close>

text \<open>A 32-bit load on the big-endian target: the byte at the lowest address is the
  most significant one.\<close>

definition load_be32 :: "u8 \<Rightarrow> u8 \<Rightarrow> u8 \<Rightarrow> u8 \<Rightarrow> u32" where
  "load_be32 b0 b1 b2 b3 =
     push_bit 24 (ucast b0) OR push_bit 16 (ucast b1) OR push_bit 8 (ucast b2) OR ucast b3"

definition store_be32 :: "u32 \<Rightarrow> u8 list" where
  "store_be32 w = [ucast (drop_bit 24 w), ucast (drop_bit 16 w), ucast (drop_bit 8 w), ucast w]"

definition swab32 :: "u32 \<Rightarrow> u32" where
  "swab32 w = push_bit 24 (w AND 0xff) OR push_bit 8 (w AND 0xff00)
     OR (drop_bit 8 w AND 0xff00) OR drop_bit 24 w"

lemma bit_0xff [word_bits]: "bit (0xff :: int) n \<longleftrightarrow> n < 8"
proof -
  have "(0xff :: int) = mask 8" by (simp add: mask_eq_exp_minus_1)
  then show ?thesis by (simp only: bit_mask_iff) simp
qed

lemma bit_0xff00 [word_bits]: "bit (0xff00 :: int) n \<longleftrightarrow> 8 \<le> n \<and> n < 16"
proof -
  have "(0xff00 :: int) = push_bit 8 (mask 8)" by (simp add: mask_eq_exp_minus_1)
  then show ?thesis by (simp only: bit_push_bit_iff bit_mask_iff) auto
qed

lemma bit_0xff0000 [word_bits]: "bit (0xff0000 :: int) n \<longleftrightarrow> 16 \<le> n \<and> n < 24"
proof -
  have "(0xff0000 :: int) = push_bit 16 (mask 8)" by (simp add: mask_eq_exp_minus_1)
  then show ?thesis by (simp only: bit_push_bit_iff bit_mask_iff) auto
qed

lemma bit_0xff000000 [word_bits]: "bit (0xff000000 :: int) n \<longleftrightarrow> 24 \<le> n \<and> n < 32"
proof -
  have "(0xff000000 :: int) = push_bit 24 (mask 8)" by (simp add: mask_eq_exp_minus_1)
  then show ?thesis by (simp only: bit_push_bit_iff bit_mask_iff) auto
qed

lemma bit_swab32:
  "bit (swab32 w) n \<longleftrightarrow> n < 32 \<and> bit w (8 * (3 - n div 8) + n mod 8)"
proof (cases "n < 32")
  case True
  then consider "n < 8" | "8 \<le> n" "n < 16" | "16 \<le> n" "n < 24" | "24 \<le> n" "n < 32"
    by linarith
  then show ?thesis
  proof cases
    case 1
    then show ?thesis by (auto simp: swab32_def bit_simps word_bits dest: bit_imp_le_length)
  next
    case 2
    then have "n div 8 = 1" "n mod 8 = n - 8" by arith+
    with 2 show ?thesis by (auto simp: swab32_def bit_simps word_bits dest: bit_imp_le_length)
  next
    case 3
    then have "n div 8 = 2" "n mod 8 = n - 16" by arith+
    with 3 show ?thesis by (auto simp: swab32_def bit_simps word_bits dest: bit_imp_le_length)
  next
    case 4
    then have "n div 8 = 3" "n mod 8 = n - 24" by arith+
    with 4 show ?thesis by (auto simp: swab32_def bit_simps word_bits dest: bit_imp_le_length)
  qed
next
  case False
  then show ?thesis by (simp add: bit_word.rep_eq)
qed

lemma swab32_swab32 [simp]: "swab32 (swab32 w) = w"
proof (rule bit_word_eqI)
  fix n assume n: "n < LENGTH(32)"
  let ?m = "8 * (3 - n div 8) + n mod 8"
  have "?m div 8 = 3 - n div 8" "?m mod 8 = n mod 8" by (simp_all add: div_nat_eqI)
  moreover have "?m < 32" using n by simp
  moreover have "3 - (3 - n div 8) = n div 8" using n by simp
  ultimately show "bit (swab32 (swab32 w)) n \<longleftrightarrow> bit w n"
    using n by (simp only: bit_swab32) (simp add: mult.commute)
qed

lemma swab32_xor: "swab32 (a XOR b) = swab32 a XOR swab32 b"
  by (rule bit_word_eqI) (simp add: bit_swab32 bit_simps)

lemma and_1_bit0: "(c :: 'a::len word) AND 1 \<noteq> 0 \<longleftrightarrow> bit c 0"
  unfolding and_one_eq by (simp add: bit_0 mod_2_eq_odd)

lemma unat_and_0xff: "unat ((x :: u32) AND 0xff) < 256"
proof -
  have "x AND 0xff = take_bit 8 x" by (simp add: take_bit_eq_mask mask_eq_exp_minus_1)
  moreover have "unat (take_bit 8 x) < 2 ^ 8" by (simp only: unsigned_take_bit_eq take_bit_nat_less_exp)
  ultimately show ?thesis by simp
qed

lemma bit_swab32_lane:
  assumes "m < 8"
  shows "bit (swab32 w) m = bit w (24 + m)" "bit (swab32 w) (8 + m) = bit w (16 + m)"
    "bit (swab32 w) (16 + m) = bit w (8 + m)" "bit (swab32 w) (24 + m) = bit w m"
proof -
  have "(8 + m) div 8 = 1" "(16 + m) div 8 = 2" "(24 + m) div 8 = 3"
      "(8 + m) mod 8 = m" "(16 + m) mod 8 = m" "(24 + m) mod 8 = m"
    using assms by presburger+
  then show "bit (swab32 w) m = bit w (24 + m)" "bit (swab32 w) (8 + m) = bit w (16 + m)"
    "bit (swab32 w) (16 + m) = bit w (8 + m)" "bit (swab32 w) (24 + m) = bit w m"
    using assms by (simp_all only: bit_swab32) simp_all
qed

text \<open>Every bit position is one of four lanes of eight.\<close>

lemma lane_cases:
  assumes "n < LENGTH(32)"
  obtains m where "m < 8" "n = m" | m where "m < 8" "n = 8 + m"
    | m where "m < 8" "n = 16 + m" | m where "m < 8" "n = 24 + m"
proof -
  consider "n < 8" | "8 \<le> n" "n < 16" | "16 \<le> n" "n < 24" | "24 \<le> n" "n < 32"
    using assms by fastforce
  then show thesis
  proof cases
    case 1
    then show ?thesis by (rule that(1) [OF _ refl])
  next
    case 2
    then show ?thesis by (intro that(2) [of "n - 8"]) auto
  next
    case 3
    then show ?thesis by (intro that(3) [of "n - 16"]) auto
  next
    case 4
    then show ?thesis by (intro that(4) [of "n - 24"]) auto
  qed
qed

lemma bit_u32_ge: "32 \<le> m \<Longrightarrow> \<not> bit (b :: u32) m"
  using bit_imp_le_length [of b m] by auto

lemma drop_24_swab32: "drop_bit 24 (swab32 c) = c AND 0xff"
proof (rule bit_word_eqI)
  fix n assume "n < LENGTH(32)"
  then show "bit (drop_bit 24 (swab32 c)) n \<longleftrightarrow> bit (c AND 0xff) n"
    by (cases rule: lane_cases)
      (simp_all add: bit_drop_bit_eq bit_swab32_lane bit_and_iff bit_numeral_word_iff
        word_bits bit_u32_ge)
qed

lemma swab32_drop_8: "swab32 (drop_bit 8 c) = push_bit 8 (swab32 c)"
proof (rule bit_word_eqI)
  fix n assume "n < LENGTH(32)"
  then show "bit (swab32 (drop_bit 8 c)) n \<longleftrightarrow> bit (push_bit 8 (swab32 c)) n"
    by (cases rule: lane_cases) (simp_all add: bit_swab32_lane bit_simps bit_u32_ge)
qed

lemma bit_u8_ge: "8 \<le> m \<Longrightarrow> \<not> bit (b :: u8) m"
  using bit_imp_le_length [of b m] by auto

lemma swab32_load_be32:
  "swab32 (load_be32 b0 b1 b2 b3) =
     ucast b0 XOR push_bit 8 (ucast b1 XOR push_bit 8 (ucast b2 XOR push_bit 8 (ucast b3)))"
  (is "?l = ?r")
proof (rule bit_word_eqI)
  fix n assume n: "n < LENGTH(32)"
  then show "bit ?l n \<longleftrightarrow> bit ?r n"
    by (cases rule: lane_cases) (simp_all add: load_be32_def bit_swab32_lane bit_simps bit_u8_ge)
qed

lemma xor_right_cancel: "(a :: 'a::len word) XOR c = b XOR c \<longleftrightarrow> a = b"
proof
  assume "a XOR c = b XOR c"
  then have "(a XOR c) XOR c = (b XOR c) XOR c" by simp
  then show "a = b" by (simp add: xor.assoc)
qed simp

lemma ucast_u8_eq: "(ucast (x :: u8) :: u32) = ucast y \<longleftrightarrow> x = y"
proof
  assume eq: "(ucast x :: u32) = ucast y"
  show "x = y"
  proof (rule bit_word_eqI)
    fix n assume "n < LENGTH(8)"
    moreover have "bit (ucast x :: u32) n = bit (ucast y :: u32) n" using eq by simp
    ultimately show "bit x n = bit y n" by (simp add: bit_simps)
  qed
qed simp

section \<open>Counting loops over machine words\<close>

lemma unat_incr: "i < (n :: 'a::len word) \<Longrightarrow> unat (i + 1) = unat i + 1"
proof -
  assume "i < n"
  then have "unat i < unat n" by (simp add: word_less_nat_alt)
  moreover have "unat n < 2 ^ LENGTH('a)" by (rule unsigned_less)
  ultimately have "Suc (unat i) < 2 ^ LENGTH('a)" by linarith
  then show ?thesis by (simp add: unat_word_ariths)
qed

text \<open>A loop \<open>for (i = ...; i < n; i++)\<close> over an unsigned \<open>i\<close> ends: \<open>i\<close> cannot wrap below \<open>n\<close>.\<close>

lemma word_loop_measure: "i < (n :: 'a::len word) \<Longrightarrow> unat n - unat (i + 1) < unat n - unat i"
  by (simp add: unat_incr word_less_nat_alt)

section \<open>Unsigned arithmetic without wrap-around\<close>

lemma unat_add_le: "unat ((a :: 'a::len word) + b) \<le> unat a + unat b"
  by (simp add: unat_word_ariths)

lemma unat_add_nowrap:
  "unat (a :: 'a::len word) + unat b < 2 ^ LENGTH('a) \<Longrightarrow> unat (a + b) = unat a + unat b"
  by (simp add: unat_word_ariths)

lemma unat_sub_le: "(b :: 'a::len word) \<le> a \<Longrightarrow> unat (a - b) = unat a - unat b"
  by (rule unat_sub)

lemma nat_sint: "0 \<le> sint (w :: 'a::len word) \<Longrightarrow> nat (sint w) = unat w"
proof -
  assume "0 \<le> sint w"
  moreover have "sint w < 2 ^ (LENGTH('a) - 1)" by (rule sint_lt)
  moreover have "(2 :: int) ^ (LENGTH('a) - 1) \<le> 2 ^ LENGTH('a)" by simp
  ultimately have "take_bit LENGTH('a) (sint w) = sint w"
    by (intro take_bit_int_eq_self) linarith+
  then have "uint w = sint w" by (simp only: uint_sint)
  then show ?thesis by (metis nat_uint_eq)
qed

lemma sint_small: "unat (w :: u32) < 2 ^ 31 \<Longrightarrow> sint w = int (unat w)"
proof -
  assume "unat w < 2 ^ 31"
  then have "int (unat w) < int (2 ^ 31)" by (simp only: of_nat_less_iff)
  then have "uint w < 2 ^ 31" by simp
  then have "signed_take_bit 31 (uint w) = uint w"
    by (intro signed_take_bit_int_eq_self) (auto intro: order_trans [of _ 0])
  then show ?thesis by (simp add: sint_uint)
qed

lemma unat_pred: "1 \<le> unat (c :: u32) \<Longrightarrow> unat (c - 1) = unat c - 1"
  by (subst unat_sub_le) (simp_all add: word_le_nat_alt)

lemma unat_2_power: "k < 32 \<Longrightarrow> unat ((2 :: u32) ^ k) = 2 ^ k"
proof -
  assume "k < 32"
  then have "(2 :: nat) ^ k < 2 ^ 32" by (intro power_strict_increasing) simp_all
  moreover have "(2 :: u32) ^ k = of_nat (2 ^ k)" by simp
  ultimately show ?thesis by (simp only: unat_of_nat) simp
qed

lemma dvd_unat_iff: "2 ^ k dvd unat (w :: u32) \<longleftrightarrow> take_bit k w = 0"
proof -
  have "take_bit k w = 0 \<longleftrightarrow> unat (take_bit k w) = 0" by (simp add: unat_eq_0)
  moreover have "unat (take_bit k w) = unat w mod 2 ^ k"
    unfolding unsigned_take_bit_eq by (rule take_bit_eq_mod)
  ultimately show ?thesis by (simp add: dvd_eq_mod_eq_0)
qed

lemma set_split_nth:
  assumes "k < length xs"
  shows "set xs = insert (xs ! k) (set (take k xs) \<union> set (drop (Suc k) xs))"
proof -
  have "set (take k xs @ xs ! k # drop (Suc k) xs) = insert (xs ! k) (set (take k xs) \<union> set (drop (Suc k) xs))"
    by simp
  then show ?thesis using id_take_nth_drop [OF assms] by simp
qed

lemma set_update_split:
  assumes "k < length xs"
  shows "set (xs[k := q]) = insert q (set (take k xs) \<union> set (drop (Suc k) xs))"
  using assms by (simp add: upd_conv_take_nth_drop)

section \<open>Masks and shifts as division\<close>

lemma and_mask_mod: "unat ((x :: 'a::len word) AND mask k) = unat x mod 2 ^ k"
proof -
  have "unat (take_bit k x) = unat x mod 2 ^ k"
    unfolding unsigned_take_bit_eq by (rule take_bit_eq_mod)
  then show ?thesis by (simp add: take_bit_eq_mask)
qed

lemma and_0xff_mod: "unat ((x :: u32) AND 0xff) = unat x mod 256"
  using and_mask_mod [of x 8] by (simp add: mask_eq_exp_minus_1)

lemma and_0xf_mod: "unat ((x :: 'a::len word) AND 0xf) = unat x mod 16"
  using and_mask_mod [of x 4] by (simp add: mask_eq_exp_minus_1)

lemma unat_drop_div: "unat (drop_bit k (x :: 'a::len word)) = unat x div 2 ^ k"
  unfolding unat_drop_bit_eq by (rule drop_bit_eq_div)

lemma unat_ucast_mod: "unat (ucast (x :: 'a::len word) :: 'b::len word) = unat x mod 2 ^ LENGTH('b)"
  by (simp add: unsigned_ucast_eq take_bit_eq_mod)

lemma unat_mult_small: "unat (a :: u32) * unat b < 2 ^ 32 \<Longrightarrow> unat (a * b) = unat a * unat b"
  by (simp add: unat_word_ariths)

lemma unat_push_2: "unat (x :: u32) < 2 ^ 30 \<Longrightarrow> unat (push_bit 2 x) = 4 * unat x"
  by (simp add: push_bit_eq_mult unat_word_ariths)

lemma load_be32_store_be32: "store_be32 w = [b0, b1, b2, b3] \<Longrightarrow> load_be32 b0 b1 b2 b3 = w"
proof -
  assume "store_be32 w = [b0, b1, b2, b3]"
  then have b: "b0 = ucast (drop_bit 24 w)" "b1 = ucast (drop_bit 16 w)" "b2 = ucast (drop_bit 8 w)" "b3 = ucast w"
    by (simp_all add: store_be32_def)
  show ?thesis
  proof (rule bit_word_eqI)
    fix n assume "n < LENGTH(32)"
    then show "bit (load_be32 b0 b1 b2 b3) n \<longleftrightarrow> bit w n"
      by (cases rule: lane_cases) (auto simp: load_be32_def b bit_simps bit_u8_ge)
  qed
qed

section \<open>Programs that may fail\<close>

text \<open>\<open>yields m Q\<close>: if the computation \<open>m\<close> has a result, the result satisfies \<open>Q\<close>.\<close>

definition yields :: "'a option \<Rightarrow> ('a \<Rightarrow> bool) \<Rightarrow> bool" where
  "yields m Q \<longleftrightarrow> (\<forall>x. m = Some x \<longrightarrow> Q x)"

lemma yields_Some: "Q x \<Longrightarrow> yields (Some x) Q"
  by (simp add: yields_def)

lemma yields_None: "yields None Q"
  by (simp add: yields_def)

lemma yields_if: "(b \<Longrightarrow> yields m Q) \<Longrightarrow> (\<not> b \<Longrightarrow> yields m' Q) \<Longrightarrow> yields (if b then m else m') Q"
  by simp

lemma yields_option:
  "(v = None \<Longrightarrow> yields m Q) \<Longrightarrow> (\<And>x. v = Some x \<Longrightarrow> yields (f x) Q) \<Longrightarrow> yields (case v of None \<Rightarrow> m | Some x \<Rightarrow> f x) Q"
  by (simp split: option.split)

lemma yields_prod: "(\<And>a b. p = (a, b) \<Longrightarrow> yields (g a b) Q) \<Longrightarrow> yields (case p of (a, b) \<Rightarrow> g a b) Q"
  by (simp split: prod.split)

lemma yields_let: "yields (h y) Q \<Longrightarrow> yields (Let y h) Q"
  by simp

lemma yields_skip: "(\<And>x. yields (k x) Q) \<Longrightarrow> yields (Option.bind m k) Q"
  by (auto simp: yields_def bind_eq_Some_conv)

lemma yields_run: "(\<And>x. m = Some x \<Longrightarrow> yields (k x) Q) \<Longrightarrow> yields (Option.bind m k) Q"
  by (auto simp: yields_def bind_eq_Some_conv)

lemma yields_bind: "yields m P \<Longrightarrow> (\<And>x. P x \<Longrightarrow> yields (f x) Q) \<Longrightarrow> yields (Option.bind m f) Q"
  by (auto simp: yields_def bind_eq_Some_conv)

text \<open>A list of events, each of which is a step of a machine that may fail.\<close>

fun run_steps :: "('i \<Rightarrow> 's \<Rightarrow> 's option) \<Rightarrow> 'i list \<Rightarrow> 's \<Rightarrow> 's option" where
  "run_steps f [] s = Some s"
| "run_steps f (i # is) s = do { s \<leftarrow> f i s; run_steps f is s }"

lemma run_steps_append: "run_steps f (is @ js) s = do { s \<leftarrow> run_steps f is s; run_steps f js s }"
proof (induction "is" arbitrary: s)
  case (Cons i "is")
  then show ?case by (cases "f i s") simp_all
qed simp

text \<open>An invariant of the steps of a machine.\<close>

locale stepwise =
  fixes ok :: "'s \<Rightarrow> bool" and step :: "'i \<Rightarrow> 's \<Rightarrow> 's option"
  assumes step_ok: "ok s \<Longrightarrow> yields (step i s) ok"
begin

lemma steps_ok: "ok s \<Longrightarrow> yields (run_steps step is s) ok"
  by (induction "is" arbitrary: s) (auto intro: yields_Some yields_bind [OF step_ok])

end

end
