(* ===== verification/Lmb.thy ===== *)
theory Lmb
  imports Prelude
begin

text \<open>
  lib/lmb.c and include/lmb.h: the logical memory blocks from which \<open>bootm\<close> places the
  kernel, the ramdisk and the device tree. A region table is a fixed array of
  \<open>MAX_LMB_REGIONS + 1\<close> blocks and a count; physical addresses and sizes are 32-bit
  unsigned values (the board does not define \<open>CONFIG_PHYS_64BIT\<close>) and wrap around.
  An access outside the array has no defined result in C: every operation returns an
  option, \<open>None\<close> for such an access.
\<close>

section \<open>The tables\<close>

abbreviation (input) MAX_LMB_REGIONS :: nat where
  "MAX_LMB_REGIONS \<equiv> 8"

abbreviation (input) LMB_ALLOC_ANYWHERE :: u32 where
  "LMB_ALLOC_ANYWHERE \<equiv> 0"

record lmb_property =
  p_base :: u32
  p_size :: u32

record lmb_region =
  cnt :: u32
  rgn_size :: u32
  region :: "lmb_property list"

record lmb =
  memory :: lmb_region
  reserved :: lmb_region

section \<open>Address ranges\<close>

definition lmb_addrs_overlap :: "u32 \<Rightarrow> u32 \<Rightarrow> u32 \<Rightarrow> u32 \<Rightarrow> bool" where
  "lmb_addrs_overlap base1 sz1 base2 sz2 \<longleftrightarrow> base1 < base2 + sz2 \<and> base2 < base1 + sz1"

definition lmb_addrs_adjacent :: "u32 \<Rightarrow> u32 \<Rightarrow> u32 \<Rightarrow> u32 \<Rightarrow> int" where
  "lmb_addrs_adjacent base1 sz1 base2 sz2 =
     (if base2 = base1 + sz1 then 1 else if base1 = base2 + sz2 then -1 else 0)"

definition lmb_regions_adjacent :: "lmb_property list \<Rightarrow> u32 \<Rightarrow> u32 \<Rightarrow> int option" where
  "lmb_regions_adjacent r r1 r2 = do {
     p1 \<leftarrow> rd r (unat r1);
     p2 \<leftarrow> rd r (unat r2);
     Some (lmb_addrs_adjacent (p_base p1) (p_size p1) (p_base p2) (p_size p2))
   }"

section \<open>Removing and merging blocks\<close>

function lmb_shift_down :: "u32 \<Rightarrow> u32 \<Rightarrow> lmb_property list \<Rightarrow> lmb_property list option" where
  "lmb_shift_down i n r =
     (if i < n then do {
        p \<leftarrow> rd r (unat (i + 1));
        r' \<leftarrow> wr r (unat i) p;
        lmb_shift_down (i + 1) n r'
      } else Some r)"
  by pat_completeness auto
termination
  by (relation "measure (\<lambda>(i, n, r). unat n - unat i)")
    (auto simp: word_loop_measure)

declare lmb_shift_down.simps [simp del]

definition lmb_remove_region :: "lmb_region \<Rightarrow> u32 \<Rightarrow> lmb_region option" where
  "lmb_remove_region rgn r = do {
     reg \<leftarrow> lmb_shift_down r (cnt rgn - 1) (region rgn);
     Some (rgn\<lparr>region := reg, cnt := cnt rgn - 1\<rparr>)
   }"

definition lmb_coalesce_regions :: "lmb_region \<Rightarrow> u32 \<Rightarrow> u32 \<Rightarrow> lmb_region option" where
  "lmb_coalesce_regions rgn r1 r2 = do {
     p1 \<leftarrow> rd (region rgn) (unat r1);
     p2 \<leftarrow> rd (region rgn) (unat r2);
     reg \<leftarrow> wr (region rgn) (unat r1) (p1\<lparr>p_size := p_size p1 + p_size p2\<rparr>);
     lmb_remove_region (rgn\<lparr>region := reg\<rparr>) r2
   }"

text \<open>The storage of a table before \<open>lmb_init\<close> is whatever the array held.\<close>

definition lmb_init_region :: "lmb_region \<Rightarrow> lmb_region option" where
  "lmb_init_region rgn = do {
     reg \<leftarrow> wr (region rgn) 0 \<lparr>p_base = 0, p_size = 0\<rparr>;
     Some (rgn\<lparr>region := reg, cnt := 1, rgn_size := 0\<rparr>)
   }"

definition lmb_init :: "lmb \<Rightarrow> lmb option" where
  "lmb_init l = do {
     m \<leftarrow> lmb_init_region (memory l);
     r \<leftarrow> lmb_init_region (reserved l);
     Some (l\<lparr>memory := m, reserved := r\<rparr>)
   }"

section \<open>Adding a block\<close>

text \<open>The outcome of the first loop of \<open>lmb_add_region\<close>: the block is already there, it
  was merged with block \<open>i\<close>, or the loop ran to the end.\<close>

datatype coalesce = Present | Merged u32 "lmb_property list" | Unmerged

function lmb_try_coalesce ::
  "u32 \<Rightarrow> u32 \<Rightarrow> u32 \<Rightarrow> u32 \<Rightarrow> lmb_property list \<Rightarrow> coalesce option" where
  "lmb_try_coalesce i n base sz r =
     (if i < n then do {
        p \<leftarrow> rd r (unat i);
        if p_base p = base \<and> p_size p = sz then Some Present
        else let adjacent = lmb_addrs_adjacent base sz (p_base p) (p_size p) in
          if adjacent > 0 then do {
            r' \<leftarrow> wr r (unat i) (p\<lparr>p_base := p_base p - sz, p_size := p_size p + sz\<rparr>);
            Some (Merged i r')
          } else if adjacent < 0 then do {
            r' \<leftarrow> wr r (unat i) (p\<lparr>p_size := p_size p + sz\<rparr>);
            Some (Merged i r')
          } else lmb_try_coalesce (i + 1) n base sz r
      } else Some Unmerged)"
  by pat_completeness auto
termination
  by (relation "measure (\<lambda>(i, n, base, sz, r). unat n - unat i)")
    (auto simp: word_loop_measure)

declare lmb_try_coalesce.simps [simp del]

text \<open>The insertion loop runs \<open>i\<close> from \<open>cnt - 1\<close> down to 0; the argument is \<open>i + 1\<close>.\<close>

fun lmb_insert :: "nat \<Rightarrow> u32 \<Rightarrow> u32 \<Rightarrow> lmb_property list \<Rightarrow> lmb_property list option" where
  "lmb_insert 0 base sz r = Some r"
| "lmb_insert (Suc i) base sz r = do {
     p \<leftarrow> rd r i;
     if base < p_base p then do {
       r' \<leftarrow> wr r (Suc i) p;
       lmb_insert i base sz r'
     } else wr r (Suc i) \<lparr>p_base = base, p_size = sz\<rparr>
   }"

text \<open>The condition \<open>(i < rgn->cnt-1) && lmb_regions_adjacent(rgn, i, i+1)\<close>.\<close>

definition lmb_next_adjacent :: "lmb_region \<Rightarrow> u32 \<Rightarrow> int option" where
  "lmb_next_adjacent rgn i =
     (if i < cnt rgn - 1 then lmb_regions_adjacent (region rgn) i (i + 1) else Some 0)"

definition lmb_add_region :: "lmb_region \<Rightarrow> u32 \<Rightarrow> u32 \<Rightarrow> (int \<times> lmb_region) option" where
  "lmb_add_region rgn base sz = do {
     p0 \<leftarrow> rd (region rgn) 0;
     if cnt rgn = 1 \<and> p_size p0 = 0 then do {
       reg \<leftarrow> wr (region rgn) 0 \<lparr>p_base = base, p_size = sz\<rparr>;
       Some (0, rgn\<lparr>region := reg\<rparr>)
     } else do {
       c \<leftarrow> lmb_try_coalesce 0 (cnt rgn) base sz (region rgn);
       if c = Present then Some (0, rgn)
       else do {
         let (coalesced, i, rgn1) = (case c of
             Merged i reg \<Rightarrow> (1 :: int, i, rgn\<lparr>region := reg\<rparr>)
           | _ \<Rightarrow> (0, cnt rgn, rgn));
         adj \<leftarrow> lmb_next_adjacent rgn1 i;
         (coalesced, rgn2) \<leftarrow>
           (if adj \<noteq> 0 then do {
              rgn2 \<leftarrow> lmb_coalesce_regions rgn1 i (i + 1);
              Some (coalesced + 1, rgn2)
            } else Some (coalesced, rgn1));
         if coalesced \<noteq> 0 then Some (coalesced, rgn2)
         else if unat (cnt rgn2) \<ge> MAX_LMB_REGIONS then Some (-1, rgn2)
         else do {
           reg \<leftarrow> lmb_insert (nat (sint (cnt rgn2 - 1) + 1)) base sz (region rgn2);
           q0 \<leftarrow> rd reg 0;
           reg' \<leftarrow> (if base < p_base q0 then wr reg 0 \<lparr>p_base = base, p_size = sz\<rparr> else Some reg);
           Some (0, rgn2\<lparr>region := reg', cnt := cnt rgn2 + 1\<rparr>)
         }
       }
     }
   }"

definition lmb_add :: "lmb \<Rightarrow> u32 \<Rightarrow> u32 \<Rightarrow> (int \<times> lmb) option" where
  "lmb_add l base sz = do {
     (rc, rgn) \<leftarrow> lmb_add_region (memory l) base sz;
     Some (rc, l\<lparr>memory := rgn\<rparr>)
   }"

definition lmb_reserve :: "lmb \<Rightarrow> u32 \<Rightarrow> u32 \<Rightarrow> (int \<times> lmb) option" where
  "lmb_reserve l base sz = do {
     (rc, rgn) \<leftarrow> lmb_add_region (reserved l) base sz;
     Some (rc, l\<lparr>reserved := rgn\<rparr>)
   }"

section \<open>Releasing a block\<close>

function lmb_find_containing ::
  "u32 \<Rightarrow> u32 \<Rightarrow> u32 \<Rightarrow> u32 \<Rightarrow> lmb_property list \<Rightarrow> (u32 \<times> lmb_property) option option" where
  "lmb_find_containing i n base fin r =
     (if i < n then do {
        p \<leftarrow> rd r (unat i);
        if p_base p \<le> base \<and> fin \<le> p_base p + p_size p then Some (Some (i, p))
        else lmb_find_containing (i + 1) n base fin r
      } else Some None)"
  by pat_completeness auto
termination
  by (relation "measure (\<lambda>(i, n, base, fin, r). unat n - unat i)")
    (auto simp: word_loop_measure)

declare lmb_find_containing.simps [simp del]

definition lmb_free_region :: "lmb_region \<Rightarrow> u32 \<Rightarrow> u32 \<Rightarrow> (int \<times> lmb_region) option" where
  "lmb_free_region rgn base sz = do {
     let fin = base + sz;
     f \<leftarrow> lmb_find_containing 0 (cnt rgn) base fin (region rgn);
     case f of
       None \<Rightarrow> Some (-1, rgn)
     | Some (i, p) \<Rightarrow>
         let rgnbegin = p_base p; rgnend = p_base p + p_size p in
         if rgnbegin = base \<and> rgnend = fin then do {
           rgn' \<leftarrow> lmb_remove_region rgn i;
           Some (0, rgn')
         } else if rgnbegin = base then do {
           reg \<leftarrow> wr (region rgn) (unat i) (p\<lparr>p_base := fin, p_size := p_size p - sz\<rparr>);
           Some (0, rgn\<lparr>region := reg\<rparr>)
         } else if rgnend = fin then do {
           reg \<leftarrow> wr (region rgn) (unat i) (p\<lparr>p_size := p_size p - sz\<rparr>);
           Some (0, rgn\<lparr>region := reg\<rparr>)
         } else do {
           reg \<leftarrow> wr (region rgn) (unat i) (p\<lparr>p_size := base - p_base p\<rparr>);
           lmb_add_region (rgn\<lparr>region := reg\<rparr>) fin (rgnend - fin)
         }
   }"

definition lmb_free :: "lmb \<Rightarrow> u32 \<Rightarrow> u32 \<Rightarrow> (int \<times> lmb) option" where
  "lmb_free l base sz = do {
     (rc, rgn) \<leftarrow> lmb_free_region (reserved l) base sz;
     Some (rc, l\<lparr>reserved := rgn\<rparr>)
   }"

section \<open>Allocation\<close>

text \<open>The loop of \<open>lmb_overlaps_region\<close>: the index of the first overlapping block, or \<open>cnt\<close>.\<close>

function lmb_find_overlap :: "u32 \<Rightarrow> u32 \<Rightarrow> u32 \<Rightarrow> u32 \<Rightarrow> lmb_property list \<Rightarrow> u32 option" where
  "lmb_find_overlap i n base sz r =
     (if i < n then do {
        p \<leftarrow> rd r (unat i);
        if lmb_addrs_overlap base sz (p_base p) (p_size p) then Some i
        else lmb_find_overlap (i + 1) n base sz r
      } else Some i)"
  by pat_completeness auto
termination
  by (relation "measure (\<lambda>(i, n, base, sz, r). unat n - unat i)")
    (auto simp: word_loop_measure)

declare lmb_find_overlap.simps [simp del]

definition lmb_overlaps_region :: "lmb_region \<Rightarrow> u32 \<Rightarrow> u32 \<Rightarrow> int option" where
  "lmb_overlaps_region rgn base sz = do {
     i \<leftarrow> lmb_find_overlap 0 (cnt rgn) base sz (region rgn);
     Some (if i < cnt rgn then sint i else -1)
   }"

definition lmb_align_down :: "u32 \<Rightarrow> u32 \<Rightarrow> u32" where
  "lmb_align_down addr sz = addr AND NOT (sz - 1)"

definition lmb_align_up :: "u32 \<Rightarrow> u32 \<Rightarrow> u32" where
  "lmb_align_up addr sz = (addr + (sz - 1)) AND NOT (sz - 1)"

lemma lmb_align_down_le: "lmb_align_down a b \<le> a"
  unfolding lmb_align_down_def by (rule word_and_le2)

lemma lmb_find_overlap_Some:
  "lmb_find_overlap i n base sz r = Some j \<Longrightarrow> j < n \<Longrightarrow>
     \<exists>p. rd r (unat j) = Some p \<and> lmb_addrs_overlap base sz (p_base p) (p_size p)"
proof (induction i n base sz r rule: lmb_find_overlap.induct)
  case (1 i n base sz r)
  from "1.prems" show ?case
    by (subst (asm) lmb_find_overlap.simps)
      (auto split: if_splits Option.bind_splits dest: "1.IH")
qed

lemma lmb_overlaps_region_nonneg:
  assumes "lmb_overlaps_region rgn base sz = Some j" "\<not> j < 0"
  shows "\<exists>p. rd (region rgn) (nat j) = Some p \<and> lmb_addrs_overlap base sz (p_base p) (p_size p)"
proof -
  from assms obtain i where "lmb_find_overlap 0 (cnt rgn) base sz (region rgn) = Some i"
      "i < cnt rgn" "j = sint i"
    by (auto simp: lmb_overlaps_region_def split: Option.bind_splits if_splits)
  with assms(2) show ?thesis by (auto simp: nat_sint dest: lmb_find_overlap_Some)
qed

text \<open>An overlapping block that starts at or above \<open>size\<close> starts below the end of the
  candidate, even when that end wraps around: the next candidate is strictly lower.\<close>

lemma lmb_next_candidate_less:
  assumes "lmb_addrs_overlap base sz b s" "\<not> b < sz"
  shows "unat (lmb_align_down (b - sz) align) < unat base"
proof -
  have "unat (lmb_align_down (b - sz) align) \<le> unat (b - sz)"
    using lmb_align_down_le [of "b - sz" align] by (simp add: word_le_nat_alt)
  also have "\<dots> = unat b - unat sz" using assms(2) by (simp add: unat_sub_le)
  also have "unat b < unat base + unat sz"
    using assms(1) unat_add_le [of base sz] by (simp add: lmb_addrs_overlap_def word_less_nat_alt)
  then have "unat b - unat sz < unat base"
    using assms by (auto simp: lmb_addrs_overlap_def word_less_nat_alt)
  finally show ?thesis .
qed

text \<open>The inner \<open>while\<close> of \<open>__lmb_alloc_base\<close> either returns from the function or leaves
  the current memory block for the next one.\<close>

datatype alloc_outcome = Return u32 lmb | Next_block

function lmb_alloc_scan :: "lmb \<Rightarrow> u32 \<Rightarrow> u32 \<Rightarrow> u32 \<Rightarrow> u32 \<Rightarrow> alloc_outcome option" where
  "lmb_alloc_scan l lmbbase sz align base =
     (if base \<noteq> 0 \<and> lmbbase \<le> base then do {
        j \<leftarrow> lmb_overlaps_region (reserved l) base sz;
        if j < 0 then do {
          (rc, rgn) \<leftarrow> lmb_add_region (reserved l) base (lmb_align_up sz align);
          Some (Return (if rc < 0 then 0 else base) (l\<lparr>reserved := rgn\<rparr>))
        } else do {
          p \<leftarrow> rd (region (reserved l)) (nat j);
          if p_base p < sz then Some Next_block
          else lmb_alloc_scan l lmbbase sz align (lmb_align_down (p_base p - sz) align)
        }
      } else Some Next_block)"
  by pat_completeness auto
termination
  by (relation "measure (\<lambda>(l, lmbbase, sz, align, base). unat base)")
    (auto dest!: lmb_overlaps_region_nonneg intro: lmb_next_candidate_less)

declare lmb_alloc_scan.simps [simp del]

text \<open>The outer loop runs \<open>i\<close> from \<open>memory.cnt - 1\<close> down to 0; the argument is \<open>i + 1\<close>.\<close>

fun lmb_alloc_blocks :: "nat \<Rightarrow> lmb \<Rightarrow> u32 \<Rightarrow> u32 \<Rightarrow> u32 \<Rightarrow> (u32 \<times> lmb) option" where
  "lmb_alloc_blocks 0 l sz align max_addr = Some (0, l)"
| "lmb_alloc_blocks (Suc i) l sz align max_addr = do {
     p \<leftarrow> rd (region (memory l)) i;
     let lmbbase = p_base p; lmbsize = p_size p in
     if lmbsize < sz \<or> (max_addr \<noteq> LMB_ALLOC_ANYWHERE \<and> \<not> lmbbase < max_addr)
     then lmb_alloc_blocks i l sz align max_addr
     else do {
       let base = (if max_addr = LMB_ALLOC_ANYWHERE
                   then lmb_align_down (lmbbase + lmbsize - sz) align
                   else lmb_align_down (min (lmbbase + lmbsize) max_addr - sz) align);
       res \<leftarrow> lmb_alloc_scan l lmbbase sz align base;
       case res of
         Return a l' \<Rightarrow> Some (a, l')
       | Next_block \<Rightarrow> lmb_alloc_blocks i l sz align max_addr
     }
   }"

definition lmb_alloc_base :: "lmb \<Rightarrow> u32 \<Rightarrow> u32 \<Rightarrow> u32 \<Rightarrow> (u32 \<times> lmb) option" where
  "lmb_alloc_base l sz align max_addr =
     lmb_alloc_blocks (nat (sint (cnt (memory l) - 1) + 1)) l sz align max_addr"

definition lmb_alloc :: "lmb \<Rightarrow> u32 \<Rightarrow> u32 \<Rightarrow> (u32 \<times> lmb) option" where
  "lmb_alloc l sz align = lmb_alloc_base l sz align LMB_ALLOC_ANYWHERE"

function lmb_reserved_from :: "u32 \<Rightarrow> u32 \<Rightarrow> u32 \<Rightarrow> lmb_property list \<Rightarrow> bool option" where
  "lmb_reserved_from i n addr r =
     (if i < n then do {
        p \<leftarrow> rd r (unat i);
        let upper = p_base p + p_size p - 1 in
        if p_base p \<le> addr \<and> addr \<le> upper then Some True
        else lmb_reserved_from (i + 1) n addr r
      } else Some False)"
  by pat_completeness auto
termination
  by (relation "measure (\<lambda>(i, n, addr, r). unat n - unat i)")
    (auto simp: word_loop_measure)

declare lmb_reserved_from.simps [simp del]

definition lmb_is_reserved :: "lmb \<Rightarrow> u32 \<Rightarrow> bool option" where
  "lmb_is_reserved l addr = lmb_reserved_from 0 (cnt (reserved l)) addr (region (reserved l))"

text \<open>The blocks in use.\<close>

section \<open>Sets of addresses\<close>

definition blocks :: "lmb_region \<Rightarrow> lmb_property list" where
  "blocks rgn = take (unat (cnt rgn)) (region rgn)"

definition addrs :: "lmb_property \<Rightarrow> nat set" where
  "addrs p = {unat (p_base p)..<unat (p_base p) + unat (p_size p)}"

definition covered :: "lmb_region \<Rightarrow> nat set" where
  "covered rgn = (\<Union>p\<in>set (blocks rgn). addrs p)"

definition block_ok :: "lmb_property \<Rightarrow> bool" where
  "block_ok p \<longleftrightarrow> p_size p \<noteq> 0 \<and> unat (p_base p) + unat (p_size p) < 2 ^ 32"

definition before :: "lmb_property \<Rightarrow> lmb_property \<Rightarrow> bool" where
  "before p q \<longleftrightarrow> unat (p_base p) + unat (p_size p) \<le> unat (p_base q)"

definition ordered :: "lmb_property list \<Rightarrow> bool" where
  "ordered ps \<longleftrightarrow> sorted_wrt before ps \<and> list_all block_ok ps"

definition region_ok :: "lmb_region \<Rightarrow> bool" where
  "region_ok rgn \<longleftrightarrow> length (region rgn) = 9 \<and> 1 \<le> unat (cnt rgn) \<and> unat (cnt rgn) \<le> 8 \<and>
     ((cnt rgn = 1 \<and> region rgn ! 0 = \<lparr>p_base = 0, p_size = 0\<rparr>) \<or> ordered (blocks rgn))"

lemma lmb_shift_down_spec:
  assumes "unat n < length r" "i \<le> n"
  shows "lmb_shift_down i n r =
    Some (take (unat i) r @ take (unat n - unat i) (drop (unat i + 1) r) @ drop (unat n) r)"
  using assms
proof (induction i n r rule: lmb_shift_down.induct)
  case (1 i n r)
  show ?case
  proof (cases "i < n")
    case False
    with "1.prems" have "i = n" by simp
    with False show ?thesis by (subst lmb_shift_down.simps) simp
  next
    case True
    have ui: "unat (i + 1) = unat i + 1" "unat i < unat n"
      using True by (simp_all add: unat_incr word_less_nat_alt)
    then have le: "i + 1 \<le> n" by (simp add: word_le_nat_alt)
    let ?r = "r[unat i := r ! (unat i + 1)]"
    have "lmb_shift_down i n r = lmb_shift_down (i + 1) n ?r"
      using True "1.prems" ui by (subst lmb_shift_down.simps) simp
    also have "\<dots> = Some (take (unat i + 1) ?r @ take (unat n - (unat i + 1)) (drop (unat i + 2) ?r) @ drop (unat n) ?r)"
      using "1.IH" [of "r ! (unat i + 1)" ?r] True "1.prems" ui le by simp
    also have "take (unat i + 1) ?r = take (unat i) r @ [r ! (unat i + 1)]"
      using ui "1.prems" by (simp add: take_Suc_conv_app_nth)
    also have "drop (unat n) ?r = drop (unat n) r" using ui by simp
    also have "take (unat n - (unat i + 1)) (drop (unat i + 2) ?r) = take (unat n - (unat i + 1)) (drop (unat i + 2) r)"
      by simp
    finally show ?thesis
      using ui "1.prems" by (simp add: Cons_nth_drop_Suc [symmetric] take_Cons')
  qed
qed

lemma lmb_remove_region_spec:
  assumes "length (region rgn) = 9" "1 \<le> unat (cnt rgn)" "unat (cnt rgn) \<le> 8" "unat i < unat (cnt rgn)"
  shows "\<exists>rgn'. lmb_remove_region rgn i = Some rgn' \<and> length (region rgn') = 9 \<and>
     unat (cnt rgn') = unat (cnt rgn) - 1 \<and> rgn_size rgn' = rgn_size rgn \<and>
     blocks rgn' = take (unat i) (blocks rgn) @ drop (unat i + 1) (blocks rgn)"
proof -
  have p: "unat (cnt rgn - 1) = unat (cnt rgn) - 1" using assms by (simp add: unat_pred)
  then have "i \<le> cnt rgn - 1" using assms by (simp add: word_le_nat_alt)
  moreover have "unat (cnt rgn - 1) < length (region rgn)" using assms p by simp
  ultimately have "lmb_remove_region rgn i = Some (rgn\<lparr>region := take (unat i) (region rgn) @
      take (unat (cnt rgn - 1) - unat i) (drop (unat i + 1) (region rgn)) @
      drop (unat (cnt rgn - 1)) (region rgn), cnt := cnt rgn - 1\<rparr>)"
    by (simp add: lmb_remove_region_def lmb_shift_down_spec)
  moreover have "unat (cnt rgn) = Suc (unat (cnt rgn - 1))" "unat i \<le> unat (cnt rgn - 1)"
      "unat (cnt rgn - 1) < length (region rgn)"
    using assms p by simp_all
  ultimately show ?thesis
    using assms by (simp add: blocks_def drop_take)
qed

definition new_block :: "u32 \<Rightarrow> u32 \<Rightarrow> lmb_property" where
  "new_block b s = \<lparr>p_base = b, p_size = s\<rparr>"

lemma lmb_property_update [simp]:
  "(p :: lmb_property)\<lparr>p_base := b, p_size := s\<rparr> = new_block b s"
  "p\<lparr>p_size := s\<rparr> = new_block (p_base p) s"
  "p_base (new_block b s) = b" "p_size (new_block b s) = s"
  "\<lparr>p_base = b, p_size = s\<rparr> = new_block b s"
  by (simp_all add: new_block_def)

lemma new_block_eta [simp]: "new_block (p_base p) (p_size p) = p"
  by (cases p) simp

lemma new_block_collapse: "p_base p = b \<Longrightarrow> p_size p = s \<Longrightarrow> p = new_block b s"
  by (cases p) simp

text \<open>What the coalescing loop can do to the table: \<open>k\<close> is the merged block.\<close>

definition merged_with :: "u32 \<Rightarrow> u32 \<Rightarrow> lmb_property \<Rightarrow> lmb_property \<Rightarrow> bool" where
  "merged_with b s p q \<longleftrightarrow>
     (p_base p = b + s \<and> q = new_block b (p_size p + s)) \<or>
     (b = p_base p + p_size p \<and> q = new_block (p_base p) (p_size p + s))"

lemma lmb_try_coalesce_spec:
  assumes "unat n \<le> length r"
  shows "lmb_try_coalesce i n b s r = Some Unmerged \<or>
     (lmb_try_coalesce i n b s r = Some Present \<and> (\<exists>k < unat n. r ! k = new_block b s)) \<or>
     (\<exists>k q. k < n \<and> merged_with b s (r ! unat k) q \<and>
        lmb_try_coalesce i n b s r = Some (Merged k (r[unat k := q])))"
  using assms
proof (induction i n b s r rule: lmb_try_coalesce.induct)
  case (1 i n b s r)
  show ?case
  proof (cases "i < n")
    case False
    then show ?thesis by (subst (1) lmb_try_coalesce.simps) simp
  next
    case True
    define p where "p = r ! unat i"
    have i: "unat i < length r" "unat i < unat n"
      using True "1.prems" by (simp_all add: word_less_nat_alt)
    have step: "lmb_try_coalesce i n b s r =
       (if p_base p = b \<and> p_size p = s then Some Present
        else if p_base p = b + s then Some (Merged i (r[unat i := new_block b (p_size p + s)]))
        else if b = p_base p + p_size p then Some (Merged i (r[unat i := new_block (p_base p) (p_size p + s)]))
        else lmb_try_coalesce (i + 1) n b s r)"
    proof -
      have rdp: "rd r (unat i) = Some p" "unat i < length r" using i by (simp_all add: p_def)
      show ?thesis
      proof (cases "p_base p = b + s")
        case m: True
        then show ?thesis
          by (subst lmb_try_coalesce.simps) (simp add: rdp True lmb_addrs_adjacent_def)
      next
        case False
        then show ?thesis
          by (subst lmb_try_coalesce.simps) (auto simp: rdp True lmb_addrs_adjacent_def)
      qed
    qed
    have pr: "p_base p = b \<and> p_size p = s \<Longrightarrow> \<exists>k < unat n. r ! k = new_block b s"
      using i by (auto simp: p_def intro!: exI [of _ "unat i"] new_block_collapse)
    have IH: "\<not> (p_base p = b \<and> p_size p = s) \<Longrightarrow> p_base p \<noteq> b + s \<Longrightarrow> b \<noteq> p_base p + p_size p \<Longrightarrow>
        lmb_try_coalesce (i + 1) n b s r = Some Unmerged \<or>
       (lmb_try_coalesce (i + 1) n b s r = Some Present \<and> (\<exists>k < unat n. r ! k = new_block b s)) \<or>
       (\<exists>k q. k < n \<and> merged_with b s (r ! unat k) q \<and>
          lmb_try_coalesce (i + 1) n b s r = Some (Merged k (r[unat k := q])))"
      using "1.IH" [of p] True i "1.prems" by (simp add: p_def lmb_addrs_adjacent_def)
    show ?thesis
      unfolding step using True pr IH
      by (auto simp: merged_with_def p_def intro!: exI [of _ i])
  qed
qed

lemma before_iff: "before p q \<longleftrightarrow> unat (p_base p) + unat (p_size p) \<le> unat (p_base q)"
  by (simp add: before_def)

lemma block_ok_new: "0 < unat s \<Longrightarrow> unat b + unat s < 2 ^ 32 \<Longrightarrow> block_ok (new_block b s)"
  by (auto simp: block_ok_def)

lemma block_ok_size: "block_ok p \<Longrightarrow> 0 < unat (p_size p)"
  by (simp add: block_ok_def unat_gt_0)

lemma disjoint_before:
  assumes "block_ok p" "block_ok q" "addrs p \<inter> addrs q = {}"
  shows "before p q \<or> before q p"
proof (rule ccontr)
  assume "\<not> ?thesis"
  then have "max (unat (p_base p)) (unat (p_base q)) \<in> addrs p \<inter> addrs q"
    using assms(1,2) by (auto simp: addrs_def before_def max_def dest: block_ok_size)
  with assms(3) show False by simp
qed

lemma ordered_nth:
  "ordered xs \<longleftrightarrow> (\<forall>i j. i < j \<longrightarrow> j < length xs \<longrightarrow> before (xs ! i) (xs ! j)) \<and>
     (\<forall>i < length xs. block_ok (xs ! i))"
  by (auto simp: ordered_def sorted_wrt_iff_nth_less list_all_length)

lemma ordered_update:
  assumes "ordered xs" "k < length xs" "block_ok q"
    and "\<And>j. j < k \<Longrightarrow> before (xs ! j) q"
    and "\<And>j. k < j \<Longrightarrow> j < length xs \<Longrightarrow> before q (xs ! j)"
  shows "ordered (xs[k := q])"
  using assms unfolding ordered_nth by (auto simp: nth_list_update)

lemma ordered_append:
  "ordered (xs @ ys) \<longleftrightarrow> ordered xs \<and> ordered ys \<and> (\<forall>x\<in>set xs. \<forall>y\<in>set ys. before x y)"
  by (auto simp: ordered_def sorted_wrt_append)

lemma ordered_Cons: "ordered (x # xs) \<longleftrightarrow> block_ok x \<and> (\<forall>y\<in>set xs. before x y) \<and> ordered xs"
  by (auto simp: ordered_def)

text \<open>A block merged with a neighbour it touches.\<close>

lemma merged_with_addrs:
  assumes "merged_with b s p q" "block_ok p" "block_ok (new_block b s)"
  shows "addrs q = addrs p \<union> addrs (new_block b s)" "block_ok q"
proof -
  have ps: "unat (p_base p) + unat (p_size p) < 2 ^ 32" "0 < unat (p_size p)"
    and bs: "unat b + unat s < 2 ^ 32" "0 < unat s"
    using assms(2,3) by (auto simp: block_ok_def unat_gt_0)
  consider (below) "p_base p = b + s" "q = new_block b (p_size p + s)"
    | (above) "b = p_base p + p_size p" "q = new_block (p_base p) (p_size p + s)"
    using assms(1) by (auto simp: merged_with_def)
  then have "addrs q = addrs p \<union> addrs (new_block b s) \<and> block_ok q"
  proof cases
    case below
    have "unat (b + s) = unat b + unat s" using bs by (simp add: unat_add_nowrap)
    moreover from this have "unat (p_size p + s) = unat (p_size p) + unat s"
      using ps below by (intro unat_add_nowrap) simp
    ultimately show ?thesis using ps bs below by (auto simp: addrs_def block_ok_def)
  next
    case above
    have "unat (p_base p + p_size p) = unat (p_base p) + unat (p_size p)"
      using ps by (simp add: unat_add_nowrap)
    moreover from this have "unat (p_size p + s) = unat (p_size p) + unat s"
      using bs above by (intro unat_add_nowrap) simp
    ultimately show ?thesis using ps bs above by (auto simp: addrs_def block_ok_def)
  qed
  then show "addrs q = addrs p \<union> addrs (new_block b s)" "block_ok q" by simp_all
qed

lemma before_merged:
  assumes m: "merged_with b s p q" and ok: "block_ok p" "block_ok (new_block b s)" "block_ok x"
    and disj: "addrs x \<inter> addrs (new_block b s) = {}"
  shows "before x p \<Longrightarrow> before x q" "before p x \<Longrightarrow> before q x"
proof -
  have u: "addrs q = addrs p \<union> addrs (new_block b s)" and q: "block_ok q"
    using merged_with_addrs [OF m ok(1,2)] by simp_all
  have pos: "0 < unat (p_size p)" "0 < unat (p_size x)" "0 < unat (p_size q)" "0 < unat s"
    using ok q by (auto dest: block_ok_size)
  have px: "addrs x \<inter> addrs q = {}" if "before x p \<or> before p x"
    using that disj unfolding u by (auto simp: addrs_def before_def)
  have sub: "unat (p_base p) \<in> addrs q" using pos unfolding u by (auto simp: addrs_def)
  show "before x q" if "before x p"
    using disjoint_before [OF ok(3) q] px that sub pos by (auto simp: before_def addrs_def)
  show "before q x" if "before p x"
    using disjoint_before [OF ok(3) q] px that sub pos by (auto simp: before_def addrs_def)
qed

lemma lmb_coalesce_regions_spec:
  assumes "length (region rgn) = 9" "unat (cnt rgn) \<le> 8" "unat i + 1 < unat (cnt rgn)"
  defines "q \<equiv> new_block (p_base (blocks rgn ! unat i))
     (p_size (blocks rgn ! unat i) + p_size (blocks rgn ! (unat i + 1)))"
  shows "\<exists>rgn'. lmb_coalesce_regions rgn i (i + 1) = Some rgn' \<and> length (region rgn') = 9 \<and>
     unat (cnt rgn') = unat (cnt rgn) - 1 \<and>
     blocks rgn' = take (unat i) (blocks rgn) @ q # drop (unat i + 2) (blocks rgn)"
proof -
  have i1: "unat (i + 1) = unat i + 1"
    using assms(2,3) by (subst unat_add_nowrap) auto
  let ?rgn = "rgn\<lparr>region := (region rgn)[unat i := q]\<rparr>"
  have nth: "blocks rgn ! unat i = region rgn ! unat i"
      "blocks rgn ! (unat i + 1) = region rgn ! (unat i + 1)"
    using assms(3) by (simp_all add: blocks_def)
  have bl: "blocks ?rgn = (blocks rgn)[unat i := q]"
    by (simp add: blocks_def take_update_swap)
  obtain rgn' where rgn': "lmb_remove_region ?rgn (i + 1) = Some rgn'" "length (region rgn') = 9"
      "unat (cnt rgn') = unat (cnt rgn) - 1"
      "blocks rgn' = take (unat i + 1) (blocks ?rgn) @ drop (unat i + 2) (blocks ?rgn)"
    using lmb_remove_region_spec [of ?rgn "i + 1"] assms i1 by auto
  have "lmb_coalesce_regions rgn i (i + 1) = lmb_remove_region ?rgn (i + 1)"
    using assms(1-3) i1 nth by (simp add: lmb_coalesce_regions_def q_def)
  moreover have "unat i < length (blocks rgn)" using assms by (simp add: blocks_def)
  ultimately show ?thesis using rgn' bl by (simp add: take_Suc_conv_app_nth)
qed

lemma lmb_insert_spec:
  assumes "take (length us + length vs) r = us @ vs" "length us + length vs < length r"
    and "\<forall>v\<in>set vs. b < p_base v" and "us \<noteq> [] \<Longrightarrow> \<not> b < p_base (last us)"
  shows "\<exists>r'. lmb_insert (length us + length vs) b s r = Some r' \<and> length r' = length r \<and>
     take (Suc (length us + length vs)) r' =
       (if us = [] then take 1 r @ vs else us @ new_block b s # vs) \<and>
     drop (Suc (length us + length vs)) r' = drop (Suc (length us + length vs)) r"
  using assms
proof (induction vs arbitrary: r rule: rev_induct)
  case Nil
  show ?case
  proof (cases us rule: rev_cases)
    case Nil
    then show ?thesis by simp
  next
    case (snoc us' u)
    let ?n = "length us'"
    have "r ! ?n = u"
      using Nil.prems(1,2) snoc nth_take [of ?n "Suc ?n" r] by (simp add: nth_append)
    moreover have "take (Suc ?n) r = us' @ [u]" "Suc ?n < length r" using Nil.prems snoc by simp_all
    ultimately show ?thesis
      using Nil.prems snoc by (simp add: take_Suc_conv_app_nth [of "Suc ?n"])
  qed
next
  case (snoc v vs)
  let ?n = "length us + length vs"
  have tk: "take (Suc ?n) r = us @ vs @ [v]" and len: "Suc ?n < length r" using snoc.prems by simp_all
  then have v: "r ! ?n = v" and tk': "take ?n r = us @ vs"
    by (simp_all add: take_Suc_conv_app_nth)
  let ?r = "r[Suc ?n := v]"
  have "take ?n ?r = us @ vs" using tk' by simp
  then obtain r' where r': "lmb_insert ?n b s ?r = Some r'" "length r' = length r"
      "take (Suc ?n) r' = (if us = [] then take 1 ?r @ vs else us @ new_block b s # vs)"
      "drop (Suc ?n) r' = drop (Suc ?n) ?r"
    using snoc.IH [of ?r] snoc.prems len by auto
  have ins: "lmb_insert (Suc ?n) b s r = Some r'"
    using v len snoc.prems(3) r'(1) by simp
  have "drop (Suc ?n) ?r = v # drop (Suc (Suc ?n)) r"
    using len by (simp add: Cons_nth_drop_Suc [symmetric])
  then have "take 1 (drop (Suc ?n) r') = [v]" "drop 1 (drop (Suc ?n) r') = drop (Suc (Suc ?n)) r"
    using r'(4) by simp_all
  then have "take (Suc (Suc ?n)) r' = take (Suc ?n) r' @ [v]" "drop (Suc (Suc ?n)) r' = drop (Suc (Suc ?n)) r"
    using take_add [of "Suc ?n" 1 r'] by simp_all
  moreover have "take 1 ?r = take 1 r" by simp
  ultimately show ?case using ins r'(2,3) by simp
qed

text \<open>Where a sorted table is split by the insertion loop.\<close>

lemma ordered_split:
  assumes "ordered xs" "block_ok (new_block b s)"
    and "\<forall>x\<in>set xs. addrs x \<inter> addrs (new_block b s) = {}"
  obtains us vs where "xs = us @ vs" "\<forall>v\<in>set vs. b < p_base v"
    "us \<noteq> [] \<Longrightarrow> \<not> b < p_base (last us)"
    "ordered (us @ new_block b s # vs)"
proof -
  define us where "us = rev (dropWhile (\<lambda>p. b < p_base p) (rev xs))"
  define vs where "vs = rev (takeWhile (\<lambda>p. b < p_base p) (rev xs))"
  have xs: "xs = us @ vs"
    unfolding us_def vs_def by (metis rev_append rev_rev_ident takeWhile_dropWhile_id)
  have vs: "\<forall>v\<in>set vs. b < p_base v" unfolding vs_def by (auto dest: set_takeWhileD)
  have us: "us \<noteq> [] \<Longrightarrow> \<not> b < p_base (last us)"
    unfolding us_def using hd_dropWhile [of "\<lambda>p. b < p_base p" "rev xs"] by (simp add: last_rev)
  have ok: "\<forall>x\<in>set xs. block_ok x" using assms(1) by (auto simp: ordered_def list_all_iff)
  have "before v (new_block b s) \<or> before (new_block b s) v" if "v \<in> set xs" for v
    using disjoint_before assms ok that by blast
  then have "before (new_block b s) v" if "v \<in> set vs" for v
    using vs that xs ok by (fastforce simp: before_def word_less_nat_alt dest: block_ok_size)
  moreover have "before u (new_block b s)" if u: "u \<in> set us" for u
  proof -
    have ne: "us \<noteq> []" using u by auto
    have "u = last us \<or> before u (last us)"
      using assms(1) u xs ne by (cases us rule: rev_cases) (auto simp: ordered_append)
    then have "unat (p_base u) \<le> unat b"
      using us [OF ne] by (auto simp: before_def word_less_nat_alt)
    moreover have "before u (new_block b s) \<or> before (new_block b s) u"
      using disjoint_before assms ok u xs by auto
    ultimately show ?thesis
      using assms(2) by (auto simp: before_def dest: block_ok_size)
  qed
  ultimately have "ordered (us @ new_block b s # vs)"
    using assms(1,2) xs by (auto simp: ordered_append ordered_Cons)
  with xs vs us that show thesis by blast
qed

lemma lmb_signed_count: "1 \<le> unat (c :: u32) \<Longrightarrow> unat c \<le> 8 \<Longrightarrow> nat (sint (c - 1) + 1) = unat c"
  by (subst sint_small) (simp_all add: unat_pred)

lemma length_blocks: "length (region rgn) = 9 \<Longrightarrow> unat (cnt rgn) \<le> 8 \<Longrightarrow> length (blocks rgn) = unat (cnt rgn)"
  by (simp add: blocks_def)

definition table_ok :: "lmb_region \<Rightarrow> bool" where
  "table_ok rgn \<longleftrightarrow> length (region rgn) = 9 \<and> 1 \<le> unat (cnt rgn) \<and> unat (cnt rgn) \<le> 8 \<and> ordered (blocks rgn)"

text \<open>After a merge at \<open>i\<close> the loop of the C code compares the block with its successor.\<close>

lemma lmb_join_next:
  assumes ok: "table_ok rgn" and i: "unat i < unat (cnt rgn)"
  shows "\<exists>adj rgn'. lmb_next_adjacent rgn i = Some adj \<and>
     (adj \<noteq> 0 \<longrightarrow> lmb_coalesce_regions rgn i (i + 1) = Some rgn' \<and> table_ok rgn' \<and> covered rgn' = covered rgn)"
proof (cases "i < cnt rgn - 1")
  case False
  then show ?thesis by (simp add: lmb_next_adjacent_def)
next
  case True
  have len: "length (region rgn) = 9" "unat (cnt rgn) \<le> 8" "1 \<le> unat (cnt rgn)"
    and ord: "ordered (blocks rgn)" using ok by (simp_all add: table_ok_def)
  have i1: "unat i + 1 < unat (cnt rgn)"
    using True len by (simp add: word_less_nat_alt unat_pred)
  have ui: "unat (i + 1) = unat i + 1" using i1 len by (subst unat_add_nowrap) auto
  define p where "p = blocks rgn ! unat i"
  define q where "q = blocks rgn ! (unat i + 1)"
  have lb: "length (blocks rgn) = unat (cnt rgn)" using len by (simp add: length_blocks)
  have pq: "before p q" "block_ok p" "block_ok q"
    using ord i1 lb by (auto simp: ordered_nth p_def q_def)
  have split: "blocks rgn = take (unat i) (blocks rgn) @ p # q # drop (unat i + 2) (blocks rgn)"
    using i1 lb by (simp add: p_def q_def id_take_nth_drop [symmetric] Cons_nth_drop_Suc)
  have adj: "lmb_regions_adjacent (region rgn) i (i + 1) =
      Some (lmb_addrs_adjacent (p_base p) (p_size p) (p_base q) (p_size q))"
    using i1 len ui by (simp add: lmb_regions_adjacent_def p_def q_def blocks_def)
  have "p_base p \<noteq> p_base q + p_size q"
  proof
    assume "p_base p = p_base q + p_size q"
    then have "unat (p_base p) = unat (p_base q) + unat (p_size q)"
      using pq(3) by (simp add: block_ok_def unat_add_nowrap)
    with pq show False by (auto simp: before_def dest: block_ok_size)
  qed
  then have nz: "lmb_addrs_adjacent (p_base p) (p_size p) (p_base q) (p_size q) \<noteq> 0 \<Longrightarrow>
      p_base q = p_base p + p_size p"
    by (auto simp: lmb_addrs_adjacent_def split: if_splits)
  define m where "m = new_block (p_base p) (p_size p + p_size q)"
  obtain rgn' where rgn': "lmb_coalesce_regions rgn i (i + 1) = Some rgn'" "length (region rgn') = 9"
      "unat (cnt rgn') = unat (cnt rgn) - 1"
      "blocks rgn' = take (unat i) (blocks rgn) @ m # drop (unat i + 2) (blocks rgn)"
    using lmb_coalesce_regions_spec [of rgn i] len i1 by (auto simp: p_def q_def m_def)
  have "table_ok rgn' \<and> covered rgn' = covered rgn" if "p_base q = p_base p + p_size p"
  proof -
    have "merged_with (p_base q) (p_size q) p m" using that by (simp add: merged_with_def m_def)
    then have m: "addrs m = addrs p \<union> addrs q" "block_ok m"
      using merged_with_addrs [of "p_base q" "p_size q" p m] pq by simp_all
    have bq: "unat (p_base q) = unat (p_base p) + unat (p_size p)"
      using that pq(2) by (simp add: block_ok_def unat_add_nowrap)
    have "unat (p_size m) = unat (p_size p) + unat (p_size q)"
      unfolding m_def using pq(2,3) bq by (simp add: block_ok_def unat_add_nowrap)
    then have "before m y" if "before q y" for y
      using that bq by (simp add: before_def m_def)
    moreover have "before x m" if "before x p" for x using that by (simp add: before_def m_def)
    moreover have "ordered (take (unat i) (blocks rgn) @ p # q # drop (unat i + 2) (blocks rgn))"
      using ord split by simp
    ultimately have "ordered (blocks rgn')"
      using m(2) unfolding rgn'(4) by (auto simp: ordered_append ordered_Cons)
    moreover have "covered rgn' = covered rgn"
      using arg_cong [OF split, of set] unfolding covered_def rgn'(4) by (auto simp: m(1))
    moreover have "1 \<le> unat (cnt rgn')" "unat (cnt rgn') \<le> 8" using rgn'(3) len i1 by linarith+
    ultimately show ?thesis using rgn'(2) by (simp add: table_ok_def)
  qed
  with nz rgn'(1) adj True show ?thesis by (auto simp: lmb_next_adjacent_def)
qed

text \<open>Adding a block that touches no block already present.\<close>

lemma lmb_add_region_ok:
  assumes ok: "table_ok rgn" and nb: "block_ok (new_block b s)"
    and disj: "covered rgn \<inter> addrs (new_block b s) = {}"
  shows "\<exists>rc rgn'. lmb_add_region rgn b s = Some (rc, rgn') \<and>
     (if rc < 0 then rc = -1 \<and> rgn' = rgn \<and> unat (cnt rgn) = MAX_LMB_REGIONS
      else table_ok rgn' \<and> covered rgn' = covered rgn \<union> addrs (new_block b s))"
proof -
  let ?xs = "blocks rgn"
  have len: "length (region rgn) = 9" "unat (cnt rgn) \<le> 8" "1 \<le> unat (cnt rgn)"
    and ord: "ordered ?xs" using ok by (simp_all add: table_ok_def)
  have lb: "length ?xs = unat (cnt rgn)" using len by (simp add: length_blocks)
  have nth: "k < unat (cnt rgn) \<Longrightarrow> region rgn ! k = ?xs ! k" for k by (simp add: blocks_def)
  have xok: "block_ok x" "addrs x \<inter> addrs (new_block b s) = {}" if "x \<in> set ?xs" for x
    using ord disj that by (auto simp: ordered_def list_all_iff covered_def)
  have "block_ok (?xs ! 0)" using xok(1) lb len nth_mem by force
  then have p0: "p_size (region rgn ! 0) \<noteq> 0" using nth [of 0] len by (simp add: block_ok_def)
  have np: "region rgn ! k \<noteq> new_block b s" if "k < unat (cnt rgn)" for k
  proof
    assume eq: "region rgn ! k = new_block b s"
    then have "new_block b s \<in> set ?xs" using nth that lb nth_mem by metis
    then have "addrs (new_block b s) = {}" using xok(2) by blast
    with nb show False by (auto simp: addrs_def dest: block_ok_size)
  qed
  consider (un) "lmb_try_coalesce 0 (cnt rgn) b s (region rgn) = Some Unmerged"
    | (mg) k q where "k < cnt rgn" "merged_with b s (region rgn ! unat k) q"
        "lmb_try_coalesce 0 (cnt rgn) b s (region rgn) = Some (Merged k ((region rgn)[unat k := q]))"
    using lmb_try_coalesce_spec [of "cnt rgn" "region rgn" 0 b s] len np by auto
  then show ?thesis
  proof cases
    case un
    have self: "lmb_next_adjacent rgn (cnt rgn) = Some 0"
      using len by (auto simp: lmb_next_adjacent_def word_less_nat_alt unat_pred)
    show ?thesis
    proof (cases "unat (cnt rgn) = 8")
      case True
      then show ?thesis using un p0 len self by (simp add: lmb_add_region_def)
    next
      case False
      obtain us vs where sp: "?xs = us @ vs" "\<forall>v\<in>set vs. b < p_base v"
          "us \<noteq> [] \<Longrightarrow> \<not> b < p_base (last us)" "ordered (us @ new_block b s # vs)"
        using ordered_split [OF ord nb] xok(2) by metis
      have n: "length us + length vs = unat (cnt rgn)" using sp(1) lb by simp
      obtain r' where r': "lmb_insert (unat (cnt rgn)) b s (region rgn) = Some r'" "length r' = 9"
          "take (Suc (unat (cnt rgn))) r' = (if us = [] then take 1 (region rgn) @ vs else us @ new_block b s # vs)"
        using lmb_insert_spec [of us vs "region rgn" b s] sp(1-3) n len
        by (auto simp: blocks_def)
      define r'' where "r'' = (if b < p_base (r' ! 0) then r'[0 := new_block b s] else r')"
      have tk: "take (Suc (unat (cnt rgn))) r'' = us @ new_block b s # vs"
      proof (cases us)
        case Nil
        then have "vs \<noteq> []" "region rgn ! 0 = vs ! 0" using sp(1) n len nth [of 0] by auto
        moreover have "take 1 (region rgn) = [region rgn ! 0]"
          using len(1) by (cases "region rgn") auto
        ultimately have tk': "take (Suc (unat (cnt rgn))) r' = vs ! 0 # vs" using r'(3) Nil by simp
        then have "r' ! 0 = vs ! 0" by (metis nth_Cons_0 nth_take zero_less_Suc)
        then have "b < p_base (r' ! 0)" using sp(2) \<open>vs \<noteq> []\<close> by simp
        moreover have "take (Suc (unat (cnt rgn))) (r'[0 := new_block b s]) = new_block b s # vs"
          using tk' by (simp add: take_update_swap)
        ultimately show ?thesis using Nil by (simp add: r''_def)
      next
        case (Cons u us')
        then have "r' ! 0 = u" using r'(3) by (metis append_Cons list.discI nth_Cons_0 nth_take zero_less_Suc)
        moreover have "before u (new_block b s)" using sp(4) Cons by (simp add: ordered_Cons)
        ultimately have "\<not> b < p_base (r' ! 0)" by (simp add: before_def word_less_nat_alt)
        then show ?thesis using r'(3) Cons by (simp add: r''_def)
      qed
      let ?rgn = "rgn\<lparr>region := r'', cnt := cnt rgn + 1\<rparr>"
      have c1: "unat (cnt rgn + 1) = unat (cnt rgn) + 1" using len by (subst unat_add_nowrap) auto
      have "lmb_add_region rgn b s = Some (0, ?rgn)"
        using un p0 len self False r' lmb_signed_count [OF len(3,2)]
        by (auto simp: lmb_add_region_def r''_def)
      moreover have "blocks ?rgn = us @ new_block b s # vs" using tk c1 by (simp add: blocks_def)
      moreover have "length r'' = 9" using r'(2) by (simp add: r''_def)
      ultimately show ?thesis
        using sp c1 len False by (auto simp: table_ok_def covered_def)
    qed
  next
    case mg
    have k: "unat k < unat (cnt rgn)" using mg(1) by (simp add: word_less_nat_alt)
    let ?p = "?xs ! unat k"
    let ?rgn = "rgn\<lparr>region := (region rgn)[unat k := q]\<rparr>"
    have m: "merged_with b s ?p q" using mg(2) nth k by simp
    have pin: "?p \<in> set ?xs" using k lb by simp
    have q: "addrs q = addrs ?p \<union> addrs (new_block b s)" "block_ok q"
      using merged_with_addrs [OF m] xok pin nb by simp_all
    have bl: "blocks ?rgn = ?xs[unat k := q]" by (simp add: blocks_def take_update_swap)
    have "ordered (?xs[unat k := q])"
    proof (rule ordered_update [OF ord _ q(2)])
      show "unat k < length ?xs" using k lb by simp
      show "before (?xs ! j) q" if "j < unat k" for j
        using before_merged(1) [OF m xok(1) [OF pin] nb] xok ord that k lb
        by (simp add: ordered_nth)
      show "before q (?xs ! j)" if "unat k < j" "j < length ?xs" for j
        using before_merged(2) [OF m xok(1) [OF pin] nb] xok ord that k lb
        by (simp add: ordered_nth)
    qed
    then have tok: "table_ok ?rgn" using len bl by (simp add: table_ok_def)
    have cov: "covered ?rgn = covered rgn \<union> addrs (new_block b s)"
    proof -
      have kl: "unat k < length ?xs" using k lb by simp
      have "covered ?rgn = addrs q \<union> (\<Union>p\<in>set (take (unat k) ?xs) \<union> set (drop (Suc (unat k)) ?xs). addrs p)"
        unfolding covered_def bl set_update_split [OF kl] by simp
      moreover have "covered rgn = addrs ?p \<union> (\<Union>p\<in>set (take (unat k) ?xs) \<union> set (drop (Suc (unat k)) ?xs). addrs p)"
        unfolding covered_def by (subst set_split_nth [OF kl]) simp
      ultimately show ?thesis unfolding q(1) by blast
    qed
    obtain adj rgn' where adj: "lmb_next_adjacent ?rgn k = Some adj"
      "adj \<noteq> 0 \<longrightarrow> lmb_coalesce_regions ?rgn k (k + 1) = Some rgn' \<and> table_ok rgn' \<and> covered rgn' = covered ?rgn"
      using lmb_join_next [OF tok, of k] k by auto
    then have "lmb_add_region rgn b s = (if adj = 0 then Some (1, ?rgn) else Some (2, rgn'))"
      using mg(3) p0 len by (simp add: lmb_add_region_def)
    then show ?thesis using tok cov adj(2) by auto
  qed
qed

text \<open>The three linear searches of the table.\<close>

lemma word_index_split:
  assumes "i < (n :: u32)"
  shows "(\<exists>k. unat i \<le> k \<and> k < unat n \<and> P k) \<longleftrightarrow> P (unat i) \<or> (\<exists>k. unat (i + 1) \<le> k \<and> k < unat n \<and> P k)"
proof -
  have "unat (i + 1) = Suc (unat i)" "unat i < unat n"
    using assms by (simp_all add: unat_incr word_less_nat_alt)
  then show ?thesis
    by (metis Suc_leD Suc_leI le_neq_implies_less order_refl)
qed

lemma lmb_find_overlap_spec:
  assumes "unat n \<le> length r" "i \<le> n"
  shows "\<exists>j. lmb_find_overlap i n b s r = Some j \<and> j \<le> n \<and>
    (j < n \<longleftrightarrow> (\<exists>k. unat i \<le> k \<and> k < unat n \<and> lmb_addrs_overlap b s (p_base (r ! k)) (p_size (r ! k))))"
  using assms
proof (induction i n b s r rule: lmb_find_overlap.induct)
  case (1 i n b s r)
  show ?case
  proof (cases "i < n")
    case False
    with "1.prems" show ?thesis by (subst lmb_find_overlap.simps) auto
  next
    case True
    then have i: "unat i < length r" and le: "i + 1 \<le> n"
      using "1.prems" by (simp_all add: word_less_nat_alt word_le_nat_alt unat_incr)
    show ?thesis
      using "1.IH" [of "r ! unat i"] True i le "1.prems"
      by (subst lmb_find_overlap.simps, subst word_index_split) auto
  qed
qed

lemma lmb_reserved_from_spec:
  assumes "unat n \<le> length r"
  shows "lmb_reserved_from i n a r = Some (\<exists>k. unat i \<le> k \<and> k < unat n \<and>
     p_base (r ! k) \<le> a \<and> a \<le> p_base (r ! k) + p_size (r ! k) - 1)"
  using assms
proof (induction i n a r rule: lmb_reserved_from.induct)
  case (1 i n a r)
  show ?case
  proof (cases "i < n")
    case False
    then show ?thesis by (subst lmb_reserved_from.simps) (auto simp: word_less_nat_alt)
  next
    case True
    then have i: "unat i < length r" using "1.prems" by (simp add: word_less_nat_alt)
    then show ?thesis
      using "1.IH" [of "r ! unat i"] True "1.prems"
      by (subst lmb_reserved_from.simps, subst word_index_split) (auto simp: Let_def)
  qed
qed

lemma lmb_find_containing_spec:
  assumes "unat n \<le> length r"
  shows "(lmb_find_containing i n b f r = Some None \<and>
      \<not> (\<exists>k. unat i \<le> k \<and> k < unat n \<and> p_base (r ! k) \<le> b \<and> f \<le> p_base (r ! k) + p_size (r ! k))) \<or>
    (\<exists>j. lmb_find_containing i n b f r = Some (Some (j, r ! unat j)) \<and> j < n \<and>
       p_base (r ! unat j) \<le> b \<and> f \<le> p_base (r ! unat j) + p_size (r ! unat j))"
  using assms
proof (induction i n b f r rule: lmb_find_containing.induct)
  case (1 i n b f r)
  show ?case
  proof (cases "i < n")
    case False
    then show ?thesis by (subst lmb_find_containing.simps) (auto simp: word_less_nat_alt)
  next
    case True
    then have i: "unat i < length r" using "1.prems" by (simp add: word_less_nat_alt)
    show ?thesis
    proof (cases "p_base (r ! unat i) \<le> b \<and> f \<le> p_base (r ! unat i) + p_size (r ! unat i)")
      case here: True
      then have "lmb_find_containing i n b f r = Some (Some (i, r ! unat i))"
        using True i by (subst lmb_find_containing.simps) simp
      with here True show ?thesis by blast
    next
      case False
      then have "lmb_find_containing i n b f r = lmb_find_containing (i + 1) n b f r"
        using True i by (subst lmb_find_containing.simps) auto
      then show ?thesis
        using "1.IH" [of "r ! unat i"] True i False "1.prems" by (subst word_index_split) auto
    qed
  qed
qed

lemma ex_blocks: "length (region rgn) = 9 \<Longrightarrow> unat (cnt rgn) \<le> 8 \<Longrightarrow>
   (\<exists>k. 0 \<le> k \<and> k < unat (cnt rgn) \<and> P (region rgn ! k)) \<longleftrightarrow> (\<exists>p\<in>set (blocks rgn). P p)"
  unfolding blocks_def set_conv_nth by (auto simp: min_def)

lemma overlap_iff_addrs:
  assumes "block_ok p" "block_ok q"
  shows "lmb_addrs_overlap (p_base p) (p_size p) (p_base q) (p_size q) \<longleftrightarrow> addrs p \<inter> addrs q \<noteq> {}"
proof -
  have e: "unat (p_base p + p_size p) = unat (p_base p) + unat (p_size p)"
      "unat (p_base q + p_size q) = unat (p_base q) + unat (p_size q)"
    using assms by (simp_all add: block_ok_def unat_add_nowrap)
  have "addrs p \<inter> addrs q \<noteq> {} \<longleftrightarrow> \<not> (before p q \<or> before q p)"
    using disjoint_before [OF assms] block_ok_size [OF assms(1)] block_ok_size [OF assms(2)]
    by (auto simp: before_def addrs_def)
  then show ?thesis
    by (auto simp: lmb_addrs_overlap_def before_def word_less_nat_alt e not_le)
qed

lemma mem_addrs_iff:
  assumes "block_ok p"
  shows "unat a \<in> addrs p \<longleftrightarrow> p_base p \<le> a \<and> a \<le> p_base p + p_size p - 1"
proof -
  have e: "unat (p_base p + p_size p) = unat (p_base p) + unat (p_size p)" "0 < unat (p_size p)"
    using assms by (simp_all add: block_ok_def unat_add_nowrap unat_gt_0)
  then have "unat (p_base p + p_size p - 1) = unat (p_base p) + unat (p_size p) - 1"
    by (subst unat_pred) simp_all
  then show ?thesis using e by (auto simp: addrs_def word_le_nat_alt)
qed

text \<open>Tables of memory and of reservations: an empty table is one block of size 0 at 0.\<close>

lemma region_ok_cases:
  assumes "region_ok rgn"
  obtains (empty) "length (region rgn) = 9" "cnt rgn = 1" "region rgn ! 0 = new_block 0 0"
      "blocks rgn = [new_block 0 0]" "covered rgn = {}"
    | (table) "table_ok rgn"
proof (cases "cnt rgn = 1 \<and> region rgn ! 0 = new_block 0 0")
  case True
  then have "blocks rgn = [new_block 0 0]"
    using assms by (cases "region rgn") (auto simp: region_ok_def blocks_def)
  then show thesis using True assms empty by (simp add: covered_def addrs_def region_ok_def)
next
  case False
  then show thesis using assms table by (auto simp: region_ok_def table_ok_def)
qed

lemma table_ok_region_ok: "table_ok rgn \<Longrightarrow> region_ok rgn"
  by (simp add: table_ok_def region_ok_def)

lemma region_ok_size: "region_ok rgn \<Longrightarrow> length (region rgn) = 9 \<and> unat (cnt rgn) \<le> 8 \<and> 1 \<le> unat (cnt rgn)"
  by (auto simp: region_ok_def)

lemma table_ok_blocks: "table_ok rgn \<Longrightarrow> p \<in> set (blocks rgn) \<Longrightarrow> block_ok p"
  by (auto simp: table_ok_def ordered_def list_all_iff)

lemma lmb_overlaps_region_ok:
  assumes ok: "region_ok rgn" and p: "block_ok (new_block b s)"
  shows "\<exists>j. lmb_overlaps_region rgn b s = Some j \<and> (j < 0 \<longleftrightarrow> covered rgn \<inter> addrs (new_block b s) = {})"
proof -
  have len: "length (region rgn) = 9" "unat (cnt rgn) \<le> 8" using region_ok_size [OF ok] by simp_all
  let ?ov = "\<lambda>p. lmb_addrs_overlap b s (p_base p) (p_size p)"
  obtain j where j: "lmb_find_overlap 0 (cnt rgn) b s (region rgn) = Some j" "j \<le> cnt rgn"
      "j < cnt rgn \<longleftrightarrow> (\<exists>p\<in>set (blocks rgn). ?ov p)"
    using lmb_find_overlap_spec [of "cnt rgn" "region rgn" 0 b s] len ex_blocks [OF len, of ?ov] by auto
  have "(\<exists>p\<in>set (blocks rgn). ?ov p) \<longleftrightarrow> covered rgn \<inter> addrs (new_block b s) \<noteq> {}"
    using ok
  proof (cases rule: region_ok_cases)
    case empty
    then show ?thesis by (simp add: lmb_addrs_overlap_def)
  next
    case table
    have "?ov q \<longleftrightarrow> addrs q \<inter> addrs (new_block b s) \<noteq> {}" if "q \<in> set (blocks rgn)" for q
      using overlap_iff_addrs [OF p table_ok_blocks [OF table that]] by (simp add: Int_commute)
    then show ?thesis by (auto simp: covered_def)
  qed
  moreover have "\<not> sint j < 0" if "j < cnt rgn"
    using that len by (subst sint_small) (simp_all add: word_less_nat_alt)
  ultimately show ?thesis using j by (cases "j < cnt rgn") (simp_all add: lmb_overlaps_region_def)
qed

lemma block_end: "block_ok p \<Longrightarrow> unat (p_base p + p_size p) = unat (p_base p) + unat (p_size p)"
  by (simp add: block_ok_def unat_add_nowrap)

text \<open>The block at one index and the rest of the table.\<close>

definition rest :: "lmb_property list \<Rightarrow> nat \<Rightarrow> lmb_property set" where
  "rest xs k = set (take k xs) \<union> set (drop (Suc k) xs)"

lemma covered_at: "k < length (blocks rgn) \<Longrightarrow>
    covered rgn = addrs (blocks rgn ! k) \<union> (\<Union>p\<in>rest (blocks rgn) k. addrs p)"
  unfolding covered_def rest_def by (subst set_split_nth) auto

lemma rest_disjoint:
  assumes "ordered xs" "k < length xs" "q \<in> rest xs k"
  shows "addrs (xs ! k) \<inter> addrs q = {}"
proof -
  have "ordered (take k xs @ xs ! k # drop (Suc k) xs)"
    using assms(1,2) by (simp add: id_take_nth_drop [symmetric])
  then have "before q (xs ! k) \<or> before (xs ! k) q"
    using assms(3) by (auto simp: ordered_append ordered_Cons rest_def)
  then show ?thesis by (auto simp: before_def addrs_def)
qed

lemma addrs_subset_before:
  assumes "block_ok q" "block_ok p" "addrs q \<subseteq> addrs p"
  shows "unat (p_base p) \<le> unat (p_base q)"
    "unat (p_base q) + unat (p_size q) \<le> unat (p_base p) + unat (p_size p)"
proof -
  have "unat (p_base q) \<in> addrs q" "unat (p_base q) + unat (p_size q) - 1 \<in> addrs q"
    using block_ok_size [OF assms(1)] by (auto simp: addrs_def)
  then have "unat (p_base q) \<in> addrs p" "unat (p_base q) + unat (p_size q) - 1 \<in> addrs p"
    using assms(3) by auto
  then show "unat (p_base p) \<le> unat (p_base q)"
    "unat (p_base q) + unat (p_size q) \<le> unat (p_base p) + unat (p_size p)"
    by (auto simp: addrs_def)
qed

lemma replace_part:
  "A' = q \<union> R \<Longrightarrow> A = p \<union> R \<Longrightarrow> p \<inter> R = {} \<Longrightarrow> q \<subseteq> p \<Longrightarrow> A' = A - (p - q)"
  by auto

lemma shrink_block:
  assumes ok: "table_ok rgn" and k: "k < unat (cnt rgn)" and q: "block_ok q" "addrs q \<subseteq> addrs (region rgn ! k)"
  defines "rgn' \<equiv> rgn\<lparr>region := (region rgn)[k := q]\<rparr>"
  shows "table_ok rgn' \<and> covered rgn' = covered rgn - (addrs (region rgn ! k) - addrs q)"
proof -
  let ?xs = "blocks rgn"
  have len: "length (region rgn) = 9" "unat (cnt rgn) \<le> 8" "1 \<le> unat (cnt rgn)"
    and ord: "ordered ?xs" using ok by (simp_all add: table_ok_def)
  have lb: "length ?xs = unat (cnt rgn)" using len by (simp add: length_blocks)
  have p: "region rgn ! k = ?xs ! k" using k by (simp add: blocks_def)
  have bl: "blocks rgn' = ?xs[k := q]" by (simp add: rgn'_def blocks_def take_update_swap)
  have "block_ok (?xs ! k)" using ord k lb by (simp add: ordered_nth)
  note sub = addrs_subset_before [OF q(1) this q(2) [unfolded p]]
  have "ordered (?xs[k := q])"
  proof (rule ordered_update [OF ord _ q(1)])
    show "k < length ?xs" using k lb by simp
    show "before (?xs ! j) q" if "j < k" for j
      using ord that k lb sub by (fastforce simp: ordered_nth before_def)
    show "before q (?xs ! j)" if "k < j" "j < length ?xs" for j
      using ord that k lb sub by (fastforce simp: ordered_nth before_def)
  qed
  then have "table_ok rgn'" using len bl by (simp add: table_ok_def rgn'_def)
  moreover have "covered rgn' = covered rgn - (addrs (?xs ! k) - addrs q)"
  proof (rule replace_part)
    show "covered rgn' = addrs q \<union> (\<Union>p\<in>rest ?xs k. addrs p)"
      using k lb unfolding covered_def bl rest_def by (simp add: set_update_split)
    show "covered rgn = addrs (?xs ! k) \<union> (\<Union>p\<in>rest ?xs k. addrs p)"
      using covered_at k lb by simp
    show "addrs (?xs ! k) \<inter> (\<Union>p\<in>rest ?xs k. addrs p) = {}"
      using rest_disjoint [OF ord, of k] k lb by auto
    show "addrs q \<subseteq> addrs (?xs ! k)" using q(2) p by simp
  qed
  ultimately show ?thesis using p by simp
qed

lemma remove_block:
  assumes ok: "table_ok rgn" and k: "i < cnt rgn" and two: "2 \<le> unat (cnt rgn)"
  shows "\<exists>rgn'. lmb_remove_region rgn i = Some rgn' \<and> table_ok rgn' \<and>
    covered rgn' = covered rgn - addrs (region rgn ! unat i)"
proof -
  let ?xs = "blocks rgn"
  have len: "length (region rgn) = 9" "unat (cnt rgn) \<le> 8" "1 \<le> unat (cnt rgn)"
    and ord: "ordered ?xs" using ok by (simp_all add: table_ok_def)
  have i: "unat i < unat (cnt rgn)" using k by (simp add: word_less_nat_alt)
  have lb: "length ?xs = unat (cnt rgn)" using len by (simp add: length_blocks)
  obtain rgn' where rgn': "lmb_remove_region rgn i = Some rgn'" "length (region rgn') = 9"
      "unat (cnt rgn') = unat (cnt rgn) - 1" "blocks rgn' = take (unat i) ?xs @ drop (unat i + 1) ?xs"
    using lmb_remove_region_spec [of rgn i] len i by auto
  have "ordered (take (unat i) ?xs @ ?xs ! unat i # drop (Suc (unat i)) ?xs)"
    using ord i lb by (simp add: id_take_nth_drop [symmetric])
  then have "ordered (blocks rgn')" using rgn'(4) by (auto simp: ordered_append ordered_Cons)
  moreover have "covered rgn' = (\<Union>p\<in>rest ?xs (unat i). addrs p)"
    by (simp add: covered_def rgn'(4) rest_def)
  moreover have "covered rgn = addrs (?xs ! unat i) \<union> (\<Union>p\<in>rest ?xs (unat i). addrs p)"
    using covered_at i lb by simp
  moreover have "addrs (?xs ! unat i) \<inter> (\<Union>p\<in>rest ?xs (unat i). addrs p) = {}"
    using rest_disjoint [OF ord, of "unat i"] i lb by auto
  moreover have "region rgn ! unat i = ?xs ! unat i" using i by (simp add: blocks_def)
  ultimately show ?thesis using rgn' len two by (intro exI [of _ rgn']) (auto simp: table_ok_def)
qed

lemma lmb_free_region_ok:
  assumes ok: "table_ok rgn" and nb: "block_ok (new_block b s)"
    and p: "p \<in> set (blocks rgn)" "addrs (new_block b s) \<subseteq> addrs p"
    and two: "2 \<le> unat (cnt rgn) \<or> addrs (new_block b s) \<noteq> addrs p"
    and room: "unat (cnt rgn) < 8 \<or> b = p_base p \<or> b + s = p_base p + p_size p"
  shows "\<exists>rc rgn'. lmb_free_region rgn b s = Some (rc, rgn') \<and> 0 \<le> rc \<and> table_ok rgn' \<and>
    covered rgn' = covered rgn - addrs (new_block b s)"
proof -
  let ?n = "new_block b s"
  have len: "length (region rgn) = 9" "unat (cnt rgn) \<le> 8" "1 \<le> unat (cnt rgn)"
    and ord: "ordered (blocks rgn)" using ok by (simp_all add: table_ok_def)
  have lb: "length (blocks rgn) = unat (cnt rgn)" using len by (simp add: length_blocks)
  have be: "unat (b + s) = unat b + unat s" using block_end [OF nb] by simp
  have sp: "0 < unat s" using block_ok_size [OF nb] by simp
  have inside: "p_base q \<le> b \<and> b + s \<le> p_base q + p_size q \<longleftrightarrow> addrs ?n \<subseteq> addrs q" if "block_ok q" for q
    using addrs_subset_before [OF nb that] block_end [OF that] be sp
    by (auto simp: word_le_nat_alt addrs_def)
  obtain k0 where k0: "k0 < unat (cnt rgn)" "p = region rgn ! k0" "p = blocks rgn ! k0"
    using p(1) lb by (auto simp: in_set_conv_nth blocks_def)
  have pok: "block_ok p" using table_ok_blocks ok p(1) by blast
  obtain j where j: "lmb_find_containing 0 (cnt rgn) b (b + s) (region rgn) = Some (Some (j, region rgn ! unat j))"
      "j < cnt rgn" "p_base (region rgn ! unat j) \<le> b" "b + s \<le> p_base (region rgn ! unat j) + p_size (region rgn ! unat j)"
    using lmb_find_containing_spec [of "cnt rgn" "region rgn" 0 b "b + s"] len k0 inside [OF pok] p(2) by auto
  have ju: "unat j < unat (cnt rgn)" using j(2) by (simp add: word_less_nat_alt)
  have jn: "region rgn ! unat j = blocks rgn ! unat j" "region rgn ! unat j \<in> set (blocks rgn)"
    using ju lb by (simp_all add: blocks_def in_set_conv_nth) (metis nth_take)
  have "addrs ?n \<subseteq> addrs (region rgn ! unat j)"
    using inside [OF table_ok_blocks [OF ok jn(2)]] j(3,4) by blast
  then have "unat b \<in> addrs (region rgn ! unat j) \<inter> addrs p" using p(2) sp by (auto simp: addrs_def)
  then have same: "region rgn ! unat j = p"
    using ord ju k0 lb jn(1) by (cases "unat j" k0 rule: linorder_cases)
      (fastforce simp: ordered_nth before_def addrs_def)+
  have pe: "unat (p_base p + p_size p) = unat (p_base p) + unat (p_size p)" using block_end [OF pok] .
  have in1: "unat (p_base p) \<le> unat b" "unat b + unat s \<le> unat (p_base p) + unat (p_size p)"
    using j(3,4) same pe be by (simp_all add: word_le_nat_alt)
  have lim: "unat (p_base p) + unat (p_size p) < 2 ^ 32" using pok by (simp add: block_ok_def)
  have ds: "unat (p_size p - s) = unat (p_size p) - unat s"
    using in1 by (intro unat_sub_le) (simp add: word_le_nat_alt)
  have shrink: "table_ok (rgn\<lparr>region := (region rgn)[unat j := q]\<rparr>) \<and>
      covered (rgn\<lparr>region := (region rgn)[unat j := q]\<rparr>) = covered rgn - (addrs p - addrs q)"
    if "block_ok q" "addrs q \<subseteq> addrs p" for q
    using shrink_block [OF ok ju that(1)] that(2) same by simp
  have psub: "addrs p \<subseteq> covered rgn" using p(1) by (auto simp: covered_def)
  consider (all) "p_base p = b" "p_base p + p_size p = b + s"
    | (low) "p_base p = b" "p_base p + p_size p \<noteq> b + s"
    | (high) "p_base p \<noteq> b" "p_base p + p_size p = b + s"
    | (mid) "p_base p \<noteq> b" "p_base p + p_size p \<noteq> b + s" by blast
  then show ?thesis
  proof cases
    case all
    then have eq: "addrs p = addrs ?n" using pe be by (simp add: addrs_def)
    with two have "2 \<le> unat (cnt rgn)" by auto
    from remove_block [OF ok j(2) this] show ?thesis
      using j(1) all same eq by (auto simp: lmb_free_region_def)
  next
    case low
    then have "unat (p_base p) + unat (p_size p) \<noteq> unat b + unat s"
      using pe be by (simp add: word_unat_eq_iff)
    then have lt: "unat s < unat (p_size p)" using in1 low(1) by simp
    let ?q = "new_block (b + s) (p_size p - s)"
    have "block_ok ?q" using lt lim low(1) ds be by (auto simp: block_ok_def)
    moreover have "addrs ?q = addrs p - addrs ?n" using lt low(1) ds be by (auto simp: addrs_def)
    ultimately show ?thesis
      using shrink [of ?q] j(1) ju len low same psub p(2)
      by (auto simp: lmb_free_region_def)
  next
    case high
    let ?q = "new_block (p_base p) (p_size p - s)"
    have e: "unat b + unat s = unat (p_base p) + unat (p_size p)" using high(2) pe be by simp
    have "unat (p_base p) \<noteq> unat b" using high(1) by (simp add: word_unat_eq_iff)
    then have lt: "unat s < unat (p_size p)" using e in1 by linarith
    have "block_ok ?q" using lt lim ds by (auto simp: block_ok_def)
    moreover have "addrs ?q = addrs p - addrs ?n" using lt ds e by (auto simp: addrs_def)
    ultimately show ?thesis
      using shrink [of ?q] j(1) ju len high same psub p(2)
      by (auto simp: lmb_free_region_def)
  next
    case mid
    let ?q = "new_block (p_base p) (b - p_base p)"
    let ?e = "new_block (b + s) (p_base p + p_size p - (b + s))"
    let ?rgn = "rgn\<lparr>region := (region rgn)[unat j := ?q]\<rparr>"
    have ne: "unat (p_base p) \<noteq> unat b" "unat (p_base p) + unat (p_size p) \<noteq> unat b + unat s"
      using mid pe be by (simp_all add: word_unat_eq_iff)
    have d1: "unat (b - p_base p) = unat b - unat (p_base p)"
      using in1 by (intro unat_sub_le) (simp add: word_le_nat_alt)
    have d2: "unat (p_base p + p_size p - (b + s)) = unat (p_base p) + unat (p_size p) - (unat b + unat s)"
      using in1 pe be by (subst unat_sub_le) (simp_all add: word_le_nat_alt)
    have q: "block_ok ?q" "addrs ?q \<subseteq> addrs p"
      using ne in1 lim d1 by (auto simp: block_ok_def addrs_def)
    have e: "block_ok ?e" "addrs ?e = addrs p - addrs ?q - addrs ?n"
      using ne in1 lim d1 d2 be by (auto simp: block_ok_def addrs_def)
    have rgn: "table_ok ?rgn" "covered ?rgn = covered rgn - (addrs p - addrs ?q)"
      using shrink [OF q] by simp_all
    moreover have "covered ?rgn \<inter> addrs ?e = {}" unfolding rgn(2) e(2) by blast
    moreover have "unat (cnt ?rgn) < 8" using room mid by auto
    ultimately obtain rc rgn' where add: "lmb_add_region ?rgn (b + s) (p_base p + p_size p - (b + s)) = Some (rc, rgn')"
        "0 \<le> rc" "table_ok rgn'" "covered rgn' = covered ?rgn \<union> addrs ?e"
      using lmb_add_region_ok [of ?rgn "b + s" "p_base p + p_size p - (b + s)"] e(1)
      by (auto split: if_splits)
    have "addrs ?q \<inter> addrs ?n = {}" using d1 in1 by (auto simp: addrs_def)
    then have "covered rgn' = covered rgn - addrs ?n"
      using psub p(2) unfolding add(4) rgn(2) e(2) by blast
    moreover have "lmb_free_region rgn b s = Some (rc, rgn')"
      using add(1) j(1) ju len mid same by (simp add: lmb_free_region_def)
    ultimately show ?thesis using add by blast
  qed
qed

lemma lmb_add_region_contract:
  assumes "region_ok rgn" "block_ok (new_block b s)" "covered rgn \<inter> addrs (new_block b s) = {}"
  shows "\<exists>rc rgn'. lmb_add_region rgn b s = Some (rc, rgn') \<and>
     (if rc < 0 then rgn' = rgn \<and> unat (cnt rgn) = MAX_LMB_REGIONS
      else region_ok rgn' \<and> covered rgn' = covered rgn \<union> addrs (new_block b s))"
  using assms(1)
proof (cases rule: region_ok_cases)
  case empty
  let ?rgn = "rgn\<lparr>region := (region rgn)[0 := new_block b s]\<rparr>"
  have "lmb_add_region rgn b s = Some (0, ?rgn)" using empty by (simp add: lmb_add_region_def)
  moreover have "blocks ?rgn = [new_block b s]"
    using empty by (cases "region rgn") (auto simp: blocks_def)
  ultimately show ?thesis
    using empty assms(2) by (simp add: region_ok_def covered_def ordered_def)
next
  case table
  then show ?thesis
    using lmb_add_region_ok [OF table assms(2,3)] by (auto split: if_splits dest: table_ok_region_ok)
qed

text \<open>The contract the allocator relies on: a table of address ranges that can be searched
  for an overlap and extended by a range that overlaps nothing.\<close>

locale range_table =
  fixes ok :: "'r \<Rightarrow> bool"
    and held :: "'r \<Rightarrow> nat set"
    and valid :: "u32 \<Rightarrow> u32 \<Rightarrow> bool"
    and range :: "u32 \<Rightarrow> u32 \<Rightarrow> nat set"
    and overlaps :: "'r \<Rightarrow> u32 \<Rightarrow> u32 \<Rightarrow> int option"
    and extend :: "'r \<Rightarrow> u32 \<Rightarrow> u32 \<Rightarrow> (int \<times> 'r) option"
  assumes overlaps_iff: "ok r \<Longrightarrow> valid b s \<Longrightarrow>
      \<exists>j. overlaps r b s = Some j \<and> (j < 0 \<longleftrightarrow> held r \<inter> range b s = {})"
    and extend_free: "ok r \<Longrightarrow> valid b s \<Longrightarrow> held r \<inter> range b s = {} \<Longrightarrow>
      \<exists>rc r'. extend r b s = Some (rc, r') \<and>
        (if rc < 0 then r' = r else ok r' \<and> held r' = held r \<union> range b s)"
    and range_nonempty: "valid b s \<Longrightarrow> range b s \<noteq> {}"
begin

lemma extend_if_no_overlap:
  assumes "ok r" "valid b s" "overlaps r b s = Some j" "j < 0"
  shows "\<exists>rc r'. extend r b s = Some (rc, r') \<and>
    (if rc < 0 then r' = r else ok r' \<and> held r' = held r \<union> range b s \<and> held r \<inter> range b s = {})"
  using overlaps_iff [OF assms(1,2)] extend_free [OF assms(1,2)] assms(3,4) by fastforce

lemma overlaps_after_extend:
  assumes "ok r" "valid b s" "overlaps r b s = Some j" "j < 0" "extend r b s = Some (rc, r')" "\<not> rc < 0"
    and "valid b' s'"
  shows "\<exists>j'. overlaps r' b' s' = Some j' \<and> (0 \<le> j' \<longleftrightarrow> held r \<inter> range b' s' \<noteq> {} \<or> range b s \<inter> range b' s' \<noteq> {})"
proof -
  have r': "ok r'" "held r' = held r \<union> range b s"
    using extend_if_no_overlap [OF assms(1-4)] assms(5,6) by (auto split: if_splits)
  obtain j' where "overlaps r' b' s' = Some j'" "j' < 0 \<longleftrightarrow> held r' \<inter> range b' s' = {}"
    using overlaps_iff [OF r'(1) assms(7)] by blast
  then show ?thesis by (intro exI [of _ j']) (auto simp: r'(2))
qed

end

interpretation rt: range_table region_ok covered "\<lambda>b s. block_ok (new_block b s)"
  "\<lambda>b s. addrs (new_block b s)" lmb_overlaps_region lmb_add_region
proof
  fix rgn b s
  assume ok: "region_ok rgn" and nb: "block_ok (new_block b s)"
  then show "\<exists>j. lmb_overlaps_region rgn b s = Some j \<and> (j < 0 \<longleftrightarrow> covered rgn \<inter> addrs (new_block b s) = {})"
    by (rule lmb_overlaps_region_ok)
  assume "covered rgn \<inter> addrs (new_block b s) = {}"
  then show "\<exists>rc rgn'. lmb_add_region rgn b s = Some (rc, rgn') \<and>
     (if rc < 0 then rgn' = rgn else region_ok rgn' \<and> covered rgn' = covered rgn \<union> addrs (new_block b s))"
    using lmb_add_region_contract [OF ok nb] by (auto split: if_splits)
next
  fix b s
  assume "block_ok (new_block b s)"
  then show "addrs (new_block b s) \<noteq> {}" by (auto simp: addrs_def dest: block_ok_size)
qed

section \<open>Alignment\<close>

lemma lmb_align_down_pow2: "lmb_align_down x (2 ^ k) = push_bit k (drop_bit k x)"
proof -
  have "lmb_align_down x (2 ^ k) = x AND NOT (mask k)"
    by (simp add: lmb_align_down_def mask_eq_exp_minus_1)
  then show ?thesis by (simp add: bits_ident bit_eq_iff bit_simps) auto
qed

lemma lmb_align_down_dvd: "2 ^ k dvd unat (lmb_align_down x (2 ^ k))"
  unfolding dvd_unat_iff lmb_align_down_pow2 by (simp add: take_bit_push_bit)

lemma lmb_align_up_multiple:
  assumes "2 ^ k dvd unat s"
  shows "lmb_align_up s (2 ^ k) = s"
proof -
  have low: "\<not> bit s n" if "n < k" for n
    using assms that unfolding dvd_unat_iff by (metis bit_0_eq bit_take_bit_iff bot_apply bot_bool_def)
  then have "s + mask k = s OR mask k" by (intro disjunctive_add) (auto simp: bit_simps)
  then have "lmb_align_up s (2 ^ k) = (s OR mask k) AND NOT (mask k)"
    by (simp add: lmb_align_up_def mask_eq_exp_minus_1)
  also have "\<dots> = s" using low by (intro bit_word_eqI) (auto simp: bit_simps)
  finally show ?thesis .
qed

section \<open>The allocator\<close>

definition lmb_ok :: "lmb \<Rightarrow> bool" where
  "lmb_ok l \<longleftrightarrow> region_ok (memory l) \<and> region_ok (reserved l)"

lemma lmb_alloc_scan_ok:
  assumes ok: "lmb_ok l" and s: "0 < sz" "2 ^ k dvd unat sz"
    and base: "unat base + unat sz \<le> e" "e < 2 ^ 32" "2 ^ k dvd unat base"
  shows "lmb_alloc_scan l lb sz (2 ^ k) base = Some Next_block \<or>
    lmb_alloc_scan l lb sz (2 ^ k) base = Some (Return 0 l) \<or>
    (\<exists>a rgn. lmb_alloc_scan l lb sz (2 ^ k) base = Some (Return a (l\<lparr>reserved := rgn\<rparr>)) \<and>
       a \<noteq> 0 \<and> lb \<le> a \<and> unat a + unat sz \<le> e \<and> 2 ^ k dvd unat a \<and>
       covered (reserved l) \<inter> addrs (new_block a sz) = {} \<and> region_ok rgn \<and>
       covered rgn = covered (reserved l) \<union> addrs (new_block a sz))"
  using base
proof (induction base rule: measure_induct_rule [of unat])
  case (less base)
  have rok: "region_ok (reserved l)" using ok by (simp add: lmb_ok_def)
  have nb: "block_ok (new_block base sz)"
    using less.prems s(1) by (auto simp: block_ok_def)
  have au: "lmb_align_up sz (2 ^ k) = sz" using s by (simp add: lmb_align_up_multiple)
  obtain j where j: "lmb_overlaps_region (reserved l) base sz = Some j"
    using rt.overlaps_iff [OF rok nb] by blast
  show ?case
  proof (cases "base \<noteq> 0 \<and> lb \<le> base")
    case False
    then show ?thesis by (subst lmb_alloc_scan.simps) auto
  next
    case in_block: True
    show ?thesis
    proof (cases "j < 0")
      case True
      obtain rc rgn where add: "lmb_add_region (reserved l) base sz = Some (rc, rgn)"
          "if rc < 0 then rgn = reserved l else region_ok rgn \<and>
            covered rgn = covered (reserved l) \<union> addrs (new_block base sz) \<and>
            covered (reserved l) \<inter> addrs (new_block base sz) = {}"
        using rt.extend_if_no_overlap [OF rok nb j True] by blast
      have step: "lmb_alloc_scan l lb sz (2 ^ k) base = Some (Return (if rc < 0 then 0 else base) (l\<lparr>reserved := rgn\<rparr>))"
        using in_block j True add(1) au by (subst lmb_alloc_scan.simps) simp
      show ?thesis
      proof (cases "rc < 0")
        case True
        then show ?thesis using step add(2) by simp
      next
        case False
        then have "lmb_alloc_scan l lb sz (2 ^ k) base = Some (Return base (l\<lparr>reserved := rgn\<rparr>))" using step by simp
        moreover have "region_ok rgn" "covered rgn = covered (reserved l) \<union> addrs (new_block base sz)"
            "covered (reserved l) \<inter> addrs (new_block base sz) = {}" using add(2) False by simp_all
        ultimately show ?thesis using in_block less.prems by blast
      qed
    next
      case False
      then obtain p where p: "rd (region (reserved l)) (nat j) = Some p" "lmb_addrs_overlap base sz (p_base p) (p_size p)"
        using lmb_overlaps_region_nonneg [OF j] by blast
      let ?b = "lmb_align_down (p_base p - sz) (2 ^ k)"
      show ?thesis
      proof (cases "p_base p < sz")
        case True
        then show ?thesis using in_block j False p by (subst lmb_alloc_scan.simps) simp
      next
        case ge: False
        then have less': "unat ?b < unat base" using lmb_next_candidate_less [OF p(2)] by blast
        have "lmb_alloc_scan l lb sz (2 ^ k) base = lmb_alloc_scan l lb sz (2 ^ k) ?b"
          using in_block j False p ge by (subst lmb_alloc_scan.simps) simp
        moreover have "unat ?b + unat sz \<le> e" using less' less.prems by linarith
        ultimately show ?thesis
          using less.IH [OF less'] less.prems lmb_align_down_dvd [of k] by simp
      qed
    qed
  qed
qed

definition lmb_placed :: "lmb \<Rightarrow> u32 \<Rightarrow> u32 \<Rightarrow> u32 \<Rightarrow> u32 \<Rightarrow> lmb_region \<Rightarrow> bool" where
  "lmb_placed l sz align max_addr a rgn \<longleftrightarrow>
     (\<exists>p\<in>set (blocks (memory l)). addrs (new_block a sz) \<subseteq> addrs p) \<and>
     (max_addr \<noteq> 0 \<longrightarrow> unat a + unat sz \<le> unat max_addr) \<and>
     unat align dvd unat a \<and>
     covered (reserved l) \<inter> addrs (new_block a sz) = {} \<and>
     region_ok rgn \<and> covered rgn = covered (reserved l) \<union> addrs (new_block a sz)"

lemma lmb_alloc_blocks_ok:
  assumes ok: "lmb_ok l" "table_ok (memory l)" and s: "0 < sz" "k < 32" "2 ^ k dvd unat sz"
    and max: "max_addr = 0 \<or> sz \<le> max_addr"
    and i: "i \<le> unat (cnt (memory l))"
  shows "lmb_alloc_blocks i l sz (2 ^ k) max_addr = Some (0, l) \<or>
    (\<exists>a rgn. lmb_alloc_blocks i l sz (2 ^ k) max_addr = Some (a, l\<lparr>reserved := rgn\<rparr>) \<and> a \<noteq> 0 \<and>
       lmb_placed l sz (2 ^ k) max_addr a rgn)"
  using i
proof (induction i)
  case 0
  then show ?case by simp
next
  case (Suc i)
  let ?p = "region (memory l) ! i"
  let ?pb = "p_base ?p" and ?ps = "p_size ?p"
  have len: "length (region (memory l)) = 9" "unat (cnt (memory l)) \<le> 8"
    using ok(2) by (simp_all add: table_ok_def)
  have pin: "?p \<in> set (blocks (memory l))"
    using Suc.prems len by (auto simp: blocks_def in_set_conv_nth intro!: exI [of _ i])
  then have pok: "block_ok ?p" using ok(2) table_ok_blocks by blast
  have ih: "lmb_alloc_blocks i l sz (2 ^ k) max_addr = Some (0, l) \<or>
    (\<exists>a rgn. lmb_alloc_blocks i l sz (2 ^ k) max_addr = Some (a, l\<lparr>reserved := rgn\<rparr>) \<and> a \<noteq> 0 \<and>
       lmb_placed l sz (2 ^ k) max_addr a rgn)" using Suc by simp
  have rdp: "rd (region (memory l)) i = Some ?p" using Suc.prems len by simp
  show ?case
  proof (cases "?ps < sz \<or> (max_addr \<noteq> 0 \<and> \<not> ?pb < max_addr)")
    case True
    then show ?thesis using ih rdp by (simp add: Let_def)
  next
    case False
    define lim where "lim = (if max_addr = 0 then ?pb + ?ps else min (?pb + ?ps) max_addr)"
    define base where "base = lmb_align_down (lim - sz) (2 ^ k)"
    have pe: "unat (?pb + ?ps) = unat ?pb + unat ?ps" using block_end [OF pok] .
    have "sz \<le> ?pb + ?ps" using False pe by (simp add: word_le_nat_alt word_less_nat_alt)
    then have szl: "sz \<le> lim" using max by (auto simp: lim_def)
    have liml: "unat lim \<le> unat ?pb + unat ?ps" "max_addr \<noteq> 0 \<Longrightarrow> unat lim \<le> unat max_addr"
      using pe by (auto simp: lim_def min_def word_le_nat_alt)
    have "unat base \<le> unat (lim - sz)"
      unfolding base_def using lmb_align_down_le by (simp add: word_le_nat_alt)
    then have b: "unat base + unat sz \<le> unat lim" using szl by (simp add: unat_sub_le word_le_nat_alt)
    have dv: "2 ^ k dvd unat base" unfolding base_def by (rule lmb_align_down_dvd)
    have step: "lmb_alloc_blocks (Suc i) l sz (2 ^ k) max_addr = do {
        res \<leftarrow> lmb_alloc_scan l ?pb sz (2 ^ k) base;
        case res of Return a l' \<Rightarrow> Some (a, l') | Next_block \<Rightarrow> lmb_alloc_blocks i l sz (2 ^ k) max_addr }"
      using False rdp by (auto simp: base_def lim_def Let_def)
    have kk: "unat ((2 :: u32) ^ k) = 2 ^ k" using s(2) by (simp add: unat_2_power)
    have placed: "lmb_placed l sz (2 ^ k) max_addr a rgn"
      if "?pb \<le> a" "unat a + unat sz \<le> unat lim" "2 ^ k dvd unat a"
        "covered (reserved l) \<inter> addrs (new_block a sz) = {}" "region_ok rgn"
        "covered rgn = covered (reserved l) \<union> addrs (new_block a sz)" for a rgn
    proof -
      have "addrs (new_block a sz) \<subseteq> addrs ?p" using that(1,2) liml by (auto simp: addrs_def word_le_nat_alt)
      then show ?thesis unfolding lmb_placed_def using that liml pin kk by auto
    qed
    have "unat lim < 2 ^ LENGTH(32)" by (rule unsigned_less)
    then have "unat lim < 2 ^ 32" by simp
    from lmb_alloc_scan_ok [OF ok(1) s(1,3) b this dv, of ?pb] show ?thesis
    proof (elim disjE exE conjE)
      assume "lmb_alloc_scan l ?pb sz (2 ^ k) base = Some Next_block"
      then show ?thesis using ih unfolding step by simp
    next
      assume "lmb_alloc_scan l ?pb sz (2 ^ k) base = Some (Return 0 l)"
      then show ?thesis unfolding step by simp
    next
      fix a rgn
      assume r: "lmb_alloc_scan l ?pb sz (2 ^ k) base = Some (Return a (l\<lparr>reserved := rgn\<rparr>))" "a \<noteq> 0"
        and "?pb \<le> a" "unat a + unat sz \<le> unat lim" "2 ^ k dvd unat a"
        "covered (reserved l) \<inter> addrs (new_block a sz) = {}" "region_ok rgn"
        "covered rgn = covered (reserved l) \<union> addrs (new_block a sz)"
      then have "lmb_placed l sz (2 ^ k) max_addr a rgn" by (intro placed)
      with r show ?thesis unfolding step by auto
    qed
  qed
qed

section \<open>Properties\<close>

definition lmb_empty :: lmb where
  "lmb_empty = \<lparr>memory = \<lparr>cnt = 0, rgn_size = 0, region = replicate 9 \<lparr>p_base = 0, p_size = 0\<rparr>\<rparr>,
     reserved = \<lparr>cnt = 0, rgn_size = 0, region = replicate 9 \<lparr>p_base = 0, p_size = 0\<rparr>\<rparr>\<rparr>"

text \<open>A board with 256 MB from address 0 of which the top megabyte and the first page are taken.\<close>

definition lmb_sample :: lmb where
  "lmb_sample = \<lparr>memory = \<lparr>cnt = 1, rgn_size = 0,
       region = new_block 0 0x10000000 # replicate 8 (new_block 0 0)\<rparr>,
     reserved = \<lparr>cnt = 2, rgn_size = 0,
       region = [new_block 0 0x1000, new_block 0x0ff00000 0x00100000] @ replicate 7 (new_block 0 0)\<rparr>\<rparr>"

lemma lmb_sample_run:
  "do { l \<leftarrow> lmb_init lmb_empty; (a, l) \<leftarrow> lmb_add l 0 0x10000000; (b, l) \<leftarrow> lmb_reserve l 0x0ff00000 0x00100000;
        (c, l) \<leftarrow> lmb_reserve l 0 0x1000; Some (a, b, c, l) } = Some (0, 0, 0, lmb_sample)"
  by code_simp

lemma lmb_alloc_base_ok:
  assumes ok: "lmb_ok l" and s: "0 < sz" "k < 32" "2 ^ k dvd unat sz" and max: "max_addr = 0 \<or> sz \<le> max_addr"
  shows "lmb_alloc_base l sz (2 ^ k) max_addr = Some (0, l) \<or>
    (\<exists>a rgn. lmb_alloc_base l sz (2 ^ k) max_addr = Some (a, l\<lparr>reserved := rgn\<rparr>) \<and> a \<noteq> 0 \<and>
       lmb_placed l sz (2 ^ k) max_addr a rgn)"
proof -
  have m: "region_ok (memory l)" using ok by (simp add: lmb_ok_def)
  then have n: "nat (sint (cnt (memory l) - 1) + 1) = unat (cnt (memory l))"
    using region_ok_size lmb_signed_count by blast
  from m show ?thesis
  proof (cases rule: region_ok_cases)
    case empty
    then show ?thesis using s(1) by (simp add: lmb_alloc_base_def)
  next
    case table
    then show ?thesis
      unfolding lmb_alloc_base_def n by (intro lmb_alloc_blocks_ok [OF ok table s max]) simp
  qed
qed

lemma lmb_init_ok:
  assumes "length (region (memory l)) = 9" "length (region (reserved l)) = 9"
  shows "\<exists>l'. lmb_init l = Some l' \<and> lmb_ok l' \<and> covered (memory l') = {} \<and> covered (reserved l') = {}"
proof -
  have bl: "blocks (rgn\<lparr>region := (region rgn)[0 := new_block 0 0], cnt := 1, rgn_size := 0\<rparr>) = [new_block 0 0]"
    if "length (region rgn) = 9" for rgn
    using that by (cases "region rgn") (simp_all add: blocks_def)
  show ?thesis
    using assms by (simp add: lmb_init_def lmb_init_region_def lmb_ok_def region_ok_def covered_def bl addrs_def)
qed

lemma lmb_is_reserved_ok:
  assumes "table_ok (reserved l)"
  shows "lmb_is_reserved l a = Some (unat a \<in> covered (reserved l))"
proof -
  let ?r = "reserved l"
  have len: "length (region ?r) = 9" "unat (cnt ?r) \<le> 8" using assms by (simp_all add: table_ok_def)
  let ?P = "\<lambda>p. p_base p \<le> a \<and> a \<le> p_base p + p_size p - 1"
  have "lmb_is_reserved l a = Some (\<exists>p\<in>set (blocks ?r). ?P p)"
    using lmb_reserved_from_spec [of "cnt ?r" "region ?r" 0 a] len ex_blocks [OF len, of ?P]
    by (simp add: lmb_is_reserved_def)
  also have "(\<exists>p\<in>set (blocks ?r). ?P p) \<longleftrightarrow> unat a \<in> covered ?r"
    using mem_addrs_iff table_ok_blocks [OF assms] by (auto simp: covered_def)
  finally show ?thesis .
qed

lemma lmb_sample_tables:
  "table_ok (memory lmb_sample)" "table_ok (reserved lmb_sample)" "lmb_ok lmb_sample"
  by (simp_all add: lmb_sample_def table_ok_def lmb_ok_def region_ok_def blocks_def ordered_def before_def
    block_ok_def)



text \<open>C14: Adding a range that overlaps nothing in the table (\<open>lmb_add\<close> for memory, \<open>lmb_reserve\<close>
  for reservations, with all merging with neighbours): the table keeps its blocks sorted, disjoint
  and non-empty and afterwards holds exactly the old addresses and the new ones; or the table
  already has \<open>MAX_LMB_REGIONS\<close> blocks, and -1 is returned with the table unchanged.\<close>

theorem lmb_add_region_correct:
  assumes "region_ok rgn" "block_ok (new_block b s)" "covered rgn \<inter> addrs (new_block b s) = {}"
  shows "\<exists>rc rgn'. lmb_add_region rgn b s = Some (rc, rgn') \<and>
     (if rc < 0 then rgn' = rgn \<and> unat (cnt rgn) = MAX_LMB_REGIONS
      else region_ok rgn' \<and> covered rgn' = covered rgn \<union> addrs (new_block b s))"
  using assms by (rule lmb_add_region_contract)

theorem lmb_add_region_correct_witness:
  "region_ok (reserved lmb_sample) \<and> (\<exists>rgn'. lmb_add_region (reserved lmb_sample) 0x1000 0x2000 = Some (1, rgn') \<and>
     region_ok rgn' \<and> covered rgn' = covered (reserved lmb_sample) \<union> addrs (new_block 0x1000 0x2000))"
proof -
  have ok: "region_ok (reserved lmb_sample)" by (intro table_ok_region_ok lmb_sample_tables)
  have "map_option fst (lmb_add_region (reserved lmb_sample) 0x1000 0x2000) = Some 1" by code_simp
  then obtain rgn' where "lmb_add_region (reserved lmb_sample) 0x1000 0x2000 = Some (1, rgn')" by auto
  moreover have "block_ok (new_block 0x1000 0x2000)" by (simp add: block_ok_def)
  moreover have "covered (reserved lmb_sample) \<inter> addrs (new_block 0x1000 0x2000) = {}"
    by (auto simp: lmb_sample_def covered_def blocks_def addrs_def)
  ultimately show ?thesis
    using ok lmb_add_region_correct [OF ok, of "0x1000" "0x2000"] by auto
qed



text \<open>With no reservation yet, the block of size 0 that \<open>lmb_init\<close> leaves in the table ends at
  \<open>0 + 0 - 1\<close>, the highest address: every address is reported as reserved.\<close>

lemma lmb_is_reserved_fresh:
  "do { l \<leftarrow> lmb_init lmb_empty; lmb_is_reserved l 0x1000 } = Some True"
  by code_simp

text \<open>A limit below the size: \<open>min(lmbbase + lmbsize, max_addr) - size\<close> wraps around and the
  range returned lies outside every memory block.\<close>

lemma lmb_alloc_base_small_limit:
  "map_option fst (lmb_alloc_base lmb_sample 0x4000 0x1000 0x2000) = Some 0xffffe000"
  by code_simp

text \<open>A size that is not a multiple of the alignment: the range is searched with the size and
  reserved with the size rounded up, so the reservation can reach into the next one.\<close>

lemma lmb_alloc_base_round_up:
  "do { (rc, l) \<leftarrow> lmb_reserve lmb_sample 0x0feff800 0x800; (a, l) \<leftarrow> lmb_alloc_base l 0x10 0x1000 0;
        Some (a, blocks (reserved l)) } =
   Some (0x0feff000, [new_block 0 0x1000, new_block 0x0feff000 0x1000, new_block 0x0feff800 0x00100800])"
  by code_simp

text \<open>Releasing the last reservation leaves \<open>cnt = 0\<close> instead of the block of size 0. The next
  reservation is not recorded: the stale contents of slot 0 become the table again.\<close>

lemma lmb_reserve_after_last_free:
  "do { l \<leftarrow> lmb_init lmb_empty; (a, l) \<leftarrow> lmb_reserve l 0x1000 0x1000; (b, l) \<leftarrow> lmb_free l 0x1000 0x1000;
        (c, l) \<leftarrow> lmb_reserve l 0x8000 0x1000; Some (a, b, c, blocks (reserved l)) } =
   Some (0, 0, 0, [new_block 0x1000 0x1000])"
  by code_simp

text \<open>With a full table the split of a block fails after the block has been cut: -1 is returned
  and the tail is no longer reserved.\<close>

lemma lmb_free_full_table:
  "do { let r = \<lparr>cnt = 8, rgn_size = 0, region = map (\<lambda>i. new_block (of_nat i * 0x10000) 0x3000) [0..<9]\<rparr>;
        (rc, l) \<leftarrow> lmb_free (lmb_sample\<lparr>reserved := r\<rparr>) 0x1000 0x1000;
        Some (rc, hd (blocks (reserved l))) } = Some (-1, new_block 0 0x1000)"
  by code_simp

end
