(* ===== verification/Crc32.thy ===== *)
theory Crc32
  imports Prelude
begin

text \<open>
  lib/crc32.c: the table-driven CRC-32 that protects the saved environment and the
  legacy images. The register is kept byte-swapped on the big-endian target (macro
  \<open>tole\<close>, the big-endian \<open>DO_CRC\<close>) and whole words are folded in at once where the
  buffer is aligned. The main results are that this optimised routine computes the
  bit-serial CRC of the documented polynomial, that it can be fed in chunks, and that
  it detects every error confined to one byte.
\<close>

section \<open>The table\<close>

text \<open>\<open>tole\<close> is \<open>cpu_to_le32\<close>, which swaps the bytes on a big-endian machine.\<close>

definition tole :: "u32 \<Rightarrow> u32" where
  "tole x = swab32 x"

text \<open>The exclusive-or pattern that \<open>make_crc_table\<close> builds from the exponents of the
  polynomial.\<close>

definition crc_poly :: u32 where
  "crc_poly = fold (\<lambda>n poly. poly OR push_bit (31 - n) 1)
     [0, 1, 2, 4, 5, 7, 8, 10, 11, 12, 16, 22, 23, 26] 0"

definition crc_shift :: "u32 \<Rightarrow> u32" where
  "crc_shift c = (if c AND 1 \<noteq> 0 then crc_poly XOR drop_bit 1 c else drop_bit 1 c)"

definition make_crc_table :: "u32 list" where
  "make_crc_table = map (\<lambda>n. tole ((crc_shift ^^ 8) (of_nat n))) [0..<256]"

definition crc_table_consts :: "u32 list" where
  "crc_table_consts = [
    0x00000000, 0x77073096, 0xee0e612c, 0x990951ba, 0x076dc419, 0x706af48f,
    0xe963a535, 0x9e6495a3, 0x0edb8832, 0x79dcb8a4, 0xe0d5e91e, 0x97d2d988,
    0x09b64c2b, 0x7eb17cbd, 0xe7b82d07, 0x90bf1d91, 0x1db71064, 0x6ab020f2,
    0xf3b97148, 0x84be41de, 0x1adad47d, 0x6ddde4eb, 0xf4d4b551, 0x83d385c7,
    0x136c9856, 0x646ba8c0, 0xfd62f97a, 0x8a65c9ec, 0x14015c4f, 0x63066cd9,
    0xfa0f3d63, 0x8d080df5, 0x3b6e20c8, 0x4c69105e, 0xd56041e4, 0xa2677172,
    0x3c03e4d1, 0x4b04d447, 0xd20d85fd, 0xa50ab56b, 0x35b5a8fa, 0x42b2986c,
    0xdbbbc9d6, 0xacbcf940, 0x32d86ce3, 0x45df5c75, 0xdcd60dcf, 0xabd13d59,
    0x26d930ac, 0x51de003a, 0xc8d75180, 0xbfd06116, 0x21b4f4b5, 0x56b3c423,
    0xcfba9599, 0xb8bda50f, 0x2802b89e, 0x5f058808, 0xc60cd9b2, 0xb10be924,
    0x2f6f7c87, 0x58684c11, 0xc1611dab, 0xb6662d3d, 0x76dc4190, 0x01db7106,
    0x98d220bc, 0xefd5102a, 0x71b18589, 0x06b6b51f, 0x9fbfe4a5, 0xe8b8d433,
    0x7807c9a2, 0x0f00f934, 0x9609a88e, 0xe10e9818, 0x7f6a0dbb, 0x086d3d2d,
    0x91646c97, 0xe6635c01, 0x6b6b51f4, 0x1c6c6162, 0x856530d8, 0xf262004e,
    0x6c0695ed, 0x1b01a57b, 0x8208f4c1, 0xf50fc457, 0x65b0d9c6, 0x12b7e950,
    0x8bbeb8ea, 0xfcb9887c, 0x62dd1ddf, 0x15da2d49, 0x8cd37cf3, 0xfbd44c65,
    0x4db26158, 0x3ab551ce, 0xa3bc0074, 0xd4bb30e2, 0x4adfa541, 0x3dd895d7,
    0xa4d1c46d, 0xd3d6f4fb, 0x4369e96a, 0x346ed9fc, 0xad678846, 0xda60b8d0,
    0x44042d73, 0x33031de5, 0xaa0a4c5f, 0xdd0d7cc9, 0x5005713c, 0x270241aa,
    0xbe0b1010, 0xc90c2086, 0x5768b525, 0x206f85b3, 0xb966d409, 0xce61e49f,
    0x5edef90e, 0x29d9c998, 0xb0d09822, 0xc7d7a8b4, 0x59b33d17, 0x2eb40d81,
    0xb7bd5c3b, 0xc0ba6cad, 0xedb88320, 0x9abfb3b6, 0x03b6e20c, 0x74b1d29a,
    0xead54739, 0x9dd277af, 0x04db2615, 0x73dc1683, 0xe3630b12, 0x94643b84,
    0x0d6d6a3e, 0x7a6a5aa8, 0xe40ecf0b, 0x9309ff9d, 0x0a00ae27, 0x7d079eb1,
    0xf00f9344, 0x8708a3d2, 0x1e01f268, 0x6906c2fe, 0xf762575d, 0x806567cb,
    0x196c3671, 0x6e6b06e7, 0xfed41b76, 0x89d32be0, 0x10da7a5a, 0x67dd4acc,
    0xf9b9df6f, 0x8ebeeff9, 0x17b7be43, 0x60b08ed5, 0xd6d6a3e8, 0xa1d1937e,
    0x38d8c2c4, 0x4fdff252, 0xd1bb67f1, 0xa6bc5767, 0x3fb506dd, 0x48b2364b,
    0xd80d2bda, 0xaf0a1b4c, 0x36034af6, 0x41047a60, 0xdf60efc3, 0xa867df55,
    0x316e8eef, 0x4669be79, 0xcb61b38c, 0xbc66831a, 0x256fd2a0, 0x5268e236,
    0xcc0c7795, 0xbb0b4703, 0x220216b9, 0x5505262f, 0xc5ba3bbe, 0xb2bd0b28,
    0x2bb45a92, 0x5cb36a04, 0xc2d7ffa7, 0xb5d0cf31, 0x2cd99e8b, 0x5bdeae1d,
    0x9b64c2b0, 0xec63f226, 0x756aa39c, 0x026d930a, 0x9c0906a9, 0xeb0e363f,
    0x72076785, 0x05005713, 0x95bf4a82, 0xe2b87a14, 0x7bb12bae, 0x0cb61b38,
    0x92d28e9b, 0xe5d5be0d, 0x7cdcefb7, 0x0bdbdf21, 0x86d3d2d4, 0xf1d4e242,
    0x68ddb3f8, 0x1fda836e, 0x81be16cd, 0xf6b9265b, 0x6fb077e1, 0x18b74777,
    0x88085ae6, 0xff0f6a70, 0x66063bca, 0x11010b5c, 0x8f659eff, 0xf862ae69,
    0x616bffd3, 0x166ccf45, 0xa00ae278, 0xd70dd2ee, 0x4e048354, 0x3903b3c2,
    0xa7672661, 0xd06016f7, 0x4969474d, 0x3e6e77db, 0xaed16a4a, 0xd9d65adc,
    0x40df0b66, 0x37d83bf0, 0xa9bcae53, 0xdebb9ec5, 0x47b2cf7f, 0x30b5ffe9,
    0xbdbdf21c, 0xcabac28a, 0x53b39330, 0x24b4a3a6, 0xbad03605, 0xcdd70693,
    0x54de5729, 0x23d967bf, 0xb3667a2e, 0xc4614ab8, 0x5d681b02, 0x2a6f2b94,
    0xb40bbe37, 0xc30c8ea1, 0x5a05df1b, 0x2d02ef8d
  ]"

definition crc_table :: "u32 list" where
  "crc_table = map tole crc_table_consts"

section \<open>The routine\<close>

text \<open>The big-endian \<open>DO_CRC\<close>.\<close>

definition do_crc :: "u32 \<Rightarrow> u8 \<Rightarrow> u32" where
  "do_crc crc x = crc_table ! unat ((drop_bit 24 crc XOR ucast x) AND 255) XOR push_bit 8 crc"

text \<open>The prefix loop up to the next word boundary; \<open>p\<close> is the address of the first
  byte.\<close>

fun crc_align :: "u32 \<Rightarrow> nat \<Rightarrow> u8 list \<Rightarrow> u32 \<times> u8 list" where
  "crc_align crc p [] = (crc, [])"
| "crc_align crc p (b # bs) =
     (if p mod 4 \<noteq> 0 then crc_align (do_crc crc b) (Suc p) bs else (crc, b # bs))"

text \<open>The word loop: one 32-bit exclusive-or and four table steps with a zero byte.\<close>

fun crc_words :: "u32 \<Rightarrow> u8 list \<Rightarrow> u32 \<times> u8 list" where
  "crc_words crc (b0 # b1 # b2 # b3 # bs) =
     crc_words (do_crc (do_crc (do_crc (do_crc (crc XOR load_be32 b0 b1 b2 b3) 0) 0) 0) 0) bs"
| "crc_words crc bs = (crc, bs)"

text \<open>\<open>buf\<close> is the address of the buffer and \<open>bytes\<close> its \<open>len\<close> bytes.\<close>

definition crc32_no_comp :: "u32 \<Rightarrow> nat \<Rightarrow> u8 list \<Rightarrow> u32" where
  "crc32_no_comp crc buf bytes =
     (let (c1, rest) = crc_align (tole crc) buf bytes;
          (c2, tail) = crc_words c1 rest
      in swab32 (fold (\<lambda>b c. do_crc c b) tail c2))"

definition crc32 :: "u32 \<Rightarrow> nat \<Rightarrow> u8 list \<Rightarrow> u32" where
  "crc32 crc buf bytes = crc32_no_comp (crc XOR 0xffffffff) buf bytes XOR 0xffffffff"

section \<open>The bit-serial reference\<close>

definition crc_byte :: "u32 \<Rightarrow> u8 \<Rightarrow> u32" where
  "crc_byte c x = (crc_shift ^^ 8) (c XOR ucast x)"

definition crc_serial :: "u32 \<Rightarrow> u8 list \<Rightarrow> u32" where
  "crc_serial c bs = fold (\<lambda>b c. crc_byte c b) bs c"

section \<open>The static table is the computed one\<close>

lemma crc_poly_eq: "crc_poly = 0xedb88320"
  by (simp add: crc_poly_def)

lemma crc_shift_odd: "crc_shift c = (if odd c then 0xedb88320 XOR drop_bit 1 c else drop_bit 1 c)"
  unfolding crc_shift_def crc_poly_eq and_1_bit0 by (simp add: bit_0)

lemma crc_shift_8: "(crc_shift ^^ 8) c = crc_shift (crc_shift (crc_shift (crc_shift
   (crc_shift (crc_shift (crc_shift (crc_shift c)))))))"
  by (simp add: eval_nat_numeral)

lemma crc_shift_numeral [simp]:
  "crc_shift (numeral k) = (if odd (numeral k :: u32) then 0xedb88320 XOR drop_bit 1 (numeral k) else drop_bit 1 (numeral k))"
  "crc_shift 1 = 0xedb88320" "crc_shift 0 = 0"
  by (simp_all add: crc_shift_odd)

lemma crc_shift_8_numeral [simp]:
  "(crc_shift ^^ 8) (numeral k) = crc_shift (crc_shift (crc_shift (crc_shift
   (crc_shift (crc_shift (crc_shift (crc_shift (numeral k))))))))"
  "(crc_shift ^^ 8) 1 = 0x77073096" "(crc_shift ^^ 8) 0 = 0"
  by (simp_all add: crc_shift_8)

lemma crc_table_consts_eq: "map (\<lambda>n. (crc_shift ^^ 8) (of_nat n)) [0..<256] = crc_table_consts"
  unfolding crc_table_consts_def
  by (simp add: upt_conv_Cons)

lemma crc_table_make: "crc_table = make_crc_table"
  by (simp add: crc_table_def make_crc_table_def comp_def flip: crc_table_consts_eq)

lemma crc_table_nth: "n < 256 \<Longrightarrow> crc_table ! n = swab32 ((crc_shift ^^ 8) (of_nat n))"
  by (simp add: crc_table_make make_crc_table_def tole_def)

lemma crc_shift_xor: "crc_shift (a XOR b) = crc_shift a XOR crc_shift b"
proof -
  have "odd (a XOR b) \<longleftrightarrow> odd a \<noteq> odd b"
    using bit_xor_iff [of a b 0] by (simp add: bit_0)
  then show ?thesis
    by (cases "odd a"; cases "odd b")
      (simp_all add: crc_shift_odd drop_bit_xor ac_simps)
qed

lemma crc_shift_funpow_xor: "(crc_shift ^^ k) (a XOR b) = (crc_shift ^^ k) a XOR (crc_shift ^^ k) b"
  by (induction k) (simp_all add: crc_shift_xor)

lemma crc_shift_funpow_low_zero:
  "take_bit k c = 0 \<Longrightarrow> (crc_shift ^^ k) c = drop_bit k c"
proof (induction k arbitrary: c)
  case 0
  then show ?case by simp
next
  case (Suc k)
  have low: "\<not> bit c n" if "n < Suc k" for n
    using Suc.prems that by (metis bit_take_bit_iff bit_0_eq bot_apply bot_bool_def)
  have "take_bit k (drop_bit 1 c) = 0"
    by (rule bit_word_eqI) (simp add: bit_simps low)
  moreover have "crc_shift c = drop_bit 1 c"
    using low [of 0] by (simp add: crc_shift_odd bit_0)
  ultimately show ?case
    using Suc.IH [of "drop_bit 1 c"] by (simp add: funpow_Suc_right del: funpow.simps)
qed

text \<open>One table step on the swapped register is eight steps of the bit-serial one.\<close>

lemma do_crc_swab: "do_crc (swab32 c) x = swab32 (crc_byte c x)"
proof -
  let ?i = "(c XOR ucast x) AND 0xff"
  let ?h = "push_bit 8 (drop_bit 8 c)"
  have idx: "(drop_bit 24 (swab32 c) XOR ucast x) AND 255 = ?i"
    unfolding drop_24_swab32 by (rule bit_word_eqI) (auto simp: bit_simps word_bits)
  have split: "c XOR ucast x = ?i XOR ?h"
    by (rule bit_word_eqI) (auto simp: bit_simps word_bits dest: bit_imp_le_length)
  have "take_bit 8 ?h = 0"
    by (rule bit_word_eqI) (auto simp: bit_simps word_bits)
  then have h: "(crc_shift ^^ 8) ?h = drop_bit 8 ?h" by (rule crc_shift_funpow_low_zero)
  also have "\<dots> = drop_bit 8 c"
    by (rule bit_word_eqI) (auto simp: bit_simps dest: bit_imp_le_length)
  finally have h: "(crc_shift ^^ 8) ?h = drop_bit 8 c" .
  have "unat ?i < 256" by (rule unat_and_0xff)
  then have "crc_table ! unat ?i = swab32 ((crc_shift ^^ 8) ?i)"
    by (simp add: crc_table_nth)
  then show ?thesis
    unfolding do_crc_def idx crc_byte_def
    by (subst (2) split) (simp only: crc_shift_funpow_xor swab32_xor h swab32_drop_8)
qed

lemma do_crc_eq: "do_crc r x = swab32 (crc_byte (swab32 r) x)"
  using do_crc_swab [of "swab32 r" x] by simp

lemma fold_do_crc: "fold (\<lambda>b c. do_crc c b) bs (swab32 c) = swab32 (crc_serial c bs)"
  unfolding crc_serial_def by (induction bs arbitrary: c) (simp_all add: do_crc_swab)

lemma crc_serial_Nil [simp]: "crc_serial c [] = c"
  and crc_serial_Cons [simp]: "crc_serial c (b # bs) = crc_serial (crc_byte c b) bs"
  and crc_serial_append: "crc_serial c (bs @ bs') = crc_serial (crc_serial c bs) bs'"
  by (simp_all add: crc_serial_def)

text \<open>A word load is the exclusive-or of its bytes, each in its own lane of the register.\<close>

lemma crc_byte_xor: "crc_byte (a XOR push_bit 8 b) x = crc_byte a x XOR take_bit 24 b"
proof -
  have "a XOR push_bit 8 b XOR ucast x = (a XOR ucast x) XOR push_bit 8 b"
    by (simp add: ac_simps)
  moreover have "take_bit 8 (push_bit 8 b) = 0"
    by (rule bit_word_eqI) (auto simp: bit_simps)
  moreover have "drop_bit 8 (push_bit 8 b) = take_bit 24 b"
    by (rule bit_word_eqI) (auto simp: bit_simps)
  ultimately show ?thesis
    by (simp add: crc_byte_def crc_shift_funpow_xor crc_shift_funpow_low_zero ac_simps)
qed

lemma crc_byte_0: "crc_byte (a XOR ucast x) 0 = crc_byte a x"
  by (simp add: crc_byte_def)

lemma take_24_ucast:
  "take_bit 24 (ucast (b1 :: u8) XOR push_bit 8 (ucast (b2 :: u8) XOR push_bit 8 (ucast (b3 :: u8))) :: u32) =
     ucast b1 XOR push_bit 8 (ucast b2 XOR push_bit 8 (ucast b3))"
  "take_bit 24 (ucast b2 XOR push_bit 8 (ucast b3) :: u32) = ucast b2 XOR push_bit 8 (ucast b3)"
  "take_bit 24 (ucast b3 :: u32) = ucast b3"
  by (rule bit_word_eqI; auto simp: bit_simps dest: bit_imp_le_length)+

lemma crc_byte_lane: "crc_byte (c XOR (ucast b XOR push_bit 8 w)) 0 = crc_byte c b XOR take_bit 24 w"
proof -
  have "c XOR (ucast b XOR push_bit 8 w) = (c XOR ucast b) XOR push_bit 8 w" by (simp only: xor.assoc)
  then show ?thesis by (simp only: crc_byte_xor crc_byte_0)
qed

lemma do_crc_word:
  "do_crc (do_crc (do_crc (do_crc (swab32 c XOR load_be32 b0 b1 b2 b3) 0) 0) 0) 0 =
     swab32 (crc_serial c [b0, b1, b2, b3])"
proof -
  have "swab32 c XOR load_be32 b0 b1 b2 b3 =
      swab32 (c XOR swab32 (load_be32 b0 b1 b2 b3))" by (simp add: swab32_xor)
  then show ?thesis
    by (simp only: do_crc_swab swab32_load_be32 crc_byte_lane crc_byte_0 take_24_ucast
        crc_serial_Cons crc_serial_Nil)
qed

lemma crc_align_serial:
  "crc_align (swab32 c) p bs = (r, rest) \<Longrightarrow>
     \<exists>pre. bs = pre @ rest \<and> r = swab32 (crc_serial c pre)"
proof (induction bs arbitrary: c p)
  case Nil
  then show ?case by auto
next
  case (Cons b bs)
  show ?case
  proof (cases "p mod 4 = 0")
    case True
    with Cons.prems show ?thesis by (auto intro!: exI [of _ "[]"])
  next
    case False
    with Cons.prems have "crc_align (swab32 (crc_byte c b)) (Suc p) bs = (r, rest)"
      by (simp add: do_crc_swab)
    from Cons.IH [OF this] obtain pre
      where "bs = pre @ rest" "r = swab32 (crc_serial (crc_byte c b) pre)" by auto
    then show ?thesis by (intro exI [of _ "b # pre"]) simp
  qed
qed

lemma crc_words_serial:
  "crc_words (swab32 c) bs = (r, rest) \<Longrightarrow>
     \<exists>pre. bs = pre @ rest \<and> r = swab32 (crc_serial c pre) \<and> length rest < 4"
proof (induction "swab32 c" bs arbitrary: c rule: crc_words.induct)
  case (1 b0 b1 b2 b3 bs)
  have "crc_words (swab32 (crc_serial c [b0, b1, b2, b3])) bs = (r, rest)"
    using "1.prems" by (simp only: crc_words.simps do_crc_word)
  from "1.hyps" [OF do_crc_word this] obtain pre where "bs = pre @ rest" "length rest < 4"
      "r = swab32 (crc_serial (crc_serial c [b0, b1, b2, b3]) pre)" by blast
  then show ?case by (intro exI [of _ "b0 # b1 # b2 # b3 # pre"]) simp
qed (auto intro!: exI [of _ "[]"])

text \<open>The optimised routine is the bit-serial CRC, at every alignment of the buffer.\<close>

lemma crc32_no_comp_serial: "crc32_no_comp crc buf bytes = crc_serial crc bytes"
proof -
  obtain c1 rest where a: "crc_align (tole crc) buf bytes = (c1, rest)" by fastforce
  obtain c2 tail where w: "crc_words c1 rest = (c2, tail)" by fastforce
  from a obtain p1 where p1: "bytes = p1 @ rest" "c1 = swab32 (crc_serial crc p1)"
    unfolding tole_def by (blast dest: crc_align_serial)
  from w obtain p2 where p2: "rest = p2 @ tail" "c2 = swab32 (crc_serial (crc_serial crc p1) p2)"
    unfolding p1(2) by (blast dest: crc_words_serial)
  have "crc32_no_comp crc buf bytes = swab32 (fold (\<lambda>b c. do_crc c b) tail c2)"
    by (simp add: crc32_no_comp_def a w)
  then show ?thesis using p1(1) p2 by (simp add: fold_do_crc crc_serial_append)
qed

lemma crc32_serial: "crc32 crc buf bytes = crc_serial (crc XOR 0xffffffff) bytes XOR 0xffffffff"
  by (simp add: crc32_def crc32_no_comp_serial)

lemma crc32_append:
  "crc32 (crc32 crc buf xs) buf' ys = crc32 crc buf'' (xs @ ys)"
  by (simp add: crc32_serial crc_serial_append xor.assoc)

lemma crc_shift_inj: "crc_shift a = crc_shift b \<Longrightarrow> a = b"
proof -
  have top: "odd c \<longleftrightarrow> bit (crc_shift c) 31" for c
    using bit_imp_le_length [of c 32] by (auto simp: crc_shift_odd bit_simps)
  have rest: "bit c (Suc n) = bit (crc_shift c XOR (if odd c then 0xedb88320 else 0)) n" if "n < 31" for c n
    using that by (auto simp: crc_shift_odd bit_simps)
  assume eq: "crc_shift a = crc_shift b"
  then have "odd a = odd b" using top by metis
  show "a = b"
  proof (rule bit_word_eqI)
    fix n assume "n < LENGTH(32)"
    then show "bit a n = bit b n"
      using eq \<open>odd a = odd b\<close> by (cases n) (simp_all add: bit_0 rest)
  qed
qed

lemma crc_shift_funpow_inj: "(crc_shift ^^ k) a = (crc_shift ^^ k) b \<Longrightarrow> a = b"
  by (induction k) (auto dest: crc_shift_inj)

lemma crc_byte_inj: "crc_byte a x = crc_byte b y \<Longrightarrow> a XOR ucast x = b XOR ucast y"
  unfolding crc_byte_def by (rule crc_shift_funpow_inj)

lemma crc_serial_inj: "crc_serial a bs = crc_serial b bs \<Longrightarrow> a = b"
proof (induction bs arbitrary: a b)
  case (Cons x bs)
  then have "crc_byte a x = crc_byte b x" by simp
  then show ?case by (auto dest: crc_byte_inj simp: xor_right_cancel)
qed simp

lemma crc_serial_byte_neq:
  assumes "x \<noteq> y"
  shows "crc_serial c (pre @ x # post) \<noteq> crc_serial c (pre @ y # post)"
proof
  assume "crc_serial c (pre @ x # post) = crc_serial c (pre @ y # post)"
  then have "crc_byte (crc_serial c pre) x = crc_byte (crc_serial c pre) y"
    by (auto simp: crc_serial_append dest: crc_serial_inj)
  then have "ucast x XOR crc_serial c pre = (ucast y :: u32) XOR crc_serial c pre"
    by (auto dest!: crc_byte_inj simp: xor.commute)
  then have "(ucast x :: u32) = ucast y" by (simp only: xor_right_cancel)
  with assms show False by (simp add: ucast_u8_eq)
qed

section \<open>The interface of a running checksum\<close>

text \<open>
  Callers that read the protected data piece by piece (\<open>env_init\<close> reads 64 bytes at a
  time from the EEPROM) rely on the checksum being resumable. The locale states that
  contract once; its lemma on a list of chunks is what those callers use.
\<close>

locale running_checksum =
  fixes upd :: "'c \<Rightarrow> nat \<Rightarrow> u8 list \<Rightarrow> 'c"
  assumes upd_Nil: "upd c a [] = c"
    and upd_append: "upd (upd c a xs) b ys = upd c d (xs @ ys)"
begin

lemma upd_addr: "upd c a xs = upd c b xs"
  using upd_append [of c a xs a "[]"] by (simp add: upd_Nil)

lemma upd_chunks: "fold (\<lambda>chunk c. upd c a chunk) chunks c = upd c a (concat chunks)"
proof (induction chunks arbitrary: c)
  case Nil
  show ?case by (simp add: upd_Nil)
next
  case (Cons x chunks)
  then show ?case using upd_append [of c a x a "concat chunks" a] by simp
qed

end

interpretation crc: running_checksum crc32
proof unfold_locales
  fix c :: u32 and a
  show "crc32 c a [] = c" by (simp add: crc32_serial xor.assoc)
next
  fix c :: u32 and a b d xs ys
  show "crc32 (crc32 c a xs) b ys = crc32 c d (xs @ ys)" by (rule crc32_append)
qed

section \<open>Properties\<close>

text \<open>C10: At every alignment of the buffer the word-at-a-time, table-driven routine
  returns the bit-serial CRC of the same bytes; crc32 is that CRC with the register
  complemented before and after.\<close>

theorem crc32_bit_serial:
  "crc32_no_comp crc buf bytes = crc_serial crc bytes \<and>
   crc32 crc buf bytes = crc_serial (crc XOR 0xffffffff) bytes XOR 0xffffffff"
  by (simp add: crc32_no_comp_serial crc32_serial)

text \<open>C13: Two buffers that differ in exactly one byte never have the same CRC, so any
  corruption confined to one byte of a checked block is detected.\<close>

theorem crc32_detects_byte_error:
  assumes "x \<noteq> y"
  shows "crc32 crc buf (pre @ x # post) \<noteq> crc32 crc buf' (pre @ y # post)"
  using crc_serial_byte_neq [OF assms] by (simp add: crc32_serial xor_right_cancel)

theorem crc32_detects_byte_error_witness:
  "crc32 0 0 ([0x31] @ 0x32 # [0x33]) \<noteq> crc32 0 2 ([0x31] @ 0x36 # [0x33])"
  by (rule crc32_detects_byte_error) simp

lemma crc32_check_value: "crc32 0 0 [0x31, 0x32, 0x33, 0x34, 0x35, 0x36, 0x37, 0x38, 0x39] = 0xcbf43926"
  by (simp add: crc32_serial crc_byte_def)

end
