(* ===== verification/Eeprom.thy ===== *)
theory Eeprom
  imports Prelude
begin

text \<open>
  common/cmd_eeprom.c: reading and writing a serial EEPROM in pieces that stay inside a
  256-byte block (reads) and inside an 8-byte page (writes), with the board's settings
  (\<open>CONFIG_SYS_I2C_EEPROM_ADDR_LEN\<close> 1, \<open>CONFIG_SYS_EEPROM_PAGE_WRITE_BITS\<close> 3). The I2C
  controller is hardware: \<open>i2c_read\<close> and \<open>i2c_write\<close> are arguments of the model, and what
  the memory chip promises about one transfer is stated as \<open>chip_reads\<close> and \<open>chip_writes\<close>.
\<close>

type_synonym 'b i2c_reader = "u8 \<Rightarrow> u32 \<Rightarrow> nat \<Rightarrow> u32 \<Rightarrow> 'b \<Rightarrow> int \<times> u8 list \<times> 'b"
type_synonym 'b i2c_writer = "u8 \<Rightarrow> u32 \<Rightarrow> nat \<Rightarrow> u8 list \<Rightarrow> 'b \<Rightarrow> int \<times> 'b"

abbreviation (input) I2C_RXTX_LEN :: u32 where
  "I2C_RXTX_LEN \<equiv> 128"

abbreviation (input) EEPROM_PAGE_SIZE :: u32 where
  "EEPROM_PAGE_SIZE \<equiv> push_bit 3 1"

definition EEPROM_PAGE_OFFSET :: "u32 \<Rightarrow> u32" where
  "EEPROM_PAGE_OFFSET x = x AND (EEPROM_PAGE_SIZE - 1)"

text \<open>The byte \<open>addr[0]\<close>: the block number with the device address inserted.\<close>

definition eeprom_chip :: "u32 \<Rightarrow> u32 \<Rightarrow> u8" where
  "eeprom_chip dev_addr offset = ucast (drop_bit 8 offset) OR ucast dev_addr"

definition eeprom_read_len :: "u32 \<Rightarrow> u32 \<Rightarrow> u32" where
  "eeprom_read_len offset fin =
     (let blk_off = offset AND 0xff;
          maxlen = 0x100 - blk_off;
          maxlen = (if maxlen > I2C_RXTX_LEN then I2C_RXTX_LEN else maxlen);
          len = fin - offset
      in if len > maxlen then maxlen else len)"

definition eeprom_write_len :: "u32 \<Rightarrow> u32 \<Rightarrow> u32" where
  "eeprom_write_len offset fin =
     (let blk_off = offset AND 0xff;
          maxlen = EEPROM_PAGE_SIZE - EEPROM_PAGE_OFFSET blk_off;
          maxlen = (if maxlen > I2C_RXTX_LEN then I2C_RXTX_LEN else maxlen);
          len = fin - offset
      in if len > maxlen then maxlen else len)"

section \<open>Every piece is non-empty and stays in its block or page\<close>

lemma and_7_mod: "unat ((x :: u32) AND 7) = unat x mod 8"
  using and_mask_mod [of x 3] by (simp add: mask_eq_exp_minus_1)

lemma eeprom_read_len_bounds:
  assumes "offset < fin"
  shows "0 < unat (eeprom_read_len offset fin)"
    "unat (eeprom_read_len offset fin) \<le> unat fin - unat offset"
    "unat offset mod 256 + unat (eeprom_read_len offset fin) \<le> 256"
proof -
  have "unat (0x100 - (offset AND 0xff)) = 256 - unat offset mod 256"
    using and_0xff_mod [of offset] by (subst unat_sub_le) (simp_all add: word_le_nat_alt)
  moreover have "unat (fin - offset) = unat fin - unat offset" "unat offset < unat fin"
    using assms by (simp_all add: unat_sub_le word_less_nat_alt word_le_nat_alt)
  ultimately show "0 < unat (eeprom_read_len offset fin)"
    "unat (eeprom_read_len offset fin) \<le> unat fin - unat offset"
    "unat offset mod 256 + unat (eeprom_read_len offset fin) \<le> 256"
    by (simp_all add: eeprom_read_len_def Let_def word_less_nat_alt split: if_splits) linarith+
qed

lemma eeprom_write_len_bounds:
  assumes "offset < fin"
  shows "0 < unat (eeprom_write_len offset fin)"
    "unat (eeprom_write_len offset fin) \<le> unat fin - unat offset"
    "unat offset mod 8 + unat (eeprom_write_len offset fin) \<le> 8"
proof -
  have "unat (EEPROM_PAGE_OFFSET (offset AND 0xff)) = unat offset mod 8"
    by (simp add: EEPROM_PAGE_OFFSET_def and_7_mod and_0xff_mod mod_mod_cancel)
  then have "unat (8 - EEPROM_PAGE_OFFSET (offset AND 0xff)) = 8 - unat offset mod 8"
    by (subst unat_sub_le) (simp_all add: word_le_nat_alt)
  moreover have "unat (fin - offset) = unat fin - unat offset" "unat offset < unat fin"
    using assms by (simp_all add: unat_sub_le word_less_nat_alt word_le_nat_alt)
  ultimately show "0 < unat (eeprom_write_len offset fin)"
    "unat (eeprom_write_len offset fin) \<le> unat fin - unat offset"
    "unat offset mod 8 + unat (eeprom_write_len offset fin) \<le> 8"
    by (simp_all add: eeprom_write_len_def Let_def word_less_nat_alt split: if_splits) linarith+
qed

lemma piece_end:
  assumes "offset < (fin :: u32)" "unat len \<le> unat fin - unat offset"
  shows "unat (offset + len) = unat offset + unat len"
proof -
  have "unat offset < unat fin" using assms(1) by (simp add: word_less_nat_alt)
  moreover have "unat fin < 2 ^ LENGTH(32)" by (rule unsigned_less)
  ultimately show ?thesis using assms(2) by (intro unat_add_nowrap) linarith
qed

lemma piece_measure:
  assumes "offset < (fin :: u32)" "0 < unat len" "unat len \<le> unat fin - unat offset"
  shows "unat fin - unat (offset + len) < unat fin - unat offset"
  using piece_end [OF assms(1,3)] assms by (simp add: word_less_nat_alt)

section \<open>The transfer loops\<close>

function eeprom_read_loop ::
  "'b i2c_reader \<Rightarrow> u32 \<Rightarrow> u32 \<Rightarrow> u32 \<Rightarrow> int \<Rightarrow> u8 list \<Rightarrow> 'b \<Rightarrow> int \<times> u8 list \<times> 'b" where
  "eeprom_read_loop i2c_read dev_addr offset fin rcode buffer bus =
     (if offset < fin then
        let len = eeprom_read_len offset fin;
            (rc, bytes, bus') = i2c_read (eeprom_chip dev_addr offset) offset 1 len bus
        in eeprom_read_loop i2c_read dev_addr (offset + len) fin
             (if rc \<noteq> 0 then 1 else rcode) (buffer @ bytes) bus'
      else (rcode, buffer, bus))"
  by pat_completeness auto
termination
  by (relation "measure (\<lambda>(r, d, offset, fin, rc, buf, bus). unat fin - unat offset)")
    (auto intro!: piece_measure eeprom_read_len_bounds)

declare eeprom_read_loop.simps [simp del]

definition eeprom_read :: "'b i2c_reader \<Rightarrow> u32 \<Rightarrow> u32 \<Rightarrow> u32 \<Rightarrow> 'b \<Rightarrow> int \<times> u8 list \<times> 'b" where
  "eeprom_read i2c_read dev_addr offset cnt bus =
     eeprom_read_loop i2c_read dev_addr offset (offset + cnt) 0 [] bus"

function eeprom_write_loop ::
  "'b i2c_writer \<Rightarrow> u32 \<Rightarrow> u32 \<Rightarrow> u32 \<Rightarrow> int \<Rightarrow> u8 list \<Rightarrow> 'b \<Rightarrow> int \<times> 'b" where
  "eeprom_write_loop i2c_write dev_addr offset fin rcode buffer bus =
     (if offset < fin then
        let len = eeprom_write_len offset fin;
            (rc, bus') = i2c_write (eeprom_chip dev_addr offset) offset 1 (take (unat len) buffer) bus
        in eeprom_write_loop i2c_write dev_addr (offset + len) fin
             (if rc \<noteq> 0 then 1 else rcode) (drop (unat len) buffer) bus'
      else (rcode, bus))"
  by pat_completeness auto
termination
  by (relation "measure (\<lambda>(w, d, offset, fin, rc, buf, bus). unat fin - unat offset)")
    (auto intro!: piece_measure eeprom_write_len_bounds)

declare eeprom_write_loop.simps [simp del]

definition eeprom_write :: "'b i2c_writer \<Rightarrow> u32 \<Rightarrow> u32 \<Rightarrow> u8 list \<Rightarrow> u32 \<Rightarrow> 'b \<Rightarrow> int \<times> 'b" where
  "eeprom_write i2c_write dev_addr offset buffer cnt bus =
     eeprom_write_loop i2c_write dev_addr offset (offset + cnt) 0 buffer bus"

definition eeprom_probe :: "(u8 \<Rightarrow> 'b \<Rightarrow> int \<times> 'b) \<Rightarrow> u32 \<Rightarrow> u32 \<Rightarrow> 'b \<Rightarrow> int \<times> 'b" where
  "eeprom_probe i2c_probe dev_addr offset bus = i2c_probe (eeprom_chip dev_addr offset) bus"

section \<open>What the memory chip promises\<close>

text \<open>\<open>mem bus a\<close> is the byte stored at offset \<open>a\<close> of the device.\<close>

definition store :: "nat \<Rightarrow> 'a list \<Rightarrow> (nat \<Rightarrow> 'a) \<Rightarrow> nat \<Rightarrow> 'a" where
  "store off bs m = (\<lambda>a. if off \<le> a \<and> a < off + length bs then bs ! (a - off) else m a)"

definition load :: "nat \<Rightarrow> nat \<Rightarrow> (nat \<Rightarrow> 'a) \<Rightarrow> 'a list" where
  "load off n m = map m [off..<off + n]"

text \<open>A read inside a 256-byte block returns the stored bytes.\<close>

definition chip_reads :: "u32 \<Rightarrow> ('b \<Rightarrow> nat \<Rightarrow> u8) \<Rightarrow> 'b i2c_reader \<Rightarrow> bool" where
  "chip_reads dev mem i2c_read \<longleftrightarrow>
     (\<forall>off len bus. unat off mod 256 + unat len \<le> 256 \<longrightarrow>
        i2c_read (eeprom_chip dev off) off 1 len bus = (0, load (unat off) (unat len) (mem bus), bus))"

text \<open>A write inside a page stores its bytes; the address counter of the chip only
  increments within a page, so nothing is promised of a longer one.\<close>

definition chip_writes :: "u32 \<Rightarrow> ('b \<Rightarrow> nat \<Rightarrow> u8) \<Rightarrow> 'b i2c_writer \<Rightarrow> bool" where
  "chip_writes dev mem i2c_write \<longleftrightarrow>
     (\<forall>off bs bus. unat off mod 8 + length bs \<le> 8 \<longrightarrow>
        (\<exists>bus'. i2c_write (eeprom_chip dev off) off 1 bs bus = (0, bus') \<and>
           mem bus' = store (unat off) bs (mem bus)))"

lemma store_Nil [simp]: "store off [] m = m"
  by (rule ext) (auto simp: store_def)

lemma length_load [simp]: "length (load off n m) = n"
  by (simp add: load_def)

lemma store_store: "store (off + length xs) ys (store off xs m) = store off (xs @ ys) m"
  by (rule ext) (auto simp: store_def nth_append)

lemma load_append: "load off n m @ load (off + n) k m = load off (n + k) m"
proof -
  have "[off..<off + n + k] = [off..<off + n] @ [off + n..<off + n + k]"
    by (rule upt_add_eq_append) simp
  then show ?thesis by (simp add: load_def add.assoc flip: map_append)
qed

lemma load_store [simp]: "load off (length bs) (store off bs m) = bs"
  by (rule nth_equalityI) (auto simp: load_def store_def)

lemma eeprom_write_loop_ok:
  assumes "chip_writes dev mem w" "length buf = unat fin - unat off"
  shows "\<exists>bus'. eeprom_write_loop w dev off fin 0 buf bus = (0, bus') \<and> mem bus' = store (unat off) buf (mem bus)"
  using assms(2)
proof (induction "unat fin - unat off" arbitrary: off buf bus rule: less_induct)
  case less
  show ?case
  proof (cases "off < fin")
    case False
    then show ?thesis using less.prems by (subst eeprom_write_loop.simps) (simp add: word_less_nat_alt)
  next
    case True
    let ?len = "eeprom_write_len off fin"
    note b = eeprom_write_len_bounds [OF True]
    have ltk: "length (take (unat ?len) buf) = unat ?len" using b(2) less.prems by simp
    then obtain bus1 where w: "w (eeprom_chip dev off) off 1 (take (unat ?len) buf) bus = (0, bus1)"
        "mem bus1 = store (unat off) (take (unat ?len) buf) (mem bus)"
      using assms(1) b(3) unfolding chip_writes_def by (metis)
    have e: "unat (off + ?len) = unat off + unat ?len" using piece_end [OF True b(2)] .
    obtain bus2 where "eeprom_write_loop w dev (off + ?len) fin 0 (drop (unat ?len) buf) bus1 = (0, bus2)"
        "mem bus2 = store (unat (off + ?len)) (drop (unat ?len) buf) (mem bus1)"
      using less.hyps [OF piece_measure [OF True b(1,2)], of "drop (unat ?len) buf" bus1] less.prems e by auto
    moreover from this(2) have "mem bus2 = store (unat off) buf (mem bus)"
      using store_store [of "unat off" "take (unat ?len) buf" "drop (unat ?len) buf" "mem bus"] w(2) e ltk
      by simp
    ultimately show ?thesis using True w(1) by (subst eeprom_write_loop.simps) simp
  qed
qed

lemma eeprom_read_loop_ok:
  assumes "chip_reads dev mem r"
  shows "eeprom_read_loop r dev off fin 0 buf bus = (0, buf @ load (unat off) (unat fin - unat off) (mem bus), bus)"
proof (induction "unat fin - unat off" arbitrary: off buf rule: less_induct)
  case less
  show ?case
  proof (cases "off < fin")
    case False
    then show ?thesis by (subst eeprom_read_loop.simps) (simp add: word_less_nat_alt load_def)
  next
    case True
    let ?len = "eeprom_read_len off fin"
    note b = eeprom_read_len_bounds [OF True]
    have e: "unat (off + ?len) = unat off + unat ?len" using piece_end [OF True b(2)] .
    have "unat fin - unat off = unat ?len + (unat fin - unat (off + ?len))" using b(2) e by linarith
    then have "load (unat off) (unat fin - unat off) (mem bus) =
        load (unat off) (unat ?len) (mem bus) @ load (unat off + unat ?len) (unat fin - unat (off + ?len)) (mem bus)"
      by (simp only: load_append)
    moreover have "r (eeprom_chip dev off) off 1 ?len bus = (0, load (unat off) (unat ?len) (mem bus), bus)"
      using assms b(3) by (simp add: chip_reads_def)
    ultimately show ?thesis
      using True less.hyps [OF piece_measure [OF True b(1,2)], of "buf @ load (unat off) (unat ?len) (mem bus)"] e
      by (subst eeprom_read_loop.simps) (simp add: Let_def)
  qed
qed

lemma eeprom_range_end:
  "unat (off :: u32) + n < 2 ^ 32 \<Longrightarrow> unat (off + of_nat n) = unat off + n"
  by (subst unat_add_nowrap) (simp_all add: unat_of_nat)

lemma eeprom_write_ok:
  assumes "chip_writes dev mem w" "unat off + length buf < 2 ^ 32"
  shows "\<exists>bus'. eeprom_write w dev off buf (of_nat (length buf)) bus = (0, bus') \<and>
    mem bus' = store (unat off) buf (mem bus)"
  unfolding eeprom_write_def
  by (rule eeprom_write_loop_ok [OF assms(1)]) (simp add: eeprom_range_end [OF assms(2)])

lemma eeprom_read_ok:
  assumes "chip_reads dev mem r" "unat off + n < 2 ^ 32"
  shows "eeprom_read r dev off (of_nat n) bus = (0, load (unat off) n (mem bus), bus)"
  unfolding eeprom_read_def using eeprom_read_loop_ok [OF assms(1), of off "off + of_nat n" "[]" bus]
  by (simp add: eeprom_range_end [OF assms(2)])

section \<open>A chip that keeps these promises\<close>

text \<open>A chip with 8-byte pages whose write counter wraps inside the page.\<close>

definition page_write :: "u8 \<Rightarrow> u32 \<Rightarrow> nat \<Rightarrow> u8 list \<Rightarrow> (nat \<Rightarrow> u8) \<Rightarrow> int \<times> (nat \<Rightarrow> u8)" where
  "page_write chip off alen bs m =
     (0, fold (\<lambda>k m. m(8 * (unat off div 8) + (unat off + k) mod 8 := bs ! k)) [0..<length bs] m)"

definition block_read :: "u8 \<Rightarrow> u32 \<Rightarrow> nat \<Rightarrow> u32 \<Rightarrow> (nat \<Rightarrow> u8) \<Rightarrow> int \<times> u8 list \<times> (nat \<Rightarrow> u8)" where
  "block_read chip off alen len m =
     (0, map (\<lambda>k. m (256 * (unat off div 256) + (unat off + k) mod 256)) [0..<unat len], m)"

lemma page_write_fold:
  assumes "off mod 8 + n \<le> 8" "n \<le> length bs"
  shows "fold (\<lambda>k m. m(8 * (off div 8) + (off + k) mod 8 := bs ! k)) [0..<n] m = store off (take n bs) m"
  using assms
proof (induction n)
  case (Suc n)
  have "(off + n) mod 8 = off mod 8 + n"
  proof -
    have "off mod 8 + n < 8" using Suc.prems(1) by linarith
    then show ?thesis by (metis mod_add_left_eq mod_less)
  qed
  then have a: "8 * (off div 8) + (off + n) mod 8 = off + n" by simp
  show ?case
    using Suc by (intro ext) (auto simp: a store_def nth_append take_Suc_conv_app_nth)
qed simp

lemma page_write_ok: "chip_writes dev (\<lambda>m. m) page_write"
  by (simp add: chip_writes_def page_write_def page_write_fold)

lemma block_read_ok: "chip_reads dev (\<lambda>m. m) block_read"
proof -
  have "256 * (a div 256) + (a + k) mod 256 = a + k" if "a mod 256 + n \<le> 256" "k < n" for a k n :: nat
  proof -
    have "a mod 256 + k < 256" using that by linarith
    then have "(a + k) mod 256 = a mod 256 + k" by (metis mod_add_left_eq mod_less)
    then show ?thesis by simp
  qed
  then show ?thesis
    by (auto simp: chip_reads_def block_read_def load_def intro!: nth_equalityI)
qed

section \<open>Properties\<close>



end
