(* ===== verification/Strtoul.thy ===== *)
theory Strtoul
  imports Prelude
begin

text \<open>
  lib/ctype.c, include/linux/ctype.h and the number parsers of lib/vsprintf.c. A string
  argument is the list of its characters before the terminating NUL; the end pointer that
  the parsers store through \<open>endp\<close> is returned as the rest of the string.
\<close>

section \<open>Character classes\<close>

abbreviation (input) "C_U \<equiv> (0x01 :: u8)"
abbreviation (input) "C_L \<equiv> (0x02 :: u8)"
abbreviation (input) "C_D \<equiv> (0x04 :: u8)"
abbreviation (input) "C_C \<equiv> (0x08 :: u8)"
abbreviation (input) "C_P \<equiv> (0x10 :: u8)"
abbreviation (input) "C_S \<equiv> (0x20 :: u8)"
abbreviation (input) "C_X \<equiv> (0x40 :: u8)"
abbreviation (input) "C_SP \<equiv> (0x80 :: u8)"

definition ctype :: "u8 list" where
  "ctype =
     [C_C, C_C, C_C, C_C, C_C, C_C, C_C, C_C,
      C_C, C_C OR C_S, C_C OR C_S, C_C OR C_S, C_C OR C_S, C_C OR C_S, C_C, C_C,
      C_C, C_C, C_C, C_C, C_C, C_C, C_C, C_C,
      C_C, C_C, C_C, C_C, C_C, C_C, C_C, C_C,
      C_S OR C_SP, C_P, C_P, C_P, C_P, C_P, C_P, C_P,
      C_P, C_P, C_P, C_P, C_P, C_P, C_P, C_P,
      C_D, C_D, C_D, C_D, C_D, C_D, C_D, C_D,
      C_D, C_D, C_P, C_P, C_P, C_P, C_P, C_P,
      C_P, C_U OR C_X, C_U OR C_X, C_U OR C_X, C_U OR C_X, C_U OR C_X, C_U OR C_X, C_U,
      C_U, C_U, C_U, C_U, C_U, C_U, C_U, C_U,
      C_U, C_U, C_U, C_U, C_U, C_U, C_U, C_U,
      C_U, C_U, C_U, C_P, C_P, C_P, C_P, C_P,
      C_P, C_L OR C_X, C_L OR C_X, C_L OR C_X, C_L OR C_X, C_L OR C_X, C_L OR C_X, C_L,
      C_L, C_L, C_L, C_L, C_L, C_L, C_L, C_L,
      C_L, C_L, C_L, C_L, C_L, C_L, C_L, C_L,
      C_L, C_L, C_L, C_P, C_P, C_P, C_P, C_C] @
     replicate 32 0 @
     [C_S OR C_SP] @ replicate 15 C_P @ replicate 16 C_P @
     replicate 16 C_U @
     replicate 7 C_U @ [C_P] @ replicate 7 C_U @ [C_L] @
     replicate 16 C_L @
     replicate 7 C_L @ [C_P] @ replicate 8 C_L"

definition ismask :: "char \<Rightarrow> u8" where
  "ismask c = ctype ! of_char c"

definition isalnum :: "char \<Rightarrow> bool" where
  "isalnum c \<longleftrightarrow> ismask c AND (C_U OR C_L OR C_D) \<noteq> 0"

definition isalpha :: "char \<Rightarrow> bool" where
  "isalpha c \<longleftrightarrow> ismask c AND (C_U OR C_L) \<noteq> 0"

definition iscntrl :: "char \<Rightarrow> bool" where
  "iscntrl c \<longleftrightarrow> ismask c AND C_C \<noteq> 0"

definition isdigit :: "char \<Rightarrow> bool" where
  "isdigit c \<longleftrightarrow> ismask c AND C_D \<noteq> 0"

definition isgraph :: "char \<Rightarrow> bool" where
  "isgraph c \<longleftrightarrow> ismask c AND (C_P OR C_U OR C_L OR C_D) \<noteq> 0"

definition islower :: "char \<Rightarrow> bool" where
  "islower c \<longleftrightarrow> ismask c AND C_L \<noteq> 0"

definition isprint :: "char \<Rightarrow> bool" where
  "isprint c \<longleftrightarrow> ismask c AND (C_P OR C_U OR C_L OR C_D OR C_SP) \<noteq> 0"

definition ispunct :: "char \<Rightarrow> bool" where
  "ispunct c \<longleftrightarrow> ismask c AND C_P \<noteq> 0"

definition isspace :: "char \<Rightarrow> bool" where
  "isspace c \<longleftrightarrow> ismask c AND C_S \<noteq> 0"

definition isupper :: "char \<Rightarrow> bool" where
  "isupper c \<longleftrightarrow> ismask c AND C_U \<noteq> 0"

definition isxdigit :: "char \<Rightarrow> bool" where
  "isxdigit c \<longleftrightarrow> ismask c AND (C_D OR C_X) \<noteq> 0"

definition tolower :: "char \<Rightarrow> char" where
  "tolower c = (if isupper c then char_of_byte (byte_of c - (byte_of CHR ''A'' - byte_of CHR ''a'')) else c)"

definition toupper :: "char \<Rightarrow> char" where
  "toupper c = (if islower c then char_of_byte (byte_of c - (byte_of CHR ''a'' - byte_of CHR ''A'')) else c)"

section \<open>Parsing numbers\<close>

text \<open>The value of a digit, an \<open>unsigned long\<close>.\<close>

definition digit_value :: "char \<Rightarrow> 'a::len word" where
  "digit_value c =
     (if isdigit c then of_nat (of_char c) - of_nat (of_char CHR ''0'')
      else of_nat (of_char (if islower c then toupper c else c)) - of_nat (of_char CHR ''A'') + 10)"

text \<open>The digit loop, at the width of the result: 32 bits in \<open>simple_strtoul\<close>, 64 in
  \<open>simple_strtoull\<close>.\<close>

fun strtoul_digits :: "'a::len word \<Rightarrow> 'a word \<Rightarrow> string \<Rightarrow> 'a word \<times> string" where
  "strtoul_digits base result [] = (result, [])"
| "strtoul_digits base result (c # cp) =
     (if isxdigit c \<and> digit_value c < base
      then strtoul_digits base (result * base + digit_value c) cp
      else (result, c # cp))"

definition strtoul_base :: "string \<Rightarrow> u32 \<Rightarrow> u32 \<times> string" where
  "strtoul_base cp base =
     (let (base, cp) =
        (if peek cp 0 = CHR ''0'' then
           let cp = tl cp;
               (base, cp) = (if peek cp 0 = CHR ''x'' \<and> isxdigit (peek cp 1) then (16, tl cp) else (base, cp))
           in (if base = 0 then 8 else base, cp)
         else (base, cp))
      in (if base = 0 then 10 else base, cp))"

definition simple_strtoul :: "string \<Rightarrow> u32 \<Rightarrow> u32 \<times> string" where
  "simple_strtoul cp base = (let (base, cp) = strtoul_base cp base in strtoul_digits base 0 cp)"

definition simple_strtol :: "string \<Rightarrow> u32 \<Rightarrow> u32 \<times> string" where
  "simple_strtol cp base =
     (if peek cp 0 = CHR ''-''
      then let (r, e) = simple_strtoul (tl cp) base in (- r, e)
      else simple_strtoul cp base)"

definition ustrtoul :: "string \<Rightarrow> u32 \<Rightarrow> u32 \<times> string" where
  "ustrtoul cp base =
     (let (result, e) = simple_strtoul cp base;
          c = peek e 0;
          result = (if c = CHR ''G'' then result * 1024 else result);
          result = (if c \<in> {CHR ''G'', CHR ''M''} then result * 1024 else result)
      in if c \<in> {CHR ''G'', CHR ''M'', CHR ''K'', CHR ''k''}
         then (result * 1024,
           if peek e 1 = CHR ''i'' then if peek e 2 = CHR ''B'' then drop 3 e else drop 2 e else e)
         else (result, e))"

definition simple_strtoull :: "string \<Rightarrow> u32 \<Rightarrow> u64 \<times> string" where
  "simple_strtoull cp base = (let (base, cp) = strtoul_base cp base in strtoul_digits (ucast base) 0 cp)"

section \<open>File names\<close>

text \<open>\<open>copy_filename(dst, src, size)\<close> of net/net.c; the size includes the terminating NUL.\<close>

fun copy_filename_loop :: "int \<Rightarrow> string \<Rightarrow> string" where
  "copy_filename_loop sz [] = []"
| "copy_filename_loop sz (c # src) =
     (if sz - 1 > 0 \<and> c \<noteq> CHR 0x22 then c # copy_filename_loop (sz - 1) src else [])"

definition copy_filename :: "string \<Rightarrow> int \<Rightarrow> string" where
  "copy_filename src sz =
     (if peek src 0 = CHR 0x22 then copy_filename_loop (sz - 1) (tl src) else copy_filename_loop sz src)"

section \<open>The classes by character code\<close>

lemma ctype_digit: "map (\<lambda>w. w AND C_D \<noteq> 0) ctype = replicate 48 False @ replicate 10 True @ replicate 198 False"
  by code_simp

lemma ctype_xdigit: "map (\<lambda>w. w AND (C_D OR C_X) \<noteq> 0) ctype =
    replicate 48 False @ replicate 10 True @ replicate 7 False @ replicate 6 True @
    replicate 26 False @ replicate 6 True @ replicate 153 False"
  by code_simp

lemma ctype_lower: "map (\<lambda>w. w AND C_L \<noteq> 0) ctype =
    replicate 97 False @ replicate 26 True @ replicate 100 False @ replicate 24 True @ [False] @ replicate 8 True"
  by code_simp

lemma length_ctype: "length ctype = 256"
  by (simp add: ctype_def)

lemma ctype_nth: "n < 256 \<Longrightarrow> P (ctype ! n) \<longleftrightarrow> map P ctype ! n"
  by (simp add: length_ctype)

lemma ctype_nth_digit: "n < 256 \<Longrightarrow> ctype ! n AND C_D \<noteq> 0 \<longleftrightarrow> n \<in> {48..57 :: nat}"
  unfolding ctype_nth [of _ "\<lambda>w. w AND C_D \<noteq> 0"] ctype_digit by (auto simp: nth_append)

lemma isdigit_iff: "isdigit c \<longleftrightarrow> of_char c \<in> {48..57 :: nat}"
  unfolding isdigit_def ismask_def by (rule ctype_nth_digit [OF of_char_less])

lemma ctype_nth_xdigit: "n < 256 \<Longrightarrow> ctype ! n AND (C_D OR C_X) \<noteq> 0 \<longleftrightarrow> n \<in> {48..57} \<union> {65..70} \<union> {97..102 :: nat}"
  unfolding ctype_nth [of _ "\<lambda>w. w AND (C_D OR C_X) \<noteq> 0"] ctype_xdigit by (auto simp: nth_append)

lemma isxdigit_iff: "isxdigit c \<longleftrightarrow> of_char c \<in> {48..57} \<union> {65..70} \<union> {97..102 :: nat}"
  unfolding isxdigit_def ismask_def by (rule ctype_nth_xdigit [OF of_char_less])

lemma ctype_nth_lower: "n < 256 \<Longrightarrow> ctype ! n AND C_L \<noteq> 0 \<longleftrightarrow> n \<in> {97..122} \<union> {223..246} \<union> {248..255 :: nat}"
  unfolding ctype_nth [of _ "\<lambda>w. w AND C_L \<noteq> 0"] ctype_lower by (auto simp: nth_append)

lemma islower_iff: "islower c \<longleftrightarrow> of_char c \<in> {97..122} \<union> {223..246} \<union> {248..255 :: nat}"
  unfolding islower_def ismask_def by (rule ctype_nth_lower [OF of_char_less])

section \<open>What the parsers compute\<close>

text \<open>The digit a character stands for, and the number a list of digits stands for.\<close>

definition digit :: "char \<Rightarrow> nat" where
  "digit c = (if isdigit c then of_char c - 48 else if islower c then of_char c - 87 else of_char c - 55)"

definition numeral_value :: "nat \<Rightarrow> string \<Rightarrow> nat" where
  "numeral_value base ds = foldl (\<lambda>n c. n * base + digit c) 0 ds"

definition is_digit_of :: "nat \<Rightarrow> char \<Rightarrow> bool" where
  "is_digit_of base c \<longleftrightarrow> isxdigit c \<and> digit c < base"

lemma digit_less: "isxdigit c \<Longrightarrow> digit c < 16"
  by (auto simp: digit_def isdigit_iff isxdigit_iff islower_iff)

lemma toupper_lower:
  assumes "islower c" "of_char c \<in> {97..122 :: nat}"
  shows "(of_char (toupper c) :: nat) = of_char c - 32"
proof -
  have "byte_of CHR ''a'' - byte_of CHR ''A'' = 32" by (simp add: byte_of_def)
  moreover have "unat (byte_of c - 32) = of_char c - 32"
    using assms(2) by (subst unat_sub_le) (simp_all add: word_le_nat_alt unat_byte_of)
  moreover have "(of_char c - 32 :: nat) mod 256 = of_char c - 32" using assms(2)
    by (intro mod_less) (simp only: atLeastAtMost_iff, linarith)
  ultimately show ?thesis using assms by (simp add: toupper_def char_of_byte_def)
qed

lemma digit_value_eq:
  assumes "isxdigit c" "5 \<le> LENGTH('a)"
  shows "(digit_value c :: 'a::len word) = of_nat (digit c)"
proof -
  consider (dec) "of_char c \<in> {48..57 :: nat}" | (up) "of_char c \<in> {65..70 :: nat}" | (lo) "of_char c \<in> {97..102 :: nat}"
    using assms(1) unfolding isxdigit_iff by blast
  then show ?thesis
  proof cases
    case dec
    then have "(of_nat (of_char c - 48) :: 'a word) = of_nat (of_char c) - of_nat 48"
      by (intro of_nat_diff) simp
    then show ?thesis using dec by (simp add: digit_value_def digit_def isdigit_iff)
  next
    case up
    then have "(of_nat (of_char c - 55) :: 'a word) = of_nat (of_char c) - of_nat 55"
      by (intro of_nat_diff) simp
    then show ?thesis using up by (simp add: digit_value_def digit_def isdigit_iff islower_iff)
  next
    case lo
    then have l: "islower c" "\<not> isdigit c" by (simp_all add: islower_iff isdigit_iff)
    have "(of_nat (of_char c - 87) :: 'a word) = of_nat (of_char c) - of_nat 87"
      "(of_nat (of_char c - 32) :: 'a word) = of_nat (of_char c) - of_nat 32"
      using lo by (simp_all add: of_nat_diff)
    then show ?thesis using l lo by (simp add: digit_value_def digit_def toupper_lower)
  qed
qed

lemma numeral_value_snoc [simp]: "numeral_value b (ds @ [c]) = numeral_value b ds * b + digit c"
  by (simp add: numeral_value_def)

lemma numeral_value_Nil [simp]: "numeral_value b [] = 0"
  by (simp add: numeral_value_def)

lemma digit_value_less:
  assumes "isxdigit c" "5 \<le> LENGTH('a)"
  shows "(digit_value c :: 'a::len word) < base \<longleftrightarrow> digit c < unat base"
proof -
  have "(2 :: nat) ^ 5 \<le> 2 ^ LENGTH('a)" using assms(2) by (rule power_increasing) simp
  then have "unat (of_nat (digit c) :: 'a word) = digit c"
    using digit_less [OF assms(1)] by (simp add: unat_of_nat)
  then show ?thesis by (simp add: digit_value_eq [OF assms] word_less_nat_alt)
qed

lemma strtoul_digits_spec:
  assumes "5 \<le> LENGTH('a)" "\<forall>c\<in>set ds. is_digit_of (unat base) c" "rest \<noteq> [] \<longrightarrow> \<not> is_digit_of (unat base) (hd rest)"
  shows "strtoul_digits (base :: 'a::len word) (of_nat n) (ds @ rest) =
    (of_nat (foldl (\<lambda>n c. n * unat base + digit c) n ds), rest)"
  using assms(2)
proof (induction ds arbitrary: n)
  case Nil
  then show ?case
    using assms(1,3) by (cases rest) (auto simp: is_digit_of_def digit_value_less)
next
  case (Cons c ds)
  then have c: "isxdigit c" "digit c < unat base" by (simp_all add: is_digit_of_def)
  have step: "(of_nat n :: 'a word) * base + digit_value c = of_nat (n * unat base + digit c)"
    unfolding digit_value_eq [OF c(1) assms(1)] by simp
  have "(digit_value c :: 'a word) < base" using c assms(1) by (simp only: digit_value_less)
  then have "strtoul_digits base (of_nat n) ((c # ds) @ rest) =
      strtoul_digits base (of_nat (n * unat base + digit c)) (ds @ rest)"
    using c(1) by (simp add: step del: of_nat_add of_nat_mult)
  then show ?case using Cons by (simp del: of_nat_add of_nat_mult)
qed

text \<open>Every string splits into its longest prefix of digits and the rest.\<close>

definition digits_of :: "nat \<Rightarrow> string \<Rightarrow> string" where
  "digits_of base s = takeWhile (is_digit_of base) s"

lemma strtoul_digits_total:
  assumes "5 \<le> LENGTH('a)"
  shows "strtoul_digits (base :: 'a::len word) 0 s =
    (of_nat (numeral_value (unat base) (digits_of (unat base) s)), dropWhile (is_digit_of (unat base)) s)"
  using strtoul_digits_spec [OF assms, of "digits_of (unat base) s" base "dropWhile (is_digit_of (unat base)) s" 0]
    hd_dropWhile [of "is_digit_of (unat base)" s]
  by (auto simp: digits_of_def numeral_value_def dest: set_takeWhileD)

lemma simple_strtoul_spec:
  "simple_strtoul s base =
     (let hex = (\<exists>c t. s = CHR ''0'' # CHR ''x'' # c # t \<and> isxdigit c);
          zero = (\<exists>t. s = CHR ''0'' # t);
          b = (if hex then 16 else if base \<noteq> 0 then unat base else if zero then 8 else 10);
          t = (if hex then drop 2 s else if zero then drop 1 s else s)
      in (of_nat (numeral_value b (takeWhile (is_digit_of b) t)), dropWhile (is_digit_of b) t))"
proof -
  have n: "isxdigit NUL = False" by (simp add: isxdigit_iff)
  consider (hex) c t where "s = CHR ''0'' # CHR ''x'' # c # t" "isxdigit c"
    | (zero) t where "s = CHR ''0'' # t" "\<not> (\<exists>c u. t = CHR ''x'' # c # u \<and> isxdigit c)"
    | (plain) "\<not> (\<exists>t. s = CHR ''0'' # t)"
    by blast
  then show ?thesis
  proof cases
    case hex
    then show ?thesis
      by (simp add: simple_strtoul_def strtoul_base_def strtoul_digits_total digits_of_def)
  next
    case zero
    then have "\<not> (peek t 0 = CHR ''x'' \<and> isxdigit (peek t 1))"
      using n by (cases t; cases "tl t") auto
    then show ?thesis using zero
      by (auto simp: simple_strtoul_def strtoul_base_def strtoul_digits_total digits_of_def Let_def)
  next
    case plain
    then have "peek s 0 \<noteq> CHR ''0''" by (cases s) auto
    then show ?thesis using plain
      by (auto simp: simple_strtoul_def strtoul_base_def strtoul_digits_total digits_of_def Let_def)
  qed
qed

text \<open>C19: For every string and base, \<open>simple_strtoul\<close> strips the prefix 0 or 0x, which selects the
  base 8 or 16 as in the C library except that 0x overrides an explicit base, and then returns
  the value of the longest run of digits below the base, modulo \<open>2 ^ 32\<close>, and the rest.\<close>

theorem simple_strtoul_correct:
  "simple_strtoul s base =
     (let hex = (\<exists>c t. s = CHR ''0'' # CHR ''x'' # c # t \<and> isxdigit c);
          zero = (\<exists>t. s = CHR ''0'' # t);
          b = (if hex then 16 else if base \<noteq> 0 then unat base else if zero then 8 else 10);
          t = (if hex then drop 2 s else if zero then drop 1 s else s)
      in (of_nat (numeral_value b (takeWhile (is_digit_of b) t)), dropWhile (is_digit_of b) t))"
  by (rule simple_strtoul_spec)

end
