(* ===== verification/Env.thy ===== *)
theory Env
  imports Crc32 Eeprom Strtoul
begin

text \<open>
  The environment: common/env_common.c, common/env_eeprom.c, include/environment.h and the
  environment commands of common/cmd_nvedit.c, for the board's settings (environment in the
  I2C EEPROM, \<open>CONFIG_ENV_SIZE\<close> 0x400, no redundant copy, \<open>CONFIG_ENV_OVERWRITE\<close>). Variables
  are kept as the strings \<open>name=value\<close>, each followed by NUL, in a fixed array that ends with
  an additional NUL. The model edits that array byte by byte as the code does; an access
  outside it is \<open>None\<close>.
\<close>

section \<open>State\<close>

abbreviation (input) CONFIG_ENV_SIZE :: nat where
  "CONFIG_ENV_SIZE \<equiv> 0x400"

abbreviation (input) ENV_SIZE :: nat where
  "ENV_SIZE \<equiv> 0x3fc"

abbreviation (input) CONFIG_SYS_DEF_EEPROM_ADDR :: u32 where
  "CONFIG_SYS_DEF_EEPROM_ADDR \<equiv> 0x54"

record env_t =
  stored_crc :: u32
  env_data :: string

text \<open>The globals the environment code reads and writes: \<open>*env_ptr\<close>, the counter \<open>env_id\<close>,
  the fields of \<open>gd\<close> and \<open>bd\<close>, and the console input that is waiting to be read.\<close>

record 'b env_state =
  env_ptr :: env_t
  env_id :: u32
  env_valid :: bool
  gd_reloc :: bool
  gd_baudrate :: u32
  bi_baudrate :: u32
  bi_ip_addr :: u32
  load_addr :: u32
  BootFile :: string
  con_input :: string
  i2c_bus :: 'b

definition default_entries :: "string list" where
  "default_entries =
     [''baudrate=115200'', ''loads_echo=1'', ''hostname=Sam460ex'',
      ''stdout=vga'', ''stdin=usbkbd'', ''hush=0'', ''ide_doreset=on'', ''ide_reset_timeout=15'',
      ''ide_cd_timeout=20'', ''pcie_mode=RP:RP'', ''pciconfighost=1'', ''ipaddr=192.168.2.50'',
      ''serverip=192.168.2.222'', ''ethaddr=00:50:C2:80:D5:00'', ''video_activate=pci'',
      ''menuboot_delay=2'', ''boota_timeout=2'', ''bootcmd=menu; run menuboot_cmd'',
      ''menucmd=menu'', ''menuboot_cmd=boota'', ''boot_method=boota'', ''boot1=ssiicdrom'',
      ''boot2=ssii'', ''boot3=usb'', ''s4sii_maxbus=1'', ''os4_commandline=debuglevel=0'',
      ''bootargs=root=/dev/sda3 console=tty0'', ''serdes=pci-e'', ''usb_enable_4x0=1'',
      ''usb_retry=1'', ''usb_ohci_power_down_before_reset=1'', ''scan_usb_storage=1'']"

text \<open>The array has one more NUL than the literal writes, the terminator of the literal.\<close>

definition default_environment :: string where
  "default_environment = concat (map (\<lambda>e. e @ [NUL]) default_entries) @ [NUL, NUL]"

section \<open>Reading\<close>

text \<open>\<open>env_get_char\<close> with \<open>env_get_char_memory\<close> and \<open>env_get_char_init\<close>: before relocation the
  bytes come from the EEPROM one at a time.\<close>

definition env_get_char_memory :: "'b env_state \<Rightarrow> nat \<Rightarrow> char option" where
  "env_get_char_memory st i =
     (if env_valid st then rd (env_data (env_ptr st)) i else rd default_environment i)"

definition env_get_char_spec :: "'b i2c_reader \<Rightarrow> 'b env_state \<Rightarrow> nat \<Rightarrow> char option" where
  "env_get_char_spec i2c_read st i =
     (case eeprom_read i2c_read CONFIG_SYS_DEF_EEPROM_ADDR (of_nat (i + 4)) 1 (i2c_bus st) of
        (rc, bytes, bus) \<Rightarrow> (case bytes of [b] \<Rightarrow> Some (char_of_byte b) | _ \<Rightarrow> None))"

definition env_get_char_init :: "'b i2c_reader \<Rightarrow> 'b env_state \<Rightarrow> nat \<Rightarrow> char option" where
  "env_get_char_init i2c_read st i =
     (if env_valid st then env_get_char_spec i2c_read st i else rd default_environment i)"

definition env_get_char :: "'b i2c_reader \<Rightarrow> 'b env_state \<Rightarrow> nat \<Rightarrow> char option" where
  "env_get_char i2c_read st i =
     (if gd_reloc st then env_get_char_memory st i else env_get_char_init i2c_read st i)"

text \<open>\<open>envmatch\<close>, over any reader of the environment. Running past the terminator of \<open>s1\<close>
  (an entry without an equal sign) has no defined result.\<close>

fun envmatch :: "(nat \<Rightarrow> char option) \<Rightarrow> string \<Rightarrow> nat \<Rightarrow> int option" where
  "envmatch get [] i2 = do {
     c \<leftarrow> get i2;
     if c = NUL then None else if c = CHR ''='' then Some (int (i2 + 1)) else Some (-1)
   }"
| "envmatch get (x # s1) i2 = do {
     c \<leftarrow> get i2;
     if x = c then if x = CHR ''='' then Some (int (i2 + 1)) else envmatch get s1 (i2 + 1)
     else Some (-1)
   }"

text \<open>The scan for the end of an entry in \<open>getenv\<close> and \<open>getenv_r\<close>: \<open>Some None\<close> is the early
  return at \<open>CONFIG_ENV_SIZE\<close>.\<close>

function env_entry_end :: "(nat \<Rightarrow> char option) \<Rightarrow> nat \<Rightarrow> nat option option" where
  "env_entry_end get nxt = do {
     c \<leftarrow> get nxt;
     if c = NUL then Some (Some nxt)
     else if nxt \<ge> CONFIG_ENV_SIZE then Some None
     else env_entry_end get (nxt + 1)
   }"
  by pat_completeness auto
termination
  by (relation "measure (\<lambda>(get, nxt). CONFIG_ENV_SIZE - nxt)") auto

declare env_entry_end.simps [simp del]

lemma env_entry_end_bounds: "env_entry_end get i = Some (Some n) \<Longrightarrow> i \<le> n \<and> n \<le> max i CONFIG_ENV_SIZE"
proof (induction get i rule: env_entry_end.induct)
  case (1 get nxt)
  from "1.prems" show ?case
    by (subst (asm) env_entry_end.simps) (auto split: Option.bind_splits if_splits dest: "1.IH")
qed

lemma env_entry_end_progress:
  assumes "get i = Some c" "c \<noteq> NUL" "env_entry_end get i = Some (Some n)"
  shows "CONFIG_ENV_SIZE - n < CONFIG_ENV_SIZE + 1 - i"
proof -
  have "i < CONFIG_ENV_SIZE" using assms by (subst (asm) env_entry_end.simps) (auto split: if_splits)
  with env_entry_end_bounds [OF assms(3)] show ?thesis by auto
qed

text \<open>The search shared by \<open>getenv\<close> and \<open>getenv_r\<close>: the index of the value.\<close>

function env_lookup :: "(nat \<Rightarrow> char option) \<Rightarrow> string \<Rightarrow> nat \<Rightarrow> nat option option" where
  "env_lookup get name i = do {
     c \<leftarrow> get i;
     if c = NUL then Some None
     else do {
       e \<leftarrow> env_entry_end get i;
       case e of None \<Rightarrow> Some None
       | Some nxt \<Rightarrow> do {
           v \<leftarrow> envmatch get name i;
           if v < 0 then env_lookup get name (nxt + 1) else Some (Some (nat v))
         }
     }
   }"
  by pat_completeness auto
termination
  by (relation "measure (\<lambda>(get, name, i). CONFIG_ENV_SIZE + 1 - i)")
    (auto dest: env_entry_end_progress)

declare env_lookup.simps [simp del]

text \<open>The pointer that \<open>getenv\<close> returns is \<open>env_get_addr(val)\<close>: here the index \<open>val\<close>.\<close>

definition getenv :: "'b i2c_reader \<Rightarrow> 'b env_state \<Rightarrow> string \<Rightarrow> nat option option" where
  "getenv i2c_read st name = env_lookup (env_get_char i2c_read st) name 0"

text \<open>The copy loop of \<open>getenv_r\<close>: \<open>n\<close> counts the evaluations of the loop condition, \<open>buf\<close> is the
  caller's buffer and \<open>k\<close> the position of the buffer pointer in it.\<close>

function getenv_copy :: "(nat \<Rightarrow> char option) \<Rightarrow> nat \<Rightarrow> nat \<Rightarrow> nat \<Rightarrow> nat \<Rightarrow> string \<Rightarrow> (nat \<times> nat \<times> string) option" where
  "getenv_copy get val len n k buf =
     (if len > n then do {
        c \<leftarrow> get val;
        buf' \<leftarrow> wr buf k c;
        if c \<noteq> NUL then getenv_copy get (val + 1) len (n + 1) (k + 1) buf'
        else Some (n + 1, k + 1, buf')
      } else Some (n + 1, k, buf))"
  by pat_completeness auto
termination
  by (relation "measure (\<lambda>(get, val, len, n, k, buf). len - n)") auto

declare getenv_copy.simps [simp del]

definition getenv_r :: "'b i2c_reader \<Rightarrow> 'b env_state \<Rightarrow> string \<Rightarrow> string \<Rightarrow> nat \<Rightarrow> (int \<times> string) option" where
  "getenv_r i2c_read st name buf len = do {
     v \<leftarrow> env_lookup (env_get_char i2c_read st) name 0;
     case v of None \<Rightarrow> Some (-1, buf)
     | Some val \<Rightarrow> do {
         (n, k, buf) \<leftarrow> getenv_copy (env_get_char i2c_read st) val len 0 0 buf;
         buf \<leftarrow> (if len = n then wr buf k NUL else Some buf);
         Some (int n, buf)
       }
   }"

section \<open>Printing\<close>

text \<open>The \<open>do ... while\<close> of \<open>printenv\<close> copies an entry through a 16-character buffer (whose 17th
  character is NUL), writing it out when it is full. The console output is a string; \<open>buf\<close> and
  \<open>j\<close> are as in the code, \<open>pr\<close> is the condition \<open>state <= 1\<close>.\<close>

definition puts :: "string \<Rightarrow> string" where
  "puts buf = takeWhile (\<lambda>c. c \<noteq> NUL) buf"

partial_function (option) printenv_entry ::
  "(nat \<Rightarrow> char option) \<Rightarrow> bool \<Rightarrow> nat \<Rightarrow> nat \<Rightarrow> string \<Rightarrow> string \<Rightarrow> (nat \<times> nat \<times> string \<times> string) option" where
  [code]: "printenv_entry get pr i j buf out = do {
     c \<leftarrow> get i;
     buf' \<leftarrow> wr buf j c;
     let (j', out') = (if j + 1 = 16 then (0, if pr then out @ puts buf' else out) else (j + 1, out));
     if c \<noteq> NUL then printenv_entry get pr (i + 1) j' buf' out'
     else Some (i + 1, j', buf', out')
   }"

text \<open>\<open>printenv(name, state)\<close>: the answers of \<open>ctrlc\<close> are an argument, one per entry printed.\<close>

partial_function (option) printenv_loop ::
  "(nat \<Rightarrow> char option) \<Rightarrow> (nat \<Rightarrow> bool) \<Rightarrow> string \<Rightarrow> nat \<Rightarrow> nat \<Rightarrow> string \<Rightarrow> string \<Rightarrow> (int \<times> string) option" where
  [code]: "printenv_loop get ctrlc name state i buf out =
     (if state = 0 then Some (0, out)
      else do {
        c \<leftarrow> get i;
        if c = NUL then Some (int i, out)
        else do {
          m \<leftarrow> (if state = 2 then envmatch get name i else Some (-1));
          let state' = (if state = 2 \<and> m \<ge> 0 then 0 else state);
          (i', j, buf', out') \<leftarrow> printenv_entry get (state' \<le> 1) i 0 buf out;
          let out'' = (if state' \<le> 1 then out' @ (if j \<noteq> 0 then puts buf' else []) @ [CHR 0x0a] else out');
          if ctrlc i' then Some (-1, out'')
          else printenv_loop get ctrlc name state' i' buf' out''
        }
      })"

definition printenv ::
  "(nat \<Rightarrow> char option) \<Rightarrow> (nat \<Rightarrow> bool) \<Rightarrow> string \<Rightarrow> nat \<Rightarrow> string \<Rightarrow> (int \<times> string) option" where
  "printenv get ctrlc name state buf = printenv_loop get ctrlc name state 0 (take 16 buf @ [NUL]) []"

section \<open>Setting and deleting variables\<close>

text \<open>Loops over the array \<open>d\<close> at \<open>env_data\<close>; the pointers \<open>env\<close> and \<open>nxt\<close> are indices into it.\<close>

function env_strend :: "string \<Rightarrow> nat \<Rightarrow> nat option" where
  "env_strend d nxt = do { c \<leftarrow> rd d nxt; if c = NUL then Some nxt else env_strend d (nxt + 1) }"
  by pat_completeness auto
termination
  by (relation "measure (\<lambda>(d, nxt). length d - nxt)") (auto simp: rd_def split: if_splits)

declare env_strend.simps [simp del]

lemma env_strend_ge: "env_strend d i = Some n \<Longrightarrow> i \<le> n \<and> n < length d"
proof (induction d i rule: env_strend.induct)
  case (1 d nxt)
  show ?case
    using "1.prems" "1.IH" [of "d ! nxt"]
    by (cases "nxt < length d"; subst (asm) (2) env_strend.simps) (auto split: if_splits)
qed

function env_find :: "string \<Rightarrow> string \<Rightarrow> nat \<Rightarrow> (nat \<times> nat) option option" where
  "env_find d name env = do {
     c \<leftarrow> rd d env;
     if c = NUL then Some None
     else do {
       nxt \<leftarrow> env_strend d env;
       oldval \<leftarrow> envmatch (rd d) name env;
       if oldval \<ge> 0 then Some (Some (env, nxt)) else env_find d name (nxt + 1)
     }
   }"
  by pat_completeness auto
termination
  by (relation "measure (\<lambda>(d, name, env). length d - env)")
    (auto dest!: env_strend_ge simp: rd_def split: if_splits)

declare env_find.simps [simp del]

function env_shift :: "string \<Rightarrow> nat \<Rightarrow> nat \<Rightarrow> (string \<times> nat) option" where
  "env_shift d env nxt = do {
     c \<leftarrow> rd d nxt;
     d' \<leftarrow> wr d env c;
     c' \<leftarrow> rd d' (nxt + 1);
     if c = NUL \<and> c' = NUL then Some (d', env) else env_shift d' (env + 1) (nxt + 1)
   }"
  by pat_completeness auto
termination
  by (relation "measure (\<lambda>(d, env, nxt). length d - nxt)") (auto simp: rd_def wr_def split: if_splits)

declare env_shift.simps [simp del]

definition env_delete :: "string \<Rightarrow> nat \<Rightarrow> nat \<Rightarrow> string option" where
  "env_delete d env nxt = do {
     c \<leftarrow> rd d (nxt + 1);
     (d, env) \<leftarrow>
       (if c = NUL then
          if env > 0 then Some (d, env - 1)
          else do { d \<leftarrow> wr d env NUL; Some (d, env) }
        else env_shift d env (nxt + 1));
     wr d (env + 1) NUL
   }"

text \<open>The end of the environment, where the next definition goes.\<close>

function env_dblnul :: "string \<Rightarrow> nat \<Rightarrow> nat option" where
  "env_dblnul d env = do {
     c \<leftarrow> rd d env;
     if c \<noteq> NUL then env_dblnul d (env + 1)
     else do { c' \<leftarrow> rd d (env + 1); if c' \<noteq> NUL then env_dblnul d (env + 1) else Some env }
   }"
  by pat_completeness auto
termination
  by (relation "measure (\<lambda>(d, env). length d - env)") (auto simp: rd_def split: if_splits)

declare env_dblnul.simps [simp del]

fun env_put :: "string \<Rightarrow> nat \<Rightarrow> string \<Rightarrow> (string \<times> nat) option" where
  "env_put d env [] = do { d \<leftarrow> wr d env NUL; Some (d, env) }"
| "env_put d env (c # s) = do { d \<leftarrow> wr d env c; env_put d (env + 1) s }"

fun env_put_args :: "string \<Rightarrow> nat \<Rightarrow> char \<Rightarrow> string list \<Rightarrow> (string \<times> nat) option" where
  "env_put_args d env sep [] = Some (d, env)"
| "env_put_args d env sep (v # vs) = do {
     d \<leftarrow> wr d env sep;
     (d, env) \<leftarrow> env_put d (env + 1) v;
     env_put_args d env (CHR '' '') vs
   }"

text \<open>Appending: \<open>Inl ()\<close> when the new definition does not fit.\<close>

definition env_append :: "string \<Rightarrow> string \<Rightarrow> string list \<Rightarrow> (unit + string) option" where
  "env_append d name args = do {
     env \<leftarrow> env_dblnul d 0;
     let env = (if env > 0 then env + 1 else env);
     let len = length name + 2 + sum_list (map (\<lambda>v. length v + 1) args);
     if int len > int ENV_SIZE - int env then Some (Inl ())
     else do {
       (d, env) \<leftarrow> env_put d env name;
       (d, env) \<leftarrow> env_put_args d env (CHR ''='') args;
       d \<leftarrow> wr d (env + 1) NUL;
       Some (Inr d)
     }
   }"

definition env_crc_of :: "string \<Rightarrow> u32" where
  "env_crc_of d = crc32 0 4 (map byte_of d)"

definition env_crc_update :: "'b env_state \<Rightarrow> 'b env_state" where
  "env_crc_update st = st\<lparr>env_ptr := (env_ptr st)\<lparr>stored_crc := env_crc_of (env_data (env_ptr st))\<rparr>\<rparr>"

definition baudrate_table :: "u32 list" where
  "baudrate_table = [300, 600, 1200, 2400, 4800, 9600, 19200, 38400, 57600, 115200, 230400]"

text \<open>Waiting for ENTER consumes the console input up to a carriage return; without one the
  loop does not return.\<close>

definition wait_for_enter :: "string \<Rightarrow> string option" where
  "wait_for_enter inp = (case dropWhile (\<lambda>c. c \<noteq> CHR 0x0d) inp of [] \<Rightarrow> None | c # rest \<Rightarrow> Some rest)"

definition switch_baudrate :: "'b env_state \<Rightarrow> string \<Rightarrow> (bool \<times> 'b env_state) option" where
  "switch_baudrate st arg =
     (let baudrate = fst (simple_strtoul arg 10) in
      if baudrate \<notin> set baudrate_table then Some (False, st)
      else do {
        inp \<leftarrow> wait_for_enter (con_input st);
        Some (True, st\<lparr>gd_baudrate := baudrate, bi_baudrate := baudrate, con_input := inp\<rparr>)
      })"

fun parse_ip :: "nat \<Rightarrow> u32 \<Rightarrow> string \<Rightarrow> u32" where
  "parse_ip 0 addr s = addr"
| "parse_ip (Suc i) addr s =
     (let (val, e) = simple_strtoul s 10
      in parse_ip i (push_bit 8 addr OR (val AND 0xff)) (tl e))"

text \<open>The variables that are also kept elsewhere.\<close>

definition setenv_effects :: "'b env_state \<Rightarrow> string \<Rightarrow> string \<Rightarrow> 'b env_state" where
  "setenv_effects st name val =
     (if name = ''ethaddr'' then st
      else if name = ''ipaddr'' then st\<lparr>bi_ip_addr := parse_ip 4 0 val\<rparr>
      else if name = ''loadaddr'' then st\<lparr>load_addr := fst (simple_strtoul val 16)\<rparr>
      else if name = ''bootfile'' then st\<lparr>BootFile := copy_filename val 128\<rparr>
      else st)"

text \<open>Assigning a console device is left to the device layer: \<open>console_assign\<close> and
  \<open>serial_assign\<close> are arguments and return a negative value on failure.\<close>

record console_dev =
  console_assign :: "nat \<Rightarrow> string \<Rightarrow> int"
  serial_assign :: "string \<Rightarrow> int"

definition console_of :: "string \<Rightarrow> nat option" where
  "console_of name =
     (if name = ''stdin'' then Some 0 else if name = ''stdout'' then Some 1
      else if name = ''stderr'' then Some 2 else None)"

text \<open>\<open>_do_setenv(flag, argc, argv)\<close>; elements of \<open>argv\<close> from the length of the list on are
  NULL, and using one as a string has no defined result. The function needs the copy of the
  environment in RAM: before relocation \<open>env_get_addr\<close> does not point to one.\<close>

definition do_setenv_args :: "console_dev \<Rightarrow> nat \<Rightarrow> string list \<Rightarrow> 'b env_state \<Rightarrow> (int \<times> 'b env_state) option" where
  "do_setenv_args dev argc argv st =
     (if \<not> (gd_reloc st \<and> env_valid st) then None
      else do {
        name \<leftarrow> rd argv 1;
        if CHR ''='' \<in> set name then Some (1, st)
        else do {
          let st = st\<lparr>env_id := env_id st + 1\<rparr>;
          old \<leftarrow> env_find (env_data (env_ptr st)) name 0;
          con \<leftarrow> (case console_of name of None \<Rightarrow> Some (Some 0)
                  | Some c \<Rightarrow>
                      if argc < 3 then Some None
                      else do {
                        v \<leftarrow> rd argv 2;
                        Some (if console_assign dev c v < 0 \<or> serial_assign dev v < 0 then None else Some 0)
                      });
          case con of None \<Rightarrow> Some (1, st)
          | Some (_ :: nat) \<Rightarrow> do {
              (ok, st) \<leftarrow>
                (case old of None \<Rightarrow> Some (True, st)
                 | Some (e, nxt) \<Rightarrow> do {
                     (ok, st) \<leftarrow> (if name = ''baudrate''
                                 then do { v \<leftarrow> rd argv 2; switch_baudrate st v }
                                 else Some (True, st));
                     if \<not> ok then Some (False, st)
                     else do {
                       d \<leftarrow> env_delete (env_data (env_ptr st)) e nxt;
                       Some (True, st\<lparr>env_ptr := (env_ptr st)\<lparr>env_data := d\<rparr>\<rparr>)
                     }
                   });
              if \<not> ok then Some (1, st)
              else if argc < 3 \<or> length argv \<le> 2 then Some (0, env_crc_update st)
              else do {
                r \<leftarrow> env_append (env_data (env_ptr st)) name (drop 2 (take argc argv));
                case r of Inl _ \<Rightarrow> Some (1, st)
                | Inr d \<Rightarrow>
                    Some (0, setenv_effects (env_crc_update (st\<lparr>env_ptr := (env_ptr st)\<lparr>env_data := d\<rparr>\<rparr>)) name (argv ! 2))
              }
            }
        }
      })"

text \<open>\<open>setenv(varname, varvalue)\<close>; \<open>None\<close> is a NULL value.\<close>

definition setenv :: "console_dev \<Rightarrow> string \<Rightarrow> string option \<Rightarrow> 'b env_state \<Rightarrow> (int \<times> 'b env_state) option" where
  "setenv dev varname varvalue st =
     (case varvalue of
        None \<Rightarrow> do_setenv_args dev 2 [''setenv'', varname] st
      | Some v \<Rightarrow> if v = [] then do_setenv_args dev 2 [''setenv'', varname, v] st
                  else do_setenv_args dev 3 [''setenv'', varname, v] st)"

definition do_setenv :: "console_dev \<Rightarrow> string list \<Rightarrow> 'b env_state \<Rightarrow> (int \<times> 'b env_state) option" where
  "do_setenv dev argv st =
     (if length argv < 2 then Some (1, st) else do_setenv_args dev (length argv) argv st)"

section \<open>Loading and saving\<close>

definition env_bytes :: "env_t \<Rightarrow> u8 list" where
  "env_bytes e = store_be32 (stored_crc e) @ map byte_of (env_data e)"

definition env_of_bytes :: "u8 list \<Rightarrow> env_t option" where
  "env_of_bytes bs =
     (case bs of b0 # b1 # b2 # b3 # ds \<Rightarrow>
        Some \<lparr>stored_crc = load_be32 b0 b1 b2 b3, env_data = map char_of_byte ds\<rparr>
      | _ \<Rightarrow> None)"

text \<open>The CRC loop of \<open>env_init\<close>, over pieces of at most 64 bytes.\<close>

function env_init_crc :: "'b i2c_reader \<Rightarrow> nat \<Rightarrow> nat \<Rightarrow> u32 \<Rightarrow> 'b \<Rightarrow> u32 \<times> 'b" where
  "env_init_crc i2c_read len off new bus =
     (if len > 0 then
        let n = (if len > 64 then 64 else len);
            (rc, buf, bus) = eeprom_read i2c_read CONFIG_SYS_DEF_EEPROM_ADDR (of_nat off) (of_nat n) bus
        in env_init_crc i2c_read (len - n) (off + n) (crc32 new 0 buf) bus
      else (new, bus))"
  by pat_completeness auto
termination
  by (relation "measure (\<lambda>(r, len, off, new, bus). len)") auto

declare env_init_crc.simps [simp del]

definition env_init :: "'b i2c_reader \<Rightarrow> 'b env_state \<Rightarrow> 'b env_state option" where
  "env_init i2c_read st =
     (let (rc, b, bus) = eeprom_read i2c_read CONFIG_SYS_DEF_EEPROM_ADDR 0 4 (i2c_bus st) in
      case b of [b0, b1, b2, b3] \<Rightarrow>
        let (new, bus) = env_init_crc i2c_read ENV_SIZE 4 0 bus
        in Some (st\<lparr>env_valid := (load_be32 b0 b1 b2 b3 = new), i2c_bus := bus\<rparr>)
      | _ \<Rightarrow> None)"

definition set_default_env :: "'b env_state \<Rightarrow> 'b env_state" where
  "set_default_env st =
     (if length default_environment > ENV_SIZE then st
      else (env_crc_update (st\<lparr>env_ptr := \<lparr>stored_crc = 0,
          env_data = default_environment @ replicate (ENV_SIZE - length default_environment) NUL\<rparr>\<rparr>))
        \<lparr>env_valid := True\<rparr>)"

definition env_relocate_spec :: "'b i2c_reader \<Rightarrow> 'b env_state \<Rightarrow> 'b env_state option" where
  "env_relocate_spec i2c_read st =
     (let (rc, bs, bus) = eeprom_read i2c_read CONFIG_SYS_DEF_EEPROM_ADDR 0 (of_nat CONFIG_ENV_SIZE) (i2c_bus st) in
      do { e \<leftarrow> env_of_bytes bs; Some (st\<lparr>env_ptr := e, i2c_bus := bus\<rparr>) })"

text \<open>\<open>env_relocate\<close> runs after relocation; the buffer it allocates is \<open>env\<close>.\<close>

definition env_relocate :: "'b i2c_reader \<Rightarrow> 'b env_state \<Rightarrow> 'b env_state option" where
  "env_relocate i2c_read st =
     (if \<not> env_valid st then Some (set_default_env st) else env_relocate_spec i2c_read st)"

definition saveenv :: "'b i2c_writer \<Rightarrow> 'b env_state \<Rightarrow> int \<times> 'b env_state" where
  "saveenv i2c_write st =
     (let (rc, bus) = eeprom_write i2c_write CONFIG_SYS_DEF_EEPROM_ADDR 0 (env_bytes (env_ptr st))
                        (of_nat CONFIG_ENV_SIZE) (i2c_bus st)
      in (rc, st\<lparr>i2c_bus := bus\<rparr>))"

definition do_saveenv :: "'b i2c_writer \<Rightarrow> 'b env_state \<Rightarrow> int \<times> 'b env_state" where
  "do_saveenv i2c_write st = (let (rc, st) = saveenv i2c_write st in (if rc \<noteq> 0 then 1 else 0, st))"

end
