(* ===== verification/EnvSpec.thy ===== *)
theory EnvSpec
  imports Env
begin

text \<open>
  What the environment means: the array of Env is the encoding of a list of entries
  \<open>name=value\<close> with distinct names, that is, of a finite map from names to values. The loops of
  the code are shown to read and edit the encoding.
\<close>

section \<open>Entries and their encoding\<close>

definition entry_name :: "string \<Rightarrow> string" where
  "entry_name e = takeWhile (\<lambda>c. c \<noteq> CHR ''='') e"

definition entry_value :: "string \<Rightarrow> string" where
  "entry_value e = tl (dropWhile (\<lambda>c. c \<noteq> CHR ''='') e)"

definition entry_ok :: "string \<Rightarrow> bool" where
  "entry_ok e \<longleftrightarrow> NUL \<notin> set e \<and> CHR ''='' \<in> set e"

definition name_ok :: "string \<Rightarrow> bool" where
  "name_ok n \<longleftrightarrow> NUL \<notin> set n \<and> CHR ''='' \<notin> set n"

definition encs :: "string list \<Rightarrow> string" where
  "encs es = concat (map (\<lambda>e. e @ [NUL]) es)"

definition lookup :: "string list \<Rightarrow> string \<Rightarrow> string option" where
  "lookup es n = map_option entry_value (find (\<lambda>e. entry_name e = n) es)"

definition env_repr :: "string \<Rightarrow> string list \<Rightarrow> bool" where
  "env_repr d es \<longleftrightarrow> length d = ENV_SIZE \<and> list_all entry_ok es \<and> distinct (map entry_name es) \<and>
     (\<exists>rest. d = encs es @ NUL # rest \<and> (es = [] \<longrightarrow> rest \<noteq> [] \<and> hd rest = NUL))"

definition cstring :: "string \<Rightarrow> nat \<Rightarrow> string" where
  "cstring d i = takeWhile (\<lambda>c. c \<noteq> NUL) (drop i d)"

lemma encs_simps [simp]: "encs [] = []" "encs (e # es) = e @ NUL # encs es" "encs (es @ fs) = encs es @ encs fs"
  by (simp_all add: encs_def)

lemma cstring_append [simp]: "NUL \<notin> set s \<Longrightarrow> cstring (pre @ s @ NUL # post) (length pre) = s"
  by (simp add: cstring_def takeWhile_append)

lemma entry_split: "entry_ok e \<Longrightarrow> e = entry_name e @ CHR ''='' # entry_value e"
proof -
  assume "entry_ok e"
  then have "dropWhile (\<lambda>c. c \<noteq> CHR ''='') e \<noteq> []" by (auto simp: entry_ok_def dropWhile_eq_Nil_conv)
  then have "dropWhile (\<lambda>c. c \<noteq> CHR ''='') e = CHR ''='' # entry_value e"
    using hd_dropWhile [of "\<lambda>c. c \<noteq> CHR ''=''" e] by (cases "dropWhile (\<lambda>c. c \<noteq> CHR ''='') e") (auto simp: entry_value_def)
  then show ?thesis using takeWhile_dropWhile_id [of "\<lambda>c. c \<noteq> CHR ''=''" e] by (simp add: entry_name_def)
qed

lemma entry_make:
  assumes "name_ok n"
  shows "entry_name (n @ CHR ''='' # v) = n" "entry_value (n @ CHR ''='' # v) = v"
    "NUL \<notin> set v \<Longrightarrow> entry_ok (n @ CHR ''='' # v)"
proof -
  have n: "\<forall>c\<in>set n. c \<noteq> CHR ''=''" using assms by (auto simp: name_ok_def)
  then show "entry_name (n @ CHR ''='' # v) = n" "entry_value (n @ CHR ''='' # v) = v"
    by (simp_all add: entry_name_def entry_value_def takeWhile_append2 dropWhile_append2)
  show "NUL \<notin> set v \<Longrightarrow> entry_ok (n @ CHR ''='' # v)" using assms by (auto simp: entry_ok_def name_ok_def)
qed

lemma entry_nonempty: "entry_ok e \<Longrightarrow> e \<noteq> []"
  by (auto simp: entry_ok_def)

section \<open>Reading the encoding\<close>

text \<open>A reader that sees the string \<open>w\<close> from index \<open>i\<close> on.\<close>

definition sees :: "(nat \<Rightarrow> char option) \<Rightarrow> nat \<Rightarrow> string \<Rightarrow> bool" where
  "sees get i w \<longleftrightarrow> (\<forall>k < length w. get (i + k) = Some (w ! k))"

lemma sees_Cons [simp]: "sees get i (c # w) \<longleftrightarrow> get i = Some c \<and> sees get (Suc i) w"
  by (auto simp: sees_def less_Suc_eq_0_disj)

lemma sees_Nil [simp]: "sees get i []"
  by (simp add: sees_def)

lemma sees_append [simp]: "sees get i (v @ w) \<longleftrightarrow> sees get i v \<and> sees get (i + length v) w"
  by (induction v arbitrary: i) auto

lemma sees_rd: "sees (rd (pre @ w @ post)) (length pre) w"
  by (auto simp: sees_def rd_def nth_append)

lemma envmatch_entry:
  assumes "entry_ok e" "name_ok name" "sees get i (e @ [NUL])"
  shows "envmatch get name i = Some (if entry_name e = name then int (i + length name + 1) else -1)"
  using assms
proof (induction name arbitrary: e i)
  case Nil
  obtain c e' where e: "e = c # e'" using entry_nonempty Nil.prems(1) by (cases e) auto
  then show ?case using Nil by (auto simp: entry_name_def entry_ok_def)
next
  case (Cons x name)
  obtain c e' where e: "e = c # e'" using entry_nonempty Cons.prems(1) by (cases e) auto
  show ?case
  proof (cases "x = c")
    case False
    then show ?thesis using Cons.prems e by (auto simp: entry_name_def name_ok_def)
  next
    case True
    then have "x \<noteq> CHR ''=''" "entry_ok e'" "name_ok name"
      using Cons.prems e by (auto simp: name_ok_def entry_ok_def)
    then show ?thesis using Cons True e by (auto simp: entry_name_def)
  qed
qed

lemma env_entry_end_entry:
  assumes "NUL \<notin> set e" "sees get i (e @ [NUL])" "i + length e \<le> CONFIG_ENV_SIZE"
  shows "env_entry_end get i = Some (Some (i + length e))"
  using assms
proof (induction e arbitrary: i)
  case Nil
  then show ?case by (subst env_entry_end.simps) simp
next
  case (Cons c e)
  then show ?case by (subst env_entry_end.simps) auto
qed

text \<open>The index \<open>env_lookup\<close> returns.\<close>

fun value_index :: "nat \<Rightarrow> string list \<Rightarrow> string \<Rightarrow> nat option" where
  "value_index i [] n = None"
| "value_index i (e # es) n =
     (if entry_name e = n then Some (i + length n + 1) else value_index (i + length e + 1) es n)"

lemma env_lookup_entries:
  assumes "list_all entry_ok es" "name_ok n" "sees get i (encs es @ [NUL])" "i + length (encs es) \<le> CONFIG_ENV_SIZE"
  shows "env_lookup get n i = Some (value_index i es n)"
  using assms
proof (induction es arbitrary: i)
  case Nil
  then show ?case by (subst env_lookup.simps) simp
next
  case (Cons e es)
  have e: "entry_ok e" using Cons.prems by simp
  then obtain c e' where ce: "e = c # e'" "c \<noteq> NUL" using entry_nonempty by (cases e) (auto simp: entry_ok_def)
  have s: "sees get i (e @ [NUL])" using Cons.prems(3) by simp
  have "env_entry_end get i = Some (Some (i + length e))"
    using Cons.prems e s by (intro env_entry_end_entry) (auto simp: entry_ok_def)
  moreover have "env_lookup get n (i + length e + 1) = Some (value_index (i + length e + 1) es n)"
    using Cons.prems by (intro Cons.IH) auto
  moreover have "get i = Some c" using s ce by simp
  ultimately show ?case
    using envmatch_entry [OF e Cons.prems(2) s] ce(2) by (subst env_lookup.simps) auto
qed

lemma value_index_cstring:
  assumes "list_all entry_ok es"
  shows "map_option (cstring (pre @ encs es @ post)) (value_index (length pre) es n) = lookup es n"
  using assms
proof (induction es arbitrary: pre)
  case Nil
  then show ?case by (simp add: lookup_def)
next
  case (Cons e es)
  have e: "entry_ok e" using Cons.prems by simp
  show ?case
  proof (cases "entry_name e = n")
    case True
    have "cstring ((pre @ n @ [CHR ''='']) @ entry_value e @ NUL # encs es @ post) (length (pre @ n @ [CHR ''=''])) = entry_value e"
      using e by (intro cstring_append) (metis entry_split Un_iff set_append list.set_intros(2) entry_ok_def)
    moreover have eq: "pre @ e @ NUL # encs es @ post = (pre @ n @ [CHR ''='']) @ entry_value e @ NUL # encs es @ post"
      using True by (subst entry_split [OF e]) simp
    ultimately show ?thesis using True by (simp add: lookup_def eq)
  next
    case False
    then show ?thesis using Cons.IH [of "pre @ e @ [NUL]"] Cons.prems by (simp add: lookup_def)
  qed
qed

section \<open>Editing the encoding\<close>

text \<open>Words in which no two NULs are adjacent: what lies between the entries.\<close>

definition single_nuls :: "string \<Rightarrow> bool" where
  "single_nuls w \<longleftrightarrow> w \<noteq> [] \<and> last w = NUL \<and> successively (\<lambda>a b. \<not> (a = NUL \<and> b = NUL)) w"

lemma single_nuls_Cons:
  "single_nuls (c # w) \<longleftrightarrow> (if w = [] then c = NUL else single_nuls w \<and> \<not> (c = NUL \<and> hd w = NUL))"
  by (cases w) (auto simp: single_nuls_def)

lemma single_nuls_append:
  "e \<noteq> [] \<Longrightarrow> NUL \<notin> set e \<Longrightarrow> w = [] \<or> single_nuls w \<and> hd w \<noteq> NUL \<Longrightarrow> single_nuls (e @ NUL # w)"
proof (induction e)
  case (Cons c e)
  then show ?case by (cases e) (auto simp: single_nuls_Cons)
qed simp

lemma encs_single_nuls: "es \<noteq> [] \<Longrightarrow> list_all entry_ok es \<Longrightarrow> single_nuls (encs es) \<and> hd (encs es) \<noteq> NUL"
proof (induction es)
  case (Cons e es)
  have e: "e \<noteq> []" "NUL \<notin> set e" using Cons.prems entry_nonempty by (auto simp: entry_ok_def)
  then have "single_nuls (e @ NUL # encs es)" using Cons by (intro single_nuls_append) (cases es; simp)+
  moreover have "hd e \<noteq> NUL" using e by (metis hd_in_set)
  ultimately show ?case using e by simp
qed simp

lemma list_update_middle: "(A @ x # B)[length A := y] = A @ y # B"
  by simp

lemma env_strend_entry: "NUL \<notin> set e \<Longrightarrow> env_strend (pre @ e @ NUL # post) (length pre) = Some (length pre + length e)"
proof (induction e arbitrary: pre)
  case Nil
  then show ?case by (subst env_strend.simps) simp
next
  case (Cons c e)
  then show ?case using Cons.IH [of "pre @ [c]"] by (subst env_strend.simps) auto
qed

lemma env_shift_spec:
  assumes "single_nuls w" "X \<noteq> []"
  shows "env_shift (A @ X @ w @ NUL # R) (length A) (length A + length X) =
    Some (A @ w @ drop (length w) (X @ w @ NUL # R), length A + length w - 1)"
  using assms
proof (induction w arbitrary: A X)
  case Nil
  then show ?case by (simp add: single_nuls_def)
next
  case (Cons c w)
  obtain x X' where X: "X = x # X'" using Cons.prems(2) by (cases X) auto
  let ?d = "A @ X @ (c # w) @ NUL # R"
  let ?d' = "(A @ [c]) @ (X' @ [c]) @ w @ NUL # R"
  have r: "rd ?d (length A + length X) = Some c" by (simp add: rd_def nth_append)
  have w: "wr ?d (length A) c = Some ?d'" using X by (simp add: wr_def)
  have r': "rd ?d' (length A + length X + 1) = Some (hd (w @ [NUL]))"
    using X by (cases w) (simp_all add: rd_def nth_append)
  show ?case
  proof (cases "w = []")
    case True
    then have "c = NUL" using Cons.prems(1) by (simp add: single_nuls_Cons)
    then show ?thesis using r w r' True X by (subst env_shift.simps) simp
  next
    case False
    then have c: "single_nuls w" "\<not> (c = NUL \<and> hd (w @ [NUL]) = NUL)"
      using Cons.prems(1) by (simp_all add: single_nuls_Cons)
    have "env_shift ?d (length A) (length A + length X) = env_shift ?d' (length A + 1) (length A + length X + 1)"
      by (subst env_shift.simps) (simp only: r w r' c(2) Option.bind.simps if_False)
    also have "\<dots> = Some ((A @ [c]) @ w @ drop (length w) ((X' @ [c]) @ w @ NUL # R), length A + 1 + length w - 1)"
      using Cons.IH [OF c(1), of "X' @ [c]" "A @ [c]"] X by simp
    finally show ?thesis using X by simp
  qed
qed

lemma env_dblnul_spec:
  assumes "single_nuls w"
  shows "env_dblnul (A @ w @ NUL # R) (length A) = Some (length A + length w - 1)"
  using assms
proof (induction w arbitrary: A)
  case Nil
  then show ?case by (simp add: single_nuls_def)
next
  case (Cons c w)
  let ?d = "A @ (c # w) @ NUL # R"
  have r: "rd ?d (length A) = Some c" by (simp add: rd_def nth_append)
  have r': "rd ?d (length A + 1) = Some (hd (w @ [NUL]))" by (cases w) (simp_all add: rd_def nth_append)
  show ?case
  proof (cases "w = []")
    case True
    then show ?thesis using r r' Cons.prems by (subst env_dblnul.simps) (simp add: single_nuls_Cons)
  next
    case False
    then have "single_nuls w" "\<not> (c = NUL \<and> hd (w @ [NUL]) = NUL)"
      using Cons.prems by (simp_all add: single_nuls_Cons)
    then show ?thesis
      using r r' Cons.IH [of "A @ [c]"] by (subst env_dblnul.simps) auto
  qed
qed

lemma env_put_spec:
  assumes "length s < length Z"
  shows "env_put (A @ Z) (length A) s = Some (A @ s @ NUL # drop (Suc (length s)) Z, length A + length s)"
  using assms
proof (induction s arbitrary: A Z)
  case Nil
  then show ?case by (cases Z) (simp_all add: wr_def)
next
  case (Cons c s)
  then obtain z Z' where "Z = z # Z'" by (cases Z) auto
  then show ?case using Cons.IH [of Z' "A @ [c]"] Cons.prems by (simp add: wr_def)
qed

text \<open>Several arguments are joined by blanks.\<close>

fun join_args :: "char \<Rightarrow> string list \<Rightarrow> string" where
  "join_args sep [] = []"
| "join_args sep (v # vs) = sep # v @ join_args (CHR '' '') vs"

lemma length_join_args: "length (join_args sep vs) = sum_list (map (\<lambda>v. length v + 1) vs)"
  by (induction vs arbitrary: sep) auto

lemma join_args_no_nul: "\<forall>v\<in>set vs. NUL \<notin> set v \<Longrightarrow> NUL \<notin> set (join_args (CHR '' '') vs)"
  by (induction "CHR '' ''" vs rule: join_args.induct) auto

lemma env_put_args_spec:
  assumes "length (join_args sep vs) < length Z + 1"
  shows "env_put_args (A @ NUL # Z) (length A) sep vs =
    Some (A @ join_args sep vs @ NUL # drop (length (join_args sep vs)) Z, length A + length (join_args sep vs))"
  using assms
proof (induction vs arbitrary: A Z sep)
  case Nil
  then show ?case by simp
next
  case (Cons v vs)
  have "length v < length Z" using Cons.prems by simp
  then have p: "env_put (A @ sep # Z) (length A + 1) v =
      Some ((A @ sep # v) @ NUL # drop (Suc (length v)) Z, length (A @ sep # v))"
    using env_put_spec [of v Z "A @ [sep]"] by simp
  have "env_put_args ((A @ sep # v) @ NUL # drop (Suc (length v)) Z) (length (A @ sep # v)) (CHR '' '') vs =
      Some ((A @ sep # v) @ join_args (CHR '' '') vs @ NUL # drop (length (join_args (CHR '' '') vs)) (drop (Suc (length v)) Z),
        length (A @ sep # v) + length (join_args (CHR '' '') vs))"
    using Cons.prems by (intro Cons.IH) simp
  then show ?case using p by (simp add: wr_def add.commute)
qed

lemma env_find_none:
  assumes "list_all entry_ok es" "name_ok n" "n \<notin> entry_name ` set es"
  shows "env_find (A @ encs es @ NUL # R) n (length A) = Some None"
  using assms
proof (induction es arbitrary: A)
  case Nil
  then show ?case by (subst env_find.simps) simp
next
  case (Cons e es)
  have e: "entry_ok e" "NUL \<notin> set e" using Cons.prems by (auto simp: entry_ok_def)
  then obtain c e' where ce: "e = c # e'" "c \<noteq> NUL" using entry_nonempty by (cases e) auto
  let ?d = "A @ encs (e # es) @ NUL # R"
  have d: "?d = A @ e @ NUL # encs es @ NUL # R" by simp
  have "rd ?d (length A) = Some c" using ce by simp
  moreover have "env_strend ?d (length A) = Some (length A + length e)" unfolding d using e(2) by (rule env_strend_entry)
  moreover have "envmatch (rd ?d) n (length A) = Some (-1)"
    using envmatch_entry [OF e(1) Cons.prems(2), of "rd ?d" "length A"] sees_rd [of A "e @ [NUL]" "encs es @ NUL # R"] Cons.prems(3)
    by auto
  moreover have "env_find ?d n (length A + length e + 1) = Some None"
    using Cons.IH [of "A @ e @ [NUL]"] Cons.prems by simp
  ultimately show ?case using ce(2) by (subst env_find.simps) (simp del: encs_simps)
qed

lemma env_find_some:
  assumes "list_all entry_ok (us @ e # vs)" "name_ok n" "n \<notin> entry_name ` set us" "entry_name e = n"
  shows "env_find (A @ encs (us @ e # vs) @ NUL # R) n (length A) =
    Some (Some (length A + length (encs us), length A + length (encs us) + length e))"
  using assms
proof (induction us arbitrary: A)
  case Nil
  have e: "entry_ok e" "NUL \<notin> set e" using Nil.prems by (auto simp: entry_ok_def)
  then obtain c e' where ce: "e = c # e'" "c \<noteq> NUL" using entry_nonempty by (cases e) auto
  let ?d = "A @ e @ NUL # encs vs @ NUL # R"
  have "rd ?d (length A) = Some c" using ce by simp
  moreover have "env_strend ?d (length A) = Some (length A + length e)" using e(2) by (rule env_strend_entry)
  moreover have "envmatch (rd ?d) n (length A) = Some (int (length A + length n + 1))"
    using envmatch_entry [OF e(1) Nil.prems(2), of "rd ?d" "length A"] sees_rd [of A "e @ [NUL]" "encs vs @ NUL # R"] Nil.prems(4)
    by simp
  ultimately show ?case using ce(2) by (subst env_find.simps) simp
next
  case (Cons u us)
  have u: "entry_ok u" "NUL \<notin> set u" using Cons.prems by (auto simp: entry_ok_def)
  then obtain c u' where ce: "u = c # u'" "c \<noteq> NUL" using entry_nonempty by (cases u) auto
  let ?d = "A @ u @ NUL # encs (us @ e # vs) @ NUL # R"
  have "rd ?d (length A) = Some c" using ce by simp
  moreover have "env_strend ?d (length A) = Some (length A + length u)" using u(2) by (rule env_strend_entry)
  moreover have "envmatch (rd ?d) n (length A) = Some (-1)"
    using envmatch_entry [OF u(1) Cons.prems(2), of "rd ?d" "length A"] sees_rd [of A "u @ [NUL]" "encs (us @ e # vs) @ NUL # R"] Cons.prems(3)
    by auto
  moreover have "env_find ?d n (length A + length u + 1) =
      Some (Some (length A + length (encs (u # us)), length A + length (encs (u # us)) + length e))"
    using Cons.IH [of "A @ u @ [NUL]"] Cons.prems by simp
  ultimately have "env_find ?d n (length A) =
      Some (Some (length A + length (encs (u # us)), length A + length (encs (u # us)) + length e))"
    using ce(2) by (subst env_find.simps) (simp del: encs_simps)
  then show ?case by simp
qed

lemma env_delete_spec:
  assumes "env_repr d (us @ e # vs)"
  shows "\<exists>d'. env_delete d (length (encs us)) (length (encs us) + length e) = Some d' \<and> env_repr d' (us @ vs)"
proof -
  obtain rest where d: "d = encs us @ e @ NUL # encs vs @ NUL # rest" and len: "length d = ENV_SIZE"
    using assms by (auto simp: env_repr_def)
  have e: "e \<noteq> []" and ok: "list_all entry_ok (us @ vs)" "distinct (map entry_name (us @ vs))"
    using assms entry_nonempty by (auto simp: env_repr_def)
  let ?A = "encs us"
  show ?thesis
  proof (cases "vs = []")
    case True
    have r: "rd d (length ?A + length e + 1) = Some NUL" using True d by (simp add: rd_def nth_append)
    show ?thesis
    proof (cases "us = []")
      case us: True
      obtain x e' where ee: "e = x # e'" using e by (cases e) auto
      obtain d' where d': "env_delete d 0 (length e) = Some (NUL # NUL # d')" "length d' + 2 = length d"
        using r us d True ee by (cases e') (auto simp: env_delete_def wr_def)
      then show ?thesis using us True len by (simp add: env_repr_def)
    next
      case us: False
      then have "length ?A > 0" by (cases us) simp_all
      then have "env_delete d (length ?A) (length ?A + length e) = wr d (length ?A) NUL"
        using r by (simp add: env_delete_def)
      moreover have "wr d (length ?A) NUL = Some (?A @ NUL # tl e @ NUL # NUL # rest)"
        using d e True by (cases e) (simp_all add: wr_def)
      moreover have "length (?A @ NUL # tl e @ NUL # NUL # rest) = ENV_SIZE"
        using len d e True by (cases e) simp_all
      ultimately show ?thesis using us True ok by (simp add: env_repr_def)
    qed
  next
    case vs: False
    have sn: "single_nuls (encs vs)" "hd (encs vs) \<noteq> NUL" using encs_single_nuls [OF vs] ok by simp_all
    obtain c w where cw: "encs vs = c # w" "c \<noteq> NUL" using sn by (cases "encs vs") (auto simp: single_nuls_def)
    have r: "rd d (length ?A + length e + 1) = Some c" using d cw by (simp add: rd_def nth_append)
    have s: "env_shift d (length ?A) (length ?A + length e + 1) =
        Some (?A @ encs vs @ drop (length (encs vs)) ((e @ [NUL]) @ encs vs @ NUL # rest), length ?A + length (encs vs) - 1)"
      using env_shift_spec [OF sn(1), of "e @ [NUL]" ?A rest] d by simp
    obtain z Z where Z: "drop (length (encs vs)) ((e @ [NUL]) @ encs vs @ NUL # rest) = z # Z"
      by (cases "drop (length (encs vs)) ((e @ [NUL]) @ encs vs @ NUL # rest)") auto
    have "env_delete d (length ?A) (length ?A + length e) = wr (?A @ encs vs @ z # Z) (length (?A @ encs vs)) NUL"
      using r s cw Z by (simp add: env_delete_def)
    also have "\<dots> = Some (?A @ encs vs @ NUL # Z)" by (simp add: wr_def list_update_append)
    finally have "env_delete d (length ?A) (length ?A + length e) = Some (encs (us @ vs) @ NUL # Z)" by simp
    moreover have "length (encs (us @ vs) @ NUL # Z) = ENV_SIZE"
      using arg_cong [OF Z, of length] len d by simp
    ultimately show ?thesis using ok vs by (simp add: env_repr_def del: encs_simps)
  qed
qed

lemma env_append_spec:
  assumes "env_repr d es" "name_ok n" "n \<notin> entry_name ` set es" "args \<noteq> []" "\<forall>v\<in>set args. NUL \<notin> set v"
  defines "entry \<equiv> n @ join_args (CHR ''='') args"
  shows "if length (encs es) + length entry + 2 \<le> ENV_SIZE
    then \<exists>d'. env_append d n args = Some (Inr d') \<and> env_repr d' (es @ [entry])
    else env_append d n args = Some (Inl ())"
proof -
  obtain rest where d: "d = encs es @ NUL # rest" and len: "length d = ENV_SIZE"
    and empty: "es = [] \<Longrightarrow> \<exists>rest'. rest = NUL # rest'"
    using assms(1) by (auto simp: env_repr_def neq_Nil_conv)
  have ok: "list_all entry_ok es" "distinct (map entry_name es)" using assms(1) by (simp_all add: env_repr_def)
  obtain p where p: "env_dblnul d 0 = Some p" "(if p > 0 then p + 1 else p) = length (encs es)"
  proof (cases "es = []")
    case True
    then obtain rest' where "d = NUL # NUL # rest'" using empty d by auto
    then have "env_dblnul d 0 = Some 0" by (subst env_dblnul.simps) (simp add: rd_def)
    then show ?thesis using True that [of 0] by simp
  next
    case False
    then have "single_nuls (encs es)" "hd (encs es) \<noteq> NUL" using encs_single_nuls ok by blast+
    moreover from this have "2 \<le> length (encs es)"
      by (cases "encs es"; cases "tl (encs es)") (auto simp: single_nuls_def)
    ultimately show ?thesis using env_dblnul_spec [of "encs es" "[]" rest] d that [of "length (encs es) - 1"] by auto
  qed
  have el: "length entry = length n + sum_list (map (\<lambda>v. length v + 1) args)"
    by (simp add: entry_def length_join_args)
  show ?thesis
  proof (cases "length (encs es) + length entry + 2 \<le> ENV_SIZE")
    case False
    then have "env_append d n args = Some (Inl ())" using p el by (simp add: env_append_def)
    then show ?thesis using False by simp
  next
    case True
    let ?A = "encs es" and ?j = "join_args (CHR ''='') args"
    let ?Z = "NUL # rest"
    have lz: "length ?A + length ?Z = ENV_SIZE" using len d by simp
    have "env_put d (length ?A) n = Some ((?A @ n) @ NUL # drop (Suc (length n)) ?Z, length (?A @ n))"
      using env_put_spec [of n ?Z ?A] True lz d by (simp add: entry_def)
    moreover have "env_put_args ((?A @ n) @ NUL # drop (Suc (length n)) ?Z) (length (?A @ n)) (CHR ''='') args =
        Some ((?A @ entry) @ NUL # drop (length ?j) (drop (Suc (length n)) ?Z), length (?A @ entry))"
      using env_put_args_spec [of "CHR ''=''" args "drop (Suc (length n)) ?Z" "?A @ n"] True lz
      by (simp add: entry_def add.assoc)
    moreover obtain z Z where Z: "drop (length ?j) (drop (Suc (length n)) ?Z) = z # Z"
      using True lz by (cases "drop (length ?j) (drop (Suc (length n)) ?Z)") (auto simp: entry_def)
    moreover have "wr ((?A @ entry) @ NUL # z # Z) (length (?A @ entry) + 1) NUL = Some ((?A @ entry) @ NUL # NUL # Z)"
      by (simp add: wr_def nth_append list_update_append)
    ultimately have "env_append d n args = Some (Inr (encs (es @ [entry]) @ NUL # Z))"
      using p True el by (simp add: env_append_def)
    moreover have "length (encs (es @ [entry]) @ NUL # Z) = ENV_SIZE"
      using arg_cong [OF Z, of length] lz True by (simp add: entry_def)
    moreover have "entry_ok entry" "entry_name entry = n"
    proof -
      obtain v vs where "args = v # vs" using assms(4) by (cases args) auto
      then have "entry = n @ CHR ''='' # v @ join_args (CHR '' '') vs" "NUL \<notin> set (v @ join_args (CHR '' '') vs)"
        using assms(5) join_args_no_nul [of vs] by (auto simp: entry_def)
      then show "entry_ok entry" "entry_name entry = n" using entry_make [OF assms(2)] by simp_all
    qed
    ultimately show ?thesis using True ok assms(3) by (auto simp: env_repr_def simp del: encs_simps)
  qed
qed

section \<open>The commands\<close>

text \<open>After relocation: the array encodes \<open>es\<close> and the stored CRC is that of the array.\<close>

definition env_ok :: "string list \<Rightarrow> 'b env_state \<Rightarrow> bool" where
  "env_ok es st \<longleftrightarrow> gd_reloc st \<and> env_valid st \<and> env_repr (env_data (env_ptr st)) es \<and>
     stored_crc (env_ptr st) = env_crc_of (env_data (env_ptr st))"

definition without :: "string \<Rightarrow> string list \<Rightarrow> string list" where
  "without n es = filter (\<lambda>e. entry_name e \<noteq> n) es"

definition plain_name :: "string \<Rightarrow> bool" where
  "plain_name n \<longleftrightarrow> name_ok n \<and> n \<notin> {''stdin'', ''stdout'', ''stderr'', ''baudrate''}"

lemma lookup_append: "lookup (es @ fs) n = (case lookup es n of None \<Rightarrow> lookup fs n | Some v \<Rightarrow> Some v)"
  by (induction es) (auto simp: lookup_def)

lemma lookup_without [simp]: "lookup (without n es) m = (if m = n then None else lookup es m)"
  by (induction es) (auto simp: lookup_def without_def)

lemma lookup_Nil [simp]: "lookup [] n = None"
  by (simp add: lookup_def)

lemma lookup_entry: "name_ok n \<Longrightarrow> lookup [n @ CHR ''='' # v] m = (if m = n then Some v else None)"
  by (simp add: lookup_def entry_make)

lemma without_id: "n \<notin> entry_name ` set es \<Longrightarrow> without n es = es"
  by (auto simp: without_def filter_id_conv)

lemma without_split:
  assumes "distinct (map entry_name (us @ e # vs))"
  shows "without (entry_name e) (us @ e # vs) = us @ vs"
proof -
  have "without (entry_name e) us = us" "without (entry_name e) vs = vs"
    using assms by (intro without_id; simp)+
  then show ?thesis by (simp add: without_def)
qed

lemma find_and_delete:
  assumes "env_repr d es" "name_ok n"
  shows "(n \<notin> entry_name ` set es \<and> env_find d n 0 = Some None) \<or>
    (\<exists>e nxt d'. n \<in> entry_name ` set es \<and> env_find d n 0 = Some (Some (e, nxt)) \<and>
       env_delete d e nxt = Some d' \<and> env_repr d' (without n es))"
proof (cases "n \<in> entry_name ` set es")
  case False
  obtain rest where "d = encs es @ NUL # rest" "list_all entry_ok es" using assms(1) by (auto simp: env_repr_def)
  then show ?thesis using env_find_none [of es n "[]" rest] assms(2) False by simp
next
  case True
  then have "\<exists>e\<in>set es. entry_name e = n" by auto
  then obtain us e vs where es: "es = us @ e # vs" "entry_name e = n" "n \<notin> entry_name ` set us"
    using split_list_first_prop [of es "\<lambda>e. entry_name e = n"] by (metis imageE)
  obtain rest where d: "d = encs es @ NUL # rest" "list_all entry_ok es" "distinct (map entry_name es)"
    using assms(1) by (auto simp: env_repr_def)
  have "env_find d n 0 = Some (Some (length (encs us), length (encs us) + length e))"
    using env_find_some [of us e vs n "[]" rest] d es assms(2) by simp
  moreover have "without n es = us @ vs" using without_split [of us e vs] d(3) es by simp
  ultimately show ?thesis using env_delete_spec [of d us e vs] assms(1) es True by auto
qed

lemma without_repr_absent: "n \<notin> entry_name ` set (without n es)"
  by (auto simp: without_def)

lemma env_crc_update_simps [simp]:
  "env_data (env_ptr (env_crc_update st)) = env_data (env_ptr st)"
  "stored_crc (env_ptr (env_crc_update st)) = env_crc_of (env_data (env_ptr st))"
  "gd_reloc (env_crc_update st) = gd_reloc st" "env_valid (env_crc_update st) = env_valid st"
  by (simp_all add: env_crc_update_def)

lemma setenv_effects_simps [simp]:
  "env_ptr (setenv_effects st n v) = env_ptr st" "gd_reloc (setenv_effects st n v) = gd_reloc st"
  "env_valid (setenv_effects st n v) = env_valid st"
  by (simp_all add: setenv_effects_def)

lemma env_data_same [simp]: "(e :: env_t)\<lparr>env_data := env_data e\<rparr> = e"
  by simp

lemma env_ptr_same [simp]: "st\<lparr>env_id := i, env_ptr := env_ptr st\<rparr> = st\<lparr>env_id := i\<rparr>"
  by simp

text \<open>An assignment to a variable without special treatment: the two outcomes.\<close>

lemma do_setenv_assign:
  assumes ok: "env_ok es st" and n: "plain_name n" and args: "args \<noteq> []" "\<forall>v\<in>set args. NUL \<notin> set v"
  defines "entry \<equiv> n @ join_args (CHR ''='') args"
  shows "\<exists>rc st'. do_setenv_args dev (2 + length args) (cmd # n # args) st = Some (rc, st') \<and>
    (if length (encs (without n es)) + length entry + 2 \<le> ENV_SIZE
     then rc = 0 \<and> env_ok (without n es @ [entry]) st'
     else rc = 1 \<and> env_repr (env_data (env_ptr st')) (without n es) \<and> stored_crc (env_ptr st') = stored_crc (env_ptr st))"
proof -
  have name: "name_ok n" "CHR ''='' \<notin> set n" "console_of n = None" "n \<noteq> ''baudrate''"
    using n by (auto simp: plain_name_def name_ok_def console_of_def)
  let ?d = "env_data (env_ptr st)"
  have repr: "env_repr ?d es" and st: "gd_reloc st" "env_valid st" using ok by (simp_all add: env_ok_def)
  obtain old d1 where old: "env_find ?d n 0 = Some old" "env_repr d1 (without n es)"
      "case old of None \<Rightarrow> d1 = ?d | Some (e, nxt) \<Rightarrow> env_delete ?d e nxt = Some d1"
    using find_and_delete [OF repr name(1)] without_id [of n es] repr by fastforce
  let ?st1 = "st\<lparr>env_id := env_id st + 1, env_ptr := (env_ptr st)\<lparr>env_data := d1\<rparr>\<rparr>"
  let ?r = "env_append d1 n args"
  have step: "do_setenv_args dev (2 + length args) (cmd # n # args) st = do {
      r \<leftarrow> ?r;
      case r of Inl _ \<Rightarrow> Some (1, ?st1)
      | Inr d \<Rightarrow> Some (0, setenv_effects (env_crc_update (?st1\<lparr>env_ptr := (env_ptr ?st1)\<lparr>env_data := d\<rparr>\<rparr>)) n (hd args)) }"
    using old(1,3) st name args(1)
    by (cases old) (auto simp: do_setenv_args_def rd_def hd_conv_nth Let_def
        split: Option.bind_split sum.split)
  have app: "if length (encs (without n es)) + length entry + 2 \<le> ENV_SIZE
    then \<exists>d'. ?r = Some (Inr d') \<and> env_repr d' (without n es @ [entry]) else ?r = Some (Inl ())"
    unfolding entry_def using env_append_spec [OF old(2) name(1) without_repr_absent args] .
  show ?thesis
  proof (cases "length (encs (without n es)) + length entry + 2 \<le> ENV_SIZE")
    case True
    then obtain d' where "?r = Some (Inr d')" "env_repr d' (without n es @ [entry])" using app by auto
    then show ?thesis unfolding step using True st by (simp add: env_ok_def)
  next
    case False
    then have "?r = Some (Inl ())" using app by auto
    then show ?thesis unfolding step using False old(2) by simp
  qed
qed

lemma do_setenv_delete:
  assumes ok: "env_ok es st" and n: "plain_name n"
  shows "\<exists>st'. do_setenv_args dev 2 (cmd # n # rest) st = Some (0, st') \<and> env_ok (without n es) st'"
proof -
  have name: "name_ok n" "CHR ''='' \<notin> set n" "console_of n = None" "n \<noteq> ''baudrate''"
    using n by (auto simp: plain_name_def name_ok_def console_of_def)
  let ?d = "env_data (env_ptr st)"
  have repr: "env_repr ?d es" and st: "gd_reloc st" "env_valid st" using ok by (simp_all add: env_ok_def)
  obtain old d1 where old: "env_find ?d n 0 = Some old" "env_repr d1 (without n es)"
      "case old of None \<Rightarrow> d1 = ?d | Some (e, nxt) \<Rightarrow> env_delete ?d e nxt = Some d1"
    using find_and_delete [OF repr name(1)] without_id [of n es] repr by fastforce
  have "do_setenv_args dev 2 (cmd # n # rest) st =
      Some (0, env_crc_update (st\<lparr>env_id := env_id st + 1, env_ptr := (env_ptr st)\<lparr>env_data := d1\<rparr>\<rparr>))"
    using old(1,3) st name by (cases old) (auto simp: do_setenv_args_def rd_def Let_def)
  then show ?thesis using old(2) st by (auto simp: env_ok_def)
qed

lemma getenv_lookup:
  assumes "env_ok es st" "name_ok n"
  shows "getenv r st n = Some (value_index 0 es n) \<and>
    map_option (cstring (env_data (env_ptr st))) (value_index 0 es n) = lookup es n"
proof -
  let ?d = "env_data (env_ptr st)"
  obtain rest where d: "?d = encs es @ NUL # rest" and len: "length ?d = ENV_SIZE" and ok: "list_all entry_ok es"
    using assms(1) by (auto simp: env_ok_def env_repr_def)
  have get: "env_get_char r st = rd ?d"
    using assms(1) by (auto simp: env_get_char_def env_get_char_memory_def env_ok_def)
  have "sees (rd ?d) 0 (encs es @ [NUL])" using sees_rd [of "[]" "encs es @ [NUL]" rest] d by simp
  then have "getenv r st n = Some (value_index 0 es n)"
    unfolding getenv_def get using ok assms(2) d len by (intro env_lookup_entries) simp_all
  moreover have "map_option (cstring ?d) (value_index 0 es n) = lookup es n"
    using value_index_cstring [OF ok, of "[]" "NUL # rest" n] d by simp
  ultimately show ?thesis by simp
qed

section \<open>The environment as a store of variables\<close>

text \<open>What the users of the environment (\<open>run\<close>, the menus, the boot commands) rely on.\<close>

locale variable_store =
  fixes ok :: "'s \<Rightarrow> bool"
    and get :: "'s \<Rightarrow> string \<Rightarrow> string option"
    and put :: "string \<Rightarrow> string \<Rightarrow> 's \<Rightarrow> (int \<times> 's) option"
    and del :: "string \<Rightarrow> 's \<Rightarrow> (int \<times> 's) option"
    and valid_name :: "string \<Rightarrow> bool"
    and valid_value :: "string \<Rightarrow> bool"
  assumes put_get: "ok s \<Longrightarrow> valid_name n \<Longrightarrow> valid_value v \<Longrightarrow>
      \<exists>rc s'. put n v s = Some (rc, s') \<and>
        (rc = 0 \<longrightarrow> ok s' \<and> (\<forall>m. valid_name m \<longrightarrow> get s' m = (if m = n then Some v else get s m)))"
    and del_get: "ok s \<Longrightarrow> valid_name n \<Longrightarrow>
      \<exists>s'. del n s = Some (0, s') \<and> ok s' \<and> (\<forall>m. valid_name m \<longrightarrow> get s' m = (if m = n then None else get s m))"
begin

lemma put_other_unchanged:
  assumes "ok s" "valid_name n" "valid_value v" "put n v s = Some (0, s')" "valid_name m" "m \<noteq> n"
  shows "get s' m = get s m"
  using put_get [OF assms(1-3)] assms(4-6) by auto

lemma put_overrides:
  assumes "ok s" "valid_name n" "valid_value v" "valid_value w" "put n v s = Some (0, s1)" "put n w s1 = Some (0, s2)"
  shows "ok s2 \<and> get s2 n = Some w \<and> (\<forall>m. valid_name m \<longrightarrow> m \<noteq> n \<longrightarrow> get s2 m = get s m)"
  using put_get [OF assms(1-3)] put_get [of s1 n w] assms(2-6) by auto

lemma put_del:
  assumes "ok s" "valid_name n" "valid_value v" "put n v s = Some (0, s1)" "get s n = None"
  shows "\<exists>s2. del n s1 = Some (0, s2) \<and> ok s2 \<and> (\<forall>m. valid_name m \<longrightarrow> get s2 m = get s m)"
proof -
  have "ok s1" "\<And>m. valid_name m \<Longrightarrow> get s1 m = (if m = n then Some v else get s m)"
    using put_get [OF assms(1-3)] assms(4) by auto
  then show ?thesis using del_get [of s1 n] assms(2,5) by force
qed

end

text \<open>The value a caller of \<open>getenv\<close> sees: the string at the returned pointer.\<close>

definition env_value :: "'b i2c_reader \<Rightarrow> 'b env_state \<Rightarrow> string \<Rightarrow> string option" where
  "env_value r st n =
     (case getenv r st n of Some (Some i) \<Rightarrow> Some (cstring (env_data (env_ptr st)) i) | _ \<Rightarrow> None)"

definition store_ok :: "'b env_state \<Rightarrow> bool" where
  "store_ok st \<longleftrightarrow> (\<exists>es. env_ok es st)"

definition value_ok :: "string \<Rightarrow> bool" where
  "value_ok v \<longleftrightarrow> v \<noteq> [] \<and> NUL \<notin> set v"

lemma env_value_lookup: "env_ok es st \<Longrightarrow> name_ok n \<Longrightarrow> env_value r st n = lookup es n"
  using getenv_lookup [of es st n r] by (auto simp: env_value_def split: option.splits)

lemma plain_name_ok: "plain_name n \<Longrightarrow> name_ok n"
  by (simp add: plain_name_def)

lemma setenv_assign:
  assumes "env_ok es st" "plain_name n" "value_ok v"
  shows "\<exists>rc st'. setenv dev n (Some v) st = Some (rc, st') \<and>
    (if length (encs (without n es)) + length n + length v + 3 \<le> ENV_SIZE
     then rc = 0 \<and> env_ok (without n es @ [n @ CHR ''='' # v]) st'
     else rc = 1 \<and> env_repr (env_data (env_ptr st')) (without n es) \<and> stored_crc (env_ptr st') = stored_crc (env_ptr st))"
proof -
  have v: "v \<noteq> []" "NUL \<notin> set v" using assms(3) by (simp_all add: value_ok_def)
  have len: "length (encs (without n es)) + length (n @ CHR ''='' # v) + 2 =
      length (encs (without n es)) + length n + length v + 3" by simp
  have call: "setenv dev n (Some v) st = do_setenv_args dev (2 + length [v]) (''setenv'' # n # [v]) st"
    using v(1) by (simp add: setenv_def numeral_3_eq_3)
  have entry: "n @ join_args (CHR ''='') [v] = n @ CHR ''='' # v" by simp
  have "[v] \<noteq> []" "\<forall>w\<in>set [v]. NUL \<notin> set w" using v by simp_all
  from do_setenv_assign [OF assms(1,2) this, of dev "''setenv''"] show ?thesis
    unfolding call entry len .
qed

lemma setenv_delete:
  assumes "env_ok es st" "plain_name n"
  shows "\<exists>st'. setenv dev n None st = Some (0, st') \<and> env_ok (without n es) st'"
  using do_setenv_delete [OF assms] by (simp add: setenv_def)

interpretation vars: variable_store store_ok "env_value r" "\<lambda>n v. setenv dev n (Some v)" "\<lambda>n. setenv dev n None"
  plain_name value_ok
  for r :: "'b i2c_reader" and dev
proof
  fix st :: "'b env_state" and n v
  assume "store_ok st" and n: "plain_name n" and v: "value_ok v"
  then obtain es where es: "env_ok es st" by (auto simp: store_ok_def)
  obtain rc st' where s: "setenv dev n (Some v) st = Some (rc, st')"
      "rc = 0 \<longrightarrow> env_ok (without n es @ [n @ CHR ''='' # v]) st'"
    using setenv_assign [OF es n v, of dev] by (auto split: if_splits)
  have "env_value r st' m = (if m = n then Some v else env_value r st m)" if "rc = 0" "plain_name m" for m
    using s(2) that n es plain_name_ok
    by (simp add: env_value_lookup lookup_append lookup_entry split: option.split)
  then show "\<exists>rc st'. setenv dev n (Some v) st = Some (rc, st') \<and>
      (rc = 0 \<longrightarrow> store_ok st' \<and> (\<forall>m. plain_name m \<longrightarrow> env_value r st' m = (if m = n then Some v else env_value r st m)))"
    using s by (auto simp: store_ok_def)
next
  fix st :: "'b env_state" and n
  assume "store_ok st" and n: "plain_name n"
  then obtain es where es: "env_ok es st" by (auto simp: store_ok_def)
  obtain st' where s: "setenv dev n None st = Some (0, st')" "env_ok (without n es) st'"
    using setenv_delete [OF es n, of dev] by blast
  then show "\<exists>st'. setenv dev n None st = Some (0, st') \<and> store_ok st' \<and>
      (\<forall>m. plain_name m \<longrightarrow> env_value r st' m = (if m = n then None else env_value r st m))"
    using es plain_name_ok by (auto simp: store_ok_def env_value_lookup)
qed

section \<open>Persistence\<close>

lemma env_init_crc_spec:
  assumes "chip_reads CONFIG_SYS_DEF_EEPROM_ADDR mem r" "off + len < 2 ^ 32"
  shows "env_init_crc r len off new bus = (crc32 new 0 (load off len (mem bus)), bus)"
  using assms(2)
proof (induction len arbitrary: off new rule: less_induct)
  case (less len)
  show ?case
  proof (cases "len = 0")
    case True
    then show ?thesis by (subst env_init_crc.simps) (simp add: load_def crc.upd_Nil)
  next
    case False
    let ?n = "if len > 64 then 64 else len"
    have n: "?n \<le> len" "0 < ?n" using False by auto
    have "unat (of_nat off :: u32) = off" using less.prems by (simp add: unat_of_nat)
    then have rd: "eeprom_read r CONFIG_SYS_DEF_EEPROM_ADDR (of_nat off) (of_nat ?n) bus = (0, load off ?n (mem bus), bus)"
      using eeprom_read_ok [OF assms(1), of "of_nat off" ?n bus] less.prems n by simp
    have "env_init_crc r len off new bus = env_init_crc r (len - ?n) (off + ?n) (crc32 new 0 (load off ?n (mem bus))) bus"
      using False rd by (subst env_init_crc.simps) (simp add: Let_def)
    also have "\<dots> = (crc32 (crc32 new 0 (load off ?n (mem bus))) 0 (load (off + ?n) (len - ?n) (mem bus)), bus)"
      using n less.prems False by (intro less.IH) auto
    also have "\<dots> = (crc32 new 0 (load off ?n (mem bus) @ load (off + ?n) (len - ?n) (mem bus)), bus)"
      using crc.upd_append [of new 0 "load off ?n (mem bus)" 0 "load (off + ?n) (len - ?n) (mem bus)" 0] by simp
    also have "load off ?n (mem bus) @ load (off + ?n) (len - ?n) (mem bus) = load off len (mem bus)"
      using load_append [of off ?n "mem bus" "len - ?n"] n(1) by simp
    finally show ?thesis .
  qed
qed

lemma env_of_bytes_env_bytes [simp]: "env_of_bytes (env_bytes e) = Some e"
proof -
  obtain b0 b1 b2 b3 where b: "store_be32 (stored_crc e) = [b0, b1, b2, b3]" by (simp add: store_be32_def)
  have m: "map char_of_byte (map byte_of (env_data e)) = env_data e" by (simp add: comp_def)
  show ?thesis
    using b load_be32_store_be32 [OF b] m by (simp add: env_of_bytes_def env_bytes_def)
qed

lemma length_env_bytes: "length (env_data e) = ENV_SIZE \<Longrightarrow> length (env_bytes e) = CONFIG_ENV_SIZE"
  by (simp add: env_bytes_def store_be32_def)

lemma load_split_4: "load 0 (4 + n) m = load 0 4 m @ load 4 n m"
  using load_append [of 0 4 m n] by simp

lemma saveenv_ok:
  assumes "chip_writes CONFIG_SYS_DEF_EEPROM_ADDR mem w" "env_ok es st"
  shows "\<exists>bus'. saveenv w st = (0, st\<lparr>i2c_bus := bus'\<rparr>) \<and>
    load 0 CONFIG_ENV_SIZE (mem bus') = env_bytes (env_ptr st)"
proof -
  have len: "length (env_bytes (env_ptr st)) = CONFIG_ENV_SIZE"
    using assms(2) by (intro length_env_bytes) (simp add: env_ok_def env_repr_def)
  obtain bus' where w: "eeprom_write w CONFIG_SYS_DEF_EEPROM_ADDR 0 (env_bytes (env_ptr st)) (of_nat CONFIG_ENV_SIZE) (i2c_bus st) = (0, bus')"
      "mem bus' = store 0 (env_bytes (env_ptr st)) (mem (i2c_bus st))"
    using eeprom_write_ok [OF assms(1), of 0 "env_bytes (env_ptr st)" "i2c_bus st"] len by auto
  then have "load 0 CONFIG_ENV_SIZE (mem bus') = env_bytes (env_ptr st)"
    using load_store [of 0 "env_bytes (env_ptr st)" "mem (i2c_bus st)"] len by simp
  with w(1) show ?thesis by (intro exI [of _ bus']) (simp add: saveenv_def)
qed

lemma env_init_ok:
  assumes "chip_reads CONFIG_SYS_DEF_EEPROM_ADDR mem r" "load 0 CONFIG_ENV_SIZE (mem (i2c_bus st)) = env_bytes e"
    "length (env_data e) = ENV_SIZE"
  shows "env_init r st = Some (st\<lparr>env_valid := (stored_crc e = env_crc_of (env_data e))\<rparr>)"
proof -
  let ?m = "mem (i2c_bus st)"
  have "load 0 4 ?m @ load 4 ENV_SIZE ?m = store_be32 (stored_crc e) @ map byte_of (env_data e)"
    using assms(2) load_split_4 [of ENV_SIZE ?m] by (simp add: env_bytes_def)
  then have l: "load 0 4 ?m = store_be32 (stored_crc e)" "load 4 ENV_SIZE ?m = map byte_of (env_data e)"
    using append_eq_append_conv [of "load 0 4 ?m" "store_be32 (stored_crc e)"] by (simp_all add: store_be32_def)
  obtain b0 b1 b2 b3 where b: "store_be32 (stored_crc e) = [b0, b1, b2, b3]" by (simp add: store_be32_def)
  have "eeprom_read r CONFIG_SYS_DEF_EEPROM_ADDR 0 4 (i2c_bus st) = (0, [b0, b1, b2, b3], i2c_bus st)"
    using eeprom_read_ok [OF assms(1), of 0 4 "i2c_bus st"] l(1) b by simp
  moreover have "env_init_crc r ENV_SIZE 4 0 (i2c_bus st) = (env_crc_of (env_data e), i2c_bus st)"
    using env_init_crc_spec [OF assms(1), of 4 ENV_SIZE 0 "i2c_bus st"] l(2) crc.upd_addr [of 0 0 _ 4]
    by (simp add: env_crc_of_def)
  ultimately show ?thesis using load_be32_store_be32 [OF b] by (simp add: env_init_def)
qed

lemma env_relocate_ok:
  assumes "chip_reads CONFIG_SYS_DEF_EEPROM_ADDR mem r" "load 0 CONFIG_ENV_SIZE (mem (i2c_bus st)) = env_bytes e"
    "env_valid st"
  shows "env_relocate r st = Some (st\<lparr>env_ptr := e\<rparr>)"
  using assms(2,3) eeprom_read_ok [OF assms(1), of 0 CONFIG_ENV_SIZE "i2c_bus st"]
  by (simp add: env_relocate_def env_relocate_spec_def)

lemma env_crc_of_update:
  assumes "k < length d" "c \<noteq> d ! k"
  shows "env_crc_of (d[k := c]) \<noteq> env_crc_of d"
proof -
  have "crc32 0 4 (map byte_of (take k d) @ byte_of c # map byte_of (drop (Suc k) d)) \<noteq>
      crc32 0 4 (map byte_of (take k d) @ byte_of (d ! k) # map byte_of (drop (Suc k) d))"
    using crc_serial_byte_neq [of "byte_of c" "byte_of (d ! k)"] assms(2)
    by (simp add: crc32_serial xor_right_cancel)
  moreover have "map byte_of (d[k := c]) = map byte_of (take k d) @ byte_of c # map byte_of (drop (Suc k) d)"
    using assms(1) by (simp add: upd_conv_take_nth_drop)
  moreover have "map byte_of d = map byte_of (take k d) @ byte_of (d ! k) # map byte_of (drop (Suc k) d)"
    using id_take_nth_drop [OF assms(1)] by (metis list.simps(9) map_append)
  ultimately show ?thesis by (simp add: env_crc_of_def)
qed

section \<open>The default environment\<close>

lemma default_entries_ok: "list_all entry_ok default_entries" "distinct (map entry_name default_entries)"
  by code_simp+

lemma length_default_environment: "length default_environment = 582"
  by code_simp

lemma set_default_env_ok: "gd_reloc st \<Longrightarrow> env_ok default_entries (set_default_env st)"
proof -
  assume "gd_reloc st"
  moreover have "env_repr (default_environment @ replicate (ENV_SIZE - length default_environment) NUL) default_entries"
  proof -
    have "default_environment @ replicate k NUL = encs default_entries @ NUL # NUL # replicate k NUL" for k
      by (simp add: default_environment_def encs_def)
    then show ?thesis
      unfolding env_repr_def using default_entries_ok length_default_environment
      by (intro conjI exI [of _ "NUL # replicate (ENV_SIZE - length default_environment) NUL"]) simp_all
  qed
  ultimately show ?thesis
    using length_default_environment by (simp add: set_default_env_def env_ok_def env_crc_update_def)
qed

section \<open>Printing\<close>

lemma puts_prefix:
  assumes "k < length buf" "buf ! k = NUL" "NUL \<notin> set (take k buf)"
  shows "puts buf = take k buf"
proof -
  have "buf = take k buf @ NUL # drop (Suc k) buf" using assms(1,2) id_take_nth_drop by metis
  then have "puts buf = takeWhile (\<lambda>c. c \<noteq> NUL) (take k buf @ NUL # drop (Suc k) buf)" by (simp add: puts_def)
  also have "\<dots> = take k buf" using assms(3) by (subst takeWhile_append2) auto
  finally show ?thesis .
qed

text \<open>The 16-character buffer: 17 characters, the last one NUL.\<close>

definition line_buf :: "string \<Rightarrow> bool" where
  "line_buf buf \<longleftrightarrow> length buf = 17 \<and> buf ! 16 = NUL"

lemma printenv_entry_spec:
  assumes "NUL \<notin> set e" "sees get i (e @ [NUL])" "line_buf buf" "j < 16" "NUL \<notin> set (take j buf)"
  shows "\<exists>j' buf' out'. printenv_entry get pr i j buf out = Some (i + length e + 1, j', buf', out') \<and> line_buf buf' \<and>
    (if pr then out' @ (if j' \<noteq> 0 then puts buf' else []) = out @ take j buf @ e else out' = out)"
  using assms
proof (induction e arbitrary: i j buf out)
  case Nil
  have b: "j < length buf" "line_buf (buf[j := NUL])" using Nil.prems by (auto simp: line_buf_def nth_list_update)
  then have "puts (buf[j := NUL]) = take j buf" using puts_prefix [of j "buf[j := NUL]"] Nil.prems(5) by simp
  then show ?case using Nil.prems b by (subst printenv_entry.simps) (auto simp: Let_def)
next
  case (Cons c e)
  have c: "c \<noteq> NUL" "get i = Some c" using Cons.prems by auto
  have b: "j < length buf" "line_buf (buf[j := c])" using Cons.prems by (auto simp: line_buf_def nth_list_update)
  have tk: "take (Suc j) (buf[j := c]) = take j buf @ [c]" using b(1) by (simp add: take_Suc_conv_app_nth)
  have nn: "NUL \<notin> set (take (Suc j) (buf[j := c]))" unfolding tk using Cons.prems(5) c(1) by auto
  show ?case
  proof (cases "j + 1 = 16")
    case True
    then have p: "puts (buf[j := c]) = take j buf @ [c]"
      using puts_prefix [of 16 "buf[j := c]"] nn tk b(2) by (simp add: line_buf_def)
    define out1 where "out1 = (if pr then out @ puts (buf[j := c]) else out)"
    have "printenv_entry get pr i j buf out = printenv_entry get pr (i + 1) 0 (buf[j := c]) out1"
      using c b(1) True by (subst printenv_entry.simps) (simp add: Let_def out1_def)
    moreover obtain j' buf' out' where "printenv_entry get pr (i + 1) 0 (buf[j := c]) out1 =
        Some (i + 1 + length e + 1, j', buf', out')" "line_buf buf'"
        "if pr then out' @ (if j' \<noteq> 0 then puts buf' else []) = out1 @ take 0 (buf[j := c]) @ e else out' = out1"
      using Cons.IH [of "i + 1" "buf[j := c]" 0 out1] Cons.prems b(2) by auto
    ultimately show ?thesis using p by (cases pr) (simp_all add: out1_def)
  next
    case False
    then have "printenv_entry get pr i j buf out = printenv_entry get pr (i + 1) (j + 1) (buf[j := c]) out"
      using c b(1) by (subst printenv_entry.simps) (simp add: Let_def)
    moreover obtain j' buf' out' where "printenv_entry get pr (i + 1) (j + 1) (buf[j := c]) out =
        Some (i + 1 + length e + 1, j', buf', out')" "line_buf buf'"
        "if pr then out' @ (if j' \<noteq> 0 then puts buf' else []) = out @ take (j + 1) (buf[j := c]) @ e else out' = out"
      using Cons.IH [of "i + 1" "buf[j := c]" "j + 1" out] Cons.prems b(2) nn False by auto
    ultimately show ?thesis using tk by (cases pr) simp_all
  qed
qed

lemma printenv_all_spec:
  assumes "list_all entry_ok es" "sees get i (encs es @ [NUL])" "line_buf buf"
  shows "printenv_loop get (\<lambda>k. False) name 1 i buf out =
    Some (int (i + length (encs es)), out @ concat (map (\<lambda>e. e @ [CHR 0x0a]) es))"
  using assms
proof (induction es arbitrary: i buf out)
  case Nil
  then show ?case by (subst printenv_loop.simps) simp
next
  case (Cons e es)
  have e: "NUL \<notin> set e" "sees get i (e @ [NUL])" using Cons.prems by (auto simp: entry_ok_def)
  obtain c e' where ce: "e = c # e'" using entry_nonempty Cons.prems(1) by (cases e) auto
  obtain j' buf' out' where p: "printenv_entry get True i 0 buf out = Some (i + length e + 1, j', buf', out')" "line_buf buf'"
      "out' @ (if j' \<noteq> 0 then puts buf' else []) = out @ e"
    using printenv_entry_spec [OF e Cons.prems(3), of 0 True out] by auto
  have c: "c \<noteq> NUL" "get i = Some c" using e ce by auto
  have tail: "printenv_loop get (\<lambda>k. False) name 1 (i + length e + 1) buf' (out @ e @ [CHR 0x0a]) =
      Some (int (i + length e + 1 + length (encs es)), (out @ e @ [CHR 0x0a]) @ concat (map (\<lambda>e. e @ [CHR 0x0a]) es))"
    using Cons.prems p(2) by (intro Cons.IH) auto
  define out'' where "out'' = out' @ (if j' \<noteq> 0 then puts buf' else []) @ [CHR 0x0a]"
  have out: "out'' = out @ e @ [CHR 0x0a]" using p(3) unfolding out''_def by (metis append.assoc)
  have step: "printenv_loop get (\<lambda>k. False) name 1 i buf out =
      printenv_loop get (\<lambda>k. False) name 1 (i + length e + 1) buf' out''"
    using p(1) c by (subst printenv_loop.simps) (simp add: Let_def out''_def)
  show ?case unfolding step out tail by simp
qed

section \<open>Properties\<close>


text \<open>A relocated board with the default environment, on the page-wise memory chip of Eeprom.\<close>

definition env_sample :: "(nat \<Rightarrow> u8) env_state" where
  "env_sample = set_default_env \<lparr>env_ptr = \<lparr>stored_crc = 0, env_data = []\<rparr>, env_id = 1, env_valid = False,
     gd_reloc = True, gd_baudrate = 115200, bi_baudrate = 115200, bi_ip_addr = 0, load_addr = 0,
     BootFile = [], con_input = [], i2c_bus = (\<lambda>a. 0)\<rparr>"

definition console_sample :: console_dev where
  "console_sample = \<lparr>console_assign = \<lambda>c s. 0, serial_assign = \<lambda>s. 0\<rparr>"

lemma env_sample_ok: "env_ok default_entries env_sample"
  unfolding env_sample_def by (rule set_default_env_ok) simp


text \<open>C30: When the new definition does not fit, \<open>setenv\<close> fails after having removed the old
  definition, and it leaves the stored CRC alone although the array has changed: unless a later
  \<open>setenv\<close> succeeds, a saved environment is rejected at the next boot.\<close>

theorem setenv_overflow:
  assumes "env_ok es st" "plain_name n" "value_ok v"
    and "length (encs (without n es)) + length n + length v + 3 > ENV_SIZE"
  shows "\<exists>st'. setenv dev n (Some v) st = Some (1, st') \<and>
    env_repr (env_data (env_ptr st')) (without n es) \<and> stored_crc (env_ptr st') = stored_crc (env_ptr st)"
  using setenv_assign [OF assms(1-3), of dev] assms(4) by (auto split: if_splits)

theorem setenv_overflow_witness:
  "\<exists>st'. setenv console_sample ''ipaddr'' (Some (replicate 500 CHR ''1'')) env_sample = Some (1, st') \<and>
     env_repr (env_data (env_ptr st')) (without ''ipaddr'' default_entries) \<and>
     stored_crc (env_ptr st') = stored_crc (env_ptr env_sample)"
proof -
  have "length (encs (without ''ipaddr'' default_entries)) = 560" by code_simp
  then have "length (encs (without ''ipaddr'' default_entries)) + length ''ipaddr'' + length (replicate 500 CHR ''1'') + 3 > ENV_SIZE"
    by simp
  moreover have "plain_name ''ipaddr''" by code_simp
  moreover have "value_ok (replicate 500 CHR ''1'')" by (simp add: value_ok_def)
  ultimately show ?thesis
    using setenv_overflow [OF env_sample_ok, of "''ipaddr''" "replicate 500 CHR ''1''" console_sample] by blast
qed





text \<open>C11: If one byte of the saved data is corrupted, \<open>env_init\<close> notices and \<open>env_relocate\<close> falls
  back to the default environment, whose entries are all well formed and which fits.\<close>

theorem corrupt_env_default:
  assumes "chip_reads CONFIG_SYS_DEF_EEPROM_ADDR mem r" "env_ok es st" "gd_reloc boot"
    and "env_data e = (env_data (env_ptr st))[k := c]" "k < ENV_SIZE" "c \<noteq> env_data (env_ptr st) ! k"
    and "stored_crc e = stored_crc (env_ptr st)" "load 0 CONFIG_ENV_SIZE (mem (i2c_bus boot)) = env_bytes e"
  shows "\<exists>boot'. env_init r boot = Some (boot\<lparr>env_valid := False\<rparr>) \<and>
    env_relocate r (boot\<lparr>env_valid := False\<rparr>) = Some boot' \<and> env_ok default_entries boot'"
proof -
  let ?d = "env_data (env_ptr st)"
  have len: "length ?d = ENV_SIZE" and crc: "stored_crc (env_ptr st) = env_crc_of ?d"
    using assms(2) by (simp_all add: env_ok_def env_repr_def)
  have "env_crc_of (env_data e) \<noteq> env_crc_of ?d"
    unfolding assms(4) using env_crc_of_update [of k ?d c] assms(5,6) len by simp
  then have "env_init r boot = Some (boot\<lparr>env_valid := False\<rparr>)"
    using env_init_ok [OF assms(1,8)] assms(4,7) len crc by simp
  then show ?thesis using set_default_env_ok [of "boot\<lparr>env_valid := False\<rparr>"] assms(3) by (simp add: env_relocate_def)
qed

theorem corrupt_env_default_witness:
  "\<exists>bus boot'. env_init block_read (env_sample\<lparr>i2c_bus := bus\<rparr>) = Some (env_sample\<lparr>i2c_bus := bus, env_valid := False\<rparr>) \<and>
     env_relocate block_read (env_sample\<lparr>i2c_bus := bus, env_valid := False\<rparr>) = Some boot' \<and> env_ok default_entries boot'"
proof -
  let ?e = "(env_ptr env_sample)\<lparr>env_data := (env_data (env_ptr env_sample))[0 := CHR ''X'']\<rparr>"
  let ?boot = "env_sample\<lparr>i2c_bus := store 0 (env_bytes ?e) (\<lambda>a. 0)\<rparr>"
  have len: "length (env_data ?e) = ENV_SIZE" and r: "gd_reloc ?boot"
    using env_sample_ok by (simp_all add: env_ok_def env_repr_def)
  have "length (env_bytes ?e) = CONFIG_ENV_SIZE" using len by (rule length_env_bytes)
  then have l: "load 0 CONFIG_ENV_SIZE (i2c_bus ?boot) = env_bytes ?e"
    using load_store [of 0 "env_bytes ?e" "\<lambda>a. 0"] by simp
  have "default_environment ! 0 = CHR ''b''" by code_simp
  then have "env_data (env_ptr env_sample) ! 0 = CHR ''b''"
    using length_default_environment
    by (simp add: env_sample_def set_default_env_def nth_append)
  then show ?thesis
    using corrupt_env_default [OF block_read_ok env_sample_ok r, of ?e 0 "CHR ''X''"] l by auto
qed

text \<open>\<open>printenv\<close> without a name writes every entry followed by a newline, whatever the
  lengths of the entries are relative to its 16-character buffer, and returns the number of bytes.\<close>

lemma printenv_all:
  assumes "env_ok es st" "16 \<le> length buf"
  shows "printenv (env_get_char r st) (\<lambda>k. False) name 1 buf =
    Some (int (length (encs es)), concat (map (\<lambda>e. e @ [CHR 0x0a]) es))"
proof -
  let ?d = "env_data (env_ptr st)"
  obtain rest where d: "?d = encs es @ NUL # rest" and ok: "list_all entry_ok es"
    using assms(1) by (auto simp: env_ok_def env_repr_def)
  have get: "env_get_char r st = rd ?d"
    using assms(1) by (auto simp: env_get_char_def env_get_char_memory_def env_ok_def)
  have "sees (rd ?d) 0 (encs es @ [NUL])" using sees_rd [of "[]" "encs es @ [NUL]" rest] d by simp
  moreover have "line_buf (take 16 buf @ [NUL])" using assms(2) by (simp add: line_buf_def nth_append)
  ultimately show ?thesis unfolding printenv_def get using printenv_all_spec [OF ok] by simp
qed

section \<open>Copying a value into a buffer\<close>

lemma getenv_copy_spec:
  assumes "NUL \<notin> set v" "sees get val (v @ [NUL])" "n + length v < len" "length v < length Z"
  shows "getenv_copy get val len n (length pre) (pre @ Z) =
    Some (n + length v + 1, length pre + length v + 1, pre @ v @ NUL # drop (length v + 1) Z)"
  using assms
proof (induction v arbitrary: val n pre Z)
  case Nil
  then obtain z Z' where "Z = z # Z'" by (cases Z) auto
  then show ?case using Nil by (subst getenv_copy.simps) (simp add: wr_def)
next
  case (Cons c v)
  then obtain z Z' where Z: "Z = z # Z'" by (cases Z) auto
  have "getenv_copy get (val + 1) len (n + 1) (length (pre @ [c])) ((pre @ [c]) @ Z') =
      Some (n + 1 + length v + 1, length (pre @ [c]) + length v + 1, (pre @ [c]) @ v @ NUL # drop (length v + 1) Z')"
    using Cons.prems Z by (intro Cons.IH) auto
  then show ?case using Cons.prems Z by (subst getenv_copy.simps) (auto simp: wr_def)
qed

lemma value_index_sees:
  assumes "list_all entry_ok es" "sees get i (encs es @ [NUL])" "value_index i es n = Some k" "name_ok n"
  shows "\<exists>v. lookup es n = Some v \<and> NUL \<notin> set v \<and> sees get k (v @ [NUL])"
  using assms
proof (induction es arbitrary: i)
  case (Cons e es)
  have e: "entry_ok e" "e = entry_name e @ CHR ''='' # entry_value e" using Cons.prems entry_split by auto
  show ?case
  proof (cases "entry_name e = n")
    case True
    have "NUL \<notin> set (entry_value e)"
      using e by (metis Un_iff entry_ok_def list.set_intros(2) set_append)
    moreover have "sees get i ((n @ [CHR ''='']) @ (entry_value e @ [NUL]))"
      using Cons.prems(2) e(2) True by (metis append.assoc append_Cons append_Nil encs_simps(2) sees_append)
    ultimately show ?thesis using Cons.prems(3) True by (auto simp: lookup_def)
  next
    case False
    then show ?thesis using Cons.IH [of "i + length e + 1"] Cons.prems by (auto simp: lookup_def)
  qed
qed simp

lemma getenv_r_unfold:
  assumes "env_ok es st" "name_ok n" "lookup es n = Some v"
  shows "\<exists>k. getenv_r r st n buf len = do {
      (m, j, buf) \<leftarrow> getenv_copy (rd (env_data (env_ptr st))) k len 0 0 buf;
      buf \<leftarrow> (if len = m then wr buf j NUL else Some buf);
      Some (int m, buf) } \<and> NUL \<notin> set v \<and> sees (rd (env_data (env_ptr st))) k (v @ [NUL])"
proof -
  let ?d = "env_data (env_ptr st)"
  obtain rest where d: "?d = encs es @ NUL # rest" and ok: "list_all entry_ok es" and len: "length ?d = ENV_SIZE"
    using assms(1) by (auto simp: env_ok_def env_repr_def)
  have get: "env_get_char r st = rd ?d"
    using assms(1) by (auto simp: env_get_char_def env_get_char_memory_def env_ok_def)
  have s: "sees (rd ?d) 0 (encs es @ [NUL])" using sees_rd [of "[]" "encs es @ [NUL]" rest] d by simp
  obtain k where k: "value_index 0 es n = Some k"
    using getenv_lookup [OF assms(1,2), of r] assms(3) by (cases "value_index 0 es n") auto
  have "env_lookup (rd ?d) n 0 = Some (Some k)"
    using env_lookup_entries [OF ok assms(2) s] k d len by simp
  then show ?thesis using value_index_sees [OF ok s k assms(2)] assms(3) get by (auto simp: getenv_r_def)
qed

text \<open>\<open>getenv_r\<close> copies a value that is shorter than the buffer by at least two characters,
  with its terminator, and returns its length plus one.\<close>

lemma getenv_r_copies:
  assumes "env_ok es st" "name_ok n" "lookup es n = Some v" "length v + 1 < len" "length buf = len"
  shows "getenv_r r st n buf len = Some (int (length v + 1), v @ NUL # drop (length v + 1) buf)"
proof -
  obtain k where k: "getenv_r r st n buf len = do {
      (m, j, buf) \<leftarrow> getenv_copy (rd (env_data (env_ptr st))) k len 0 0 buf;
      buf \<leftarrow> (if len = m then wr buf j NUL else Some buf);
      Some (int m, buf) }" "NUL \<notin> set v" "sees (rd (env_data (env_ptr st))) k (v @ [NUL])"
    using getenv_r_unfold [OF assms(1-3)] by blast
  show ?thesis
    unfolding k(1) using getenv_copy_spec [OF k(2,3), of 0 len buf "[]"] assms(4,5) by simp
qed

text \<open>A value that fills the buffer exactly, terminator included, makes \<open>getenv_r\<close> store a
  second NUL one byte behind the buffer.\<close>

lemma getenv_r_overruns:
  assumes "env_ok es st" "name_ok n" "lookup es n = Some v" "length v + 1 = len" "length buf = len"
  shows "getenv_r r st n buf len = None"
proof -
  obtain k where k: "getenv_r r st n buf len = do {
      (m, j, buf) \<leftarrow> getenv_copy (rd (env_data (env_ptr st))) k len 0 0 buf;
      buf \<leftarrow> (if len = m then wr buf j NUL else Some buf);
      Some (int m, buf) }" "NUL \<notin> set v" "sees (rd (env_data (env_ptr st))) k (v @ [NUL])"
    using getenv_r_unfold [OF assms(1-3)] by blast
  show ?thesis
    unfolding k(1) using getenv_copy_spec [OF k(2,3), of 0 len buf "[]"] assms(4,5) by (simp add: wr_def)
qed

text \<open>Deleting \<open>baudrate\<close>: the code that switches the console speed reads \<open>argv[2]\<close>, which is NULL.\<close>

lemma setenv_baudrate_null:
  assumes "env_ok es st" "''baudrate'' \<in> entry_name ` set es"
  shows "setenv dev ''baudrate'' None st = None"
proof -
  have "name_ok ''baudrate''" by code_simp
  then obtain e nxt where "env_find (env_data (env_ptr st)) ''baudrate'' 0 = Some (Some (e, nxt))"
    using find_and_delete [of "env_data (env_ptr st)" es "''baudrate''"] assms by (auto simp: env_ok_def)
  then show ?thesis
    using assms(1) by (simp add: setenv_def do_setenv_args_def env_ok_def rd_def console_of_def)
qed

end
