(* ===== verification/CmdLine.thy ===== *)
theory CmdLine
  imports Prelude
begin

text \<open>
  The simple command line parser: common/main.c (\<open>readline_into_buffer\<close>, \<open>delete_char\<close>,
  \<open>parse_line\<close>, \<open>process_macros\<close>, \<open>run_command\<close>, \<open>do_run\<close>) and the command table search of
  common/command.c, for the board's settings (\<open>CONFIG_SYS_CBSIZE\<close> 100, \<open>CONFIG_SYS_MAXARGS\<close>
  16, no hush parser, no line editing, no \<open>bootd\<close>). The commands themselves, the
  environment and the control-C flag live in a state of any type: the functions that read it
  are arguments.
\<close>

abbreviation (input) CONFIG_SYS_CBSIZE :: nat where
  "CONFIG_SYS_CBSIZE \<equiv> 100"

abbreviation (input) CONFIG_SYS_MAXARGS :: nat where
  "CONFIG_SYS_MAXARGS \<equiv> 16"

section \<open>Reading a line\<close>

text \<open>The state of the loop in \<open>readline_into_buffer\<close>: the caller's buffer, the index \<open>n\<close> (the
  pointer \<open>p\<close> is always \<open>p_buf + n\<close>), the output column and the characters echoed.\<close>

record line_state =
  ln_buf :: string
  ln_n :: nat
  ln_col :: nat
  ln_out :: string

definition erase_seq :: string where
  "erase_seq = [CHR 0x08, CHR '' '', CHR 0x08]"

definition tab_seq :: string where
  "tab_seq = replicate 8 (CHR '' '')"

text \<open>Echo of one character, with TABs expanded to the next multiple of 8.\<close>

definition echo_char :: "char \<Rightarrow> line_state \<Rightarrow> line_state" where
  "echo_char c l =
     (if c = CHR 0x09
      then l\<lparr>ln_out := ln_out l @ drop (ln_col l mod 8) tab_seq, ln_col := ln_col l + (8 - ln_col l mod 8)\<rparr>
      else l\<lparr>ln_out := ln_out l @ [c], ln_col := ln_col l + 1\<rparr>)"

definition erase_to :: "nat \<Rightarrow> line_state \<Rightarrow> line_state" where
  "erase_to plen l =
     l\<lparr>ln_out := ln_out l @ concat (replicate (ln_col l - plen) erase_seq), ln_col := min (ln_col l) plen\<rparr>"

definition delete_char :: "nat \<Rightarrow> line_state \<Rightarrow> line_state option" where
  "delete_char plen l =
     (if ln_n l = 0 then Some l
      else do {
        c \<leftarrow> rd (ln_buf l) (ln_n l - 1);
        let l = (if c = CHR 0x09
                 then fold echo_char (take (ln_n l - 1) (ln_buf l)) (erase_to plen l)
                 else l\<lparr>ln_out := ln_out l @ erase_seq, ln_col := ln_col l - 1\<rparr>);
        Some (l\<lparr>ln_n := ln_n l - 1\<rparr>)
      })"

text \<open>The loop of \<open>^W\<close> after its first deletion: at most \<open>n\<close> deletions.\<close>

fun delete_word :: "nat \<Rightarrow> nat \<Rightarrow> line_state \<Rightarrow> line_state option" where
  "delete_word plen 0 l = Some l"
| "delete_word plen (Suc k) l =
     (if ln_n l = 0 then Some l
      else do {
        c \<leftarrow> rd (ln_buf l) (ln_n l);
        if c = CHR '' '' then Some l
        else do { l' \<leftarrow> delete_char plen l; delete_word plen k l' }
      })"

text \<open>One character of input. \<open>Inl r\<close> leaves the loop with the value \<open>r\<close>.\<close>

definition readline_char :: "nat \<Rightarrow> char \<Rightarrow> line_state \<Rightarrow> ((int \<times> line_state) + line_state) option" where
  "readline_char plen c l =
     (if c = CHR 0x0d \<or> c = CHR 0x0a then do {
        b \<leftarrow> wr (ln_buf l) (ln_n l) NUL;
        Some (Inl (int (ln_n l), l\<lparr>ln_buf := b, ln_out := ln_out l @ [CHR 0x0d, CHR 0x0a]\<rparr>))
      }
      else if c = NUL then Some (Inr l)
      else if c = CHR 0x03 then do {
        b \<leftarrow> wr (ln_buf l) 0 NUL;
        Some (Inl (-1, l\<lparr>ln_buf := b\<rparr>))
      }
      else if c = CHR 0x15 then Some (Inr ((erase_to plen l)\<lparr>ln_n := 0\<rparr>))
      else if c = CHR 0x17 then do {
        l \<leftarrow> delete_char plen l;
        l \<leftarrow> delete_word plen (ln_n l) l;
        Some (Inr l)
      }
      else if c = CHR 0x08 \<or> c = CHR 0x7f then do { l \<leftarrow> delete_char plen l; Some (Inr l) }
      else if ln_n l < CONFIG_SYS_CBSIZE - 2 then do {
        let l = echo_char c l;
        b \<leftarrow> wr (ln_buf l) (ln_n l) c;
        Some (Inr (l\<lparr>ln_buf := b, ln_n := ln_n l + 1\<rparr>))
      }
      else Some (Inr (l\<lparr>ln_out := ln_out l @ [CHR 0x07]\<rparr>)))"

text \<open>The loop over the console input: \<open>None\<close> also stands for waiting forever at its end.\<close>

fun readline_loop :: "nat \<Rightarrow> string \<Rightarrow> line_state \<Rightarrow> (int \<times> line_state \<times> string) option" where
  "readline_loop plen [] l = None"
| "readline_loop plen (c # inp) l = do {
     r \<leftarrow> readline_char plen c l;
     case r of Inl (rc, l') \<Rightarrow> Some (rc, l', inp) | Inr l' \<Rightarrow> readline_loop plen inp l'
   }"

definition readline_into_buffer :: "string \<Rightarrow> string \<Rightarrow> string \<Rightarrow> (int \<times> line_state \<times> string) option" where
  "readline_into_buffer prompt buffer inp =
     readline_loop (length prompt) inp \<lparr>ln_buf = buffer, ln_n = 0, ln_col = length prompt, ln_out = prompt\<rparr>"

definition readline :: "string \<Rightarrow> string \<Rightarrow> string \<Rightarrow> (int \<times> line_state \<times> string) option" where
  "readline prompt console_buffer inp = do {
     b \<leftarrow> wr console_buffer 0 NUL;
     readline_into_buffer prompt b inp
   }"

section \<open>Splitting a line into arguments\<close>

abbreviation (input) blank :: "char \<Rightarrow> bool" where
  "blank c \<equiv> c = CHR '' '' \<or> c = CHR 0x09"

text \<open>The loop of \<open>parse_line\<close>; the first argument is the number of free slots of \<open>argv\<close>. The
  result is the list of arguments and whether \<open>argv[nargs]\<close> was set to NULL.\<close>

fun parse_args :: "nat \<Rightarrow> string \<Rightarrow> string list \<times> bool" where
  "parse_args 0 line = ([], False)"
| "parse_args (Suc k) line =
     (let line = dropWhile blank line in
      if line = [] then ([], True)
      else let arg = takeWhile (\<lambda>c. \<not> blank c) line;
               rest = dropWhile (\<lambda>c. \<not> blank c) line
           in if rest = [] then ([arg], True)
              else let (args, ended) = parse_args k (tl rest) in (arg # args, ended))"

definition parse_line :: "string \<Rightarrow> string list \<times> bool" where
  "parse_line line = parse_args CONFIG_SYS_MAXARGS line"

section \<open>Replacing variables\<close>

text \<open>The \<open>switch\<close> in \<open>process_macros\<close>: the state, the place where the variable name starts
  (the input from there on), the free space and the output.\<close>

definition macro_step ::
  "(string \<Rightarrow> string option) \<Rightarrow> nat \<Rightarrow> char \<Rightarrow> char \<Rightarrow> string \<Rightarrow> string \<Rightarrow> nat \<Rightarrow> string \<Rightarrow>
     nat \<times> string \<times> nat \<times> string" where
  "macro_step getenv state prev c inp varname_start outputcnt out =
     (if state = 0 then
        if c = CHR 0x27 \<and> prev \<noteq> CHR 0x5c then (3, varname_start, outputcnt, out)
        else if c = CHR ''$'' \<and> prev \<noteq> CHR 0x5c then (1, varname_start, outputcnt, out)
        else (0, varname_start, outputcnt - 1, out @ [c])
      else if state = 1 then
        if c = CHR ''('' \<or> c = CHR ''{'' then (2, inp, outputcnt, out)
        else if outputcnt - 1 \<noteq> 0 then (0, varname_start, outputcnt - 2, out @ [CHR ''$'', c])
        else (0, varname_start, 0, out @ [CHR ''$''])
      else if state = 2 then
        if c = CHR '')'' \<or> c = CHR ''}'' then
          let envcnt = length varname_start - length inp - 1;
              envval = (case getenv (take envcnt varname_start) of None \<Rightarrow> [] | Some v \<Rightarrow> take outputcnt v)
          in (0, varname_start, outputcnt - length envval, out @ envval)
        else (2, varname_start, outputcnt, out)
      else
        if c = CHR 0x27 \<and> prev \<noteq> CHR 0x5c then (0, varname_start, outputcnt, out)
        else (3, varname_start, outputcnt - 1, out @ [c]))"

fun macro_loop ::
  "(string \<Rightarrow> string option) \<Rightarrow> nat \<Rightarrow> char \<Rightarrow> string \<Rightarrow> string \<Rightarrow> nat \<Rightarrow> string \<Rightarrow> nat \<times> string" where
  "macro_loop getenv state prev vs [] outputcnt out = (outputcnt, out)"
| "macro_loop getenv state prev vs (c # inp) outputcnt out =
     (if outputcnt = 0 then (outputcnt, out)
      else if state \<noteq> 3 \<and> c = CHR 0x5c \<and> prev \<noteq> CHR 0x5c then
        case inp of [] \<Rightarrow> (outputcnt, out)
        | c' # inp' \<Rightarrow>
            (case macro_step getenv state (CHR 0x5c) c' inp' vs outputcnt out of
               (state', vs', outputcnt', out') \<Rightarrow> macro_loop getenv state' c' vs' inp' outputcnt' out')
      else
        (case macro_step getenv state prev c inp vs outputcnt out of
           (state', vs', outputcnt', out') \<Rightarrow> macro_loop getenv state' c vs' inp outputcnt' out'))"

definition process_macros :: "(string \<Rightarrow> string option) \<Rightarrow> string \<Rightarrow> string" where
  "process_macros getenv inp =
     (let (outputcnt, out) = macro_loop getenv 0 NUL [] inp CONFIG_SYS_CBSIZE []
      in if outputcnt \<noteq> 0 then out else butlast out)"

section \<open>The command table\<close>

text \<open>A command gets the function that runs a command line (which \<open>do_run\<close> calls back), the
  flags, its arguments and the state; \<open>None\<close> is a command that does not return.\<close>

type_synonym 's runner = "string \<Rightarrow> int \<Rightarrow> 's \<Rightarrow> (int \<times> 's) option"

record 's cmd_tbl =
  cmd_name :: string
  maxargs :: int
  repeatable :: int
  cmd :: "'s runner \<Rightarrow> int \<Rightarrow> string list \<Rightarrow> 's \<Rightarrow> (int \<times> 's) option"
  cmd_usage_text :: "string option"
  cmd_help :: "string option"

text \<open>\<open>strncmp(cmd, name, len) == 0\<close> for a \<open>cmd\<close> of at least \<open>len\<close> characters.\<close>

definition name_prefix :: "string \<Rightarrow> nat \<Rightarrow> string \<Rightarrow> bool" where
  "name_prefix c len name \<longleftrightarrow> len \<le> length name \<and> take len name = take len c"

fun find_cmd_loop :: "string \<Rightarrow> nat \<Rightarrow> 's cmd_tbl list \<Rightarrow> 's cmd_tbl option \<Rightarrow> nat \<Rightarrow> 's cmd_tbl option" where
  "find_cmd_loop c len [] cmdtp_temp n_found = (if n_found = 1 then cmdtp_temp else None)"
| "find_cmd_loop c len (cmdtp # table) cmdtp_temp n_found =
     (if name_prefix c len (cmd_name cmdtp) then
        if len = length (cmd_name cmdtp) then Some cmdtp
        else find_cmd_loop c len table (Some cmdtp) (n_found + 1)
      else find_cmd_loop c len table cmdtp_temp n_found)"

definition find_cmd_tbl :: "string \<Rightarrow> 's cmd_tbl list \<Rightarrow> 's cmd_tbl option" where
  "find_cmd_tbl c table =
     (let len = length (takeWhile (\<lambda>x. x \<noteq> CHR ''.'') c)
      in find_cmd_loop c len table (case table of [] \<Rightarrow> None | t # ts \<Rightarrow> Some t) 0)"

text \<open>\<open>cmd_get_data_size\<close>: the modifier of commands such as \<open>cp.b\<close>.\<close>

definition cmd_get_data_size :: "string \<Rightarrow> int \<Rightarrow> int" where
  "cmd_get_data_size arg default_size =
     (let len = length arg in
      if len > 2 \<and> arg ! (len - 2) = CHR ''.'' then
        let c = arg ! (len - 1) in
        if c = CHR ''b'' then 1 else if c = CHR ''w'' then 2 else if c = CHR ''l'' then 4
        else if c = CHR ''s'' then -2 else -1
      else default_size)"

section \<open>Running a command line\<close>

text \<open>The separator loop of \<open>run_command\<close>: \<open>prev\<close> is the byte before \<open>sep\<close>, \<open>start\<close> tells that
  \<open>sep\<close> is still at \<open>str\<close>. The result is the token and what follows the separator, if any.\<close>

fun find_sep :: "char \<Rightarrow> bool \<Rightarrow> bool \<Rightarrow> string \<Rightarrow> string \<times> string option" where
  "find_sep prev inquotes start [] = ([], None)"
| "find_sep prev inquotes start (c # s) =
     (let inquotes = (if c = CHR 0x27 \<and> prev \<noteq> CHR 0x5c then \<not> inquotes else inquotes)
      in if \<not> inquotes \<and> c = CHR '';'' \<and> \<not> start \<and> prev \<noteq> CHR 0x5c then ([], Some s)
         else let (t, r) = find_sep c inquotes False s in (c # t, r))"

lemma find_sep_length:
  "find_sep prev q b s = (t, r) \<Longrightarrow> length t + (case r of None \<Rightarrow> 0 | Some u \<Rightarrow> Suc (length u)) = length s"
  by (induction prev q b s arbitrary: t r rule: find_sep.induct)
    (auto simp: Let_def split: if_splits prod.splits)

lemma find_sep_shorter:
  "find_sep prev q b s = (t, r) \<Longrightarrow> s \<noteq> [] \<Longrightarrow> length (case r of None \<Rightarrow> [] | Some u \<Rightarrow> u) < length s"
  using find_sep_length [of prev q b s t r] by (cases r) auto

text \<open>What the code reads from the state it shares with the commands.\<close>

record 's cmd_env =
  ce_getenv :: "'s \<Rightarrow> string \<Rightarrow> string option"
  ce_had_ctrlc :: "'s \<Rightarrow> bool"
  ce_clear_ctrlc :: "'s \<Rightarrow> 's"

text \<open>One token: \<open>None\<close> when the command does not return; otherwise the new \<open>rc\<close> and \<open>repeatable\<close>,
  and whether control-C stops the line.\<close>

definition run_token ::
  "'s cmd_env \<Rightarrow> 's cmd_tbl list \<Rightarrow> 's runner \<Rightarrow> int \<Rightarrow> string \<Rightarrow> int \<Rightarrow> int \<Rightarrow> 's \<Rightarrow> (bool \<times> int \<times> int \<times> 's) option" where
  "run_token ce table run flag token rc rep st =
     (let finaltoken = process_macros (ce_getenv ce st) token;
          argv = fst (parse_line finaltoken)
      in if argv = [] then Some (False, -1, rep, st)
         else case find_cmd_tbl (hd argv) table of
             None \<Rightarrow> Some (False, -1, rep, st)
           | Some cmdtp \<Rightarrow>
               if int (length argv) > maxargs cmdtp then Some (False, -1, rep, st)
               else do {
                 (r, st') \<leftarrow> cmd cmdtp run flag argv st;
                 Some (ce_had_ctrlc ce st', if r \<noteq> 0 then -1 else rc, rep AND repeatable cmdtp, st')
               })"

function run_tokens ::
  "'s cmd_env \<Rightarrow> 's cmd_tbl list \<Rightarrow> 's runner \<Rightarrow> int \<Rightarrow> char \<Rightarrow> string \<Rightarrow> int \<Rightarrow> int \<Rightarrow> 's \<Rightarrow> (int \<times> 's) option" where
  "run_tokens ce table run flag prev str rc rep st =
     (if str = [] then Some (if rc \<noteq> 0 then rc else rep, st)
      else do {
        let (token, sep) = find_sep prev False True str;
        (stop, rc', rep', st') \<leftarrow> run_token ce table run flag token rc rep st;
        if stop then Some (-1, st')
        else run_tokens ce table run flag NUL (case sep of None \<Rightarrow> [] | Some s \<Rightarrow> s) rc' rep' st'
      })"
  by pat_completeness auto
termination
  by (relation "measure (\<lambda>(ce, table, run, flag, prev, str, rc, rep, st). length str)")
    (auto dest: sym intro: find_sep_shorter)

declare run_tokens.simps [simp del]

text \<open>\<open>run_command\<close> with the byte \<open>below\<close> that lies in front of \<open>cmdbuf\<close> on the stack (it is read
  when the line starts with a quote). The first argument bounds the nesting of \<open>run_command\<close>
  through commands that run command lines; \<open>None\<close> is an exhausted stack.\<close>

fun run_command :: "nat \<Rightarrow> 's cmd_env \<Rightarrow> 's cmd_tbl list \<Rightarrow> char \<Rightarrow> string \<Rightarrow> int \<Rightarrow> 's \<Rightarrow> (int \<times> 's) option" where
  "run_command 0 ce table below c flag st = None"
| "run_command (Suc depth) ce table below c flag st =
     (let st = ce_clear_ctrlc ce st in
      if c = [] then Some (-1, st)
      else if length c \<ge> CONFIG_SYS_CBSIZE then Some (-1, st)
      else run_tokens ce table (run_command depth ce table below) flag below c 0 1 st)"

fun do_run_loop :: "'s cmd_env \<Rightarrow> 's runner \<Rightarrow> int \<Rightarrow> string list \<Rightarrow> 's \<Rightarrow> (int \<times> 's) option" where
  "do_run_loop ce run flag [] st = Some (0, st)"
| "do_run_loop ce run flag (v # vs) st =
     (case ce_getenv ce st v of
        None \<Rightarrow> Some (1, st)
      | Some arg \<Rightarrow> do {
          (r, st') \<leftarrow> run arg flag st;
          if r = -1 then Some (1, st') else do_run_loop ce run flag vs st'
        })"

definition do_run :: "'s cmd_env \<Rightarrow> 's runner \<Rightarrow> int \<Rightarrow> string list \<Rightarrow> 's \<Rightarrow> (int \<times> 's) option" where
  "do_run ce run flag argv st =
     (if length argv < 2 then Some (1, st) else do_run_loop ce run flag (tl argv) st)"

section \<open>Lines stay inside the buffer\<close>

text \<open>In a buffer of \<open>bsz\<close> bytes the index stays below \<open>CONFIG_SYS_CBSIZE - 1\<close> and the cursor never moves left of the prompt.\<close>

definition line_ok :: "nat \<Rightarrow> nat \<Rightarrow> line_state \<Rightarrow> bool" where
  "line_ok bsz plen l \<longleftrightarrow> CONFIG_SYS_CBSIZE \<le> bsz \<and> length (ln_buf l) = bsz \<and> ln_n l \<le> CONFIG_SYS_CBSIZE - 2 \<and> plen + ln_n l \<le> ln_col l"

lemma echo_char_simps [simp]:
  "ln_buf (echo_char c l) = ln_buf l" "ln_n (echo_char c l) = ln_n l"
  by (auto simp: echo_char_def)

lemma echo_char_col: "ln_col l < ln_col (echo_char c l)"
  by (auto simp: echo_char_def)

lemma fold_echo [simp]:
  "ln_buf (fold echo_char s l) = ln_buf l" "ln_n (fold echo_char s l) = ln_n l"
  "ln_col l + length s \<le> ln_col (fold echo_char s l)"
proof (induction s arbitrary: l)
  case (Cons c s)
  { case 1 then show ?case using Cons(1) by simp }
  { case 2 then show ?case using Cons(2) by simp }
  { case 3 then show ?case using Cons(3) [of "echo_char c l"] echo_char_col [of l c] by simp }
qed simp_all

lemma erase_to_simps [simp]:
  "ln_buf (erase_to p l) = ln_buf l" "ln_n (erase_to p l) = ln_n l" "ln_col (erase_to p l) = min (ln_col l) p"
  by (simp_all add: erase_to_def)

lemma delete_char_ok:
  assumes "line_ok bsz plen l"
  shows "\<exists>l'. delete_char plen l = Some l' \<and> line_ok bsz plen l' \<and> ln_buf l' = ln_buf l \<and> ln_n l' = ln_n l - 1"
proof (cases "ln_n l = 0")
  case True
  then show ?thesis using assms by (simp add: delete_char_def)
next
  case False
  let ?c = "ln_buf l ! (ln_n l - 1)"
  have i: "ln_n l - 1 < length (ln_buf l)" using assms False unfolding line_ok_def by linarith
  define l1 where "l1 = (if ?c = CHR 0x09 then fold echo_char (take (ln_n l - 1) (ln_buf l)) (erase_to plen l)
      else l\<lparr>ln_out := ln_out l @ erase_seq, ln_col := ln_col l - 1\<rparr>)"
  have "ln_col (erase_to plen l) = plen" using assms by (simp add: line_ok_def)
  then have "plen + length (take (ln_n l - 1) (ln_buf l)) \<le>
      ln_col (fold echo_char (take (ln_n l - 1) (ln_buf l)) (erase_to plen l))"
    using fold_echo(3) by metis
  then have "plen + (ln_n l - 1) \<le> ln_col l1" using i assms False by (auto simp: l1_def line_ok_def)
  moreover have "ln_buf l1 = ln_buf l" "ln_n l1 = ln_n l" by (simp_all add: l1_def)
  moreover have "delete_char plen l = Some (l1\<lparr>ln_n := ln_n l1 - 1\<rparr>)"
    using False i by (simp add: delete_char_def l1_def Let_def)
  ultimately show ?thesis using assms by (auto simp: line_ok_def)
qed

lemma delete_word_ok:
  "line_ok bsz plen l \<Longrightarrow> \<exists>l'. delete_word plen k l = Some l' \<and> line_ok bsz plen l'"
proof (induction k arbitrary: l)
  case (Suc k)
  have i: "ln_n l < length (ln_buf l)" using Suc.prems by (simp add: line_ok_def)
  obtain l' where l': "delete_char plen l = Some l'" "line_ok bsz plen l'" using delete_char_ok [OF Suc.prems] by blast
  then obtain l'' where "delete_word plen k l' = Some l''" "line_ok bsz plen l''" using Suc.IH by blast
  then show ?case using Suc.prems i l' by simp
qed simp

lemma readline_char_ok:
  assumes "line_ok bsz plen l"
  shows "(\<exists>l'. readline_char plen c l = Some (Inr l') \<and> line_ok bsz plen l' \<and> c \<noteq> CHR 0x0d) \<or>
    (\<exists>rc l'. readline_char plen c l = Some (Inl (rc, l')) \<and> rc \<le> int (CONFIG_SYS_CBSIZE - 2) \<and>
       length (ln_buf l') = bsz \<and> -1 \<le> rc \<and> (0 \<le> rc \<longrightarrow> ln_buf l' ! nat rc = NUL))"
proof -
  have b: "CONFIG_SYS_CBSIZE \<le> bsz" "length (ln_buf l) = bsz" "ln_n l \<le> CONFIG_SYS_CBSIZE - 2" "plen + ln_n l \<le> ln_col l"
    using assms by (simp_all add: line_ok_def)
  obtain l1 where l1: "delete_char plen l = Some l1" "line_ok bsz plen l1" using delete_char_ok [OF assms] by blast
  obtain l2 where l2: "delete_word plen (ln_n l1) l1 = Some l2" "line_ok bsz plen l2" using delete_word_ok [OF l1(2)] by blast
  consider (enter) "c = CHR 0x0d \<or> c = CHR 0x0a" | (brk) "c = CHR 0x03" | (erase) "c = CHR 0x15"
    | (word) "c = CHR 0x17" | (bksp) "c = CHR 0x08 \<or> c = CHR 0x7f" | (nul) "c = NUL"
    | (char) "c \<notin> {CHR 0x0d, CHR 0x0a, CHR 0x03, CHR 0x15, CHR 0x17, CHR 0x08, CHR 0x7f, NUL}" by blast
  then show ?thesis
  proof cases
    case char
    then show ?thesis
    proof (cases "ln_n l < CONFIG_SYS_CBSIZE - 2")
      case True
      have "line_ok bsz plen ((echo_char c l)\<lparr>ln_buf := (ln_buf l)[ln_n l := c], ln_n := ln_n l + 1\<rparr>)"
        using b True echo_char_col [of l c] by (simp add: line_ok_def)
      then show ?thesis using char True b by (simp add: readline_char_def Let_def)
    next
      case False
      then show ?thesis using char assms by (simp add: readline_char_def line_ok_def)
    qed
  qed (use b l1 l2 assms in \<open>auto simp: readline_char_def line_ok_def\<close>)
qed

lemma readline_loop_ok:
  assumes "line_ok bsz plen l" "CHR 0x0d \<in> set inp"
  shows "\<exists>rc l' rest. readline_loop plen inp l = Some (rc, l', rest) \<and> rc \<le> int (CONFIG_SYS_CBSIZE - 2) \<and>
    length (ln_buf l') = bsz \<and> -1 \<le> rc \<and> (0 \<le> rc \<longrightarrow> ln_buf l' ! nat rc = NUL)"
  using assms
proof (induction inp arbitrary: l)
  case (Cons c inp)
  from readline_char_ok [OF Cons.prems(1), of c] show ?case
  proof (elim disjE exE conjE)
    fix l' assume "readline_char plen c l = Some (Inr l')" "line_ok bsz plen l'" "c \<noteq> CHR 0x0d"
    then show ?thesis using Cons.IH [of l'] Cons.prems(2) by auto
  qed auto
qed simp

text \<open>Ordinary characters are appended to the line.\<close>

definition typed_char :: "char \<Rightarrow> bool" where
  "typed_char c \<longleftrightarrow> c \<notin> {CHR 0x0d, CHR 0x0a, CHR 0x03, CHR 0x15, CHR 0x17, CHR 0x08, CHR 0x7f, NUL}"

lemma readline_typed:
  assumes "list_all typed_char cs"
    and "length pre + length cs \<le> CONFIG_SYS_CBSIZE - 2" "ln_buf l = pre @ Z" "ln_n l = length pre" "CONFIG_SYS_CBSIZE \<le> length (pre @ Z)"
  shows "\<exists>l'. readline_loop plen (cs @ inp) l = readline_loop plen inp l' \<and>
    ln_buf l' = pre @ cs @ drop (length cs) Z \<and> ln_n l' = length pre + length cs"
  using assms
proof (induction cs arbitrary: pre Z l)
  case Nil
  then show ?case by (intro exI [of _ l]) simp
next
  case (Cons c cs)
  then obtain z Z' where Z: "Z = z # Z'" by (cases Z) auto
  let ?l = "(echo_char c l)\<lparr>ln_buf := (pre @ [c]) @ Z', ln_n := length (pre @ [c])\<rparr>"
  have "readline_char plen c l = Some (Inr ?l)"
    using Cons.prems Z by (auto simp: readline_char_def Let_def wr_def typed_char_def)
  moreover have "\<exists>l'. readline_loop plen (cs @ inp) ?l = readline_loop plen inp l' \<and>
      ln_buf l' = (pre @ [c]) @ cs @ drop (length cs) Z' \<and> ln_n l' = length (pre @ [c]) + length cs"
    using Cons.prems Z by (intro Cons.IH) auto
  ultimately show ?case using Z by simp
qed

section \<open>Macros\<close>

lemma macro_step_count:
  assumes "macro_step ge s prev c inp vs oc out = (s', vs', oc', out')" "0 < oc"
  shows "length out' + oc' = length out + oc"
  using assms by (auto simp: macro_step_def Let_def split: if_splits option.splits)

lemma macro_loop_count:
  "macro_loop ge s prev vs inp oc out = (oc', out') \<Longrightarrow> length out' + oc' = length out + oc"
proof (induction ge s prev vs inp oc out arbitrary: oc' out' rule: macro_loop.induct)
  case (2 ge s prev vs c inp oc out)
  show ?case
  proof (cases "oc = 0")
    case True
    then show ?thesis using "2.prems" by simp
  next
    case pos: False
    show ?thesis
    proof (cases "s \<noteq> 3 \<and> c = CHR 0x5c \<and> prev \<noteq> CHR 0x5c")
      case esc: True
      show ?thesis
      proof (cases inp)
        case Nil
        then show ?thesis using "2.prems" pos esc by simp
      next
        case (Cons c' inp')
        obtain s1 v1 o1 u1 where st: "macro_step ge s (CHR 0x5c) c' inp' vs oc out = (s1, v1, o1, u1)"
          by (cases "macro_step ge s (CHR 0x5c) c' inp' vs oc out") auto
        then have "length out' + oc' = length u1 + o1"
          using "2.prems" pos esc Cons by (intro "2.IH"(1) [OF pos esc Cons st [symmetric] refl refl]) simp
        then show ?thesis using macro_step_count [OF st] pos by simp
      qed
    next
      case nesc: False
      obtain s1 v1 o1 u1 where st: "macro_step ge s prev c inp vs oc out = (s1, v1, o1, u1)"
        by (cases "macro_step ge s prev c inp vs oc out") auto
      then have "length out' + oc' = length u1 + o1"
        using "2.prems" pos nesc by (intro "2.IH"(2) [OF pos nesc st [symmetric] refl refl]) simp
      then show ?thesis using macro_step_count [OF st] pos by simp
    qed
  qed
qed simp

definition plain_char :: "char \<Rightarrow> bool" where
  "plain_char c \<longleftrightarrow> c \<notin> {CHR 0x5c, CHR 0x27, CHR ''$''}"

lemma macro_plain:
  assumes "\<forall>c\<in>set a. plain_char c" "prev \<noteq> CHR 0x5c" "length a < oc"
  shows "\<exists>prev'. prev' \<noteq> CHR 0x5c \<and>
    macro_loop ge 0 prev vs (a @ s) oc out = macro_loop ge 0 prev' vs s (oc - length a) (out @ a)"
  using assms
proof (induction a arbitrary: prev oc out)
  case Nil
  then show ?case by auto
next
  case (Cons c a)
  have c: "c \<noteq> CHR 0x5c" "c \<noteq> CHR 0x27" "c \<noteq> CHR ''$''" using Cons.prems(1) by (auto simp: plain_char_def)
  have a: "\<forall>c\<in>set a. plain_char c" "length a < oc - 1" using Cons.prems by auto
  obtain prev' where p: "prev' \<noteq> CHR 0x5c"
      "macro_loop ge 0 c vs (a @ s) (oc - 1) (out @ [c]) = macro_loop ge 0 prev' vs s (oc - 1 - length a) ((out @ [c]) @ a)"
    using Cons.IH [OF a(1) c(1) a(2), of "out @ [c]"] by blast
  have "macro_loop ge 0 prev vs ((c # a) @ s) oc out = macro_loop ge 0 c vs (a @ s) (oc - 1) (out @ [c])"
    using c Cons.prems(3) by (simp add: macro_step_def)
  also note p(2)
  finally have "macro_loop ge 0 prev vs ((c # a) @ s) oc out = macro_loop ge 0 prev' vs s (oc - length (c # a)) (out @ c # a)"
    by simp
  with p(1) show ?case by blast
qed

definition var_char :: "char \<Rightarrow> bool" where
  "var_char c \<longleftrightarrow> c \<notin> {CHR 0x5c, CHR '')'', CHR ''}''}"

lemma macro_name:
  assumes "\<forall>c\<in>set n. var_char c" "prev \<noteq> CHR 0x5c" "0 < oc"
  shows "\<exists>prev'. prev' \<noteq> CHR 0x5c \<and>
    macro_loop ge 2 prev vs (n @ s) oc out = macro_loop ge 2 prev' vs s oc out"
  using assms
proof (induction n arbitrary: prev)
  case (Cons c n)
  have c: "c \<noteq> CHR 0x5c" "c \<noteq> CHR '')''" "c \<noteq> CHR ''}''" using Cons.prems(1) by (auto simp: var_char_def)
  then have "macro_loop ge 2 prev vs ((c # n) @ s) oc out = macro_loop ge 2 c vs (n @ s) oc out"
    using Cons.prems(3) by (simp add: macro_step_def)
  then show ?case using Cons.IH [of c] Cons.prems c(1) by auto
qed auto

definition macro_value :: "(string \<Rightarrow> string option) \<Rightarrow> string \<Rightarrow> string" where
  "macro_value ge n = (case ge n of None \<Rightarrow> [] | Some v \<Rightarrow> v)"

lemma macro_var:
  assumes "\<forall>c\<in>set n. var_char c" "prev \<noteq> CHR 0x5c" "length (macro_value ge n) < oc" "br = CHR ''}'' \<or> br = CHR '')''"
    "op = CHR ''{'' \<or> op = CHR ''(''"
  shows "macro_loop ge 0 prev vs (CHR ''$'' # op # n @ br # s) oc out =
    macro_loop ge 0 br (n @ br # s) s (oc - length (macro_value ge n)) (out @ macro_value ge n)"
proof -
  have op: "op \<noteq> CHR 0x5c" and br: "br \<noteq> CHR 0x5c" using assms(4,5) by auto
  have oc: "0 < oc" using assms(3) by simp
  have "macro_loop ge 0 prev vs (CHR ''$'' # op # n @ br # s) oc out = macro_loop ge 2 op (n @ br # s) (n @ br # s) oc out"
    using assms(2,5) oc op by (auto simp: macro_step_def)
  also obtain prev' where p: "prev' \<noteq> CHR 0x5c"
      "macro_loop ge 2 op (n @ br # s) (n @ br # s) oc out = macro_loop ge 2 prev' (n @ br # s) (br # s) oc out"
    using macro_name [OF assms(1) op oc, of ge "n @ br # s" "br # s" out] by blast
  note p(2)
  also have "macro_loop ge 2 prev' (n @ br # s) (br # s) oc out =
      macro_loop ge 0 br (n @ br # s) s (oc - length (macro_value ge n)) (out @ macro_value ge n)"
    using assms(3,4) br oc by (auto simp: macro_step_def macro_value_def Let_def split: option.splits)
  finally show ?thesis .
qed

lemma process_macros_plain:
  assumes "\<forall>c\<in>set a. plain_char c" "length a < CONFIG_SYS_CBSIZE"
  shows "process_macros ge a = a"
proof -
  obtain prev' where "macro_loop ge 0 NUL [] (a @ []) CONFIG_SYS_CBSIZE [] =
      macro_loop ge 0 prev' [] [] (CONFIG_SYS_CBSIZE - length a) ([] @ a)"
    using macro_plain [OF assms(1) _ assms(2), of NUL ge "[]" "[]" "[]"] by auto
  then show ?thesis using assms(2) by (simp add: process_macros_def)
qed

section \<open>Arguments\<close>

function words :: "string \<Rightarrow> string list" where
  "words line =
     (let l = dropWhile blank line in
      if l = [] then [] else takeWhile (\<lambda>c. \<not> blank c) l # words (dropWhile (\<lambda>c. \<not> blank c) l))"
  by pat_completeness auto
termination
proof (relation "measure length", goal_cases)
  case (2 line l)
  obtain a l' where l: "l = a # l'" using 2(2) by (cases l) auto
  have "\<not> blank (hd l)" using hd_dropWhile [of blank line] 2 by simp
  then have "dropWhile (\<lambda>c. \<not> blank c) l = dropWhile (\<lambda>c. \<not> blank c) l'" using l by simp
  moreover have "length (dropWhile (\<lambda>c. \<not> blank c) l') \<le> length l'" by (rule length_dropWhile_le)
  moreover have "length l \<le> length line" unfolding 2(1) by (rule length_dropWhile_le)
  ultimately show ?case using l by simp
qed simp

declare words.simps [simp del]

lemma words_Nil [simp]: "words [] = []"
  by (simp add: words.simps)

lemma words_blank: "blank c \<Longrightarrow> words (c # s) = words s"
  by (subst (1 2) words.simps) simp

lemma parse_args_words: "fst (parse_args k line) = take k (words line)"
proof (induction k arbitrary: line)
  case (Suc k)
  define l where "l = dropWhile blank line"
  define rest where "rest = dropWhile (\<lambda>c. \<not> blank c) l"
  define arg where "arg = takeWhile (\<lambda>c. \<not> blank c) l"
  have p: "parse_args (Suc k) line =
      (if l = [] then ([], True) else if rest = [] then ([arg], True)
       else (arg # fst (parse_args k (tl rest)), snd (parse_args k (tl rest))))"
    unfolding parse_args.simps Let_def l_def [symmetric] rest_def [symmetric] arg_def [symmetric]
    by (simp add: case_prod_beta)
  have w: "words line = (if l = [] then [] else arg # words rest)"
    by (subst words.simps) (simp only: Let_def l_def rest_def arg_def)
  have "words rest = words (tl rest)" if "rest \<noteq> []"
  proof -
    have "blank (hd rest)" using hd_dropWhile [of "\<lambda>c. \<not> blank c" l] that unfolding rest_def by blast
    then show ?thesis using that words_blank by (metis list.collapse)
  qed
  then show ?case unfolding p w using Suc.IH [of "tl rest"] by simp
qed simp

section \<open>Finding a command\<close>

definition base_name :: "string \<Rightarrow> string" where
  "base_name c = takeWhile (\<lambda>x. x \<noteq> CHR ''.'') c"

lemma name_prefix_base: "name_prefix c (length (base_name c)) n \<longleftrightarrow> (\<exists>r. n = base_name c @ r)"
proof -
  have "take (length (base_name c)) c = base_name c"
    unfolding base_name_def by (metis append_eq_conv_conj takeWhile_dropWhile_id)
  then show ?thesis unfolding name_prefix_def by (metis append_eq_conv_conj append_take_drop_id le_add1 length_append)
qed

lemma find_cmd_loop_exact:
  assumes "find (\<lambda>t. cmd_name t = base_name c) table = Some t"
  shows "find_cmd_loop c (length (base_name c)) table tmp n = Some t"
  using assms
proof (induction table arbitrary: tmp n)
  case (Cons u table)
  show ?case
  proof (cases "cmd_name u = base_name c")
    case True
    then show ?thesis using Cons.prems name_prefix_base [of c "cmd_name u"] by simp
  next
    case False
    then have "\<not> (name_prefix c (length (base_name c)) (cmd_name u) \<and> length (base_name c) = length (cmd_name u))"
      by (auto simp: name_prefix_base)
    then show ?thesis using False Cons by auto
  qed
qed simp

lemma find_cmd_loop_abbrev:
  assumes "find (\<lambda>t. cmd_name t = base_name c) table = None"
  shows "find_cmd_loop c (length (base_name c)) table tmp n =
    (let ms = filter (\<lambda>t. name_prefix c (length (base_name c)) (cmd_name t)) table
     in if n + length ms = 1 then (if ms = [] then tmp else Some (last ms)) else None)"
  using assms
proof (induction table arbitrary: tmp n)
  case (Cons u table)
  then have "cmd_name u \<noteq> base_name c" "find (\<lambda>t. cmd_name t = base_name c) table = None"
    by (auto split: if_splits)
  moreover from this have "\<not> (name_prefix c (length (base_name c)) (cmd_name u) \<and> length (base_name c) = length (cmd_name u))"
    by (auto simp: name_prefix_base)
  ultimately show ?case using Cons.IH by (auto simp: Let_def)
qed simp

section \<open>Order of execution\<close>

text \<open>Running a list of tokens one after the other.\<close>

fun run_list ::
  "'s cmd_env \<Rightarrow> 's cmd_tbl list \<Rightarrow> 's runner \<Rightarrow> int \<Rightarrow> string list \<Rightarrow> int \<Rightarrow> int \<Rightarrow> 's \<Rightarrow> (int \<times> 's) option" where
  "run_list ce table run flag [] rc rep st = Some (if rc \<noteq> 0 then rc else rep, st)"
| "run_list ce table run flag (t # ts) rc rep st = do {
     (stop, rc', rep', st') \<leftarrow> run_token ce table run flag t rc rep st;
     if stop then Some (-1, st') else run_list ce table run flag ts rc' rep' st'
   }"

definition join_tokens :: "string list \<Rightarrow> string" where
  "join_tokens ts = concat (map (\<lambda>t. t @ [CHR '';'']) ts)"

definition token_char :: "char \<Rightarrow> bool" where
  "token_char c \<longleftrightarrow> c \<notin> {CHR '';'', CHR 0x27, CHR 0x5c}"

lemma find_sep_token:
  assumes "\<forall>c\<in>set t. token_char c" "prev \<noteq> CHR 0x5c" "t \<noteq> [] \<or> \<not> start"
  shows "find_sep prev False start (t @ CHR '';'' # s) = (t, Some s)" "find_sep prev False start t = (t, None)"
  using assms
proof (induction t arbitrary: prev start)
  case (Cons c t)
  { case 1 then show ?case using Cons.IH(1) [of c False] by (auto simp: token_char_def) }
  { case 2 then show ?case using Cons.IH(2) [of c False] by (auto simp: token_char_def) }
qed auto

lemma run_tokens_list:
  assumes "\<forall>t\<in>set ts. t \<noteq> [] \<and> (\<forall>c\<in>set t. token_char c)" "prev \<noteq> CHR 0x5c"
  shows "run_tokens ce table run flag prev (join_tokens ts) rc rep st = run_list ce table run flag ts rc rep st"
  using assms
proof (induction ts arbitrary: prev rc rep st)
  case Nil
  then show ?case by (subst run_tokens.simps) (simp add: join_tokens_def)
next
  case (Cons t ts)
  have sep: "find_sep prev False True (t @ CHR '';'' # join_tokens ts) = (t, Some (join_tokens ts))"
    using Cons.prems by (intro find_sep_token) auto
  have "run_tokens ce table run flag NUL (join_tokens ts) rc' rep' st' = run_list ce table run flag ts rc' rep' st'" for rc' rep' st'
    using Cons by auto
  then show ?case
    using sep by (subst run_tokens.simps, cases "run_token ce table run flag t rc rep st")
      (auto simp: join_tokens_def)
qed

section \<open>Properties\<close>

text \<open>C18: Replacing variables never overruns the 100-byte output buffer, whatever the line and the
  values of the variables are: the result with its terminator has at most \<open>CONFIG_SYS_CBSIZE\<close>
  characters.\<close>

theorem process_macros_bounded: "length (process_macros getenv inp) < CONFIG_SYS_CBSIZE"
proof -
  obtain oc out where "macro_loop getenv 0 NUL [] inp CONFIG_SYS_CBSIZE [] = (oc, out)"
    by (cases "macro_loop getenv 0 NUL [] inp CONFIG_SYS_CBSIZE []") auto
  moreover from this have "length out + oc = CONFIG_SYS_CBSIZE" using macro_loop_count by fastforce
  ultimately show ?thesis by (auto simp: process_macros_def)
qed

text \<open>A reference to a variable, with braces or parentheses, between ordinary characters is
  replaced by the value (by nothing when it is not defined), provided the result fits.\<close>

lemma process_macros_expands:
  assumes "\<forall>c\<in>set a. plain_char c" "\<forall>c\<in>set b. plain_char c" "\<forall>c\<in>set n. var_char c"
    and "length a + length (macro_value getenv n) + length b < CONFIG_SYS_CBSIZE"
    and "op = CHR ''{'' \<and> br = CHR ''}'' \<or> op = CHR ''('' \<and> br = CHR '')''"
  shows "process_macros getenv (a @ CHR ''$'' # op # n @ br # b) = a @ macro_value getenv n @ b"
proof -
  let ?v = "macro_value getenv n"
  obtain p1 where p1: "p1 \<noteq> CHR 0x5c" "macro_loop getenv 0 NUL [] (a @ CHR ''$'' # op # n @ br # b) CONFIG_SYS_CBSIZE [] =
      macro_loop getenv 0 p1 [] (CHR ''$'' # op # n @ br # b) (CONFIG_SYS_CBSIZE - length a) ([] @ a)"
    using macro_plain [OF assms(1), of NUL CONFIG_SYS_CBSIZE getenv "[]" "CHR ''$'' # op # n @ br # b" "[]"] assms(4) by auto
  have p2: "macro_loop getenv 0 p1 [] (CHR ''$'' # op # n @ br # b) (CONFIG_SYS_CBSIZE - length a) ([] @ a) =
      macro_loop getenv 0 br (n @ br # b) b (CONFIG_SYS_CBSIZE - length a - length ?v) (([] @ a) @ ?v)"
    using assms(4,5) by (intro macro_var [OF assms(3) p1(1)]) auto
  have br: "br \<noteq> CHR 0x5c" using assms(5) by auto
  obtain p3 where p3: "macro_loop getenv 0 br (n @ br # b) (b @ []) (CONFIG_SYS_CBSIZE - length a - length ?v) (([] @ a) @ ?v) =
      macro_loop getenv 0 p3 (n @ br # b) [] (CONFIG_SYS_CBSIZE - length a - length ?v - length b) ((([] @ a) @ ?v) @ b)"
    using macro_plain [OF assms(2) br, of "CONFIG_SYS_CBSIZE - length a - length ?v" getenv "n @ br # b" "[]" "([] @ a) @ ?v"]
      assms(4) by auto
  show ?thesis using p1(2) p2 p3 assms(4) by (simp add: process_macros_def)
qed

text \<open>\<open>parse_line\<close> returns the words of the line, in order, and at most 16 of them; a line with
  more words is not rejected, the rest is dropped.\<close>

lemma parse_line_words: "fst (parse_line line) = take CONFIG_SYS_MAXARGS (words line)"
  unfolding parse_line_def by (rule parse_args_words)

text \<open>C20: The command table search returns the first entry whose name is exactly the name given
  (up to a dot), and otherwise the only entry that the name abbreviates; an abbreviation of
  several commands is not accepted.\<close>

theorem find_cmd_tbl_correct:
  "find_cmd_tbl c table =
     (case find (\<lambda>t. cmd_name t = base_name c) table of
        Some t \<Rightarrow> Some t
      | None \<Rightarrow> (case filter (\<lambda>t. \<exists>r. cmd_name t = base_name c @ r) table of [t] \<Rightarrow> Some t | _ \<Rightarrow> None))"
proof (cases "find (\<lambda>t. cmd_name t = base_name c) table")
  case None
  let ?ms = "filter (\<lambda>t. \<exists>r. cmd_name t = base_name c @ r) table"
  have "find_cmd_tbl c table = (if length ?ms = 1 then (if ?ms = [] then (case table of [] \<Rightarrow> None | t # ts \<Rightarrow> Some t) else Some (last ?ms)) else None)"
    using find_cmd_loop_abbrev [OF None] by (simp add: find_cmd_tbl_def Let_def name_prefix_base base_name_def [symmetric])
  then show ?thesis using None by (cases ?ms rule: remdups_adj.cases) auto
next
  case (Some t)
  then show ?thesis
    using find_cmd_loop_exact [OF Some] by (simp add: find_cmd_tbl_def Let_def base_name_def [symmetric])
qed


text \<open>A table with two commands on a state that counts: \<open>inc\<close> adds one, \<open>fail\<close> only fails.\<close>

definition count_table :: "nat cmd_tbl list" where
  "count_table =
     [\<lparr>cmd_name = ''inc'', maxargs = 2, repeatable = 1, cmd = \<lambda>run flag argv st. Some (0, st + 1),
       cmd_usage_text = Some ''count'', cmd_help = None\<rparr>,
      \<lparr>cmd_name = ''fail'', maxargs = 1, repeatable = 1, cmd = \<lambda>run flag argv st. Some (1, st),
       cmd_usage_text = None, cmd_help = None\<rparr>]"

definition count_env :: "nat cmd_env" where
  "count_env = \<lparr>ce_getenv = \<lambda>st n. None, ce_had_ctrlc = \<lambda>st. False, ce_clear_ctrlc = \<lambda>st. st\<rparr>"


lemma find_cmd_tbl_in: "find_cmd_tbl c table = Some t \<Longrightarrow> t \<in> set table"
proof -
  have "find_cmd_loop c len ts tmp n = Some t \<Longrightarrow> t \<in> set ts \<or> tmp = Some t" for len ts tmp n
    by (induction ts arbitrary: tmp n) (auto split: if_splits)
  then show "find_cmd_tbl c table = Some t \<Longrightarrow> t \<in> set table"
    unfolding find_cmd_tbl_def Let_def by (fastforce split: list.splits)
qed

lemma run_tokens_total:
  assumes "\<And>t flag argv st. t \<in> set table \<Longrightarrow> cmd t run flag argv st \<noteq> None"
  shows "run_tokens ce table run flag prev str rc rep st \<noteq> None"
proof (induction "length str" arbitrary: prev str rc rep st rule: less_induct)
  case less
  show ?case
  proof (cases "str = []")
    case True
    then show ?thesis by (subst run_tokens.simps) simp
  next
    case False
    obtain token sep where sep: "find_sep prev False True str = (token, sep)" by fastforce
    have tok: "run_token ce table run flag token rc rep st \<noteq> None"
    proof -
      let ?argv = "fst (parse_line (process_macros (ce_getenv ce st) token))"
      show ?thesis
      proof (cases "find_cmd_tbl (hd ?argv) table")
        case None
        then show ?thesis by (auto simp: run_token_def Let_def)
      next
        case (Some t)
        then obtain r st' where "cmd t run flag ?argv st = Some (r, st')"
          using assms [OF find_cmd_tbl_in [OF Some], of flag ?argv st] by fastforce
        then show ?thesis using Some by (auto simp: run_token_def Let_def)
      qed
    qed
    show ?thesis
      using less [OF find_sep_shorter [OF sep False]] sep tok False
      by (subst run_tokens.simps) (auto split: Option.bind_splits)
  qed
qed

text \<open>If every command of the table returns, then so does \<open>run_command\<close>, for every line.\<close>

lemma run_command_total:
  assumes "\<forall>t\<in>set table. \<forall>run flag argv st. cmd t run flag argv st \<noteq> None"
  shows "run_command (Suc depth) ce table below line flag st \<noteq> None"
  using run_tokens_total [of table "run_command depth ce table below"] assms by (simp add: Let_def)

text \<open>A variable whose value runs itself never finishes: no nesting depth is enough. There is no
  check against this recursion.\<close>

lemma run_recursion_diverges:
  assumes "find_cmd_tbl ''run'' table = Some t" "cmd t = do_run ce" "2 \<le> maxargs t"
    and "\<forall>st. ce_getenv ce st ''loop'' = Some ''run loop''"
  shows "run_command depth ce table below ''run loop'' flag st = None"
proof (induction depth arbitrary: flag st)
  case (Suc depth)
  have tok: "run_token ce table (run_command depth ce table below) flag ''run loop'' 0 1 st' = None" for st'
  proof -
    have "process_macros (ce_getenv ce st') ''run loop'' = ''run loop''"
      by (rule process_macros_plain) (auto simp: plain_char_def)
    moreover have "fst (parse_line ''run loop'') = [''run'', ''loop'']"
      by (simp add: parse_line_def numeral_eq_Suc)
    ultimately show ?thesis
      using assms Suc by (simp add: run_token_def do_run_def)
  qed
  have "find_sep below False True ''run loop'' = (''run loop'', None)" by simp
  then show ?case
    using tok by (subst run_command.simps) (simp add: Let_def run_tokens.simps [of _ _ _ _ _ "''run loop''"])
qed simp

definition loop_table :: "unit cmd_tbl list" where
  "loop_table = [\<lparr>cmd_name = ''run'', maxargs = 16, repeatable = 1,
     cmd = do_run \<lparr>ce_getenv = \<lambda>st n. Some ''run loop'', ce_had_ctrlc = \<lambda>st. False, ce_clear_ctrlc = \<lambda>st. st\<rparr>,
     cmd_usage_text = Some ''run commands in an environment variable'', cmd_help = None\<rparr>]"

text \<open>Reading a line: once ENTER is typed the function returns, whatever was typed before; the
  text has at most \<open>CONFIG_SYS_CBSIZE - 2\<close> characters and is terminated inside the buffer.\<close>

lemma readline_safe:
  assumes "CONFIG_SYS_CBSIZE \<le> length buffer" "CHR 0x0d \<in> set inp"
  shows "\<exists>rc l rest. readline_into_buffer prompt buffer inp = Some (rc, l, rest) \<and>
    rc \<le> int (CONFIG_SYS_CBSIZE - 2) \<and> length (ln_buf l) = length buffer \<and> -1 \<le> rc \<and>
    (0 \<le> rc \<longrightarrow> ln_buf l ! nat rc = NUL)"
  unfolding readline_into_buffer_def using assms
  by (intro readline_loop_ok) (simp_all add: line_ok_def)

text \<open>Ordinary characters followed by ENTER are returned unchanged.\<close>

lemma readline_reads:
  assumes "list_all typed_char cs" "length cs \<le> CONFIG_SYS_CBSIZE - 2" "CONFIG_SYS_CBSIZE \<le> length buffer"
  shows "\<exists>l. readline_into_buffer prompt buffer (cs @ CHR 0x0d # rest) = Some (int (length cs), l, rest) \<and>
    ln_buf l = cs @ NUL # drop (length cs + 1) buffer"
proof -
  let ?l = "\<lparr>ln_buf = buffer, ln_n = 0, ln_col = length prompt, ln_out = prompt\<rparr>"
  obtain l' where l: "readline_loop (length prompt) (cs @ CHR 0x0d # rest) ?l = readline_loop (length prompt) (CHR 0x0d # rest) l'"
      "ln_buf l' = cs @ drop (length cs) buffer" "ln_n l' = length cs"
    using readline_typed [OF assms(1), of "[]" ?l buffer "length prompt" "CHR 0x0d # rest"] assms(2,3) by auto
  obtain z Z where z: "drop (length cs) buffer = z # Z" using assms(2,3) by (cases "drop (length cs) buffer") auto
  then have "Z = drop (length cs + 1) buffer" by (metis Suc_eq_plus1 drop_Suc list.sel(3) tl_drop)
  then show ?thesis
    using l z by (simp add: readline_into_buffer_def readline_char_def wr_def)
qed

text \<open>Control-C leaves the line.\<close>

lemma readline_interrupted:
  assumes "list_all typed_char cs" "length cs \<le> CONFIG_SYS_CBSIZE - 2" "CONFIG_SYS_CBSIZE \<le> length buffer"
  shows "\<exists>l. readline_into_buffer prompt buffer (cs @ CHR 0x03 # rest) = Some (-1, l, rest) \<and> length (ln_buf l) = length buffer"
proof -
  let ?l = "\<lparr>ln_buf = buffer, ln_n = 0, ln_col = length prompt, ln_out = prompt\<rparr>"
  obtain l' where "readline_loop (length prompt) (cs @ CHR 0x03 # rest) ?l = readline_loop (length prompt) (CHR 0x03 # rest) l'"
      "ln_buf l' = cs @ drop (length cs) buffer"
    using readline_typed [OF assms(1), of "[]" ?l buffer "length prompt" "CHR 0x03 # rest"] assms(2,3) by auto
  moreover have "buffer \<noteq> []" using assms(3) by auto
  ultimately show ?thesis using assms(2,3) by (simp add: readline_into_buffer_def readline_char_def wr_def)
qed

text \<open>More than 16 words: the command runs with the first 16 although the documentation of
  \<open>run_command\<close> says that a line with too many arguments is not executed.\<close>

lemma too_many_args_accepted:
  "length (fst (parse_line (concat (replicate 20 ''a '')))) = CONFIG_SYS_MAXARGS"
  by code_simp

text \<open>The byte in front of \<open>cmdbuf\<close> decides how a line that starts with a quote is split.\<close>

lemma run_command_reads_below:
  "find_sep NUL False True (CHR 0x27 # ''a;b'' @ [CHR 0x27]) \<noteq> find_sep (CHR 0x5c) False True (CHR 0x27 # ''a;b'' @ [CHR 0x27])"
  by code_simp

end
