(* ===== verification/Div64.thy ===== *)
theory Div64
  imports Prelude
begin

text \<open>
  lib/div64.c and the macro \<open>do_div\<close> of include/div64.h: division of a 64-bit number by a 32-bit
  number without the compiler's support routine. The base is scaled up to the dividend by
  doubling and then subtracted on the way down.
\<close>

lemma sint_pos_u64:
  assumes "0 < sint (b :: u64)"
  shows "0 < unat b" "unat b < 2 ^ 63"
proof -
  have n: "nat (sint b) = unat b" using assms by (intro nat_sint) simp
  have "sint b < 2 ^ 63" using sint_lt [of b] by simp
  then have "nat (sint b) < nat (2 ^ 63)" using assms by (intro nat_mono_iff [THEN iffD2]) simp_all
  then show "unat b < 2 ^ 63" unfolding n by simp
  show "0 < unat b" using n assms by linarith
qed

lemma double_u64:
  assumes "0 < sint (b :: u64)"
  shows "unat (b + b) = 2 * unat b"
  using sint_pos_u64 [OF assms] by (subst unat_add_nowrap) simp_all

function div64_scale :: "u64 \<Rightarrow> u64 \<Rightarrow> u64 \<Rightarrow> u64 \<times> u64" where
  "div64_scale rem b d = (if 0 < sint b \<and> b < rem then div64_scale rem (b + b) (d + d) else (b, d))"
  by pat_completeness auto
termination
proof (relation "measure (\<lambda>(rem, b, d). 2 ^ 64 - unat b)", goal_cases)
  case (2 rem b d)
  then have "unat (b + b) = 2 * unat b" "0 < unat b" "unat b < 2 ^ 63"
    using double_u64 sint_pos_u64 by blast+
  then show ?case by simp
qed simp

declare div64_scale.simps [simp del]

lemma unat_half: "unat (drop_bit (Suc 0) (d :: u64)) = unat d div 2"
proof -
  have "unat (drop_bit (Suc 0) d) = drop_bit (Suc 0) (unat d)" by (rule unat_drop_bit_eq)
  then show ?thesis by (simp add: drop_bit_eq_div)
qed

lemma drop_bit_1_less: "drop_bit (Suc 0) (d :: u64) \<noteq> 0 \<Longrightarrow> unat (drop_bit (Suc 0) d) < unat d"
proof -
  assume "drop_bit (Suc 0) d \<noteq> 0"
  then have "unat d \<noteq> 0" by (auto simp: unat_eq_0)
  then show ?thesis by (simp add: unat_half)
qed

function div64_reduce :: "u64 \<Rightarrow> u64 \<Rightarrow> u64 \<Rightarrow> u64 \<Rightarrow> u64 \<times> u64" where
  "div64_reduce rem res b d =
     (let (rem, res) = (if rem \<ge> b then (rem - b, res + d) else (rem, res));
          b = drop_bit 1 b;
          d = drop_bit 1 d
      in if d \<noteq> 0 then div64_reduce rem res b d else (rem, res))"
  by pat_completeness auto
termination
  by (relation "measure (\<lambda>(rem, res, b, d). unat d)") (auto simp: drop_bit_1_less)

declare div64_reduce.simps [simp del]

text \<open>\<open>__div64_32(n, base)\<close>: the quotient stored through the pointer and the remainder.\<close>

definition div64_32 :: "u64 \<Rightarrow> u32 \<Rightarrow> u64 \<times> u32" where
  "div64_32 n base =
     (let high = ucast (drop_bit 32 n) :: u32;
          (res, rem) = (if high \<ge> base
            then let high = high div base
                 in (push_bit 32 (ucast high), n - push_bit 32 (ucast (high * base)))
            else (0, n));
          (b, d) = div64_scale rem (ucast base) 1;
          (rem, res) = div64_reduce rem res b d
      in (res, ucast rem))"

definition do_div :: "u64 \<Rightarrow> u32 \<Rightarrow> u64 \<times> u32" where
  "do_div n base =
     (if drop_bit 32 n = 0 then (ucast ((ucast n :: u32) div base), (ucast n :: u32) mod base)
      else div64_32 n base)"

definition lldiv :: "u64 \<Rightarrow> u32 \<Rightarrow> u64" where
  "lldiv dividend divisor = fst (do_div dividend divisor)"

lemma u64_not_pos:
  assumes "(b :: u64) \<noteq> 0" "\<not> 0 < sint b"
  shows "2 ^ 63 \<le> unat b"
proof (rule ccontr)
  assume "\<not> ?thesis"
  then have "int (unat b) < int (2 ^ 63)" by (simp only: of_nat_less_iff not_le)
  then have u: "uint b < 2 ^ 63" by simp
  then have "signed_take_bit 63 (uint b) = uint b"
    by (intro signed_take_bit_int_eq_self) (auto intro: order_trans [of _ 0])
  then have "sint b = uint b" by (simp add: sint_uint)
  moreover have "0 < uint b" using assms(1) by (metis uint_0_iff uint_ge_0 order_le_less)
  ultimately show False using assms(2) by simp
qed

section \<open>The scaling loop\<close>

text \<open>Afterwards \<open>b\<close> is the base times \<open>d\<close>, a power of two, and the dividend is below twice \<open>b\<close>.\<close>

lemma div64_scale_spec:
  assumes "unat b = base * 2 ^ k" "unat d = 2 ^ k" "0 < base" "base < 2 ^ 32" "k < 64"
  shows "\<exists>k' b' d'. div64_scale rem b d = (b', d') \<and> unat b' = base * 2 ^ k' \<and> unat d' = 2 ^ k' \<and> k' < 64 \<and>
    unat rem < 2 * unat b'"
  using assms
proof (induction rem b d arbitrary: k rule: div64_scale.induct)
  case (1 rem b d)
  show ?case
  proof (cases "0 < sint b \<and> b < rem")
    case True
    note bb = double_u64 [of b] sint_pos_u64 [of b]
    have "base * 2 ^ k < 2 ^ 63" using bb True "1.prems"(1) by simp
    then have "2 ^ k < (2 :: nat) ^ 63" using "1.prems"(3)
      by (metis le_less_trans mult.commute nat_0_less_mult_iff nat_le_iff_add mult_le_mono2 Suc_leI nat_mult_1_right One_nat_def)
    then have k: "k < 63" by (rule power_less_imp_less_exp [rotated]) simp
    have dd: "unat (d + d) = 2 ^ Suc k"
    proof -
      have "2 ^ Suc k \<le> (2 :: nat) ^ 63" using k by (intro power_increasing) auto
      then show ?thesis using "1.prems"(2) by (subst unat_add_nowrap) simp_all
    qed
    have "\<exists>k' b' d'. div64_scale rem (b + b) (d + d) = (b', d') \<and> unat b' = base * 2 ^ k' \<and> unat d' = 2 ^ k' \<and> k' < 64 \<and>
        unat rem < 2 * unat b'"
      using True bb "1.prems" dd k by (intro "1.IH" [of "Suc k"]) auto
    then show ?thesis using True by (subst div64_scale.simps) simp
  next
    case False
    have "unat rem < 2 * unat b"
    proof (cases "0 < sint b")
      case True
      then have "unat rem \<le> unat b" using False by (simp add: word_le_nat_alt not_less)
      moreover have "0 < unat b" using "1.prems" by simp
      ultimately show ?thesis by linarith
    next
      case neg: False
      have "b \<noteq> 0" using "1.prems" by (auto simp: unat_eq_0)
      then have "2 ^ 63 \<le> unat b" using neg by (rule u64_not_pos)
      moreover have "unat rem < 2 ^ 64" using unsigned_less [of rem] by simp
      ultimately show ?thesis by simp
    qed
    then show ?thesis using False "1.prems" by (subst div64_scale.simps) auto
  qed
qed

section \<open>The subtracting loop\<close>

lemma div64_reduce_spec:
  assumes "unat b = base * 2 ^ k" "unat d = 2 ^ k" "0 < base" "unat rem < 2 * unat b" "unat rem div base + unat res < 2 ^ 64"
  shows "\<exists>rem' res'. div64_reduce rem res b d = (rem', res') \<and>
    unat rem' = unat rem mod base \<and> unat res' = unat res + unat rem div base"
  using assms
proof (induction k arbitrary: rem res b d)
  case 0
  have half: "unat (drop_bit (Suc 0) d) = 0" using 0 by (simp add: unat_half)
  then have h: "drop_bit (Suc 0) d = 0" by (simp add: unat_eq_0)
  show ?case
  proof (cases "b \<le> rem")
    case True
    then have r: "unat (rem - b) = unat rem - base" "base \<le> unat rem" using 0 by (simp_all add: unat_sub_le word_le_nat_alt)
    then have m: "unat rem - base = unat rem mod base" "unat rem div base = 1"
      using 0 by (simp_all add: le_mod_geq le_div_geq)
    have "unat (res + d) = unat res + 1" using 0 m by (subst unat_add_nowrap) simp_all
    then show ?thesis using True r m h by (subst div64_reduce.simps) (simp add: Let_def)
  next
    case False
    then have "unat rem < base" using 0 by (simp add: word_le_nat_alt)
    then show ?thesis using False h by (subst div64_reduce.simps) (simp add: Let_def)
  qed
next
  case (Suc k)
  let ?b = "drop_bit (Suc 0) b" and ?d = "drop_bit (Suc 0) d"
  have hb: "unat ?b = base * 2 ^ k" and hd: "unat ?d = 2 ^ k" using Suc.prems(1,2) by (simp_all add: unat_half)
  then have d0: "?d \<noteq> 0" by (metis unat_0 power_not_zero zero_neq_numeral)
  show ?case
  proof (cases "b \<le> rem")
    case True
    have ub: "unat b = base * (2 * 2 ^ k)" using Suc.prems(1) by simp
    have r: "unat (rem - b) = unat rem - unat b" "unat b \<le> unat rem" using True by (simp_all add: unat_sub_le word_le_nat_alt)
    have e: "unat rem = base * (2 * 2 ^ k) + unat (rem - b)" using r ub by simp
    have dm: "unat rem div base = 2 * 2 ^ k + unat (rem - b) div base" "unat rem mod base = unat (rem - b) mod base"
      unfolding e using Suc.prems(3) by simp_all
    have rd: "unat (res + d) = unat res + 2 * 2 ^ k"
      using Suc.prems(2,5) dm by (subst unat_add_nowrap) simp_all
    have "unat (rem - b) < 2 * unat ?b" using r Suc.prems(4) hb ub by simp
    then obtain rem' res' where "div64_reduce (rem - b) (res + d) ?b ?d = (rem', res')"
        "unat rem' = unat (rem - b) mod base" "unat res' = unat (res + d) + unat (rem - b) div base"
      using Suc.IH [OF hb hd Suc.prems(3), of "rem - b" "res + d"] Suc.prems(5) rd dm by auto
    then show ?thesis using True d0 dm rd by (subst div64_reduce.simps) (simp add: Let_def)
  next
    case False
    have "unat rem < 2 * unat ?b" using False Suc.prems(1) hb by (simp add: word_le_nat_alt)
    then obtain rem' res' where "div64_reduce rem res ?b ?d = (rem', res')"
        "unat rem' = unat rem mod base" "unat res' = unat res + unat rem div base"
      using Suc.IH [OF hb hd Suc.prems(3), of rem res] Suc.prems(5) by auto
    then show ?thesis using False d0 by (subst div64_reduce.simps) (simp add: Let_def)
  qed
qed

section \<open>Division\<close>

lemma unat_ucast_32_64: "unat (ucast (x :: u32) :: u64) = unat x"
proof -
  have "unat x < 2 ^ LENGTH(32)" by (rule unsigned_less)
  then show ?thesis by (simp add: unsigned_ucast_eq take_bit_nat_eq_self)
qed

lemma unat_ucast_64_32: "unat (n :: u64) < 2 ^ 32 \<Longrightarrow> unat (ucast n :: u32) = unat n"
  by (simp add: unsigned_ucast_eq take_bit_nat_eq_self)

lemma unat_high: "unat (ucast (drop_bit 32 (n :: u64)) :: u32) = unat n div 2 ^ 32"
proof -
  have d: "unat (drop_bit 32 n) = unat n div 2 ^ 32"
    by (metis unat_drop_bit_eq drop_bit_eq_div)
  moreover have "unat n < 2 ^ 64" using unsigned_less [of n] by simp
  then have "unat n div 2 ^ 32 < 2 ^ 32" by (simp add: div_less_iff_less_mult)
  ultimately show ?thesis by (subst unat_ucast_64_32) simp_all
qed

lemma unat_shift_32: "unat (push_bit 32 (ucast (x :: u32) :: u64)) = unat x * 2 ^ 32"
proof -
  have "unat x < 2 ^ 32" using unsigned_less [of x] by simp
  then have "unat x * 2 ^ 32 < 2 ^ 64" by simp
  moreover have "push_bit 32 (ucast x :: u64) = ucast x * 2 ^ 32" by (simp add: push_bit_eq_mult)
  ultimately show ?thesis by (simp add: unat_word_ariths unat_ucast_32_64)
qed

lemma div64_32_spec:
  assumes "base \<noteq> 0"
  shows "unat (fst (div64_32 n base)) = unat n div unat base \<and> unat (snd (div64_32 n base)) = unat n mod unat base"
proof -
  define bn where "bn = unat base"
  have bn: "0 < bn" "bn < 2 ^ 32" using assms unsigned_less [of base] by (simp_all add: bn_def unat_gt_0)
  define hi where "hi = (ucast (drop_bit 32 n) :: u32)"
  have hi: "unat hi = unat n div 2 ^ 32" unfolding hi_def by (rule unat_high)
  define q where "q = (if hi \<ge> base then hi div base else 0)"
  define res0 where "res0 = (if hi \<ge> base then push_bit 32 (ucast q) else 0 :: u64)"
  define rem0 where "rem0 = (if hi \<ge> base then n - push_bit 32 (ucast (q * base)) else n)"
  have uq: "unat q = unat hi div bn"
    by (simp add: q_def bn_def unat_div word_le_nat_alt)
  have r0: "unat res0 = unat q * 2 ^ 32" by (simp add: res0_def unat_shift_32 q_def)
  have qb: "unat (q * base) = unat q * bn"
  proof -
    have "unat q * bn \<le> unat hi" unfolding uq by simp
    moreover have "unat hi < 2 ^ LENGTH(32)" by (rule unsigned_less)
    ultimately have "unat q * bn < 2 ^ 32" by simp
    then show ?thesis by (simp add: unat_word_ariths bn_def)
  qed
  have le: "unat q * bn * 2 ^ 32 \<le> unat n"
  proof -
    have "unat q * bn \<le> unat n div 2 ^ 32" unfolding uq hi by simp
    then show ?thesis by (meson le_trans less_eq_div_iff_mult_less_eq zero_less_numeral zero_less_power)
  qed
  have rem0: "unat rem0 = unat n - unat q * bn * 2 ^ 32"
  proof (cases "hi \<ge> base")
    case True
    have "push_bit 32 (ucast (q * base)) \<le> n" using le by (simp add: word_le_nat_alt unat_shift_32 qb)
    then show ?thesis using True by (simp add: rem0_def unat_sub_le unat_shift_32 qb)
  next
    case False
    then show ?thesis by (simp add: rem0_def q_def)
  qed
  then have e: "unat n = bn * (unat q * 2 ^ 32) + unat rem0" using le by (simp add: algebra_simps)
  then have dm: "unat n div bn = unat q * 2 ^ 32 + unat rem0 div bn" "unat n mod bn = unat rem0 mod bn"
    using bn by (simp_all only: div_mult_self4 mod_mult_self4 add.commute) simp_all
  have n64: "unat n < 2 ^ 64" using unsigned_less [of n] by simp
  have lt: "unat n div bn < 2 ^ 64" using n64 bn by (meson div_le_dividend le_less_trans)
  obtain k b' d' where s: "div64_scale rem0 (ucast base) 1 = (b', d')" "unat b' = bn * 2 ^ k" "unat d' = 2 ^ k" "unat rem0 < 2 * unat b'"
    using div64_scale_spec [of "ucast base" bn 0 1 rem0] bn by (auto simp: bn_def unat_ucast_32_64)
  have "unat rem0 div bn + unat res0 < 2 ^ 64" using dm lt r0 by simp
  then obtain rem' res' where r: "div64_reduce rem0 res0 b' d' = (rem', res')" "unat rem' = unat rem0 mod bn"
      "unat res' = unat res0 + unat rem0 div bn"
    using div64_reduce_spec [OF s(2,3) bn(1) s(4)] by blast
  have call: "div64_32 n base = (res', ucast rem')"
    using s(1) r(1) by (simp add: div64_32_def Let_def hi_def [symmetric] res0_def rem0_def q_def split: if_splits)
  have "unat rem' < 2 ^ 32" using r(2) bn by (metis mod_less_divisor less_trans)
  then show ?thesis unfolding call using r dm r0 by (simp add: unat_ucast_64_32 bn_def [symmetric])
qed

lemma do_div_spec:
  assumes "base \<noteq> 0"
  shows "unat (fst (do_div n base)) = unat n div unat base \<and> unat (snd (do_div n base)) = unat n mod unat base"
proof (cases "drop_bit 32 n = 0")
  case True
  then have "unat n div 2 ^ 32 = 0" using unat_high [of n] by simp
  then have "unat n < 2 ^ 32" by (simp add: div_eq_0_iff)
  then show ?thesis using True by (simp add: do_div_def unat_ucast_64_32 unat_ucast_32_64 unat_div unat_mod)
next
  case False
  then show ?thesis using div64_32_spec [OF assms] by (simp add: do_div_def)
qed

text \<open>\<open>do_div\<close> computes quotient and remainder of every 64-bit number by every non-zero 32-bit
  base, on the path through \<open>__div64_32\<close> as on the short one; all loops end.\<close>

lemma do_div_correct:
  assumes "base \<noteq> 0"
  shows "do_div n base = (of_nat (unat n div unat base), of_nat (unat n mod unat base))"
  using do_div_spec [OF assms, of n] by (metis of_nat_unat ucast_id prod.collapse)

end
