(* ===== verification/Vsprintf.thy ===== *)
theory Vsprintf
  imports Strtoul Div64
begin

text \<open>
  The formatted output of lib/vsprintf.c. The functions of the C code store characters through a
  pointer that only moves forward; each model returns the characters it stores, and the buffer
  is taken to be large enough. Field widths and precisions are C \<open>int\<close>s whose overflow is
  undefined; they are modelled as integers. An argument of the wrong type has no defined
  meaning and gives \<open>None\<close>.
\<close>

section \<open>Digits\<close>

definition hex_asc :: string where
  "hex_asc = ''0123456789abcdef''"

definition pack_hex_byte :: "u8 \<Rightarrow> string" where
  "pack_hex_byte b = [hex_asc ! unat (drop_bit 4 (b AND 0xf0)), hex_asc ! unat (b AND 0x0f)]"

text \<open>A digit stored as \<open>d + '0'\<close>.\<close>

definition put_digit :: "u32 \<Rightarrow> char" where
  "put_digit d = char_of_byte (ucast (d + 0x30))"

text \<open>One to five decimal digits, the least significant first.\<close>

definition put_dec_trunc :: "u32 \<Rightarrow> string" where
  "put_dec_trunc q =
     (let d1 = drop_bit 4 q AND 0xf;
          d2 = drop_bit 8 q AND 0xf;
          d3 = drop_bit 12 q;
          d0 = 6 * (d3 + d2 + d1) + (q AND 0xf);
          q = drop_bit 11 (d0 * 0xcd);
          d0 = d0 - 10 * q;
          d1 = q + 9 * d3 + 5 * d2 + d1
      in put_digit d0 #
        (if d1 \<noteq> 0 then
           let q = drop_bit 11 (d1 * 0xcd);
               d1 = d1 - 10 * q;
               d2 = q + 2 * d2
           in put_digit d1 #
             (if d2 \<noteq> 0 \<or> d3 \<noteq> 0 then
                let q = drop_bit 7 (d2 * 0xd);
                    d2 = d2 - 10 * q;
                    d3 = q + 4 * d3
                in put_digit d2 #
                  (if d3 \<noteq> 0 then
                     let q = drop_bit 11 (d3 * 0xcd);
                         d3 = d3 - 10 * q
                     in put_digit d3 # (if q \<noteq> 0 then [put_digit q] else [])
                   else [])
              else [])
         else []))"

text \<open>The same with always five digits.\<close>

definition put_dec_full :: "u32 \<Rightarrow> string" where
  "put_dec_full q =
     (let d1 = drop_bit 4 q AND 0xf;
          d2 = drop_bit 8 q AND 0xf;
          d3 = drop_bit 12 q;
          d0 = 6 * (d3 + d2 + d1) + (q AND 0xf);
          q = drop_bit 11 (d0 * 0xcd);
          d0 = d0 - 10 * q;
          d1 = q + 9 * d3 + 5 * d2 + d1;
          q = drop_bit 11 (d1 * 0xcd);
          d1 = d1 - 10 * q;
          d2 = q + 2 * d2;
          q = drop_bit 7 (d2 * 0xd);
          d2 = d2 - 10 * q;
          d3 = q + 4 * d3;
          q = drop_bit 11 (d3 * 0xcd);
          d3 = d3 - 10 * q
      in [put_digit d0, put_digit d1, put_digit d2, put_digit d3, put_digit q])"

lemma do_div_100000_less:
  assumes "\<not> num < 100000" "(q, r) = do_div num 100000"
  shows "unat q < unat num"
proof -
  have "100000 \<le> unat num" using assms(1) by (simp add: word_less_nat_alt)
  then have "unat num div 100000 < unat num" by (intro div_less_dividend) auto
  then show ?thesis using do_div_spec [of 100000 num] assms(2) [symmetric] by simp
qed

function put_dec :: "u64 \<Rightarrow> string" where
  "put_dec num =
     (if num < 100000 then put_dec_trunc (ucast num)
      else let (num, rem) = do_div num 100000 in put_dec_full rem @ put_dec num)"
  by pat_completeness auto
termination
  by (relation "measure unat") (auto intro: do_div_100000_less)

declare put_dec.simps [simp del]

section \<open>Numbers\<close>

abbreviation (input) "ZEROPAD \<equiv> (1 :: u32)"
abbreviation (input) "SIGN \<equiv> (2 :: u32)"
abbreviation (input) "PLUS \<equiv> (4 :: u32)"
abbreviation (input) "SPACE \<equiv> (8 :: u32)"
abbreviation (input) "LEFT \<equiv> (16 :: u32)"
abbreviation (input) "SMALL \<equiv> (32 :: u32)"
abbreviation (input) "SPECIAL \<equiv> (64 :: u32)"

definition flag_set :: "u32 \<Rightarrow> u32 \<Rightarrow> bool" where
  "flag_set type f \<longleftrightarrow> type AND f \<noteq> 0"

definition digits :: string where
  "digits = ''0123456789ABCDEF''"

text \<open>The digit loop for the bases 8 and 16.\<close>

lemma drop_bit_less:
  assumes "(n :: u64) \<noteq> 0" "0 < k"
  shows "unat (drop_bit k n) < unat n"
proof -
  have "0 < unat n" using assms(1) by (simp add: unat_gt_0)
  moreover have "1 < (2 :: nat) ^ k" using assms(2) by (intro one_less_power) simp_all
  ultimately have "unat n div 2 ^ k < unat n" by (intro div_less_dividend)
  then show ?thesis unfolding unat_drop_bit_eq by (simp add: drop_bit_eq_div)
qed

function number_digits :: "int \<Rightarrow> u8 \<Rightarrow> u64 \<Rightarrow> string" where
  "number_digits base locase num =
     (let m = of_int (base - 1) :: u8;
          shift = (if base = 16 then 4 else 3)
      in char_of_byte (byte_of (digits ! unat (ucast num AND m)) OR locase) #
        (let num' = drop_bit shift num
         in if num' \<noteq> 0 then number_digits base locase num' else []))"
  by pat_completeness auto
termination
  by (relation "measure (\<lambda>(base, locase, num). unat num)")
    (auto simp: Let_def intro!: drop_bit_less split: if_splits)

declare number_digits.simps [simp del]

text \<open>\<open>while (--size >= 0) *buf++ = c\<close>, with the final value of \<open>size\<close>.\<close>

function pad :: "char \<Rightarrow> int \<Rightarrow> string \<times> int" where
  "pad c sz = (if sz - 1 \<ge> 0 then let (s, z) = pad c (sz - 1) in (c # s, z) else ([], sz - 1))"
  by pat_completeness auto
termination
  by (relation "measure (\<lambda>(c, sz). nat sz)") auto

declare pad.simps [simp del]

text \<open>\<open>while (i <= --precision) *buf++ = '0'\<close>.\<close>

function zeros :: "int \<Rightarrow> int \<Rightarrow> string" where
  "zeros i precision = (if i \<le> precision - 1 then CHR ''0'' # zeros i (precision - 1) else [])"
  by pat_completeness auto
termination
  by (relation "measure (\<lambda>(i, p). nat (p - i))") auto

declare zeros.simps [simp del]

definition number :: "u64 \<Rightarrow> int \<Rightarrow> int \<Rightarrow> int \<Rightarrow> u32 \<Rightarrow> string" where
  "number num base sz precision type =
     (let need_pfx = flag_set type SPECIAL \<and> base \<noteq> 10;
          locase = ucast (type AND SMALL) :: u8;
          type = (if flag_set type LEFT then type AND NOT ZEROPAD else type);
          (sign, num, sz) =
            (if flag_set type SIGN then
               if sint num < 0 then (''-'', - num, sz - 1)
               else if flag_set type PLUS then (''+'', num, sz - 1)
               else if flag_set type SPACE then ('' '', num, sz - 1)
               else ([], num, sz)
             else ([], num, sz));
          sz = (if need_pfx then if base = 16 then sz - 1 - 1 else sz - 1 else sz);
          tmp = (if num = 0 then ''0''
                 else if base \<noteq> 10 then
                   number_digits base locase num
                 else put_dec num);
          i = int (length tmp);
          precision = (if i > precision then i else precision);
          sz = sz - precision;
          (lead, sz) = (if \<not> flag_set type (ZEROPAD + LEFT) then pad CHR '' '' sz else ([], sz));
          pfx = (if need_pfx then CHR ''0'' #
                   (if base = 16 then [char_of_byte (byte_of CHR ''X'' OR locase)] else []) else []);
          (mid, sz) = (if \<not> flag_set type LEFT
                       then pad (if flag_set type ZEROPAD then CHR ''0'' else CHR '' '') sz else ([], sz));
          (trail, sz) = pad CHR '' '' sz
      in lead @ sign @ pfx @ mid @ zeros i precision @ rev tmp @ trail)"

section \<open>Strings and addresses\<close>

text \<open>\<open>while (len < field_width--) *buf++ = ' '\<close>, with the final value of \<open>field_width\<close>.\<close>

function spaces :: "int \<Rightarrow> int \<Rightarrow> string \<times> int" where
  "spaces len fw =
     (if len < fw then let (s, z) = spaces len (fw - 1) in (CHR '' '' # s, z) else ([], fw - 1))"
  by pat_completeness auto
termination
  by (relation "measure (\<lambda>(len, fw). nat (fw - len))") auto

declare spaces.simps [simp del]

text \<open>\<open>strnlen(s, count)\<close> of lib/string.c; \<open>count\<close> is a \<open>size_t\<close>, so that the precision \<open>-1\<close> does
  not limit the length.\<close>

fun strnlen :: "string \<Rightarrow> u32 \<Rightarrow> nat" where
  "strnlen [] count = 0"
| "strnlen (c # s) count = (if count \<noteq> 0 \<and> c \<noteq> NUL then Suc (strnlen s (count - 1)) else 0)"

definition string :: "string option \<Rightarrow> int \<Rightarrow> int \<Rightarrow> u32 \<Rightarrow> string" where
  "string s field_width precision flags =
     (let s = (case s of None \<Rightarrow> ''<NULL>'' | Some s \<Rightarrow> s);
          len = int (strnlen s (of_int precision));
          (lead, field_width) =
            (if \<not> flag_set flags LEFT then spaces len field_width else ([], field_width));
          (trail, field_width) = spaces len field_width
      in lead @ take (nat len) s @ trail)"

definition mac_address_string :: "(nat \<Rightarrow> u8) \<Rightarrow> int \<Rightarrow> int \<Rightarrow> u32 \<Rightarrow> string" where
  "mac_address_string addr field_width precision flags =
     string (Some (concat (map (\<lambda>i. pack_hex_byte (addr i) @
         (if \<not> flag_set flags SPECIAL \<and> i \<noteq> 5 then '':'' else [])) [0..<6])))
       field_width precision (flags AND NOT SPECIAL)"

definition ip6_addr_string :: "(nat \<Rightarrow> u8) \<Rightarrow> int \<Rightarrow> int \<Rightarrow> u32 \<Rightarrow> string" where
  "ip6_addr_string addr field_width precision flags =
     string (Some (concat (map (\<lambda>i. pack_hex_byte (addr (2 * i)) @ pack_hex_byte (addr (2 * i + 1)) @
         (if \<not> flag_set flags SPECIAL \<and> i \<noteq> 7 then '':'' else [])) [0..<8])))
       field_width precision (flags AND NOT SPECIAL)"

definition ip4_addr_string :: "(nat \<Rightarrow> u8) \<Rightarrow> int \<Rightarrow> int \<Rightarrow> u32 \<Rightarrow> string" where
  "ip4_addr_string addr field_width precision flags =
     string (Some (concat (map (\<lambda>i. rev (put_dec_trunc (ucast (addr i))) @
         (if i \<noteq> 3 then ''.'' else [])) [0..<4])))
       field_width precision (flags AND NOT SPECIAL)"

text \<open>\<open>pointer(fmt, buf, ptr, ...)\<close>: the format is the text behind the \<open>p\<close>, and \<open>mem\<close> is the
  memory the pointer points into.\<close>

definition pointer :: "string \<Rightarrow> (u32 \<Rightarrow> u8) \<Rightarrow> u32 \<Rightarrow> int \<Rightarrow> int \<Rightarrow> u32 \<Rightarrow> string" where
  "pointer fmt mem ptr field_width precision flags =
     (if ptr = 0 then string (Some ''(null)'') field_width precision flags
      else
        let c = peek fmt 0;
            addr = (\<lambda>i. mem (ptr + of_nat i));
            flags' = (if c = CHR ''m'' \<or> c = CHR ''i'' then flags OR SPECIAL else flags);
            plain = (\<lambda>flags.
              let flags = flags OR SMALL;
                  (field_width, flags) =
                    (if field_width = -1 then (2 * 4, flags OR ZEROPAD) else (field_width, flags))
              in number (ucast ptr) 16 field_width precision flags)
        in if c = CHR ''m'' \<or> c = CHR ''M'' then mac_address_string addr field_width precision flags'
           else if c = CHR ''i'' \<or> c = CHR ''I'' then
             if peek fmt 1 = CHR ''6'' then ip6_addr_string addr field_width precision flags'
             else if peek fmt 1 = CHR ''4'' then ip4_addr_string addr field_width precision flags'
             else plain (flags' AND NOT SPECIAL)
           else plain flags)"

section \<open>Format strings\<close>

text \<open>The variable arguments: on the 32-bit target \<open>int\<close>, \<open>long\<close>, \<open>size_t\<close> and \<open>ptrdiff_t\<close> share a
  constructor; \<open>VStr None\<close> is a null pointer passed for a string.\<close>

datatype vararg = VInt u32 | VLongLong u64 | VStr "string option" | VPtr u32

fun va_int :: "vararg list \<Rightarrow> (u32 \<times> vararg list) option" where
  "va_int (VInt w # args) = Some (w, args)"
| "va_int _ = None"

fun va_longlong :: "vararg list \<Rightarrow> (u64 \<times> vararg list) option" where
  "va_longlong (VLongLong w # args) = Some (w, args)"
| "va_longlong _ = None"

fun va_str :: "vararg list \<Rightarrow> (string option \<times> vararg list) option" where
  "va_str (VStr s # args) = Some (s, args)"
| "va_str _ = None"

fun va_ptr :: "vararg list \<Rightarrow> (u32 \<times> vararg list) option" where
  "va_ptr (VPtr p # args) = Some (p, args)"
| "va_ptr _ = None"

definition is_digit :: "char \<Rightarrow> bool" where
  "is_digit c \<longleftrightarrow> byte_of c \<ge> byte_of CHR ''0'' \<and> byte_of c \<le> byte_of CHR ''9''"

fun skip_atoi :: "int \<Rightarrow> string \<Rightarrow> int \<times> string" where
  "skip_atoi i [] = (i, [])"
| "skip_atoi i (c # s) =
     (if is_digit c then skip_atoi (i * 10 + of_char c - of_char CHR ''0'') s else (i, c # s))"

fun conv_flags :: "u32 \<Rightarrow> string \<Rightarrow> u32 \<times> string" where
  "conv_flags flags [] = (flags, [])"
| "conv_flags flags (c # fmt) =
     (if c = CHR ''-'' then conv_flags (flags OR LEFT) fmt
      else if c = CHR ''+'' then conv_flags (flags OR PLUS) fmt
      else if c = CHR '' '' then conv_flags (flags OR SPACE) fmt
      else if c = CHR ''#'' then conv_flags (flags OR SPECIAL) fmt
      else if c = CHR ''0'' then conv_flags (flags OR ZEROPAD) fmt
      else (flags, c # fmt))"

definition conv_width ::
  "u32 \<Rightarrow> string \<Rightarrow> vararg list \<Rightarrow> (int \<times> u32 \<times> string \<times> vararg list) option" where
  "conv_width flags fmt args =
     (if is_digit (peek fmt 0) then
        let (field_width, fmt) = skip_atoi 0 fmt in Some (field_width, flags, fmt, args)
      else if peek fmt 0 = CHR ''*'' then do {
        (w, args) \<leftarrow> va_int args;
        if sint w < 0 then Some (- sint w, flags OR LEFT, tl fmt, args)
        else Some (sint w, flags, tl fmt, args)
      }
      else Some (-1, flags, fmt, args))"

definition conv_precision :: "string \<Rightarrow> vararg list \<Rightarrow> (int \<times> string \<times> vararg list) option" where
  "conv_precision fmt args =
     (if peek fmt 0 = CHR ''.'' then do {
        let fmt = tl fmt;
        (precision, fmt, args) \<leftarrow>
          (if is_digit (peek fmt 0) then
             let (p, fmt) = skip_atoi 0 fmt in Some (p, fmt, args)
           else if peek fmt 0 = CHR ''*'' then do {
             (w, args) \<leftarrow> va_int args;
             Some (sint w, tl fmt, args)
           }
           else Some (-1, fmt, args));
        Some (if precision < 0 then 0 else precision, fmt, args)
      } else Some (-1, fmt, args))"

text \<open>The qualifier; NUL stands for \<open>-1\<close>.\<close>

definition conv_qualifier :: "string \<Rightarrow> char \<times> string" where
  "conv_qualifier fmt =
     (if peek fmt 0 \<in> {CHR ''h'', CHR ''l'', CHR ''L'', CHR ''Z'', CHR ''z'', CHR ''t''} then
        if peek fmt 0 = CHR ''l'' \<and> peek fmt 1 = CHR ''l'' then (CHR ''L'', drop 2 fmt)
        else (peek fmt 0, tl fmt)
      else (NUL, fmt))"

text \<open>The number of an integer conversion, sign-extended for the signed ones; \<open>size_t\<close> is
  unsigned and \<open>ptrdiff_t\<close> signed.\<close>

definition conv_number :: "char \<Rightarrow> u32 \<Rightarrow> vararg list \<Rightarrow> (u64 \<times> vararg list) option" where
  "conv_number qualifier flags args =
     (if qualifier = CHR ''L'' then va_longlong args
      else do {
        (w, args) \<leftarrow> va_int args;
        Some (
          if qualifier = CHR ''Z'' \<or> qualifier = CHR ''z'' then ucast w
          else if qualifier = CHR ''t'' then scast w
          else if qualifier = CHR ''h'' then
            let h = ucast w :: u16 in if flag_set flags SIGN then scast h else ucast h
          else if flag_set flags SIGN then scast w else ucast w,
          args)
      })"

text \<open>\<open>while (--field_width > 0) *str++ = ' '\<close>.\<close>

function char_pad :: "int \<Rightarrow> string \<times> int" where
  "char_pad fw = (if fw - 1 > 0 then let (s, z) = char_pad (fw - 1) in (CHR '' '' # s, z) else ([], fw - 1))"
  by pat_completeness auto
termination
  by (relation "measure nat") auto

declare char_pad.simps [simp del]

definition conv_char :: "u32 \<Rightarrow> int \<Rightarrow> u32 \<Rightarrow> string" where
  "conv_char flags field_width w =
     (let (lead, field_width) = (if \<not> flag_set flags LEFT then char_pad field_width else ([], field_width));
          (trail, field_width) = char_pad field_width
      in lead @ [char_of_byte (ucast w)] @ trail)"

text \<open>One conversion, from behind the percent sign: the characters stored, the store of \<open>%n\<close>
  as address and value, the rest of the format and of the arguments. \<open>pos\<close> is the number of
  characters stored so far.\<close>

definition conversion ::
  "(u32 \<Rightarrow> u8) \<Rightarrow> nat \<Rightarrow> string \<Rightarrow> vararg list \<Rightarrow>
     (string \<times> (u32 \<times> u32) list \<times> string \<times> vararg list) option" where
  "conversion mem pos fmt args = do {
     let (flags, fmt) = conv_flags 0 fmt;
     (field_width, flags, fmt, args) \<leftarrow> conv_width flags fmt args;
     (precision, fmt, args) \<leftarrow> conv_precision fmt args;
     let (qualifier, fmt) = conv_qualifier fmt;
     let int_conv = (\<lambda>base flags. do {
       (num, args) \<leftarrow> conv_number qualifier flags args;
       Some (number num base field_width precision flags, [], tl fmt, args)
     });
     let c = peek fmt 0;
     if c = CHR ''c'' then do {
       (w, args) \<leftarrow> va_int args;
       Some (conv_char flags field_width w, [], tl fmt, args)
     }
     else if c = CHR ''s'' then do {
       (s, args) \<leftarrow> va_str args;
       Some (string s field_width precision flags, [], tl fmt, args)
     }
     else if c = CHR ''p'' then do {
       (p, args) \<leftarrow> va_ptr args;
       Some (pointer (tl fmt) mem p field_width precision flags, [], dropWhile isalnum (tl fmt), args)
     }
     else if c = CHR ''n'' then do {
       (p, args) \<leftarrow> va_ptr args;
       Some ([], [(p, of_nat pos)], tl fmt, args)
     }
     else if c = CHR ''%'' then Some (''%'', [], tl fmt, args)
     else if c = CHR ''o'' then int_conv 8 flags
     else if c = CHR ''x'' then int_conv 16 (flags OR SMALL)
     else if c = CHR ''X'' then int_conv 16 flags
     else if c = CHR ''d'' \<or> c = CHR ''i'' then int_conv 10 (flags OR SIGN)
     else if c = CHR ''u'' then int_conv 10 flags
     else Some (CHR ''%'' # take 1 fmt, [], tl fmt, args)
   }"

lemma conv_flags_length: "length (snd (conv_flags flags fmt)) \<le> length fmt"
  by (induction flags fmt rule: conv_flags.induct) auto

lemma skip_atoi_length: "length (snd (skip_atoi i fmt)) \<le> length fmt"
  by (induction i fmt rule: skip_atoi.induct) auto

lemma conv_width_length: "conv_width flags fmt args = Some (w, f, fmt', args') \<Longrightarrow> length fmt' \<le> length fmt"
  using skip_atoi_length [of 0 fmt]
  by (auto simp: conv_width_def Option.bind_eq_Some_conv split: if_splits prod.splits)

lemma conv_precision_length: "conv_precision fmt args = Some (p, fmt', args') \<Longrightarrow> length fmt' \<le> length fmt"
  using skip_atoi_length [of 0 "tl fmt"]
  by (auto simp: conv_precision_def Option.bind_eq_Some_conv Let_def split: if_splits prod.splits)

lemma conv_qualifier_length: "conv_qualifier fmt = (q, fmt') \<Longrightarrow> length fmt' \<le> length fmt"
  by (auto simp: conv_qualifier_def split: if_splits)

lemma conversion_length:
  assumes "conversion mem pos fmt args = Some (s, w, fmt', args')"
  shows "length fmt' \<le> length fmt"
proof -
  obtain flags f0 where f0: "conv_flags 0 fmt = (flags, f0)" by fastforce
  obtain wd fl f1 a1 where f1: "conv_width flags f0 args = Some (wd, fl, f1, a1)"
    using assms f0 by (auto simp: conversion_def Option.bind_eq_Some_conv)
  obtain p f2 a2 where f2: "conv_precision f1 a1 = Some (p, f2, a2)"
    using assms f0 f1 by (auto simp: conversion_def Option.bind_eq_Some_conv)
  obtain q f3 where f3: "conv_qualifier f2 = (q, f3)" by fastforce
  have "length fmt' \<le> length f3"
    using assms f0 f1 f2 f3 length_dropWhile_le [of isalnum "tl f3"]
    by (auto simp: conversion_def Let_def Option.bind_eq_Some_conv split: if_splits)
  also have "\<dots> \<le> length f2" using conv_qualifier_length [OF f3] .
  also have "\<dots> \<le> length f1" using conv_precision_length [OF f2] .
  also have "\<dots> \<le> length f0" using conv_width_length [OF f1] .
  also have "\<dots> \<le> length fmt" using conv_flags_length [of 0 fmt] f0 by simp
  finally show ?thesis .
qed

function vsprintf_loop ::
  "(u32 \<Rightarrow> u8) \<Rightarrow> string \<Rightarrow> vararg list \<Rightarrow> string \<Rightarrow> (u32 \<times> u32) list \<Rightarrow> (string \<times> (u32 \<times> u32) list) option" where
  "vsprintf_loop mem [] args out stores = Some (out, stores)"
| "vsprintf_loop mem (c # fmt) args out stores =
     (if c \<noteq> CHR ''%'' then vsprintf_loop mem fmt args (out @ [c]) stores
      else do {
        (s, w, fmt', args') \<leftarrow> conversion mem (length out) fmt args;
        vsprintf_loop mem fmt' args' (out @ s) (stores @ w)
      })"
  by pat_completeness auto
termination
  by (relation "measure (\<lambda>(mem, fmt, args, out, stores). length fmt)")
    (auto dest!: conversion_length)

declare vsprintf_loop.simps [simp del]

text \<open>\<open>vsprintf(buf, fmt, args)\<close>: the text stored in front of the terminating NUL, whose length is
  the return value, and the stores of \<open>%n\<close>.\<close>

definition vsprintf :: "(u32 \<Rightarrow> u8) \<Rightarrow> string \<Rightarrow> vararg list \<Rightarrow> (string \<times> (u32 \<times> u32) list) option" where
  "vsprintf mem fmt args = vsprintf_loop mem fmt args [] []"

definition sprintf :: "(u32 \<Rightarrow> u8) \<Rightarrow> string \<Rightarrow> vararg list \<Rightarrow> (string \<times> (u32 \<times> u32) list) option" where
  "sprintf mem fmt args = vsprintf mem fmt args"

end
