(* ===== verification/VsprintfSpec.thy ===== *)
theory VsprintfSpec
  imports Vsprintf
begin

text \<open>
  What the formatting functions of lib/vsprintf.c store: the decimal digits found without a
  division are the right ones, a formatted number reads back as itself with the parsers of
  the same file, and every field has the requested width.
\<close>

section \<open>Decimal digits\<close>

text \<open>The reference: digits by division, the least significant first.\<close>

definition dec_char :: "nat \<Rightarrow> char" where
  "dec_char k = char_of (48 + k)"

fun dec_rev :: "nat \<Rightarrow> string" where
  "dec_rev n = dec_char (n mod 10) # (if n div 10 = 0 then [] else dec_rev (n div 10))"

declare dec_rev.simps [simp del]

text \<open>Division by ten as a multiplication and a shift.\<close>

lemma digit_split:
  obtains a r where "(x :: nat) = 10 * a + r" "r \<le> 9" "x div 10 = a"
proof (rule that)
  show "x = 10 * (x div 10) + x mod 10" by simp
  show "x mod 10 \<le> 9" using mod_less_divisor [of 10 x] by linarith
qed simp

lemma digit_div_mod: "n = 10 * m + r \<Longrightarrow> r \<le> 9 \<Longrightarrow> n div 10 = m \<and> n mod 10 = (r :: nat)"
  by simp

lemma mult_205_div:
  assumes "(x :: nat) < 1000"
  shows "x * 205 div 2048 = x div 10"
proof -
  obtain a r where x: "x = 10 * a + r" "r \<le> 9" "x div 10 = a" by (rule digit_split)
  then have "a \<le> 99" using assms by linarith
  then have "x * 205 < 2048 * Suc a" unfolding x(1) using x(2) by (simp add: algebra_simps)
  then show ?thesis unfolding x(3) using x(1) by (intro div_nat_eqI) simp_all
qed

lemma mult_13_div:
  assumes "(x :: nat) < 69"
  shows "x * 13 div 128 = x div 10"
proof -
  obtain a r where x: "x = 10 * a + r" "r \<le> 9" "x div 10 = a" by (rule digit_split)
  then have "a \<le> 5 \<or> a = 6 \<and> r \<le> 8" using assms by linarith
  then have "x * 13 < 128 * Suc a" unfolding x(1) using x(2) by (auto simp: algebra_simps)
  then show ?thesis unfolding x(3) using x(1) by (intro div_nat_eqI) simp_all
qed

lemma unat_div10:
  assumes "unat (d :: u32) < 1000"
  shows "unat (drop_bit 11 (d * 0xcd)) = unat d div 10"
proof -
  have "unat (d * 0xcd) = unat d * 205" using assms by (subst unat_mult_small) simp_all
  then show ?thesis unfolding unat_drop_bit_eq using mult_205_div [OF assms] by (simp add: drop_bit_eq_div)
qed

lemma unat_div10_small:
  assumes "unat (d :: u32) < 69"
  shows "unat (drop_bit 7 (d * 0xd)) = unat d div 10"
proof -
  have "unat (d * 0xd) = unat d * 13" using assms by (subst unat_mult_small) simp_all
  then show ?thesis unfolding unat_drop_bit_eq using mult_13_div [OF assms] by (simp add: drop_bit_eq_div)
qed

lemma unat_mod10:
  assumes "unat (d :: u32) < 1000" "unat q = unat d div 10"
  shows "unat (d - 10 * q) = unat d mod 10"
proof -
  have "unat (10 * q) = 10 * (unat d div 10)" using assms by (subst unat_mult_small) simp_all
  moreover have "10 * q \<le> d" unfolding word_le_nat_alt calculation by simp
  ultimately show ?thesis by (simp add: unat_sub_le minus_mult_div_eq_mod)
qed

lemma put_digit_eq: "unat d < 10 \<Longrightarrow> put_digit d = dec_char (unat d)"
proof -
  assume "unat d < 10"
  then have "unat (d + 0x30) = 48 + unat d" by (subst unat_add_nowrap) simp_all
  moreover have "unat (ucast (d + 0x30) :: u8) = unat (d + 0x30) mod 256" by (simp add: unat_ucast_mod)
  ultimately show ?thesis using \<open>unat d < 10\<close> by (simp add: put_digit_def char_of_byte_def dec_char_def)
qed

text \<open>The four hexadecimal digits of a number below 100000, the leading one up to 24.\<close>

lemma nibbles:
  fixes q :: u32
  defines "n \<equiv> unat q"
  shows "unat (drop_bit 4 q AND 0xf) = n div 16 mod 16" "unat (drop_bit 8 q AND 0xf) = n div 256 mod 16"
    "unat (drop_bit 12 q) = n div 4096" "unat (q AND 0xf) = n mod 16"
    "n = 4096 * (n div 4096) + 256 * (n div 256 mod 16) + 16 * (n div 16 mod 16) + n mod 16"
proof -
  show "unat (drop_bit 4 q AND 0xf) = n div 16 mod 16" "unat (drop_bit 8 q AND 0xf) = n div 256 mod 16"
    "unat (drop_bit 12 q) = n div 4096" "unat (q AND 0xf) = n mod 16"
    by (simp_all only: and_0xf_mod unat_drop_div n_def) simp_all
  have "n div 16 div 16 = n div 256" "n div 256 div 16 = n div 4096"
    by (simp_all add: div_mult2_eq [symmetric])
  then show "n = 4096 * (n div 4096) + 256 * (n div 256 mod 16) + 16 * (n div 16 mod 16) + n mod 16"
    using mod_mult_div_eq [of n 16] mod_mult_div_eq [of "n div 16" 16] mod_mult_div_eq [of "n div 256" 16]
    by linarith
qed

text \<open>The carries of the conversion: the four intermediate sums for a number \<open>n\<close>.\<close>

lemma carries:
  fixes D0 D1 D2 D3 n :: nat
  assumes n: "n = 4096 * D3 + 256 * D2 + 16 * D1 + D0" "n < 100000" "D0 \<le> 15" "D1 \<le> 15" "D2 \<le> 15"
  defines "d0 \<equiv> 6 * (D3 + D2 + D1) + D0"
  defines "d1 \<equiv> d0 div 10 + 9 * D3 + 5 * D2 + D1"
  defines "d2 \<equiv> d1 div 10 + 2 * D2"
  defines "d3 \<equiv> d2 div 10 + 4 * D3"
  shows "d0 < 1000" "d1 < 1000" "d2 < 69" "d3 < 1000" "d3 div 10 < 10"
    and "d0 mod 10 = n mod 10" "d1 mod 10 = n div 10 mod 10" "d2 mod 10 = n div 100 mod 10" "d3 = n div 1000"
    and "d1 = 0 \<longleftrightarrow> n div 10 = 0" "d2 = 0 \<and> D3 = 0 \<longleftrightarrow> n div 100 = 0"
proof -
  have D3: "D3 \<le> 24" using n by linarith
  obtain a0 r0 where s0: "d0 = 10 * a0 + r0" "r0 \<le> 9" "d0 div 10 = a0" by (rule digit_split)
  obtain a1 r1 where s1: "d1 = 10 * a1 + r1" "r1 \<le> 9" "d1 div 10 = a1" by (rule digit_split)
  obtain a2 r2 where s2: "d2 = 10 * a2 + r2" "r2 \<le> 9" "d2 div 10 = a2" by (rule digit_split)
  have d: "d0 = 6 * (D3 + D2 + D1) + D0" "d1 = a0 + 9 * D3 + 5 * D2 + D1" "d2 = a1 + 2 * D2" "d3 = a2 + 4 * D3"
    using s0(3) s1(3) s2(3) by (simp_all add: d0_def d1_def d2_def d3_def)
  have e: "n = 10 * (d1 + 400 * D3 + 20 * D2) + r0" "d1 + 400 * D3 + 20 * D2 = 10 * (d2 + 40 * D3) + r1"
    "d2 + 40 * D3 = 10 * d3 + r2"
    unfolding n(1) using d s0(1) s1(1) s2(1) by simp_all
  have q: "n div 10 = d1 + 400 * D3 + 20 * D2" "n mod 10 = r0"
    using digit_div_mod [OF e(1) s0(2)] by blast+
  have q2: "n div 10 div 10 = d2 + 40 * D3" "n div 10 mod 10 = r1"
    using digit_div_mod [OF e(2) s1(2)] unfolding q(1) by blast+
  have q3: "n div 10 div 10 div 10 = d3" "n div 10 div 10 mod 10 = r2"
    using digit_div_mod [OF e(3) s2(2)] unfolding q2(1) by blast+
  have h: "n div 100 = n div 10 div 10" "n div 1000 = n div 10 div 10 div 10"
    by (simp_all add: div_mult2_eq [symmetric])
  note m = digit_div_mod [THEN conjunct2]
  show "d0 mod 10 = n mod 10" unfolding q(2) by (rule m [OF s0(1,2)])
  show "d1 mod 10 = n div 10 mod 10" unfolding q2(2) by (rule m [OF s1(1,2)])
  show "d2 mod 10 = n div 100 mod 10" unfolding h q3(2) by (rule m [OF s2(1,2)])
  show "d3 = n div 1000" unfolding h q3(1) ..
  have d0: "d0 \<le> 339" using d(1) D3 n(3-5) by simp
  then show "d0 < 1000" by simp
  have "a0 \<le> 33" using d0 s0(1) by simp
  then have d1: "d1 \<le> 339" using d(2) D3 n(3-5) by simp
  then show "d1 < 1000" by simp
  have "a1 \<le> 33" using d1 s1(1) by simp
  then show "d2 < 69" using d(3) n(5) by simp
  have "d3 < 100" using e n(2) by simp
  then show "d3 < 1000" "d3 div 10 < 10" by (simp_all add: div_less_iff_less_mult)
  show "d1 = 0 \<longleftrightarrow> n div 10 = 0" unfolding q(1) using d by auto
  show "d2 = 0 \<and> D3 = 0 \<longleftrightarrow> n div 100 = 0" using q2(1) by (simp add: div_mult2_eq [symmetric])
qed

lemma div10_less: "(d :: nat) < 1000 \<Longrightarrow> d div 10 < 100"
  by (simp add: div_less_iff_less_mult)

lemma unat_sum_2:
  fixes a b :: u32
  assumes "unat a = A" "unat b = B" "A < 100" "B \<le> 24"
  shows "unat (a + 2 * b) = A + 2 * B" "unat (a + 4 * b) = A + 4 * B"
  using assms by (simp_all add: unat_word_ariths)

lemma unat_sum_6:
  fixes a b c d :: u32
  assumes "unat a = A" "unat b = B" "unat c = C" "unat d = D" "A \<le> 24" "B \<le> 15" "C \<le> 15" "D \<le> 15"
  shows "unat (6 * (a + b + c) + d) = 6 * (A + B + C) + D"
  using assms by (simp add: unat_word_ariths)

lemma unat_sum_9:
  fixes a b c d :: u32
  assumes "unat a = A" "unat b = B" "unat c = C" "unat d = D" "A < 100" "B \<le> 24" "C \<le> 15" "D \<le> 15"
  shows "unat (a + 9 * b + 5 * c + d) = A + 9 * B + 5 * C + D"
  using assms by (simp add: unat_word_ariths)

lemma put_dec_words:
  fixes q d1 d2 d3 d0 e1 e2 e3 :: u32
  assumes n: "n = unat q" "n < 100000"
    and d: "d1 = drop_bit 4 q AND 0xf" "d2 = drop_bit 8 q AND 0xf" "d3 = drop_bit 12 q"
      "d0 = 6 * (d3 + d2 + d1) + (q AND 0xf)"
    and e: "e1 = drop_bit 11 (d0 * 0xcd) + 9 * d3 + 5 * d2 + d1" "e2 = drop_bit 11 (e1 * 0xcd) + 2 * d2"
      "e3 = drop_bit 7 (e2 * 0xd) + 4 * d3"
  shows "put_digit (d0 - 10 * drop_bit 11 (d0 * 0xcd)) = dec_char (n mod 10)"
    and "put_digit (e1 - 10 * drop_bit 11 (e1 * 0xcd)) = dec_char (n div 10 mod 10)"
    and "put_digit (e2 - 10 * drop_bit 7 (e2 * 0xd)) = dec_char (n div 100 mod 10)"
    and "put_digit (e3 - 10 * drop_bit 11 (e3 * 0xcd)) = dec_char (n div 1000 mod 10)"
    and "put_digit (drop_bit 11 (e3 * 0xcd)) = dec_char (n div 10000)"
    and "e1 = 0 \<longleftrightarrow> n div 10 = 0" "e2 \<noteq> 0 \<or> d3 \<noteq> 0 \<longleftrightarrow> n div 100 \<noteq> 0"
    and "e3 = 0 \<longleftrightarrow> n div 1000 = 0" "drop_bit 11 (e3 * 0xcd) = 0 \<longleftrightarrow> n div 10000 = 0"
proof -
  let ?D3 = "n div 4096" and ?D2 = "n div 256 mod 16" and ?D1 = "n div 16 mod 16" and ?D0 = "n mod 16"
  have b: "?D0 \<le> 15" "?D1 \<le> 15" "?D2 \<le> 15" "?D3 \<le> 24" using n(2) by simp_all
  note c = carries [OF nibbles(5) [of q, folded n(1)] n(2) b(1-3)]
  have D: "unat d1 = ?D1" "unat d2 = ?D2" "unat d3 = ?D3" "unat (q AND 0xf) = ?D0"
    unfolding d n(1) by (rule nibbles)+
  have u0: "unat d0 = 6 * (?D3 + ?D2 + ?D1) + ?D0" 
    unfolding d(4) by (rule unat_sum_6 [OF D(3,2,1,4) b(4,3,2,1)])
  have q0: "unat (drop_bit 11 (d0 * 0xcd)) = unat d0 div 10" by (rule unat_div10 [OF c(1) [folded u0]])
  have u1: "unat e1 = unat d0 div 10 + 9 * ?D3 + 5 * ?D2 + ?D1"
    unfolding e(1) by (rule unat_sum_9 [OF q0 D(3,2,1) div10_less [OF c(1) [folded u0]] b(4,3,2)])
  have q1: "unat (drop_bit 11 (e1 * 0xcd)) = unat e1 div 10" 
    by (rule unat_div10 [OF c(2) [folded u0, folded u1]])
  have u2: "unat e2 = unat e1 div 10 + 2 * ?D2"
    unfolding e(2) by (rule unat_sum_2 [OF q1 D(2) div10_less [OF c(2) [folded u0, folded u1]]]) (use b(3) in simp)
  have q2: "unat (drop_bit 7 (e2 * 0xd)) = unat e2 div 10" 
    by (rule unat_div10_small [OF c(3) [folded u0, folded u1, folded u2]])
  have u3: "unat e3 = unat e2 div 10 + 4 * ?D3"
    unfolding e(3) by (rule unat_sum_2 [OF q2 D(3) div10_less b(4)]) (rule less_trans [OF c(3) [folded u0, folded u1, folded u2]], simp)
  have q3: "unat (drop_bit 11 (e3 * 0xcd)) = unat e3 div 10" 
    by (rule unat_div10 [OF c(4) [folded u0, folded u1, folded u2, folded u3]])
  note c = c [folded u0, folded u1, folded u2, folded u3]
  have k: "n div 10000 = n div 1000 div 10" by (simp add: div_mult2_eq [symmetric])
  show "put_digit (d0 - 10 * drop_bit 11 (d0 * 0xcd)) = dec_char (n mod 10)"
    using unat_mod10 [OF c(1) q0] c(6) by (simp add: put_digit_eq)
  show "put_digit (e1 - 10 * drop_bit 11 (e1 * 0xcd)) = dec_char (n div 10 mod 10)"
    using unat_mod10 [OF c(2) q1] c(7) by (simp add: put_digit_eq)
  have "unat e2 < 1000" by (rule less_trans [OF c(3)]) simp
  then show "put_digit (e2 - 10 * drop_bit 7 (e2 * 0xd)) = dec_char (n div 100 mod 10)"
    using unat_mod10 [OF _ q2] c(8) by (simp add: put_digit_eq)
  show "put_digit (e3 - 10 * drop_bit 11 (e3 * 0xcd)) = dec_char (n div 1000 mod 10)"
    using unat_mod10 [OF c(4) q3] c(9) by (simp add: put_digit_eq)
  show "put_digit (drop_bit 11 (e3 * 0xcd)) = dec_char (n div 10000)"
    using q3 c(5,9) k by (simp add: put_digit_eq)
  show "e1 = 0 \<longleftrightarrow> n div 10 = 0" using c(10) by (simp add: unat_eq_0)
  show "e2 \<noteq> 0 \<or> d3 \<noteq> 0 \<longleftrightarrow> n div 100 \<noteq> 0" using c(11) D(3) by (metis unat_eq_0)
  show "e3 = 0 \<longleftrightarrow> n div 1000 = 0" using c(9) by (metis unat_eq_0)
  show "drop_bit 11 (e3 * 0xcd) = 0 \<longleftrightarrow> n div 10000 = 0" using q3 c(9) k by (metis unat_eq_0)
qed

lemma dec_rev_5:
  assumes "n < 100000"
  shows "dec_rev n = dec_char (n mod 10) #
    (if n div 10 \<noteq> 0 then dec_char (n div 10 mod 10) #
      (if n div 100 \<noteq> 0 then dec_char (n div 100 mod 10) #
        (if n div 1000 \<noteq> 0 then dec_char (n div 1000 mod 10) #
          (if n div 10000 \<noteq> 0 then [dec_char (n div 10000)] else []) else []) else []) else [])"
proof -
  have e: "n div 10 div 10 = n div 100" "n div 100 div 10 = n div 1000" "n div 1000 div 10 = n div 10000"
    by (simp_all add: div_mult2_eq [symmetric])
  have "n div 10000 < 10" using assms by (simp add: div_less_iff_less_mult)
  then have "dec_rev (n div 10000) = [dec_char (n div 10000)]"
    by (subst dec_rev.simps) simp
  then show ?thesis
    by (simp add: dec_rev.simps [of n] dec_rev.simps [of "n div 10"] dec_rev.simps [of "n div 100"]
        dec_rev.simps [of "n div 1000"] e del: One_nat_def)
qed

lemma put_dec_trunc_eq:
  assumes "unat q < 100000"
  shows "put_dec_trunc q = dec_rev (unat q)"
  unfolding dec_rev_5 [OF assms] put_dec_trunc_def Let_def
    put_dec_words [OF refl assms refl refl refl refl refl refl refl] ..

text \<open>Five digits with leading zeros.\<close>

fun dec_fixed :: "nat \<Rightarrow> nat \<Rightarrow> string" where
  "dec_fixed 0 n = []"
| "dec_fixed (Suc k) n = dec_char (n mod 10) # dec_fixed k (n div 10)"

lemma put_dec_full_eq:
  assumes "unat q < 100000"
  shows "put_dec_full q = dec_fixed 5 (unat q)"
proof -
  let ?n = "unat q"
  have "?n div 10000 < 10" using assms by (simp add: div_less_iff_less_mult)
  moreover have "?n div 10 div 10 = ?n div 100" "?n div 100 div 10 = ?n div 1000" "?n div 1000 div 10 = ?n div 10000"
    by (simp_all add: div_mult2_eq [symmetric])
  moreover have "dec_fixed 5 ?n = dec_fixed (Suc (Suc (Suc (Suc (Suc 0))))) ?n"
    by (rule arg_cong [where f = "\<lambda>k. dec_fixed k ?n"]) simp
  ultimately have "dec_fixed 5 (unat q) = [dec_char (unat q mod 10), dec_char (unat q div 10 mod 10),
      dec_char (unat q div 100 mod 10), dec_char (unat q div 1000 mod 10), dec_char (unat q div 10000)]"
    by (simp only: dec_fixed.simps mod_less)
  then show ?thesis unfolding put_dec_full_def Let_def
    put_dec_words [OF refl assms refl refl refl refl refl refl refl] by simp
qed

lemma dec_rev_split:
  assumes "10 ^ k \<le> n"
  shows "dec_rev n = dec_fixed k (n mod 10 ^ k) @ dec_rev (n div 10 ^ k)"
  using assms
proof (induction k arbitrary: n)
  case (Suc k)
  have "10 ^ k \<le> n div 10" using Suc.prems by (simp add: less_eq_div_iff_mult_less_eq mult.commute)
  moreover from this have "n div 10 \<noteq> 0" by (metis le_zero_eq power_not_zero zero_neq_numeral)
  moreover have "n mod 10 ^ Suc k mod 10 = n mod 10" "n mod 10 ^ Suc k div 10 = n div 10 mod 10 ^ k"
    by (simp_all add: mod_mult2_eq)
  ultimately show ?case using Suc.IH [of "n div 10"]
    by (simp add: dec_rev.simps [of n] div_mult2_eq)
qed simp

lemma put_dec_eq: "put_dec num = dec_rev (unat num)"
proof (induction num rule: put_dec.induct)
  case (1 num)
  show ?case
  proof (cases "num < 100000")
    case True
    then have "unat num < 100000" by (simp add: word_less_nat_alt)
    then show ?thesis using True by (simp add: put_dec.simps put_dec_trunc_eq unat_ucast_64_32)
  next
    case False
    obtain q r where qr: "do_div num 100000 = (q, r)" by fastforce
    then have u: "unat q = unat num div 10 ^ 5" "unat r = unat num mod 10 ^ 5"
      using do_div_spec [of 100000 num] by simp_all
    have "10 ^ 5 \<le> unat num" using False by (simp add: word_less_nat_alt)
    then show ?thesis using False qr 1 u dec_rev_split [of 5 "unat num"]
      by (simp add: put_dec.simps [of num] put_dec_full_eq)
  qed
qed

section \<open>Digits in any base\<close>

definition radix_char :: "bool \<Rightarrow> nat \<Rightarrow> char" where
  "radix_char small k = char_of (if k < 10 then 48 + k else if small then 87 + k else 55 + k)"

function radix_rev :: "nat \<Rightarrow> bool \<Rightarrow> nat \<Rightarrow> string" where
  "radix_rev b small n =
     radix_char small (n mod b) # (if b < 2 \<or> n div b = 0 then [] else radix_rev b small (n div b))"
  by pat_completeness auto
termination
  by (relation "measure (\<lambda>(b, small, n). n)") (auto simp: div_eq_0_iff)

declare radix_rev.simps [simp del]

lemma dec_rev_radix: "dec_rev n = radix_rev 10 small n"
proof (induction n rule: dec_rev.induct)
  case (1 n)
  have "radix_char small (n mod 10) = dec_char (n mod 10)"
    by (simp add: radix_char_def dec_char_def)
  then show ?case using 1 by (simp add: dec_rev.simps [of n] radix_rev.simps [of _ _ n])
qed

lemma number_digit:
  assumes "k < 16" "locase = (if small then 0x20 else 0)"
  shows "char_of_byte (byte_of (digits ! k) OR locase) = radix_char small k"
proof -
  have "k \<in> set [0..<16]" using assms(1) by simp
  then have "char_of_byte (byte_of (digits ! k) OR (if small then 0x20 else 0)) = radix_char small k"
    by (cases small) (auto simp: upt_rec digits_def radix_char_def byte_of_def char_of_byte_def)
  then show ?thesis using assms(2) by simp
qed

lemma low_bits_index:
  assumes "b = 8 \<or> b = 16"
  shows "unat (ucast (num :: u64) AND (of_int (int b - 1) :: u8)) = unat num mod b"
proof -
  have m: "unat (x AND 7) = unat x mod 8" "unat (x AND 15) = unat x mod 16" for x :: u8
    using and_mask_mod [of x 3] and_mask_mod [of x 4] by (simp_all add: mask_eq_exp_minus_1)
  have "unat (ucast num :: u8) = unat num mod 256" by (simp add: unat_ucast_mod)
  moreover have "unat num mod 256 mod 8 = unat num mod 8" "unat num mod 256 mod 16 = unat num mod 16"
    by (simp_all add: mod_mod_cancel)
  ultimately show ?thesis using assms m by auto
qed

lemma number_digits_eq:
  assumes "b = 8 \<or> b = 16" "locase = (if small then 0x20 else 0)"
  shows "number_digits (int b) locase num = radix_rev b small (unat num)"
proof (induction num rule: measure_induct_rule [where f = unat])
  case (less num)
  define num' where "num' = drop_bit (if int b = 16 then 4 else 3) num"
  have u: "unat num' = unat num div b"
    using assms(1) unat_drop_div [of 3 num] unat_drop_div [of 4 num] by (auto simp: num'_def)
  have z: "num' = 0 \<longleftrightarrow> unat num div b = 0" unfolding u [symmetric] by (simp add: unat_eq_0)
  have d: "char_of_byte (byte_of (digits ! unat (ucast num AND (of_int (int b - 1) :: u8))) OR locase) =
      radix_char small (unat num mod b)"
    unfolding low_bits_index [OF assms(1)] using assms by (intro number_digit) auto
  have "number_digits (int b) locase num' = radix_rev b small (unat num')" if "num' \<noteq> 0"
  proof (rule less)
    have "num \<noteq> 0" using that by (auto simp: num'_def)
    then show "unat num' < unat num" unfolding num'_def by (rule drop_bit_less) simp
  qed
  then have r: "(if num' \<noteq> 0 then number_digits (int b) locase num' else []) =
      (if b < 2 \<or> unat num div b = 0 then [] else radix_rev b small (unat num div b))"
    using assms(1) z u by auto
  show ?case
    by (subst number_digits.simps, subst radix_rev.simps) (simp only: Let_def num'_def [symmetric] d r)
qed

section \<open>Padding\<close>

lemma pad_eq: "pad c sz = (replicate (nat sz) c, if sz \<le> 0 then sz - 1 else -1)"
proof (induction c sz rule: pad.induct)
  case (1 c sz)
  show ?case
  proof (cases "sz - 1 \<ge> 0")
    case True
    then have "nat sz = Suc (nat (sz - 1))" by simp
    then show ?thesis using True 1 by (subst pad.simps) auto
  next
    case False
    then show ?thesis by (subst pad.simps) simp
  qed
qed

lemma zeros_eq: "zeros i p = replicate (nat (p - i)) CHR ''0''"
proof (induction i p rule: zeros.induct)
  case (1 i p)
  show ?case
  proof (cases "i \<le> p - 1")
    case True
    then have "nat (p - i) = Suc (nat (p - 1 - i))" by simp
    then show ?thesis using True 1 by (subst zeros.simps) auto
  next
    case False
    then show ?thesis by (subst zeros.simps) simp
  qed
qed

section \<open>The layout of a number\<close>

text \<open>The parts of a formatted number: the sign, the magnitude, the prefix and the digits.\<close>

definition num_sign :: "u32 \<Rightarrow> u64 \<Rightarrow> string" where
  "num_sign type num =
     (if \<not> flag_set type SIGN then []
      else if sint num < 0 then ''-'' else if flag_set type PLUS then ''+''
      else if flag_set type SPACE then '' '' else [])"

definition num_magnitude :: "u32 \<Rightarrow> u64 \<Rightarrow> nat" where
  "num_magnitude type num = (if flag_set type SIGN then nat \<bar>sint num\<bar> else unat num)"

definition num_prefix :: "u32 \<Rightarrow> nat \<Rightarrow> string" where
  "num_prefix type base =
     (if flag_set type SPECIAL \<and> base = 8 then ''0''
      else if flag_set type SPECIAL \<and> base = 16 then (if flag_set type SMALL then ''0x'' else ''0X'')
      else [])"

definition num_digits :: "u32 \<Rightarrow> nat \<Rightarrow> u64 \<Rightarrow> string" where
  "num_digits type base num = rev (radix_rev base (flag_set type SMALL) (num_magnitude type num))"

lemma flag_set_power: "flag_set t (2 ^ k) \<longleftrightarrow> bit t k"
  by (simp add: flag_set_def and_exp_eq_0_iff_not_bit)

lemma flag_bits:
  "flag_set t ZEROPAD \<longleftrightarrow> bit t 0" "flag_set t SIGN \<longleftrightarrow> bit t 1" "flag_set t PLUS \<longleftrightarrow> bit t 2"
  "flag_set t SPACE \<longleftrightarrow> bit t 3" "flag_set t LEFT \<longleftrightarrow> bit t 4" "flag_set t SMALL \<longleftrightarrow> bit t 5"
  "flag_set t SPECIAL \<longleftrightarrow> bit t 6"
  using flag_set_power [of t 0] flag_set_power [of t 1] flag_set_power [of t 2] flag_set_power [of t 3]
    flag_set_power [of t 4] flag_set_power [of t 5] flag_set_power [of t 6] by simp_all

lemma flag_set_or: "flag_set type (f OR g) \<longleftrightarrow> flag_set type f \<or> flag_set type g"
  by (simp add: flag_set_def bit.conj_disj_distrib or_eq_0_iff)

lemma flag_set_zeropad_left: "flag_set t 17 \<longleftrightarrow> bit t 0 \<or> bit t 4"
  using flag_set_or [of t ZEROPAD LEFT] by (simp add: flag_bits)

lemma bit_clear_zeropad: "bit ((t :: u32) AND - 2) k \<longleftrightarrow> bit t k \<and> k \<noteq> 0"
proof -
  have "t AND - 2 = t AND NOT 1" by simp
  then show ?thesis by (simp only: bit_and_iff bit_not_iff bit_1_iff) (auto dest: bit_imp_le_length)
qed

lemma magnitude_neg:
  assumes "sint (num :: u64) < 0"
  shows "unat (- num) = nat (- sint num)"
proof -
  have "- (2 ^ 63) \<le> sint num" using sint_ge [of num] by simp
  moreover have "- num = word_of_int (- sint num)" by simp
  ultimately have "uint (- num) = - sint num"
    using assms by (simp only: uint_word_of_int) simp
  then show ?thesis by (metis nat_uint_eq)
qed

lemma magnitude_pos: "\<not> sint (num :: u64) < 0 \<Longrightarrow> unat num = nat \<bar>sint num\<bar>"
  by (metis abs_of_nonneg nat_sint not_less)

lemma locase_cases: "(ucast (type AND SMALL) :: u8) = (if flag_set type SMALL then 0x20 else 0)"
proof -
  have h: "bit (32 :: u32) n \<longleftrightarrow> n = 5" for n using bit_exp_iff [where 'a = "u32", of 5 n] by (auto dest: bit_imp_le_length)
  have "type AND 32 = (if bit type 5 then 32 else 0)"
    by (rule bit_word_eqI, cases "bit type 5") (simp_all only: bit_and_iff h if_True if_False bit_0_eq, auto)
  then show ?thesis by (simp add: flag_bits)
qed

lemma radix_rev_0: "radix_rev b small 0 = ''0''"
proof -
  have "char_of (48 :: nat) = CHR ''0''" by code_simp
  then show ?thesis by (subst radix_rev.simps) (simp add: radix_char_def)
qed

text \<open>The digits stored in \<open>tmp\<close> for a number \<open>m\<close>.\<close>

lemma tmp_digits:
  assumes "base \<in> {8, 10, 16}"
  shows "(if m = 0 then ''0''
      else if int base \<noteq> 10 then number_digits (int base) (ucast (type AND SMALL)) m
      else put_dec m) = radix_rev base (flag_set type SMALL) (unat m)"
proof -
  consider "m = 0" | "m \<noteq> 0" "base = 10" | "m \<noteq> 0" "base = 8 \<or> base = 16" using assms by auto
  then show ?thesis
  proof cases
    case 1
    then show ?thesis by (simp add: radix_rev_0)
  next
    case 2
    then show ?thesis by (simp add: put_dec_eq dec_rev_radix [of _ "flag_set type SMALL"])
  next
    case 3
    then show ?thesis using number_digits_eq [OF _ locase_cases] by auto
  qed
qed

lemma number_unfold:
  fixes num :: u64 and type :: u32 and sz precision :: int
  assumes "base \<in> {8, 10, 16}"
  defines "s \<equiv> num_sign type num" and "p \<equiv> num_prefix type base" and "d \<equiv> num_digits type base num"
  defines "prec \<equiv> max (int (length d)) precision"
  defines "sz' \<equiv> sz - int (length s) - int (length p) - prec"
  shows "number num (int base) sz precision type =
    (let left = flag_set type LEFT;
         zero = \<not> left \<and> flag_set type ZEROPAD;
         ds = replicate (nat (prec - int (length d))) CHR ''0'' @ d;
         fill = nat sz'
     in if left then s @ p @ ds @ replicate fill CHR '' ''
        else if zero then s @ p @ replicate fill CHR ''0'' @ ds
        else replicate fill CHR '' '' @ s @ p @ ds)"
proof -
  define t where "t = (if flag_set type LEFT then type AND NOT ZEROPAD else type)"
  have t: "flag_set t LEFT = flag_set type LEFT" "flag_set t SIGN = flag_set type SIGN"
    "flag_set t PLUS = flag_set type PLUS" "flag_set t SPACE = flag_set type SPACE"
    "flag_set t ZEROPAD = (\<not> flag_set type LEFT \<and> flag_set type ZEROPAD)"
    "flag_set t (ZEROPAD + LEFT) = (flag_set type LEFT \<or> flag_set type ZEROPAD)"
    by (auto simp: t_def flag_bits flag_set_zeropad_left bit_clear_zeropad)
  define m where "m = (if flag_set type SIGN \<and> sint num < 0 then - num else num)"
  have signed: "(if flag_set type SIGN then if sint num < 0 then (''-'', - num, sz - 1)
      else if flag_set type PLUS then (''+'', num, sz - 1)
      else if flag_set type SPACE then ('' '', num, sz - 1) else ([], num, sz) else ([], num, sz)) =
    (s, m, sz - int (length s))"
    by (simp add: s_def num_sign_def m_def)
  have "unat m = num_magnitude type num"
    by (simp add: m_def num_magnitude_def magnitude_neg magnitude_pos)
  then have tmp: "(if m = 0 then ''0''
      else if int base \<noteq> 10 then number_digits (int base) (ucast (type AND SMALL)) m
      else put_dec m) = rev d"
    using tmp_digits [OF assms(1), of m type] by (simp add: d_def num_digits_def)
  have x: "char_of_byte (byte_of CHR ''X'' OR 0x20) = CHR ''x''" "char_of_byte (byte_of CHR ''X'' OR 0) = CHR ''X''"
    by code_simp+
  have pfx: "(if flag_set type SPECIAL \<and> int base \<noteq> 10 then CHR ''0'' #
      (if int base = 16 then [char_of_byte (byte_of CHR ''X'' OR ucast (type AND SMALL))] else []) else []) = p"
    using assms(1) x by (auto simp: p_def num_prefix_def locase_cases)
  have sz: "(if flag_set type SPECIAL \<and> int base \<noteq> 10 then if int base = 16 then sz - int (length s) - 1 - 1
      else sz - int (length s) - 1 else sz - int (length s)) = sz - int (length s) - int (length p)"
    using assms(1) by (auto simp: p_def num_prefix_def)
  have prec: "(if int (length d) > precision then int (length d) else precision) = prec"
    by (simp add: prec_def max_def)
  show ?thesis
    unfolding number_def Let_def t_def [symmetric] t signed prod.case tmp length_rev rev_rev_ident pfx sz prec
      sz'_def [symmetric] zeros_eq
    by (cases "flag_set type LEFT"; cases "flag_set type ZEROPAD") (simp_all add: pad_eq)
qed

lemma number_default:
  assumes "base \<in> {8, 10, 16}"
  shows "number num (int base) (-1) (-1) type = num_sign type num @ num_prefix type base @ num_digits type base num"
  using number_unfold [OF assms, of num "-1" "-1" type] by (simp add: Let_def)

section \<open>Reading numbers back\<close>

lemma radix_char_digit:
  assumes "k < 16"
  shows "digit (radix_char small k) = k" "isxdigit (radix_char small k)" "radix_char small k = CHR ''0'' \<longleftrightarrow> k = 0"
proof -
  have c: "(of_char (radix_char small k) :: nat) = (if k < 10 then 48 + k else if small then 87 + k else 55 + k)"
    using assms by (simp add: radix_char_def)
  show "digit (radix_char small k) = k" "isxdigit (radix_char small k)"
    using assms by (auto simp: digit_def isdigit_iff islower_iff isxdigit_iff c)
  have "radix_char small k = CHR ''0'' \<longleftrightarrow> (of_char (radix_char small k) :: nat) = of_char CHR ''0''"
    by (simp only: of_char_eq_iff)
  then show "radix_char small k = CHR ''0'' \<longleftrightarrow> k = 0" unfolding c by simp
qed

lemma radix_rev_chars:
  assumes "2 \<le> b" "b \<le> 16"
  shows "\<forall>c\<in>set (radix_rev b small n). is_digit_of b c"
  using assms
proof (induction b small n rule: radix_rev.induct)
  case (1 b small n)
  have "n mod b < b" "n mod b < 16" using 1 mod_less_divisor [of b n] by linarith+
  then show ?case using 1
    by (subst radix_rev.simps) (auto simp: is_digit_of_def radix_char_digit)
qed

lemma radix_value:
  assumes "2 \<le> b" "b \<le> 16"
  shows "numeral_value b (rev (radix_rev b small n)) = n"
  using assms
proof (induction b small n rule: radix_rev.induct)
  case (1 b small n)
  have "n mod b < 16" using 1 mod_less_divisor [of b n] by linarith
  then show ?case using 1
    by (subst radix_rev.simps) (auto simp: numeral_value_def radix_char_digit div_eq_0_iff mod_less)
qed

lemma radix_lead:
  assumes "2 \<le> b" "b \<le> 16"
  shows "radix_rev b small n \<noteq> [] \<and> (last (radix_rev b small n) = CHR ''0'' \<longleftrightarrow> n = 0)"
  using assms
proof (induction b small n rule: radix_rev.induct)
  case (1 b small n)
  have "n mod b < 16" using 1 mod_less_divisor [of b n] by linarith
  then have c: "radix_char small (n mod b) = CHR ''0'' \<longleftrightarrow> n mod b = 0" by (rule radix_char_digit)
  show ?case
  proof (cases "n div b = 0")
    case True
    then have "n mod b = n" using 1 by (simp add: div_eq_0_iff)
    then show ?thesis using True c by (subst (1 2) radix_rev.simps) simp
  next
    case False
    then have "n \<noteq> 0" by (rule contrapos_nn) simp
    then show ?thesis using False 1 by (subst (1 2) radix_rev.simps) simp
  qed
qed

lemma radix_string:
  assumes "2 \<le> b" "b \<le> 16"
  shows "takeWhile (is_digit_of b) (rev (radix_rev b small n)) = rev (radix_rev b small n)"
    "dropWhile (is_digit_of b) (rev (radix_rev b small n)) = []"
    "rev (radix_rev b small n) \<noteq> []" "hd (rev (radix_rev b small n)) = CHR ''0'' \<longleftrightarrow> n = 0"
  using radix_rev_chars [OF assms, of small n] radix_lead [OF assms, of small n]
  by (auto simp: takeWhile_eq_all_conv dropWhile_eq_Nil_conv hd_rev)

lemma strtoul_plain:
  assumes "base \<noteq> 0" "s \<noteq> []" "hd s \<noteq> CHR ''0''" "\<forall>c\<in>set s. is_digit_of (unat base) c"
  shows "simple_strtoul s base = (of_nat (numeral_value (unat base) s), [])"
proof -
  have "\<not> (\<exists>t. s = CHR ''0'' # t)" "\<not> (\<exists>c t. s = CHR ''0'' # CHR ''x'' # c # t \<and> isxdigit c)"
    using assms(3) by auto
  then show ?thesis using assms(1,4)
    by (simp only: simple_strtoul_spec Let_def if_False if_True) (simp add: takeWhile_eq_all_conv [THEN iffD2])
qed

lemma strtoul_radix:
  assumes "2 \<le> b" "b \<le> 16"
  shows "simple_strtoul (rev (radix_rev b small n)) (of_nat b) = (of_nat n, [])"
proof (cases "n = 0")
  case True
  then show ?thesis using assms
    by (simp add: radix_rev_0 simple_strtoul_spec Let_def)
next
  case False
  have "unat (of_nat b :: u32) = b" using assms by (simp add: unat_of_nat)
  moreover from this have "(of_nat b :: u32) \<noteq> 0" using assms by (metis unat_0 not_numeral_le_zero)
  ultimately show ?thesis
    using False radix_string(3,4) [OF assms, of small n] radix_rev_chars [OF assms, of small n] radix_value [OF assms, of small n]
    by (subst strtoul_plain) simp_all
qed

lemma strtoul_0x:
  "simple_strtoul (''0x'' @ rev (radix_rev 16 small n)) base = (of_nat n, [])"
proof -
  obtain c t where ct: "rev (radix_rev 16 small n) = c # t"
    using radix_string(3) [of 16 small n] by (cases "rev (radix_rev 16 small n)") auto
  then have "c \<in> set (radix_rev 16 small n)" by (metis list.set_intros(1) set_rev)
  then have "isxdigit c" using radix_rev_chars [of 16 small n] by (simp add: is_digit_of_def)
  then show ?thesis
    using ct radix_string [of 16 small n] radix_value [of 16 small n]
    by (simp add: simple_strtoul_spec Let_def)
qed

lemma strtol_signed:
  "simple_strtol ((if sint (w :: u32) < 0 then ''-'' else []) @ rev (radix_rev 10 small (nat \<bar>sint w\<bar>))) 10 = (w, [])"
proof -
  have r: "simple_strtoul (rev (radix_rev 10 small m)) 10 = (of_nat m, [])" for m
    using strtoul_radix [of 10 small m] by simp
  show ?thesis
  proof (cases "sint w < 0")
    case True
    then have "- (of_nat (nat \<bar>sint w\<bar>) :: u32) = w" by simp
    then show ?thesis using True r by (simp add: simple_strtol_def)
  next
    case False
    then have "(of_nat (nat \<bar>sint w\<bar>) :: u32) = w" by simp
    moreover have "peek (rev (radix_rev 10 small (nat \<bar>sint w\<bar>))) 0 \<noteq> CHR ''-''"
    proof -
      obtain c t where ct: "rev (radix_rev 10 small (nat \<bar>sint w\<bar>)) = c # t"
        using radix_string(3) [of 10 small "nat \<bar>sint w\<bar>"] by (cases "rev (radix_rev 10 small (nat \<bar>sint w\<bar>))") simp_all
      then have "c \<in> set (radix_rev 10 small (nat \<bar>sint w\<bar>))" by (metis list.set_intros(1) set_rev)
      then have "isxdigit c" using radix_rev_chars [of 10] by (simp add: is_digit_of_def)
      moreover have "\<not> isxdigit CHR ''-''" by (simp add: isxdigit_iff)
      ultimately show ?thesis using ct by auto
    qed
    ultimately show ?thesis using False r by (simp add: simple_strtol_def)
  qed
qed

section \<open>Single conversions\<close>

lemmas conv_simps = vsprintf_def vsprintf_loop.simps conversion_def conv_width_def conv_precision_def
  conv_qualifier_def conv_number_def is_digit_def byte_of_def Let_def

lemma vsprintf_d:
  "vsprintf mem ''%d'' [VInt w] =
     Some ((if sint w < 0 then ''-'' else []) @ rev (radix_rev 10 False (nat \<bar>sint w\<bar>)), [])"
proof -
  have s: "sint (scast w :: u64) = sint w" by (rule sint_up_scast) (simp add: is_up)
  have "number (scast w) 10 (-1) (-1) 2 = (if sint w < 0 then ''-'' else []) @ rev (radix_rev 10 False (nat \<bar>sint w\<bar>))"
    using number_default [of 10 "scast w" 2]
    by (simp add: num_sign_def num_prefix_def num_digits_def num_magnitude_def flag_set_def s)
  then show ?thesis by (simp add: conv_simps flag_set_def)
qed

lemma vsprintf_u: "vsprintf mem ''%u'' [VInt w] = Some (rev (radix_rev 10 False (unat w)), [])"
proof -
  have "number (ucast w) 10 (-1) (-1) 0 = rev (radix_rev 10 False (unat w))"
    using number_default [of 10 "ucast w" 0]
    by (simp add: num_sign_def num_prefix_def num_digits_def num_magnitude_def flag_set_def unat_ucast_32_64)
  then show ?thesis by (simp add: conv_simps flag_set_def)
qed

lemma vsprintf_x:
  "vsprintf mem ''%x'' [VInt w] = Some (rev (radix_rev 16 True (unat w)), [])"
  "vsprintf mem ''%#x'' [VInt w] = Some (''0x'' @ rev (radix_rev 16 True (unat w)), [])"
proof -
  have "number (ucast w) 16 (-1) (-1) 32 = rev (radix_rev 16 True (unat w))"
    "number (ucast w) 16 (-1) (-1) 96 = ''0x'' @ rev (radix_rev 16 True (unat w))"
    using number_default [of 16 "ucast w" 32] number_default [of 16 "ucast w" 96]
    by (simp_all add: num_sign_def num_prefix_def num_digits_def num_magnitude_def flag_set_def unat_ucast_32_64)
  then show "vsprintf mem ''%x'' [VInt w] = Some (rev (radix_rev 16 True (unat w)), [])"
    "vsprintf mem ''%#x'' [VInt w] = Some (''0x'' @ rev (radix_rev 16 True (unat w)), [])"
    by (simp_all add: conv_simps flag_set_def)
qed

text \<open>A non-negative number within a text, and a numeral followed by a full stop.\<close>

lemma vsprintf_loop_d:
  assumes "unat w < 2 ^ 31"
  shows "vsprintf_loop mem (CHR ''%'' # CHR ''d'' # fmt) (VInt w # args) out st = vsprintf_loop mem fmt args (out @ rev (radix_rev 10 False (unat w))) st"
proof -
  have s: "sint (scast w :: u64) = int (unat w)" using sint_small [OF assms] by (subst sint_up_scast) (simp_all add: is_up)
  have "number (scast w) 10 (-1) (-1) 2 = rev (radix_rev 10 False (unat w))"
    using number_default [of 10 "scast w" 2]
    by (simp add: num_sign_def num_prefix_def num_digits_def num_magnitude_def flag_set_def s)
  then show ?thesis by (simp add: conv_simps flag_set_def)
qed

lemma vsprintf_loop_char: "c \<noteq> CHR ''%'' \<Longrightarrow> vsprintf_loop mem (c # fmt) args out st = vsprintf_loop mem fmt args (out @ [c]) st"
  by (simp add: vsprintf_loop.simps)

lemma strtoul_stop:
  assumes "r = [] \<or> (\<exists>q. r = CHR ''.'' # q)"
  shows "simple_strtoul (rev (radix_rev 10 small n) @ r) 10 = (of_nat n, r)"
proof -
  let ?s = "rev (radix_rev 10 small n)"
  have a: "\<forall>c\<in>set ?s. is_digit_of 10 c" "?s \<noteq> []" "numeral_value 10 ?s = n" "hd ?s = CHR ''0'' \<longleftrightarrow> n = 0"
    using radix_rev_chars [of 10 small n] radix_value [of 10 small n] radix_string(3,4) [of 10 small n] by simp_all
  have d: "\<not> is_digit_of 10 (CHR ''.'')" by (simp add: is_digit_of_def isxdigit_iff)
  then have t: "takeWhile (is_digit_of 10) (?s @ r) = ?s" "dropWhile (is_digit_of 10) (?s @ r) = r"
    using a(1) assms by (auto simp: takeWhile_append dropWhile_append dropWhile_eq_Nil_conv [THEN iffD2])
  have x: "\<not> is_digit_of 10 CHR ''x''" by (simp add: is_digit_of_def isxdigit_iff isdigit_iff digit_def)
  have "\<not> (\<exists>c t. ?s @ r = CHR ''0'' # CHR ''x'' # c # t \<and> isxdigit c)"
  proof (rule notI, elim exE conjE)
    fix c t assume e: "?s @ r = CHR ''0'' # CHR ''x'' # c # t"
    then show False using a(1,2) x assms by (cases ?s) (auto simp: append_eq_Cons_conv)
  qed
  note h = this
  show ?thesis
  proof (cases "n = 0")
    case True
    then show ?thesis using h t(2) d assms by (simp only: simple_strtoul_spec Let_def) (auto simp: radix_rev_0 takeWhile_eq_Nil_iff numeral_value_def)
  next
    case False
    then have "\<not> (\<exists>t. ?s @ r = CHR ''0'' # t)" using a(2,4) by (cases ?s) auto
    then show ?thesis using h t a(3) by (simp only: simple_strtoul_spec Let_def) simp
  qed
qed

section \<open>Properties\<close>

text \<open>C31: For every 64-bit number, \<open>put_dec\<close> stores, least significant first, exactly its decimal
  numeral: only decimal digits, the right value, and no leading zero except for the number
  zero. The digits are found five at a time without any division by ten.\<close>

theorem put_dec_correct:
  "let s = rev (put_dec num)
   in numeral_value 10 s = unat num \<and> list_all isdigit s \<and> s \<noteq> [] \<and> (hd s = CHR ''0'') = (num = 0)"
proof -
  have e: "put_dec num = radix_rev 10 False (unat num)" by (simp add: put_dec_eq dec_rev_radix)
  have d: "is_digit_of 10 c \<longleftrightarrow> isdigit c" for c
    by (auto simp: is_digit_of_def isxdigit_iff isdigit_iff digit_def islower_iff)
  have "list_all isdigit (rev (put_dec num))"
    using radix_rev_chars [of 10 False "unat num"] by (simp add: e list_all_iff d)
  then show ?thesis
    using radix_value [of 10 False "unat num"] radix_string(3,4) [of 10 False "unat num"]
    by (simp add: e unat_eq_0)
qed

text \<open>The layout of a formatted number in base 8, 10 or 16: sign, prefix, digits padded with
  zeros to the precision, and the fill that brings the field to the requested width: blanks on
  the right for a left-justified field, zeros behind the prefix for a zero-padded one, blanks on
  the left otherwise. Left justification overrides zero padding.\<close>

lemma number_layout:
  assumes "base \<in> {8, 10, 16}"
  shows "number num (int base) sz precision type =
    (let s = num_sign type num; p = num_prefix type base; d = num_digits type base num;
         ds = replicate (nat precision - length d) CHR ''0'' @ d;
         fill = nat sz - length (s @ p @ ds)
     in if flag_set type LEFT then s @ p @ ds @ replicate fill CHR '' ''
        else if flag_set type ZEROPAD then s @ p @ replicate fill CHR ''0'' @ ds
        else replicate fill CHR '' '' @ s @ p @ ds)"
proof -
  define d where "d = num_digits type base num"
  have "nat (max (int (length d)) precision - int (length d)) = nat precision - length d" by linarith
  moreover have "nat (sz - int a - int b - max (int (length d)) precision) =
      nat sz - (a + b + (nat precision - length d + length d))" for a b
    by linarith
  ultimately show ?thesis
    unfolding number_unfold [OF assms] Let_def d_def by (simp add: add.assoc)
qed

text \<open>C32: A 32-bit number printed by \<open>vsprintf\<close> with \<open>%d\<close>, \<open>%u\<close>, \<open>%x\<close> or \<open>%#x\<close> is read back unchanged and
  completely by the parsers of the same file, in the base the format stands for; for \<open>%#x\<close> the
  base is recognised from the prefix.\<close>

theorem sprintf_strtoul_roundtrip:
  "\<exists>d u x p. vsprintf mem ''%d'' [VInt w] = Some (d, []) \<and> simple_strtol d 10 = (w, []) \<and>
     vsprintf mem ''%u'' [VInt w] = Some (u, []) \<and> simple_strtoul u 10 = (w, []) \<and>
     vsprintf mem ''%x'' [VInt w] = Some (x, []) \<and> simple_strtoul x 16 = (w, []) \<and>
     vsprintf mem ''%#x'' [VInt w] = Some (p, []) \<and> simple_strtoul p 0 = (w, [])"
  using strtoul_radix [of 10 False "unat w"] strtoul_radix [of 16 True "unat w"] strtoul_0x [of True "unat w" 0]
    strtol_signed [of w False]
  by (simp add: vsprintf_d vsprintf_u vsprintf_x)

end
