(* ===== verification/MemString.thy ===== *)
theory MemString
  imports Prelude
begin

text \<open>
  lib/string.c: the memory block functions over the byte-addressed 32-bit memory, where source and
  destination may overlap, and the string functions. A function that only reads its strings
  takes them as lists of the characters before the NUL and returns a pointer into the first
  one as an index; a function that stores characters works on the memory. (For some of these
  functions arch/powerpc provides assembly versions with the same contract.)
\<close>

type_synonym mem = "u32 \<Rightarrow> u8"

section \<open>Memory blocks\<close>

text \<open>\<open>while (count--) *d++ = *s++\<close> and its descending counterpart, where the pointers start behind
  the blocks.\<close>

fun copy_up :: "nat \<Rightarrow> mem \<Rightarrow> u32 \<Rightarrow> u32 \<Rightarrow> mem" where
  "copy_up 0 m d s = m"
| "copy_up (Suc n) m d s = copy_up n (m(d := m s)) (d + 1) (s + 1)"

fun copy_down :: "nat \<Rightarrow> mem \<Rightarrow> u32 \<Rightarrow> u32 \<Rightarrow> mem" where
  "copy_down 0 m d s = m"
| "copy_down (Suc n) m d s = copy_down n (m(d - 1 := m (s - 1))) (d - 1) (s - 1)"

definition bcopy :: "mem \<Rightarrow> u32 \<Rightarrow> u32 \<Rightarrow> u32 \<Rightarrow> mem" where
  "bcopy m src dest count = copy_up (unat count) m dest src"

definition load_word :: "mem \<Rightarrow> u32 \<Rightarrow> u32" where
  "load_word m a = load_be32 (m a) (m (a + 1)) (m (a + 2)) (m (a + 3))"

definition store_word :: "mem \<Rightarrow> u32 \<Rightarrow> u32 \<Rightarrow> mem" where
  "store_word m a w = m(a := store_be32 w ! 0, a + 1 := store_be32 w ! 1, a + 2 := store_be32 w ! 2, a + 3 := store_be32 w ! 3)"

text \<open>The word loop of \<open>memcpy\<close>: the number of words left, then memory and both pointers behind
  the last word.\<close>

fun copy_words :: "nat \<Rightarrow> mem \<Rightarrow> u32 \<Rightarrow> u32 \<Rightarrow> mem \<times> u32 \<times> u32" where
  "copy_words 0 m dl sl = (m, dl, sl)"
| "copy_words (Suc n) m dl sl = copy_words n (store_word m dl (load_word m sl)) (dl + 4) (sl + 4)"

definition memcpy :: "mem \<Rightarrow> u32 \<Rightarrow> u32 \<Rightarrow> u32 \<Rightarrow> mem" where
  "memcpy m dest src count =
     (if (dest OR src) AND 3 = 0
      then let (m, dl, sl) = copy_words (unat count div 4) m dest src
           in copy_up (unat count mod 4) m dl sl
      else copy_up (unat count) m dest src)"

definition memmove :: "mem \<Rightarrow> u32 \<Rightarrow> u32 \<Rightarrow> u32 \<Rightarrow> mem" where
  "memmove m dest src count =
     (if dest \<le> src then copy_up (unat count) m dest src
      else copy_down (unat count) m (dest + count) (src + count))"

fun fill_up :: "nat \<Rightarrow> mem \<Rightarrow> u32 \<Rightarrow> u8 \<Rightarrow> mem" where
  "fill_up 0 m s c = m"
| "fill_up (Suc n) m s c = fill_up n (m(s := c)) (s + 1) c"

fun fill_words :: "nat \<Rightarrow> mem \<Rightarrow> u32 \<Rightarrow> u32 \<Rightarrow> mem \<times> u32" where
  "fill_words 0 m sl cl = (m, sl)"
| "fill_words (Suc n) m sl cl = fill_words n (store_word m sl cl) (sl + 4) cl"

definition memset :: "mem \<Rightarrow> u32 \<Rightarrow> u32 \<Rightarrow> u32 \<Rightarrow> mem" where
  "memset m s c count =
     (let cl = ((\<lambda>cl. push_bit 8 cl OR (c AND 0xff)) ^^ 4) 0 in
      if s AND 3 = 0
      then let (m, s8) = fill_words (unat count div 4) m s cl
           in fill_up (unat count mod 4) m s8 (ucast c)
      else fill_up (unat count) m s (ucast c))"

fun memcmp :: "mem \<Rightarrow> u32 \<Rightarrow> u32 \<Rightarrow> nat \<Rightarrow> int" where
  "memcmp m su1 su2 0 = 0"
| "memcmp m su1 su2 (Suc count) =
     (let res = uint (m su1) - uint (m su2)
      in if res \<noteq> 0 then res else memcmp m (su1 + 1) (su2 + 1) count)"

fun memscan :: "mem \<Rightarrow> u32 \<Rightarrow> int \<Rightarrow> nat \<Rightarrow> u32" where
  "memscan m p c 0 = p"
| "memscan m p c (Suc sz) = (if uint (m p) = c then p else memscan m (p + 1) c sz)"

fun memchr :: "mem \<Rightarrow> u32 \<Rightarrow> u32 \<Rightarrow> nat \<Rightarrow> u32 option" where
  "memchr m p c 0 = None"
| "memchr m p c (Suc n) = (if ucast c = m p then Some p else memchr m (p + 1) c n)"

section \<open>Copying strings\<close>

text \<open>The loops run until they meet a NUL; \<open>None\<close> is a loop that meets none.\<close>

partial_function (option) strcpy_loop :: "mem \<Rightarrow> u32 \<Rightarrow> u32 \<Rightarrow> mem option" where
  "strcpy_loop m dest src =
     (let c = m src; m' = m(dest := c)
      in if c \<noteq> 0 then strcpy_loop m' (dest + 1) (src + 1) else Some m')"

definition strcpy :: "mem \<Rightarrow> u32 \<Rightarrow> u32 \<Rightarrow> mem option" where
  "strcpy m dest src = strcpy_loop m dest src"

fun strncpy_loop :: "nat \<Rightarrow> mem \<Rightarrow> u32 \<Rightarrow> u32 \<Rightarrow> mem" where
  "strncpy_loop 0 m dest src = m"
| "strncpy_loop (Suc count) m dest src =
     (let c = m src; m' = m(dest := c)
      in if c \<noteq> 0 then strncpy_loop count m' (dest + 1) (src + 1) else m')"

definition strncpy :: "mem \<Rightarrow> u32 \<Rightarrow> u32 \<Rightarrow> u32 \<Rightarrow> mem" where
  "strncpy m dest src count = strncpy_loop (unat count) m dest src"

partial_function (option) find_nul :: "mem \<Rightarrow> u32 \<Rightarrow> u32 option" where
  "find_nul m dest = (if m dest \<noteq> 0 then find_nul m (dest + 1) else Some dest)"

definition strcat :: "mem \<Rightarrow> u32 \<Rightarrow> u32 \<Rightarrow> mem option" where
  "strcat m dest src = do {
     dest \<leftarrow> find_nul m dest;
     strcpy_loop m dest src
   }"

fun strncat_loop :: "nat \<Rightarrow> mem \<Rightarrow> u32 \<Rightarrow> u32 \<Rightarrow> mem" where
  "strncat_loop 0 m dest src = m"
| "strncat_loop (Suc count) m dest src =
     (let c = m src; m' = m(dest := c)
      in if c = 0 then m'
         else if count = 0 then m'(dest + 1 := 0)
         else strncat_loop count m' (dest + 1) (src + 1))"

definition strncat :: "mem \<Rightarrow> u32 \<Rightarrow> u32 \<Rightarrow> u32 \<Rightarrow> mem option" where
  "strncat m dest src count =
     (if count \<noteq> 0 then do {
        dest \<leftarrow> find_nul m dest;
        Some (strncat_loop (unat count) m dest src)
      } else Some m)"

section \<open>Reading strings\<close>

text \<open>The difference of two characters, stored in a \<open>signed char\<close>.\<close>

definition char_diff :: "char \<Rightarrow> char \<Rightarrow> int" where
  "char_diff x y = sint (byte_of x - byte_of y)"

function strcmp :: "string \<Rightarrow> string \<Rightarrow> int" where
  "strcmp cs ct =
     (let res = char_diff (peek cs 0) (peek ct 0)
      in if res \<noteq> 0 \<or> cs = [] then res else strcmp (tl cs) (tl ct))"
  by pat_completeness auto
termination
  by (relation "measure (\<lambda>(cs, ct). length cs)") auto

fun strncmp :: "string \<Rightarrow> string \<Rightarrow> nat \<Rightarrow> int" where
  "strncmp cs ct 0 = 0"
| "strncmp cs ct (Suc count) =
     (let res = char_diff (peek cs 0) (peek ct 0)
      in if res \<noteq> 0 \<or> cs = [] then res else strncmp (tl cs) (tl ct) count)"

fun strchr :: "string \<Rightarrow> char \<Rightarrow> nat option" where
  "strchr [] c = (if c = NUL then Some 0 else None)"
| "strchr (x # s) c = (if x = c then Some 0 else map_option Suc (strchr s c))"

fun strrchr_from :: "string \<Rightarrow> char \<Rightarrow> nat \<Rightarrow> nat option" where
  "strrchr_from s c 0 = (if peek s 0 = c then Some 0 else None)"
| "strrchr_from s c (Suc p) = (if peek s (Suc p) = c then Some (Suc p) else strrchr_from s c p)"

definition strrchr :: "string \<Rightarrow> char \<Rightarrow> nat option" where
  "strrchr s c = strrchr_from s c (length s)"

fun in_set :: "char \<Rightarrow> string \<Rightarrow> bool" where
  "in_set p [] = False"
| "in_set p (a # accept) = (if p = a then True else in_set p accept)"

fun strspn_loop :: "string \<Rightarrow> string \<Rightarrow> nat \<Rightarrow> nat" where
  "strspn_loop [] accept count = count"
| "strspn_loop (p # s) accept count = (if \<not> in_set p accept then count else strspn_loop s accept (count + 1))"

definition strspn :: "string \<Rightarrow> string \<Rightarrow> nat" where
  "strspn s accept = strspn_loop s accept 0"

fun strpbrk :: "string \<Rightarrow> string \<Rightarrow> nat option" where
  "strpbrk [] ct = None"
| "strpbrk (c # cs) ct = (if in_set c ct then Some 0 else map_option Suc (strpbrk cs ct))"

text \<open>\<open>strtok(s, ct)\<close> with the global \<open>___strtok\<close>: the token, which the NUL stored behind it ends, and
  the new value of the global.\<close>

definition strtok :: "string option \<Rightarrow> string \<Rightarrow> string option \<Rightarrow> string option \<times> string option" where
  "strtok s ct saved =
     (case (case s of None \<Rightarrow> saved | Some s \<Rightarrow> Some s) of
        None \<Rightarrow> (None, saved)
      | Some sbegin \<Rightarrow>
          let sbegin = drop (strspn sbegin ct) sbegin in
          if sbegin = [] then (None, None)
          else case strpbrk sbegin ct of
            None \<Rightarrow> (Some sbegin, None)
          | Some i \<Rightarrow> (Some (take i sbegin), Some (drop (i + 1) sbegin)))"

definition strsep :: "string option \<Rightarrow> string \<Rightarrow> string option \<times> string option" where
  "strsep s ct =
     (case s of
        None \<Rightarrow> (None, None)
      | Some sbegin \<Rightarrow>
          (case strpbrk sbegin ct of
             None \<Rightarrow> (Some sbegin, None)
           | Some i \<Rightarrow> (Some (take i sbegin), Some (drop (i + 1) sbegin))))"

fun swab_loop :: "string \<Rightarrow> string" where
  "swab_loop (p # q # s) = q # p # swab_loop s"
| "swab_loop s = s"

definition strswab :: "string option \<Rightarrow> string option" where
  "strswab s = (case s of None \<Rightarrow> None | Some s \<Rightarrow> if s = [] then None else Some (swab_loop s))"

text \<open>\<open>memcmp\<close> of the first \<open>l2\<close> characters at \<open>s1\<close> and \<open>s2\<close>, and the search loop of \<open>strstr\<close>.\<close>

fun str_memcmp :: "string \<Rightarrow> string \<Rightarrow> nat \<Rightarrow> int" where
  "str_memcmp s1 s2 0 = 0"
| "str_memcmp s1 s2 (Suc l) =
     (let res = of_char (peek s1 0) - of_char (peek s2 0)
      in if res \<noteq> 0 then res else str_memcmp (tl s1) (tl s2) l)"

function strstr_loop :: "string \<Rightarrow> string \<Rightarrow> int \<Rightarrow> int \<Rightarrow> nat option" where
  "strstr_loop s1 s2 l1 l2 =
     (if l1 \<ge> l2
      then if str_memcmp s1 s2 (nat l2) = 0 then Some 0
           else map_option Suc (strstr_loop (tl s1) s2 (l1 - 1) l2)
      else None)"
  by pat_completeness auto
termination
  by (relation "measure (\<lambda>(s1, s2, l1, l2). nat (l1 - l2 + 1))") auto

definition strstr :: "string \<Rightarrow> string \<Rightarrow> nat option" where
  "strstr s1 s2 =
     (if length s2 = 0 then Some 0
      else strstr_loop s1 s2 (int (length s1)) (int (length s2)))"

declare strcmp.simps [simp del] strstr_loop.simps [simp del]

section \<open>Copying blocks\<close>

text \<open>A block of \<open>n\<close> bytes moved from \<open>s\<close> to \<open>d\<close>.\<close>

definition block_copy :: "nat \<Rightarrow> mem \<Rightarrow> u32 \<Rightarrow> u32 \<Rightarrow> mem" where
  "block_copy n m d s = (\<lambda>a. if d \<le> a \<and> unat a < unat d + n then m (s + (a - d)) else m a)"

lemma unat_offset:
  assumes "d \<le> a" "unat a < unat d + n" "unat s + n \<le> 2 ^ 32"
  shows "unat ((s :: u32) + (a - d)) = unat s + (unat a - unat d)"
proof -
  have "unat (a - d) = unat a - unat d" using assms(1) by (rule unat_sub_le)
  moreover have "unat s + (unat a - unat d) < 2 ^ 32" using assms by (simp add: word_le_nat_alt)
  ultimately show ?thesis by (subst unat_add_nowrap) simp_all
qed

lemma unat_Suc_wrap:
  assumes "unat (d :: u32) + Suc n \<le> 2 ^ 32"
  shows "n > 0 \<Longrightarrow> unat (d + 1) = unat d + 1"
  using assms by (subst unat_add_nowrap) simp_all

lemma block_copy_0 [simp]: "block_copy 0 m d s = m"
  by (auto simp: block_copy_def fun_eq_iff word_le_nat_alt)

lemma copy_up_block:
  assumes "unat d + n \<le> 2 ^ 32" "unat s + n \<le> 2 ^ 32" "d \<le> s \<or> unat s + n \<le> unat d"
  shows "copy_up n m d s = block_copy n m d s"
  using assms
proof (induction n arbitrary: m d s)
  case 0
  then show ?case by simp
next
  case (Suc n)
  show ?case
  proof (cases "n = 0")
    case True
    have "d \<le> a \<and> unat a < unat d + 1 \<longleftrightarrow> a = d" for a by (auto simp: word_le_nat_alt word_unat_eq_iff)
    then show ?thesis using True by (auto simp: block_copy_def fun_eq_iff)
  next
    case False
    then have u: "unat (d + 1) = unat d + 1" "unat (s + 1) = unat s + 1"
      using Suc.prems unat_Suc_wrap [of d n] unat_Suc_wrap [of s n] by simp_all
    have "d + 1 \<le> s + 1 \<or> unat (s + 1) + n \<le> unat (d + 1)"
      using Suc.prems(3) by (auto simp: u word_le_nat_alt)
    then have ih: "copy_up n (m(d := m s)) (d + 1) (s + 1) = block_copy n (m(d := m s)) (d + 1) (s + 1)"
      using Suc.prems by (intro Suc.IH) (simp_all add: u)
    have "block_copy n (m(d := m s)) (d + 1) (s + 1) a = block_copy (Suc n) m d s a" for a
    proof -
      consider "a = d" | "d < a" "unat a < unat d + Suc n" | "a < d \<or> \<not> unat a < unat d + Suc n" by fastforce
      then show ?thesis
      proof cases
        case 2
        then have "unat (s + (a - d)) = unat s + (unat a - unat d)"
          using Suc.prems(2) by (intro unat_offset [where n = "Suc n"]) simp_all
        then have "unat (s + (a - d)) \<noteq> unat d"
          using 2 Suc.prems(3) unfolding word_le_nat_alt word_less_nat_alt by linarith
        then have "s + (a - d) \<noteq> d" by metis
        moreover have "s + 1 + (a - (d + 1)) = s + (a - d)" by simp
        ultimately show ?thesis using 2
          by (simp add: block_copy_def u word_le_nat_alt word_less_nat_alt del: diff_add_eq_diff_diff_swap)
      qed (auto simp: block_copy_def u word_le_nat_alt word_less_nat_alt)
    qed
    then show ?thesis using ih by (simp add: fun_eq_iff)
  qed
qed

lemma copy_down_block:
  assumes "unat d + n \<le> 2 ^ 32" "unat s + n \<le> 2 ^ 32" "s \<le> d"
  shows "copy_down n m (d + of_nat n) (s + of_nat n) = block_copy n m d s"
  using assms(1,2)
proof (induction n arbitrary: m)
  case 0
  then show ?case by simp
next
  case (Suc n)
  define e where "e = d + of_nat n"
  have ue: "unat e = unat d + n" "unat (s + of_nat n) = unat s + n"
    using Suc.prems by (simp_all add: e_def unat_add_nowrap unat_of_nat)
  have "copy_down n (m(e := m (s + of_nat n))) (d + of_nat n) (s + of_nat n) = block_copy n (m(e := m (s + of_nat n))) d s"
    using Suc.prems by (intro Suc.IH) simp_all
  moreover have "block_copy n (m(e := m (s + of_nat n))) d s a = block_copy (Suc n) m d s a" for a
  proof -
    consider "a = e" | "d \<le> a" "unat a < unat d + n" | "a < d \<or> \<not> unat a < unat d + Suc n"
      using ue by (metis less_Suc_eq not_less word_unat_eq_iff add_Suc_right)
    then show ?thesis
    proof cases
      case 2
      have "unat (s + (a - d)) = unat s + (unat a - unat d)"
        by (rule unat_offset [OF 2]) (use Suc.prems(2) in linarith)
      then have "s + (a - d) \<noteq> e" using 2 assms(3) ue by (auto simp: word_le_nat_alt)
      then show ?thesis using 2 by (simp add: block_copy_def)
    next
      case 1
      have "s + (e - d) = s + of_nat n" by (simp add: e_def)
      then show ?thesis using 1 ue by (simp add: block_copy_def word_le_nat_alt)
    qed (auto simp: block_copy_def ue word_le_nat_alt word_less_nat_alt)
  qed
  ultimately show ?case by (simp add: fun_eq_iff e_def add.assoc [symmetric])
qed

lemma copy_up_append: "copy_up (n + k) m d s = copy_up k (copy_up n m d s) (d + of_nat n) (s + of_nat n)"
  by (induction n arbitrary: m d s) (simp_all add: add.assoc)

lemma store_be32_load_be32: "store_be32 (load_be32 b0 b1 b2 b3) = [b0, b1, b2, b3]"
proof -
  have "ucast (drop_bit 24 (load_be32 b0 b1 b2 b3)) = b0" "ucast (drop_bit 16 (load_be32 b0 b1 b2 b3)) = b1"
    "ucast (drop_bit 8 (load_be32 b0 b1 b2 b3)) = b2" "ucast (load_be32 b0 b1 b2 b3) = b3"
    by (rule bit_word_eqI; simp add: load_be32_def bit_simps bit_u8_ge)+
  then show ?thesis by (simp add: store_be32_def)
qed

text \<open>Aligned addresses differ by multiples of four.\<close>

lemma aligned_iff: "((d :: u32) OR s) AND 3 = 0 \<longleftrightarrow> unat d mod 4 = 0 \<and> unat s mod 4 = 0"
proof -
  have "x AND 3 = 0 \<longleftrightarrow> unat x mod 4 = 0" for x :: u32
    using and_mask_mod [of x 2] by (simp add: mask_eq_exp_minus_1 unat_eq_0 [symmetric])
  then show ?thesis by (simp add: bit.conj_disj_distrib2 or_eq_0_iff)
qed

lemma unat_add_mod4: "unat ((s :: u32) + k) mod 4 = (unat s + unat k) mod 4"
  by (simp add: unat_word_ariths mod_mod_cancel)

lemma aligned_neq:
  assumes "(d OR s) AND 3 = (0 :: u32)" "unat k mod 4 \<noteq> 0"
  shows "s + k \<noteq> d"
proof
  assume "s + k = d"
  then have "(unat s + unat k) mod 4 = unat d mod 4" by (metis unat_add_mod4)
  then have "4 dvd unat s + unat k" "4 dvd unat s" using assms(1) by (simp_all add: aligned_iff mod_eq_0_iff_dvd)
  then show False using assms(2) by (simp add: dvd_add_right_iff mod_eq_0_iff_dvd)
qed

lemma aligned_step: "((d :: u32) OR s) AND 3 = 0 \<Longrightarrow> ((d + 4) OR (s + 4)) AND 3 = 0"
  by (simp add: aligned_iff unat_add_mod4)

lemma copy_word_apart:
  assumes n: "s + 1 \<noteq> d" "s + 2 \<noteq> d" "s + 3 \<noteq> (d :: u32)"
  shows "store_word m d (load_word m s) = copy_up 4 m d s"
proof -
  have "s + 2 \<noteq> d + 1" "s + 3 \<noteq> d + 1" "s + 3 \<noteq> d + 2"
    using n add_right_cancel [of "s + 1" 1 d] add_right_cancel [of "s + 2" 1 d] add_right_cancel [of "s + 1" 2 d]
    by (simp_all add: add.assoc)
  moreover have "copy_up 4 m d s = copy_up (Suc (Suc (Suc (Suc 0)))) m d s"
    by (rule arg_cong [where f = "\<lambda>n. copy_up n m d s"]) simp
  ultimately show ?thesis using n
    by (simp add: store_word_def load_word_def store_be32_load_be32 add.commute)
qed

lemma copy_word:
  assumes "(d OR s) AND 3 = 0"
  shows "store_word m d (load_word m s) = copy_up 4 m d s"
  by (rule copy_word_apart; rule aligned_neq [OF assms]) simp_all

lemma copy_words_eq:
  assumes "(d OR s) AND 3 = 0"
  shows "copy_words n m d s = (copy_up (4 * n) m d s, d + of_nat (4 * n), s + of_nat (4 * n))"
  using assms
proof (induction n arbitrary: m d s)
  case (Suc n)
  have "4 * Suc n = 4 + 4 * n" by simp
  moreover have "copy_words (Suc n) m d s = copy_words n (copy_up 4 m d s) (d + 4) (s + 4)"
    using copy_word [OF Suc.prems] by simp
  ultimately show ?case
    using Suc.IH [OF aligned_step [OF Suc.prems], of "copy_up 4 m d s"] copy_up_append [of 4 "4 * n" m d s]
    by (simp add: add.assoc)
qed simp

lemma memcpy_eq: "memcpy m dest src count = copy_up (unat count) m dest src"
  using copy_up_append [of "4 * (unat count div 4)" "unat count mod 4" m dest src]
  by (auto simp: memcpy_def copy_words_eq)

lemma fill_up_append: "fill_up (n + k) m s c = fill_up k (fill_up n m s c) (s + of_nat n) c"
  by (induction n arbitrary: m s) (simp_all add: add.assoc)

lemma memset_word: "store_be32 (((\<lambda>cl. push_bit 8 cl OR (c AND 0xff)) ^^ 4) 0) = replicate 4 (ucast c)"
proof -
  have c: "c AND 0xff = ucast (ucast c :: u8)"
    by (rule bit_word_eqI) (auto simp: bit_simps word_bits)
  define f where "f = (\<lambda>cl. push_bit 8 cl OR (c AND 0xff))"
  have "(f ^^ 4) 0 = f (f (f (f 0)))" by (simp add: eval_nat_numeral)
  also have "\<dots> = load_be32 (ucast c) (ucast c) (ucast c) (ucast c)"
  proof (rule bit_word_eqI)
    fix n assume "n < LENGTH(32)"
    then show "bit (f (f (f (f 0)))) n = bit (load_be32 (ucast c) (ucast c) (ucast c) (ucast c)) n"
      unfolding f_def c by (cases rule: lane_cases) (simp_all add: load_be32_def bit_simps bit_u8_ge)
  qed
  finally have "(f ^^ 4) 0 = load_be32 (ucast c) (ucast c) (ucast c) (ucast c)" .
  then show ?thesis unfolding f_def by (simp add: store_be32_load_be32 eval_nat_numeral)
qed

lemma fill_words_eq:
  assumes "store_be32 cl = replicate 4 c"
  shows "fill_words n m s cl = (fill_up (4 * n) m s c, s + of_nat (4 * n))"
proof (induction n arbitrary: m s)
  case (Suc n)
  have "store_word m s cl = fill_up (Suc (Suc (Suc (Suc 0)))) m s c"
    using assms by (simp add: store_word_def add.commute)
  also have "\<dots> = fill_up 4 m s c" by (rule arg_cong [where f = "\<lambda>n. fill_up n m s c"]) simp
  finally have "store_word m s cl = fill_up 4 m s c" .
  moreover have "4 * Suc n = 4 + 4 * n" by simp
  ultimately show ?case using Suc.IH fill_up_append [of 4 "4 * n" m s c] by (simp add: add.assoc)
qed simp

lemma memset_eq: "memset m s c count = fill_up (unat count) m s (ucast c)"
  using fill_up_append [of "4 * (unat count div 4)" "unat count mod 4" m s "ucast c"]
  by (auto simp: memset_def Let_def fill_words_eq [OF memset_word])

section \<open>Comparing and searching strings\<close>

lemma char_diff_0 [simp]: "char_diff x y = 0 \<longleftrightarrow> x = y"
  proof -
  have "sint w = 0 \<longleftrightarrow> w = 0" for w :: u8 by (metis of_int_0 of_int_sint scast_id signed_0)
  then show ?thesis by (simp add: char_diff_def)
qed

lemma strncmp_eq_0:
  assumes "NUL \<notin> set cs" "NUL \<notin> set ct"
  shows "strncmp cs ct n = 0 \<longleftrightarrow> take n cs = take n ct"
  using assms
proof (induction cs ct n rule: strncmp.induct)
  case (2 cs ct n)
  show ?case
  proof (cases cs)
    case Nil
    then show ?thesis using 2 by (cases ct) auto
  next
    case (Cons c cs')
    then show ?thesis using 2 by (cases ct) auto
  qed
qed simp

lemma strcmp_eq_0:
  assumes "NUL \<notin> set cs" "NUL \<notin> set ct"
  shows "strcmp cs ct = 0 \<longleftrightarrow> cs = ct"
  using assms
proof (induction cs ct rule: strcmp.induct)
  case (1 cs ct)
  show ?case
  proof (cases cs)
    case Nil
    then show ?thesis using 1 by (cases ct) (auto simp: strcmp.simps [of "[]"])
  next
    case (Cons c cs')
    then show ?thesis using 1 by (cases ct) (auto simp add: strcmp.simps [of "c # cs'"] Let_def)
  qed
qed

text \<open>The sign of the result is wrong for bytes more than 127 apart: the letter a compares greater
  than the byte 0xe5, although characters are compared as unsigned values everywhere else.\<close>

lemma strcmp_wrong_sign: "strcmp ''a'' [CHR 0xe5] > 0 \<and> (of_char CHR ''a'' :: nat) < of_char CHR 0xe5"
  by code_simp

lemma str_memcmp_0:
  "length s2 \<le> length s1 \<Longrightarrow> str_memcmp s1 s2 (length s2) = 0 \<longleftrightarrow> take (length s2) s1 = s2"
proof (induction s2 arbitrary: s1)
  case (Cons c s2)
  then obtain d s1' where s1: "s1 = d # s1'" by (cases s1) auto
  have "(of_char d - of_char c = (0 :: int)) \<longleftrightarrow> d = c" by simp
  then show ?case using Cons s1 by (auto simp: Let_def)
qed simp

text \<open>\<open>strstr\<close> returns the first position at which the second string occurs in the first.\<close>

definition occurs_at :: "string \<Rightarrow> string \<Rightarrow> nat \<Rightarrow> bool" where
  "occurs_at s1 s2 i \<longleftrightarrow> i + length s2 \<le> length s1 \<and> take (length s2) (drop i s1) = s2"

lemma strstr_loop_spec:
  "s2 \<noteq> [] \<Longrightarrow> (case strstr_loop s1 s2 (int (length s1)) (int (length s2)) of
     None \<Rightarrow> (\<forall>i. \<not> occurs_at s1 s2 i) | Some i \<Rightarrow> occurs_at s1 s2 i \<and> (\<forall>j<i. \<not> occurs_at s1 s2 j))"
proof (induction s1)
  case Nil
  then show ?case by (subst strstr_loop.simps) (auto simp: occurs_at_def)
next
  case (Cons c s1)
  have tail: "occurs_at (c # s1) s2 (Suc i) \<longleftrightarrow> occurs_at s1 s2 i" for i by (simp add: occurs_at_def)
  show ?case
  proof (cases "length s2 \<le> length (c # s1)")
    case True
    show ?thesis
    proof (cases "occurs_at (c # s1) s2 0")
      case occ: True
      then have "str_memcmp (c # s1) s2 (length s2) = 0" using str_memcmp_0 [OF True] by (simp add: occurs_at_def)
      then show ?thesis using occ True by (subst strstr_loop.simps) simp
    next
      case no: False
      then have "str_memcmp (c # s1) s2 (length s2) \<noteq> 0" using str_memcmp_0 [OF True] True by (simp add: occurs_at_def)
      then have "strstr_loop (c # s1) s2 (int (length (c # s1))) (int (length s2)) =
          map_option Suc (strstr_loop s1 s2 (int (length s1)) (int (length s2)))"
        using True by (subst strstr_loop.simps) simp
      then show ?thesis using Cons no
        by (auto simp: tail All_less_Suc2 split: option.splits) (metis not0_implies_Suc tail)
    qed
  next
    case False
    then show ?thesis by (subst strstr_loop.simps) (auto simp: occurs_at_def)
  qed
qed

lemma strstr_first:
  "case strstr s1 s2 of None \<Rightarrow> (\<forall>i. \<not> occurs_at s1 s2 i)
   | Some i \<Rightarrow> occurs_at s1 s2 i \<and> (\<forall>j<i. \<not> occurs_at s1 s2 j)"
  using strstr_loop_spec [of s2 s1] by (cases "s2 = []") (auto simp: strstr_def occurs_at_def)

text \<open>\<open>strtok\<close> skips the leading delimiters, returns the text up to the next one and remembers the rest.\<close>

lemma in_set_iff [simp]: "in_set c ct \<longleftrightarrow> c \<in> set ct"
  by (induction ct) auto

lemma strspn_eq: "strspn s ct = length (takeWhile (\<lambda>c. c \<in> set ct) s)"
proof -
  have "strspn_loop s ct n = n + length (takeWhile (\<lambda>c. c \<in> set ct) s)" for n
    by (induction s arbitrary: n) auto
  then show ?thesis by (simp add: strspn_def)
qed

lemma strpbrk_eq:
  "strpbrk s ct = (if \<exists>c\<in>set s. c \<in> set ct then Some (length (takeWhile (\<lambda>c. c \<notin> set ct) s)) else None)"
  by (induction s) auto

lemma strtok_token:
  defines "t s ct \<equiv> dropWhile (\<lambda>c. c \<in> set ct) s"
  shows "strtok (Some s) ct saved =
    (if t s ct = [] then (None, None)
     else (Some (takeWhile (\<lambda>c. c \<notin> set ct) (t s ct)),
       (case dropWhile (\<lambda>c. c \<notin> set ct) (t s ct) of [] \<Rightarrow> None | d # rest \<Rightarrow> Some rest)))"
proof -
  have d: "drop (strspn s ct) s = t s ct" by (simp add: strspn_eq t_def dropWhile_eq_drop)
  have "(case dropWhile (\<lambda>c. c \<notin> set ct) u of [] \<Rightarrow> None | d # rest \<Rightarrow> Some rest) =
      (if \<exists>c\<in>set u. c \<in> set ct then Some (drop (Suc (length (takeWhile (\<lambda>c. c \<notin> set ct) u))) u) else None)" for u
    by (induction u) auto
  then show ?thesis
    by (auto simp: strtok_def d strpbrk_eq takeWhile_eq_take [symmetric] Let_def takeWhile_eq_all_conv [THEN iffD2])
qed

section \<open>Properties\<close>

text \<open>C33: \<open>memmove\<close> copies a block correctly however source and destination overlap: afterwards every
  byte of the destination holds what the corresponding source byte held before, and nothing
  else has changed, for all blocks that do not run over the end of the address space.\<close>

theorem memmove_correct:
  assumes "unat dest + unat count \<le> 2 ^ 32" "unat src + unat count \<le> 2 ^ 32"
  shows "memmove m dest src count a =
    (if dest \<le> a \<and> unat a < unat dest + unat count then m (src + (a - dest)) else m a)"
proof (cases "dest \<le> src")
  case True
  then show ?thesis using copy_up_block [OF assms, of m] by (simp add: memmove_def block_copy_def)
next
  case False
  then show ?thesis using copy_down_block [OF assms, of m] by (simp add: memmove_def block_copy_def)
qed

theorem memmove_correct_witness:
  "memmove (\<lambda>a. ucast a) 2 0 4 4 = 2 \<and> memmove (\<lambda>a. ucast a) 0 2 4 1 = 3 \<and> memmove (\<lambda>a. ucast a) 2 0 4 6 = 6"
  using memmove_correct [of 2 4 0 "\<lambda>a. ucast a" 4] memmove_correct [of 0 4 2 "\<lambda>a. ucast a" 1]
    memmove_correct [of 2 4 0 "\<lambda>a. ucast a" 6]
  by (simp add: word_le_nat_alt)

text \<open>The word-at-a-time loops of \<open>memcpy\<close> and \<open>memset\<close> are equivalent to the byte loops, at every
  alignment, for every count and, for \<open>memcpy\<close>, also when the blocks overlap.\<close>

lemma memcpy_memset_bytewise:
  "memcpy m dest src count = copy_up (unat count) m dest src \<and>
   memset m dest c count = fill_up (unat count) m dest (ucast c)"
  by (simp add: memcpy_eq memset_eq)

end
