(* ===== verification/BootA.thy ===== *)
theory BootA
  imports Strtoul
begin

text \<open>
  board/ACube/common/cmd_boota.c and sys_dep.c: the first-level bootloader of the board. The command
  \<open>boota\<close> scans the devices named by the variables boot1, boot2 and boot3 in order, looks for a
  second-level bootloader (a chain of BOOT blocks on a hard disk, the boot image of a CD, or a
  file from the network), checks that it is an ELF image and starts it. Sectors and images
  are lists of big-endian longwords. The drivers behind \<open>block_read\<close> and \<open>get_dev\<close>, the network
  transfer, the partition lookup and the second-level bootloader itself are parameters;
  memory allocation is taken to succeed, and the diagnostics printed while blocks are examined are
  left out. \<open>None\<close> is a step without a defined result.
\<close>

section \<open>ELF images\<close>

definition is_elf :: "u32 list \<Rightarrow> bool option" where
  "is_elf img = do { w \<leftarrow> rd img 0; Some (w = 0x7f454c46) }"

text \<open>\<open>valid_elf_image\<close>: the magic number and the type, the halfword at offset 16.\<close>

definition valid_elf_image :: "u32 list \<Rightarrow> bool option" where
  "valid_elf_image img = do {
     e \<leftarrow> is_elf img;
     if \<not> e then Some False
     else do { w \<leftarrow> rd img 4; Some (drop_bit 16 w = 2) }
   }"

section \<open>Devices\<close>

record block_dev =
  bd_type :: u8
  bd_blksz :: u32
  bd_read :: "u32 \<Rightarrow> u32 \<Rightarrow> u32 list option"

abbreviation (input) "DEV_TYPE_HARDDISK \<equiv> (0x00 :: u8)"
abbreviation (input) "DEV_TYPE_CDROM \<equiv> (0x05 :: u8)"
abbreviation (input) "DEV_TYPE_NETBOOT \<equiv> (0x81 :: u8)"

datatype bustype = BUSTYPE_USB | BUSTYPE_NET | BUSTYPE_SIL_PARALLEL | BUSTYPE_SIL_SERIAL
  | BUSTYPE_SIL_4_SERIAL | BUSTYPE_SATA2_460

record dev_access_entry =
  dae_identifier :: string
  dae_request_type :: u8
  dae_max_unitnum :: nat
  dae_bustype :: bustype

definition dae :: "string \<Rightarrow> u8 \<Rightarrow> nat \<Rightarrow> bustype \<Rightarrow> dev_access_entry" where
  "dae i t n b = \<lparr>dae_identifier = i, dae_request_type = t, dae_max_unitnum = n, dae_bustype = b\<rparr>"

definition devices_access_table :: "dev_access_entry list" where
  "devices_access_table =
     [dae ''net'' DEV_TYPE_NETBOOT 1 BUSTYPE_NET,
      dae ''ucdrom'' DEV_TYPE_CDROM 5 BUSTYPE_USB,
      dae ''usb'' DEV_TYPE_HARDDISK 5 BUSTYPE_USB,
      dae ''ssii'' DEV_TYPE_HARDDISK 2 BUSTYPE_SIL_SERIAL,
      dae ''ssiicdrom'' DEV_TYPE_CDROM 2 BUSTYPE_SIL_SERIAL,
      dae ''s4sii'' DEV_TYPE_HARDDISK 4 BUSTYPE_SIL_4_SERIAL,
      dae ''s4siicdrom'' DEV_TYPE_CDROM 4 BUSTYPE_SIL_4_SERIAL,
      dae ''psii'' DEV_TYPE_HARDDISK 4 BUSTYPE_SIL_PARALLEL,
      dae ''psiicdrom'' DEV_TYPE_CDROM 4 BUSTYPE_SIL_PARALLEL,
      dae ''sata2-460'' DEV_TYPE_HARDDISK 1 BUSTYPE_SATA2_460]"

fun find_dae_from :: "dev_access_entry list \<Rightarrow> string \<Rightarrow> dev_access_entry option" where
  "find_dae_from [] s = None"
| "find_dae_from (e # es) s = (if s = dae_identifier e then Some e else find_dae_from es s)"

definition find_dae :: "string \<Rightarrow> dev_access_entry option" where
  "find_dae s = find_dae_from devices_access_table s"

definition is_good_bootsource :: "string \<Rightarrow> bool" where
  "is_good_bootsource str \<longleftrightarrow> find_dae str \<noteq> None"

section \<open>Scanning for devices\<close>

text \<open>A scan handle is the bus it was found on and a copy of the device.\<close>

record scan_handle =
  ush_bustype :: bustype
  ush_device :: block_dev

definition net_handle :: scan_handle where
  "net_handle = \<lparr>ush_bustype = BUSTYPE_NET,
     ush_device = \<lparr>bd_type = DEV_TYPE_NETBOOT, bd_blksz = 1500, bd_read = (\<lambda>_ _. None)\<rparr>\<rparr>"

text \<open>The units of one boot source; \<open>get_dev\<close> stands for the drivers' lookup functions.\<close>

definition scan_unit :: "(bustype \<Rightarrow> nat \<Rightarrow> block_dev option) \<Rightarrow> dev_access_entry \<Rightarrow> nat \<Rightarrow> scan_handle list" where
  "scan_unit get_dev e unit =
     (if dae_bustype e = BUSTYPE_NET then [net_handle]
      else case get_dev (dae_bustype e) unit of
        None \<Rightarrow> []
      | Some newdev \<Rightarrow>
          if bd_blksz newdev \<noteq> 0 \<and> bd_type newdev = dae_request_type e
          then [\<lparr>ush_bustype = dae_bustype e, ush_device = newdev\<rparr>] else [])"

text \<open>\<open>start_unit_scan\<close> builds the device list from the boot sources.\<close>

fun start_unit_scan :: "(bustype \<Rightarrow> nat \<Rightarrow> block_dev option) \<Rightarrow> string list \<Rightarrow> scan_handle list" where
  "start_unit_scan get_dev [] = []"
| "start_unit_scan get_dev (opt # opt_list) =
     (case find_dae opt of
        None \<Rightarrow> []
      | Some e \<Rightarrow> concat (map (scan_unit get_dev e) [0..<dae_max_unitnum e])) @ start_unit_scan get_dev opt_list"

text \<open>\<open>loadsector(sectn, sect_size, 1, buf)\<close> on the current device: success and the new contents of
  the I/O buffer.\<close>

definition loadsector :: "block_dev \<Rightarrow> u32 \<Rightarrow> u32 \<Rightarrow> u32 list \<Rightarrow> bool \<times> u32 list" where
  "loadsector dev sectn sect_size buf =
     (if sect_size \<noteq> 0 \<and> bd_blksz dev \<noteq> sect_size then (False, buf)
      else case bd_read dev sectn 1 of
        None \<Rightarrow> (False, buf)
      | Some data \<Rightarrow> (True, data @ drop (length data) buf))"

section \<open>Boot blocks\<close>

text \<open>The fields of \<open>struct BootstrapCodeBlock\<close> as indices of longwords.\<close>

abbreviation (input) "bcb_ID \<equiv> (0 :: nat)"
abbreviation (input) "bcb_SummedLongs \<equiv> (1 :: nat)"
abbreviation (input) "bcb_Next \<equiv> (4 :: nat)"
abbreviation (input) "IDNAME_BOOTSTRAPCODE \<equiv> (0x424f4f54 :: u32)"
abbreviation (input) "UNUSED_BLOCK_ADDRESS \<equiv> (0xffffffff :: u32)"
abbreviation (input) "HEADER_INFO_SIZE \<equiv> (20 :: u32)"
abbreviation (input) "SBL_HIGHEST \<equiv> (256 :: nat)"

fun checksum_loop :: "u32 list \<Rightarrow> nat \<Rightarrow> u32 \<Rightarrow> u32 option" where
  "checksum_loop bl 0 chsum = Some chsum"
| "checksum_loop [] (Suc n) chsum = None"
| "checksum_loop (l # bl) (Suc n) chsum = checksum_loop bl n (chsum + l)"

text \<open>\<open>good_checksum(bl, len)\<close>; the length is an \<open>UWORD\<close>.\<close>

definition good_checksum :: "u32 list \<Rightarrow> u16 \<Rightarrow> bool option" where
  "good_checksum bl len = do { s \<leftarrow> checksum_loop bl (unat len) 0; Some (s = 0) }"

definition is_good_bootsector :: "u32 list \<Rightarrow> u32 \<Rightarrow> bool option" where
  "is_good_bootsector bcb blocksize = do {
     i \<leftarrow> rd bcb bcb_ID;
     if i = IDNAME_BOOTSTRAPCODE then do {
       n \<leftarrow> rd bcb bcb_SummedLongs;
       if n \<le> drop_bit 2 blocksize then good_checksum bcb (ucast n) else Some False
     } else Some False
   }"

text \<open>The search for the first good block among the sectors 0 to 256; -1 if there is none.\<close>

function find_start_loop :: "block_dev \<Rightarrow> u32 \<Rightarrow> nat \<Rightarrow> u32 list \<Rightarrow> (u32 \<times> u32 list) option" where
  "find_start_loop dev blocksize currsec buf =
     (let (ok, buf) = loadsector dev (of_nat currsec) blocksize buf in
      if \<not> ok then Some (- 1, buf)
      else do {
        good \<leftarrow> is_good_bootsector buf blocksize;
        if good then Some (of_nat currsec, buf)
        else if currsec + 1 > SBL_HIGHEST then Some (- 1, buf)
        else find_start_loop dev blocksize (currsec + 1) buf
      })"
  by pat_completeness auto
termination
  by (relation "measure (\<lambda>(dev, bs, currsec, buf). 257 - currsec)") auto

declare find_start_loop.simps [simp del]

definition find_secondary_bootloader_start_HD :: "block_dev \<Rightarrow> u32 \<Rightarrow> u32 list \<Rightarrow> (u32 \<times> u32 list) option" where
  "find_secondary_bootloader_start_HD dev blocksize buf =
     (if blocksize = 0 then Some (- 1, buf) else find_start_loop dev blocksize 0 buf)"

text \<open>The loop of \<open>secondary_bootloader_length\<close> over the chain of blocks: where it stops, with the
  number of blocks read, and the I/O buffer with the last one. A chain that loops is followed
  for ever.\<close>

datatype chain_end = Read_fails u32 u32 | Bad_block u32 | Last_block u32

partial_function (option) length_loop ::
  "block_dev \<Rightarrow> u32 \<Rightarrow> u32 \<Rightarrow> u32 \<Rightarrow> u32 list \<Rightarrow> (chain_end \<times> u32 list) option" where
  "length_loop dev blocksize nxt res buf =
     (let (ok, buf) = loadsector dev nxt blocksize buf in
      if \<not> ok then Some (Read_fails nxt res, buf)
      else do {
        good \<leftarrow> is_good_bootsector buf blocksize;
        if \<not> good then Some (Bad_block nxt, buf)
        else do {
          nxt' \<leftarrow> rd buf bcb_Next;
          if nxt' \<noteq> UNUSED_BLOCK_ADDRESS then length_loop dev blocksize nxt' (res + 1) buf
          else Some (Last_block (res + 1), buf)
        }
      })"

abbreviation (input) "LOAD_OK \<equiv> (0 :: u32)"
abbreviation (input) "READ_ERROR \<equiv> (0x10000 :: u32)"
abbreviation (input) "READ_SYNTAX_ERR \<equiv> (0x20000 :: u32)"

text \<open>\<open>secondary_bootloader_length\<close>: the return code, \<open>*dest_len\<close> when it is stored, and the buffer.\<close>

definition secondary_bootloader_length ::
  "block_dev \<Rightarrow> u32 \<Rightarrow> u16 \<Rightarrow> u32 list \<Rightarrow> (u32 \<times> u32 option \<times> u32 list) option" where
  "secondary_bootloader_length dev start_sect blocksize buf = do {
     (stop, buf) \<leftarrow> length_loop dev (ucast blocksize) start_sect 0 buf;
     case stop of
       Read_fails nxt res \<Rightarrow> Some (READ_ERROR OR (nxt AND 0xffff), Some res, buf)
     | Bad_block nxt \<Rightarrow> Some (READ_SYNTAX_ERR OR nxt, None, buf)
     | Last_block res \<Rightarrow> do {
         n \<leftarrow> rd buf bcb_SummedLongs;
         let res = res - 1;
         let res = res * (ucast blocksize - HEADER_INFO_SIZE);
         let res = res + (push_bit 2 n - HEADER_INFO_SIZE);
         Some (LOAD_OK, Some res, buf)
       }
   }"

text \<open>\<open>memcpy\<close> of \<open>n\<close> bytes, a multiple of four, from behind the header of the I/O buffer; reading past
  the buffer has no defined result.\<close>

definition copy_payload :: "u32 list \<Rightarrow> u32 \<Rightarrow> u32 list option" where
  "copy_payload buf bytes =
     (if 5 + unat bytes div 4 \<le> length buf then Some (take (unat bytes div 4) (drop 5 buf)) else None)"

text \<open>\<open>load_secondary_bootloader\<close>: the longwords written to the destination, in order. The result of
  \<open>loadsector\<close> is not checked; a failed read leaves nothing defined to copy.\<close>

partial_function (option) load_loop :: "block_dev \<Rightarrow> u32 \<Rightarrow> u32 \<Rightarrow> u32 list \<Rightarrow> u32 list \<Rightarrow> (u32 list \<times> u32 list) option" where
  "load_loop dev blocksize nextsec current buf =
     (let (ok, buf) = loadsector dev nextsec blocksize buf in
      if \<not> ok then None
      else do {
        n \<leftarrow> rd buf bcb_SummedLongs;
        let chunklen = n - drop_bit 2 HEADER_INFO_SIZE;
        chunk \<leftarrow> copy_payload buf (push_bit 2 chunklen);
        nextsec' \<leftarrow> rd buf bcb_Next;
        if nextsec' \<noteq> UNUSED_BLOCK_ADDRESS then load_loop dev blocksize nextsec' (current @ chunk) buf
        else Some (current @ chunk, buf)
      })"

definition load_secondary_bootloader :: "block_dev \<Rightarrow> u32 \<Rightarrow> u16 \<Rightarrow> u32 list \<Rightarrow> (u32 list \<times> u32 list) option" where
  "load_secondary_bootloader dev start_sect blocksize buf = load_loop dev (ucast blocksize) start_sect [] buf"

section \<open>The command boota\<close>

text \<open>\<open>atoi\<close> of misc_utils.c.\<close>

fun atoi_loop :: "int \<Rightarrow> string \<Rightarrow> int" where
  "atoi_loop res [] = res"
| "atoi_loop res (c # s) =
     (if byte_of c \<ge> byte_of CHR ''0'' \<and> byte_of c \<le> byte_of CHR ''9'' then atoi_loop (res * 10 + (of_char c - of_char CHR ''0'')) s else res)"

definition atoi :: "string \<Rightarrow> int" where
  "atoi s = atoi_loop 0 s"

text \<open>What the command uses of the rest of the system: the environment, the drivers, the boot
  partition of a CD as start and size in blocks, the file loaded by \<open>my_NetLoop\<close>, the code a
  second-level bootloader returns, and whether the frame buffer and both logos exist.\<close>

record platform =
  pf_getenv :: "string \<Rightarrow> string option"
  pf_get_dev :: "bustype \<Rightarrow> nat \<Rightarrow> block_dev option"
  pf_cd_partition :: "block_dev \<Rightarrow> (u32 \<times> u32) option"
  pf_netloop :: "string \<Rightarrow> u32 list option"
  pf_sbl :: "u32 list \<Rightarrow> string list \<Rightarrow> int"
  pf_logo :: bool

text \<open>The global state the command changes: the silent flag of \<open>gd->flags\<close>, the console position, the
  drawn logo, the TFTP option, the messages and the images that were started.\<close>

record boota_state =
  gd_silent :: bool
  con_row :: int
  con_col :: int
  con_isgadget :: int
  con_scrolled :: int
  logo_drawn :: bool
  tftp_quit :: int
  messages :: "string list"
  started :: "(u32 list \<times> string list) list"

definition say :: "string \<Rightarrow> boota_state \<Rightarrow> boota_state" where
  "say m st = st\<lparr>messages := messages st @ [m]\<rparr>"

text \<open>Leaving silent mode: the messages become visible below the logo.\<close>

definition unsilence :: "boota_state \<Rightarrow> boota_state" where
  "unsilence st = (if gd_silent st then st\<lparr>gd_silent := False, con_row := 28 + 4, con_col := 0, con_isgadget := 0\<rparr> else st)"

definition interpret_sbl_failure :: "int \<Rightarrow> boota_state \<Rightarrow> boota_state" where
  "interpret_sbl_failure err st =
     (let stringout =
        (if err = -1 then ''Couldn't initialize second-level bootloader (out of memory ?).''
         else if err = -2 then ''Second level bootloader is too old; please upgrade it.''
         else if err = -3 then ''Second level bootloader requires a newer BIOS version; please upgrade.''
         else if err = -4 then ''No configuration file found in any partitions.''
         else if err = -5 then ''Failed loading kernel (or kickstart) image file(s).''
         else ''Unknown return code from secondary bootloader.'')
      in say stringout (unsilence st))"

definition start_secondary_bootloader :: "platform \<Rightarrow> u32 list \<Rightarrow> string list \<Rightarrow> boota_state \<Rightarrow> boota_state option" where
  "start_secondary_bootloader pf img argarray st = do {
     v \<leftarrow> valid_elf_image img;
     if \<not> v then Some (say ''Error: no real ELF image installed as bootloader!'' st)
     else Some (interpret_sbl_failure (pf_sbl pf img argarray) (st\<lparr>started := started st @ [(img, argarray)]\<rparr>))
   }"

definition check_image :: "u32 list \<Rightarrow> boota_state \<Rightarrow> (u32 list option \<times> boota_state) option" where
  "check_image img st = do {
     v \<leftarrow> valid_elf_image img;
     Some (if v then (Some img, st) else (None, say ''bad ELF image loaded; skipping!'' st))
   }"

definition boot_harddisk :: "block_dev \<Rightarrow> u32 list \<Rightarrow> boota_state \<Rightarrow> (u32 list option \<times> u32 list \<times> boota_state) option" where
  "boot_harddisk dev buf st = do {
     let sector_size = bd_blksz dev;
     (p_loc, buf) \<leftarrow> find_secondary_bootloader_start_HD dev sector_size buf;
     if p_loc = - 1 then Some (None, buf, st)
     else do {
       (io_res, sbl_length, buf) \<leftarrow> secondary_bootloader_length dev p_loc (ucast sector_size) buf;
       if io_res \<noteq> LOAD_OK then Some (None, buf, st)
       else do {
         (img, buf) \<leftarrow> load_secondary_bootloader dev p_loc (ucast sector_size) buf;
         (sbl, st) \<leftarrow> check_image img st;
         Some (sbl, buf, st)
       }
     }
   }"

definition boot_cdrom :: "platform \<Rightarrow> block_dev \<Rightarrow> boota_state \<Rightarrow> (u32 list option \<times> boota_state) option" where
  "boot_cdrom pf dev st = do {
     let st = say ''Scanning CD/DVD'' st;
     (start, sz) \<leftarrow> pf_cd_partition pf dev;
     case bd_read dev start sz of
       None \<Rightarrow> Some (None, say '' read error when trying to load CD secondary booter'' st)
     | Some img \<Rightarrow> check_image img st
   }"

definition boot_net :: "platform \<Rightarrow> boota_state \<Rightarrow> (u32 list option \<times> boota_state) option" where
  "boot_net pf st = do {
     let file = (case pf_getenv pf ''netboot_file'' of None \<Rightarrow> ''OS4Bootloader'' | Some f \<Rightarrow> f);
     let st = say ''Starting Net booting procedure'' st;
     case pf_netloop pf file of
       None \<Rightarrow> Some (None, say (''Couldn't download '' @ file @ '' from network.'') st)
     | Some img \<Rightarrow> do {
         (sbl, st) \<leftarrow> check_image img st;
         Some (sbl, say ''Successfully loaded SLB from network'' st)
       }
   }"

text \<open>One iteration of the scan loop and the loop, which stops at the first image.\<close>

definition boot_unit :: "platform \<Rightarrow> scan_handle \<Rightarrow> u32 list \<Rightarrow> boota_state \<Rightarrow> (u32 list option \<times> u32 list \<times> boota_state) option" where
  "boot_unit pf h buf st =
     (let dev = ush_device h in
      if bd_type dev = DEV_TYPE_HARDDISK then boot_harddisk dev buf st
      else if bd_type dev = DEV_TYPE_CDROM then do { (sbl, st) \<leftarrow> boot_cdrom pf dev st; Some (sbl, buf, st) }
      else if bd_type dev = DEV_TYPE_NETBOOT then do { (sbl, st) \<leftarrow> boot_net pf st; Some (sbl, buf, st) }
      else Some (None, buf, say ''No known boot method for device type'' st))"

fun boot_scan :: "platform \<Rightarrow> scan_handle list \<Rightarrow> u32 list \<Rightarrow> boota_state \<Rightarrow> (u32 list option \<times> boota_state) option" where
  "boot_scan pf [] buf st = Some (None, st)"
| "boot_scan pf (h # hs) buf st = do {
     (sbl, buf, st) \<leftarrow> boot_unit pf h buf st;
     case sbl of Some img \<Rightarrow> Some (Some img, st) | None \<Rightarrow> boot_scan pf hs buf st
   }"

definition boot_sources :: "platform \<Rightarrow> string list" where
  "boot_sources pf =
     concat (map (\<lambda>v. case pf_getenv pf v of None \<Rightarrow> [] | Some s \<Rightarrow> if is_good_bootsource s then [s] else [])
       [''boot1'', ''boot2'', ''boot3''])"

text \<open>The first lines of \<open>do_boota\<close>: back to the logo when the variable hush asks for it.\<close>

definition enter_silent :: "platform \<Rightarrow> boota_state \<Rightarrow> boota_state" where
  "enter_silent pf st =
     (if \<not> gd_silent st then
        let hush = (case pf_getenv pf ''hush'' of None \<Rightarrow> 0 | Some s \<Rightarrow> atoi s) in
        if hush \<noteq> 0 then
          case pf_getenv pf ''stdout'' of
            None \<Rightarrow> st
          | Some s \<Rightarrow>
              if take 3 s = ''vga'' then
                let st = st\<lparr>gd_silent := True\<rparr>
                in if pf_logo pf then st\<lparr>logo_drawn := True, con_scrolled := 0\<rparr> else st
              else st
        else st
      else st)"

text \<open>\<open>do_boota\<close>, with the initial contents of the I/O buffer. When no device of the sources exists,
  \<open>start_unit_scan\<close> returns the address of the list header as if it were a handle, and the
  command goes on with whatever lies behind it.\<close>

definition do_boota :: "platform \<Rightarrow> u32 list \<Rightarrow> boota_state \<Rightarrow> boota_state option" where
  "do_boota pf blockbuffer st = do {
     let backup = tftp_quit st;
     let st = (enter_silent pf st)\<lparr>tftp_quit := 1\<rparr>;
     let argarray = boot_sources pf;
     if argarray = [] then Some st
     else do {
       let handles = start_unit_scan (pf_get_dev pf) argarray;
       (sbl, st) \<leftarrow> (if handles = [] then None else boot_scan pf handles blockbuffer st);
       st \<leftarrow> (case sbl of
           Some img \<Rightarrow> start_secondary_bootloader pf img argarray st
         | None \<Rightarrow> Some (say ''FLB: no SLB found in any of the designated boot sources; returning to u-boot.'' (unsilence st)));
       Some (say ''Press any key to continue'' (st\<lparr>tftp_quit := backup\<rparr>))
     }
   }"

end
