(* ===== verification/BootASpec.thy ===== *)
theory BootASpec
  imports BootA
begin

text \<open>
  The first-level bootloader loads exactly the payload of a well-formed chain of boot blocks into
  the buffer it has measured, and starts nothing but ELF images.
\<close>

section \<open>Boot blocks\<close>

definition payload :: "u32 list \<Rightarrow> u32 list" where
  "payload b = take (unat (b ! 1) - 5) (drop 5 b)"

text \<open>A sector that holds a boot block whose checksummed part includes at least its header.\<close>

definition good_block :: "block_dev \<Rightarrow> u32 \<Rightarrow> u32 list \<Rightarrow> bool" where
  "good_block dev s b \<longleftrightarrow> bd_read dev s 1 = Some b \<and> length b = unat (bd_blksz dev) div 4 \<and>
     b ! 0 = IDNAME_BOOTSTRAPCODE \<and> 5 \<le> unat (b ! 1) \<and> unat (b ! 1) \<le> length b \<and>
     sum_list (take (unat (b ! 1)) b) = 0"

fun boot_chain :: "block_dev \<Rightarrow> u32 \<Rightarrow> u32 list list \<Rightarrow> bool" where
  "boot_chain dev s [] = False"
| "boot_chain dev s [b] = (good_block dev s b \<and> b ! 4 = UNUSED_BLOCK_ADDRESS)"
| "boot_chain dev s (b # c # bs) = (good_block dev s b \<and> b ! 4 \<noteq> UNUSED_BLOCK_ADDRESS \<and> boot_chain dev (b ! 4) (c # bs))"

lemma checksum_loop_sum: "n \<le> length l \<Longrightarrow> checksum_loop l n c = Some (c + sum_list (take n l))"
  by (induction l n c rule: checksum_loop.induct) (simp_all add: add.assoc)

text \<open>The conditions under which a sector fits its block size and the I/O buffer.\<close>

definition disk_ok :: "block_dev \<Rightarrow> bool" where
  "disk_ok dev \<longleftrightarrow> unat (bd_blksz dev) < 2 ^ 16"

lemma ucast_blksz: "disk_ok dev \<Longrightarrow> ucast (ucast (bd_blksz dev) :: u16) = bd_blksz dev"
  by (simp add: disk_ok_def word_unat_eq_iff unat_ucast_mod)

lemma block_load: "good_block dev s b \<Longrightarrow> loadsector dev s (bd_blksz dev) buf = (True, b @ drop (length b) buf)"
  by (simp add: loadsector_def good_block_def)

lemma block_rd: "good_block dev s b \<Longrightarrow> i < 5 \<Longrightarrow> rd (b @ r) i = Some (b ! i)"
  by (simp add: good_block_def rd_def nth_append)

lemma block_small:
  assumes "good_block dev s b" "disk_ok dev"
  shows "unat (b ! 1) < 2 ^ 16"
proof -
  have "unat (b ! 1) \<le> unat (bd_blksz dev) div 4" using assms(1) by (simp add: good_block_def)
  also have "\<dots> \<le> unat (bd_blksz dev)" by (rule div_le_dividend)
  also have "\<dots> < 2 ^ 16" using assms(2) by (simp add: disk_ok_def)
  finally show ?thesis .
qed

lemma block_is_good:
  assumes "good_block dev s b" "disk_ok dev"
  shows "is_good_bootsector (b @ r) (bd_blksz dev) = Some True"
proof -
  have "unat (ucast (b ! 1) :: u16) = unat (b ! 1)" "b ! 1 \<le> drop_bit 2 (bd_blksz dev)"
    using assms(1) block_small [OF assms] by (simp_all add: good_block_def unat_ucast_mod word_le_nat_alt unat_drop_div)
  then show ?thesis using assms(1) block_rd [OF assms(1), of 0 r] block_rd [OF assms(1), of 1 r]
    by (simp add: is_good_bootsector_def good_checksum_def checksum_loop_sum good_block_def)
qed

lemma block_payload:
  assumes "good_block dev s b" "disk_ok dev"
  shows "copy_payload (b @ r) (push_bit 2 (b ! 1 - 5)) = Some (payload b)"
proof -
  have "unat (b ! 1 - 5) = unat (b ! 1) - 5" "unat (b ! 1) < 2 ^ 16"
    using assms(1) block_small [OF assms] by (simp_all add: good_block_def unat_sub_le word_le_nat_alt)
  then have "unat (push_bit 2 (b ! 1 - 5)) = 4 * (unat (b ! 1) - 5)"
    by (subst unat_push_2) simp_all
  then show ?thesis using assms(1) by (simp add: copy_payload_def payload_def good_block_def)
qed

section \<open>Following a chain\<close>

lemma length_loop_chain:
  assumes "boot_chain dev s bs" "disk_ok dev"
  shows "\<exists>r. length_loop dev (bd_blksz dev) s res buf = Some (Last_block (res + of_nat (length bs)), last bs @ r)"
  using assms
proof (induction dev s bs arbitrary: res buf rule: boot_chain.induct)
  case (2 dev s b)
  then show ?case
    using block_load [of dev s b buf] block_is_good [of dev s b] block_rd [of dev s b 4]
    by (subst length_loop.simps) simp
next
  case (3 dev s b c bs)
  then show ?case
    using block_load [of dev s b buf] block_is_good [of dev s b] block_rd [of dev s b 4]
      "3.IH" [of "res + 1" "b @ drop (length b) buf"]
    by (subst length_loop.simps) (simp add: add.assoc)
qed simp

lemma load_loop_chain:
  assumes "boot_chain dev s bs" "disk_ok dev"
  shows "\<exists>r. load_loop dev (bd_blksz dev) s current buf = Some (current @ concat (map payload bs), r)"
  using assms
proof (induction dev s bs arbitrary: current buf rule: boot_chain.induct)
  case (2 dev s b)
  then show ?case
    using block_load [of dev s b buf] block_payload [of dev s b] block_rd [of dev s b]
    by (subst load_loop.simps) simp
next
  case (3 dev s b c bs)
  then show ?case
    using block_load [of dev s b buf] block_payload [of dev s b] block_rd [of dev s b]
      "3.IH" [of "current @ payload b" "b @ drop (length b) buf"]
    by (subst load_loop.simps) simp
qed simp

text \<open>The measured length: all blocks but the last count with their full size.\<close>

definition chain_length :: "u32 \<Rightarrow> u32 list list \<Rightarrow> nat" where
  "chain_length blksz bs = (length bs - 1) * (unat blksz - 20) + (4 * unat (last bs ! 1) - 20)"

lemma boot_chain_blocks: "boot_chain dev s bs \<Longrightarrow> bs \<noteq> [] \<and> (\<forall>b\<in>set bs. \<exists>s. good_block dev s b)"
  by (induction dev s bs rule: boot_chain.induct) auto

lemma payload_length: "good_block dev s b \<Longrightarrow> 4 * length (payload b) = 4 * unat (b ! 1) - 20 \<and> 4 * unat (b ! 1) \<le> unat (bd_blksz dev)"
  by (auto simp: payload_def good_block_def)

lemma image_length:
  assumes "bs \<noteq> []" "\<forall>b\<in>set bs. \<exists>s. good_block dev s b"
  shows "4 * length (concat (map payload bs)) \<le> chain_length (bd_blksz dev) bs"
    "(\<forall>b\<in>set (butlast bs). 4 * unat (b ! 1) = unat (bd_blksz dev)) \<Longrightarrow>
       4 * length (concat (map payload bs)) = chain_length (bd_blksz dev) bs"
proof -
  have "4 * length (concat (map payload bs)) \<le> chain_length (bd_blksz dev) bs \<and>
    ((\<forall>b\<in>set (butlast bs). 4 * unat (b ! 1) = unat (bd_blksz dev)) \<longrightarrow>
       4 * length (concat (map payload bs)) = chain_length (bd_blksz dev) bs)"
    using assms
  proof (induction bs rule: list_nonempty_induct)
    case (single b)
    then show ?case using payload_length by (fastforce simp: chain_length_def)
  next
    case (cons b bs)
    obtain s where "good_block dev s b" using cons.prems by auto
    note p = payload_length [OF this]
    have c: "chain_length (bd_blksz dev) (b # bs) = unat (bd_blksz dev) - 20 + chain_length (bd_blksz dev) bs"
      using cons.hyps by (cases bs) (simp_all add: chain_length_def)
    have i: "4 * length (concat (map payload (b # bs))) = 4 * length (payload b) + 4 * length (concat (map payload bs))"
      by simp
    show ?case unfolding c i using cons p by (auto simp: add_mono diff_le_mono)
  qed
  then show "4 * length (concat (map payload bs)) \<le> chain_length (bd_blksz dev) bs"
    "(\<forall>b\<in>set (butlast bs). 4 * unat (b ! 1) = unat (bd_blksz dev)) \<Longrightarrow>
       4 * length (concat (map payload bs)) = chain_length (bd_blksz dev) bs" by blast+
qed

lemma chain_length_word:
  assumes "bs \<noteq> []" "good_block dev s (last bs)" "length bs * unat (bd_blksz dev) < 2 ^ 32"
  shows "unat ((of_nat (length bs) - 1) * (bd_blksz dev - 20) + (push_bit 2 (last bs ! 1) - 20)) =
    chain_length (bd_blksz dev) bs"
proof -
  let ?n = "length bs" and ?z = "unat (bd_blksz dev)" and ?l = "unat (last bs ! 1)"
  have g: "5 \<le> ?l" "4 * ?l \<le> ?z" using assms(2) payload_length [OF assms(2)] by (auto simp: good_block_def)
  have n: "1 \<le> ?n" using assms(1) by (cases bs) auto
  have "?n * 1 \<le> ?n * ?z" using g by (intro mult_le_mono2) linarith
  then have "?n < 2 ^ 32" using assms(3) by linarith
  then have un: "unat (of_nat ?n - 1 :: u32) = ?n - 1"
    using n by (subst unat_pred) (simp_all add: unat_of_nat)
  have uz: "unat (bd_blksz dev - 20) = ?z - 20" using g by (subst unat_sub_le) (simp_all add: word_le_nat_alt)
  have "?z < 2 ^ 32" using unsigned_less [of "bd_blksz dev"] by simp
  then have "unat (push_bit 2 (last bs ! 1)) = 4 * ?l" using g by (subst unat_push_2) simp_all
  then have ul: "unat (push_bit 2 (last bs ! 1) - 20) = 4 * ?l - 20"
    using g by (subst unat_sub_le) (simp_all add: word_le_nat_alt)
  have "(?n - 1) * (?z - 20) + (4 * ?l - 20) \<le> (?n - 1) * ?z + ?z"
    using g by (intro add_mono mult_le_mono2) simp_all
  also have "\<dots> = ?n * ?z" using n by (simp add: algebra_simps)
  finally have lt: "(?n - 1) * (?z - 20) + (4 * ?l - 20) < 2 ^ 32" using assms(3) by linarith
  then have um: "unat ((of_nat ?n - 1) * (bd_blksz dev - 20)) = (?n - 1) * (?z - 20)"
    by (subst unat_mult_small) (simp_all only: un uz)
  show ?thesis using lt by (subst unat_add_nowrap) (simp_all only: um ul chain_length_def, simp)
qed

lemma chain_loaded:
  assumes chain: "boot_chain dev s bs" and disk: "disk_ok dev" and sz: "length bs * unat (bd_blksz dev) < 2 ^ 32"
  shows "\<exists>len buf1 buf2. secondary_bootloader_length dev s (ucast (bd_blksz dev)) buf = Some (LOAD_OK, Some len, buf1) \<and>
      load_secondary_bootloader dev s (ucast (bd_blksz dev)) buf1 = Some (concat (map payload bs), buf2) \<and>
      unat len = chain_length (bd_blksz dev) bs"
proof -
  note bs = boot_chain_blocks [OF chain]
  obtain s' where last: "good_block dev s' (last bs)" using bs last_in_set by blast
  obtain r where r: "length_loop dev (bd_blksz dev) s 0 buf = Some (Last_block (of_nat (length bs)), last bs @ r)"
    using length_loop_chain [OF chain disk, of 0 buf] by auto
  obtain r2 where r2: "load_loop dev (bd_blksz dev) s [] (last bs @ r) = Some (concat (map payload bs), r2)"
    using load_loop_chain [OF chain disk, of "[]" "last bs @ r"] by auto
  have "rd (last bs @ r) 1 = Some (last bs ! 1)" by (rule block_rd [OF last]) simp
  then show ?thesis
    using r r2 chain_length_word [OF _ last sz] bs
    by (simp add: secondary_bootloader_length_def load_secondary_bootloader_def ucast_blksz [OF disk] Let_def)
qed

section \<open>Starting images\<close>

lemma check_image_valid: "check_image i st = Some (Some j, st') \<Longrightarrow> valid_elf_image j = Some True \<and> started st' = started st"
  by (auto simp: check_image_def say_def Option.bind_eq_Some_conv split: if_splits)

lemma check_image_started: "check_image i st = Some (j, st') \<Longrightarrow> started st' = started st"
  by (auto simp: check_image_def say_def Option.bind_eq_Some_conv split: if_splits)

lemma boot_unit_valid:
  assumes "boot_unit pf h buf st = Some (sbl, buf', st')"
  shows "started st' = started st \<and> (\<forall>i. sbl = Some i \<longrightarrow> valid_elf_image i = Some True)"
  using assms
  by (auto simp: boot_unit_def boot_harddisk_def boot_cdrom_def boot_net_def Let_def say_def Option.bind_eq_Some_conv
      dest: check_image_valid split: if_splits option.splits) (drule check_image_started, simp)+

lemma boot_scan_valid:
  "boot_scan pf hs buf st = Some (sbl, st') \<Longrightarrow>
     started st' = started st \<and> (\<forall>i. sbl = Some i \<longrightarrow> valid_elf_image i = Some True)"
proof (induction pf hs buf st rule: boot_scan.induct)
  case (2 pf h hs buf st)
  then obtain x buf1 st1 where u: "boot_unit pf h buf st = Some (x, buf1, st1)"
    by (auto simp: Option.bind_eq_Some_conv)
  show ?case
  proof (cases x)
    case None
    then show ?thesis using 2 u boot_unit_valid [OF u] by auto
  next
    case (Some i)
    then show ?thesis using 2 u boot_unit_valid [OF u] by auto
  qed
qed simp

lemma unsilence_started [simp]: "started (unsilence st) = started st"
  by (simp add: unsilence_def)

lemma enter_silent_started [simp]: "started (enter_silent pf st) = started st"
  by (auto simp: enter_silent_def Let_def split: option.splits)

lemma start_secondary_started:
  "start_secondary_bootloader pf i args st = Some st' \<Longrightarrow> valid_elf_image i = Some True \<Longrightarrow>
     started st' = started st @ [(i, args)]"
  by (auto simp: start_secondary_bootloader_def interpret_sbl_failure_def say_def Let_def)

section \<open>Properties\<close>

text \<open>A sample disk with a chain of two boot blocks: a full one of eight longwords in sector 3, and one
  of seven in sector 7. Its image starts with an ELF header.\<close>

definition sample_block1 :: "u32 list" where
  "sample_block1 = [0x424f4f54, 8, 0x3d696357, 0, 7, 0x7f454c46, 0x01020100, 0]"

definition sample_block2 :: "u32 list" where
  "sample_block2 = [0x424f4f54, 7, 0xbdaeb092, 0, 0xffffffff, 0, 0x20014, 99]"

definition sample_disk :: block_dev where
  "sample_disk = \<lparr>bd_type = 0, bd_blksz = 32, bd_read = (\<lambda>s n.
     if n = 1 \<and> s = 3 then Some sample_block1 else if n = 1 \<and> s = 7 then Some sample_block2
     else if n = 1 then Some (replicate 8 0) else None)\<rparr>"

lemma sample_chain: "boot_chain sample_disk 3 [sample_block1, sample_block2]"
  by (simp add: good_block_def sample_disk_def sample_block1_def sample_block2_def)



text \<open>C35: \<open>boota\<close> starts at most one image, only one that passed the ELF check, and hands it the list
  of the valid boot sources in the order boot1, boot2, boot3.\<close>

theorem do_boota_starts_elf:
  assumes "do_boota pf buf st = Some st'"
  shows "started st' = started st \<or>
    (\<exists>img. started st' = started st @ [(img, boot_sources pf)] \<and> valid_elf_image img = Some True)"
proof (cases "boot_sources pf = []")
  case True
  then show ?thesis using assms by (auto simp: do_boota_def Let_def)
next
  case False
  define st0 where "st0 = (enter_silent pf st)\<lparr>tftp_quit := 1\<rparr>"
  define hs where "hs = start_unit_scan (pf_get_dev pf) (boot_sources pf)"
  obtain sbl st1 where s: "boot_scan pf hs buf st0 = Some (sbl, st1)"
    using assms False
    by (auto simp: do_boota_def Let_def hs_def [symmetric] st0_def [symmetric] Option.bind_eq_Some_conv split: if_splits)
  note v = boot_scan_valid [OF s]
  have e: "hs \<noteq> []" using assms False by (auto simp: do_boota_def Let_def hs_def)
  have "started st0 = started st" by (simp add: st0_def)
  then show ?thesis
    using assms False s v e start_secondary_started
    by (cases sbl)
      (auto simp: do_boota_def Let_def hs_def [symmetric] st0_def [symmetric] say_def Option.bind_eq_Some_conv)
qed

text \<open>A platform that boots from the network.\<close>

definition sample_platform :: platform where
  "sample_platform = \<lparr>pf_getenv = (\<lambda>v. if v = ''boot1'' then Some ''floppy'' else if v = ''boot2'' then Some ''net'' else None),
     pf_get_dev = (\<lambda>_ _. None), pf_cd_partition = (\<lambda>_. None),
     pf_netloop = (\<lambda>f. if f = ''OS4Bootloader'' then Some [0x7f454c46, 0x01020100, 0, 0, 0x20014] else None),
     pf_sbl = (\<lambda>_ _. -4), pf_logo = False\<rparr>"

definition sample_state :: boota_state where
  "sample_state = \<lparr>gd_silent = False, con_row = 0, con_col = 0, con_isgadget = 0, con_scrolled = 0,
     logo_drawn = False, tftp_quit = 0, messages = [], started = []\<rparr>"

lemmas boota_simps = do_boota_def boot_sources_def is_good_bootsource_def find_dae_def devices_access_table_def dae_def
  enter_silent_def boot_unit_def boot_net_def check_image_def valid_elf_image_def is_elf_def net_handle_def scan_unit_def
  start_secondary_bootloader_def interpret_sbl_failure_def say_def unsilence_def

theorem do_boota_starts_elf_witness:
  "\<exists>st. do_boota sample_platform [] sample_state = Some st \<and>
     started st = [([0x7f454c46, 0x01020100, 0, 0, 0x20014], [''net''])] \<and> tftp_quit st = 0"
proof -
  obtain st where st: "do_boota sample_platform [] sample_state = Some st" "messages st \<noteq> [] \<and> length (started st) = 1 \<and>
      fst (hd (started st)) = [0x7f454c46, 0x01020100, 0, 0, 0x20014] \<and> tftp_quit st = 0"
    by (simp add: boota_simps sample_platform_def sample_state_def Let_def)
  have "boot_sources sample_platform = [''net'']"
    by (simp add: boota_simps sample_platform_def)
  then show ?thesis
    using do_boota_starts_elf [OF st(1)] st by (auto simp: sample_state_def)
qed

section \<open>Weak points\<close>

text \<open>Without a valid boot source the command returns before it restores the TFTP option.\<close>

lemma boota_keeps_tftp_option:
  "boot_sources pf = [] \<Longrightarrow> \<exists>st'. do_boota pf buf st = Some st' \<and> tftp_quit st' = 1"
  by (simp add: do_boota_def Let_def)

text \<open>With valid boot sources but no such device, the command uses the header of the empty list as a
  device.\<close>

lemma boota_no_device:
  "boot_sources pf \<noteq> [] \<Longrightarrow> start_unit_scan (pf_get_dev pf) (boot_sources pf) = [] \<Longrightarrow> do_boota pf buf st = None"
  by (simp add: do_boota_def Let_def)

text \<open>A block with fewer summed longwords than its header passes the check, and the loader then copies
  almost the whole address space.\<close>

lemma short_block_accepted:
  "is_good_bootsector [0x424f4f54, 0, 0, 0, 0xffffffff, 0, 0, 0] 32 = Some True \<and>
   copy_payload [0x424f4f54, 0, 0, 0, 0xffffffff, 0, 0, 0] (push_bit 2 (0 - 5)) = None"
  by (simp add: is_good_bootsector_def rd_def good_checksum_def copy_payload_def)

text \<open>A good block that names itself as its successor is followed for ever.\<close>

lemma cyclic_chain_diverges:
  assumes "good_block dev s b" "disk_ok dev" "b ! 4 = s" "s \<noteq> UNUSED_BLOCK_ADDRESS"
  shows "length_loop dev (bd_blksz dev) s res buf = None"
proof -
  have "\<not> (dv = dev \<and> bl = bd_blksz dev \<and> nxt = s)" if "length_loop dv bl nxt res buf = Some y" for dv bl nxt res buf y
  proof (rule length_loop.raw_induct [OF _ that, where P = "\<lambda>dv bl nxt res buf y. \<not> (dv = dev \<and> bl = bd_blksz dev \<and> nxt = s)"])
    fix loop dv bl nxt res buf y
    assume ih: "\<And>dv bl nxt res buf y. loop dv bl nxt res buf = Some y \<Longrightarrow> \<not> (dv = dev \<and> bl = bd_blksz dev \<and> nxt = s)"
      and run: "(let (ok, buf) = loadsector dv nxt bl buf in
        if \<not> ok then Some (Read_fails nxt res, buf)
        else do {
          good \<leftarrow> is_good_bootsector buf bl;
          if \<not> good then Some (Bad_block nxt, buf)
          else do {
            nxt' \<leftarrow> rd buf bcb_Next;
            if nxt' \<noteq> UNUSED_BLOCK_ADDRESS then loop dv bl nxt' (res + 1) buf
            else Some (Last_block (res + 1), buf)
          }
        }) = Some y"
    show "\<not> (dv = dev \<and> bl = bd_blksz dev \<and> nxt = s)"
    proof
      assume "dv = dev \<and> bl = bd_blksz dev \<and> nxt = s"
      then have "loop dev (bd_blksz dev) s (res + 1) (b @ drop (length b) buf) = Some y"
        using run assms(3,4) block_load [OF assms(1), of buf] block_is_good [OF assms(1,2)] block_rd [OF assms(1), of 4]
        by simp
      then show False using ih by blast
    qed
  qed
  then show ?thesis by (cases "length_loop dev (bd_blksz dev) s res buf") blast+
qed

end
