(* ===== verification/Eth.thy ===== *)
theory Eth
  imports VsprintfSpec
begin

text \<open>
  net/eth.c as configured with \<open>CONFIG_NET_MULTI\<close>: the list of network devices, the current device
  and the Ethernet addresses in the environment, with the address tests of include/net.h. The
  circular list of devices is the list of the registered devices, a device being known by its
  position; the drivers are parameters. The environment is seen as a map, with \<open>setenv\<close> succeeding.
\<close>

section \<open>State\<close>

datatype eth_state_t = ETH_STATE_INIT | ETH_STATE_PASSIVE | ETH_STATE_ACTIVE

record eth_device =
  dev_name :: string
  enetaddr :: "u8 list"
  dev_state :: eth_state_t

text \<open>The frames handed to the current device are logged in \<open>eth_sent\<close>; \<open>env_id\<close> counts the changes of the environment.\<close>

record eth =
  eth_devices :: "eth_device list"
  eth_current :: nat
  first_failed :: "nat option"
  NetRestartWrap :: bool
  environment :: "string \<Rightarrow> string option"
  env_id :: int
  eth_sent :: "u8 list list"

definition env_set :: "string \<Rightarrow> string \<Rightarrow> 'a eth_scheme \<Rightarrow> 'a eth_scheme" where
  "env_set n v e = e\<lparr>environment := (environment e)(n \<mapsto> v), env_id := env_id e + 1\<rparr>"

section \<open>Ethernet addresses\<close>

definition is_zero_ether_addr :: "u8 list \<Rightarrow> bool" where
  "is_zero_ether_addr a \<longleftrightarrow> a ! 0 OR a ! 1 OR a ! 2 OR a ! 3 OR a ! 4 OR a ! 5 = 0"

definition is_multicast_ether_addr :: "u8 list \<Rightarrow> bool" where
  "is_multicast_ether_addr a \<longleftrightarrow> 0x01 AND a ! 0 \<noteq> 0"

definition is_valid_ether_addr :: "u8 list \<Rightarrow> bool" where
  "is_valid_ether_addr a \<longleftrightarrow> \<not> is_multicast_ether_addr a \<and> \<not> is_zero_ether_addr a"

fun parse_enetaddr_loop :: "nat \<Rightarrow> string option \<Rightarrow> u8 list" where
  "parse_enetaddr_loop 0 addr = []"
| "parse_enetaddr_loop (Suc n) None = 0 # parse_enetaddr_loop n None"
| "parse_enetaddr_loop (Suc n) (Some addr) =
     (let (v, e) = simple_strtoul addr 16
      in ucast v # parse_enetaddr_loop n (Some (if e \<noteq> [] then tl e else e)))"

definition eth_parse_enetaddr :: "string option \<Rightarrow> u8 list" where
  "eth_parse_enetaddr addr = parse_enetaddr_loop 6 addr"

definition eth_getenv_enetaddr :: "string \<Rightarrow> 'a eth_scheme \<Rightarrow> bool \<times> u8 list" where
  "eth_getenv_enetaddr name e = (let a = eth_parse_enetaddr (environment e name) in (is_valid_ether_addr a, a))"

text \<open>The text \<open>sprintf\<close> stores; the formats used here match their arguments.\<close>

definition sprintf_mem :: "(u32 \<Rightarrow> u8) \<Rightarrow> string \<Rightarrow> vararg list \<Rightarrow> string" where
  "sprintf_mem mem fmt args = (case sprintf mem fmt args of Some (s, _) \<Rightarrow> s | None \<Rightarrow> [])"

definition sprintf_text :: "string \<Rightarrow> vararg list \<Rightarrow> string" where
  "sprintf_text fmt args = sprintf_mem (\<lambda>_. 0) fmt args"

text \<open>The address is given by the memory that holds it and where it is.\<close>

definition eth_setenv_enetaddr :: "string \<Rightarrow> (u32 \<Rightarrow> u8) \<Rightarrow> u32 \<Rightarrow> 'a eth_scheme \<Rightarrow> 'a eth_scheme" where
  "eth_setenv_enetaddr name mem p e = env_set name (sprintf_mem mem ''%pM'' [VPtr p]) e"

definition eth_getenv_enetaddr_by_index :: "nat \<Rightarrow> 'a eth_scheme \<Rightarrow> bool \<times> u8 list" where
  "eth_getenv_enetaddr_by_index index e =
     eth_getenv_enetaddr (if index \<noteq> 0 then sprintf_text ''eth%daddr'' [VInt (of_nat index)] else ''ethaddr'') e"

section \<open>Devices\<close>

definition eth_get_dev :: "'a eth_scheme \<Rightarrow> eth_device option" where
  "eth_get_dev e = (if eth_devices e = [] then None else Some (eth_devices e ! eth_current e))"

definition eth_get_name :: "'a eth_scheme \<Rightarrow> string" where
  "eth_get_name e = (case eth_get_dev e of None \<Rightarrow> ''unknown'' | Some d \<Rightarrow> dev_name d)"

definition eth_get_dev_by_name :: "string \<Rightarrow> 'a eth_scheme \<Rightarrow> eth_device option" where
  "eth_get_dev_by_name devname e = List.find (\<lambda>d. dev_name d = devname) (eth_devices e)"

definition eth_get_dev_by_index :: "int \<Rightarrow> 'a eth_scheme \<Rightarrow> eth_device option" where
  "eth_get_dev_by_index index e =
     (if 0 \<le> index \<and> nat index < length (eth_devices e) then Some (eth_devices e ! nat index) else None)"

definition eth_get_dev_index :: "'a eth_scheme \<Rightarrow> int" where
  "eth_get_dev_index e = (if eth_devices e = [] then -1 else int (eth_current e))"

text \<open>The environment variable \<open>ethact\<close> follows the current device.\<close>

definition update_ethact :: "'a eth_scheme \<Rightarrow> 'a eth_scheme" where
  "update_ethact e =
     (if environment e ''ethact'' = Some (eth_get_name e) then e else env_set ''ethact'' (eth_get_name e) e)"

definition eth_register :: "eth_device \<Rightarrow> 'a eth_scheme \<Rightarrow> 'a eth_scheme" where
  "eth_register dev e =
     (if eth_devices e = []
      then update_ethact (e\<lparr>eth_devices := [dev\<lparr>dev_state := ETH_STATE_INIT\<rparr>], eth_current := 0\<rparr>)
      else e\<lparr>eth_devices := eth_devices e @ [dev\<lparr>dev_state := ETH_STATE_INIT\<rparr>]\<rparr>)"

text \<open>\<open>eth_initialize\<close>: the devices the board or the CPU code registers are a parameter. A device
  takes its address from the environment when one is set there.\<close>

definition initialize_dev :: "nat \<Rightarrow> 'a eth_scheme \<Rightarrow> 'a eth_scheme" where
  "initialize_dev i e =
     (let dev = eth_devices e ! i;
          e = (if environment e ''ethprime'' = Some (dev_name dev) then e\<lparr>eth_current := i\<rparr> else e);
          env_enetaddr = snd (eth_getenv_enetaddr_by_index i e)
      in if env_enetaddr \<noteq> replicate 6 0
         then e\<lparr>eth_devices := (eth_devices e)[i := dev\<lparr>enetaddr := env_enetaddr\<rparr>]\<rparr> else e)"

definition eth_initialize :: "eth_device list \<Rightarrow> 'a eth_scheme \<Rightarrow> int \<times> 'a eth_scheme" where
  "eth_initialize devs e =
     (let e = fold eth_register devs (e\<lparr>eth_devices := []\<rparr>)
      in if eth_devices e = [] then (0, e)
         else let e = fold initialize_dev [0..<length (eth_devices e)] e
              in (int (length (eth_devices e)), update_ethact e))"

definition eth_try_another :: "bool \<Rightarrow> 'a eth_scheme \<Rightarrow> 'a eth_scheme" where
  "eth_try_another first_restart e =
     (if environment e ''ethrotate'' = Some ''no'' then e
      else if eth_devices e = [] then e
      else
        let e = (if first_restart then e\<lparr>first_failed := Some (eth_current e)\<rparr> else e);
            e = e\<lparr>eth_current := Suc (eth_current e) mod length (eth_devices e)\<rparr>;
            e = update_ethact e
        in if first_failed e = Some (eth_current e) then e\<lparr>NetRestartWrap := True\<rparr> else e)"

definition set_dev_state :: "eth_state_t \<Rightarrow> 'a eth_scheme \<Rightarrow> 'a eth_scheme" where
  "set_dev_state st e =
     e\<lparr>eth_devices := (eth_devices e)[eth_current e := (eth_devices e ! eth_current e)\<lparr>dev_state := st\<rparr>]\<rparr>"

text \<open>\<open>eth_init\<close>: \<open>drv i\<close> says whether the driver of device \<open>i\<close> can start it.\<close>

partial_function (option) eth_init_loop :: "(nat \<Rightarrow> bool) \<Rightarrow> nat \<Rightarrow> 'a eth_scheme \<Rightarrow> (int \<times> 'a eth_scheme) option" where
  "eth_init_loop drv old_current e =
     (if drv (eth_current e) then Some (0, set_dev_state ETH_STATE_ACTIVE e)
      else
        let e = eth_try_another False e
        in if eth_current e = old_current then Some (-1, e) else eth_init_loop drv old_current e)"

definition sync_enetaddr :: "'a eth_scheme \<Rightarrow> 'a eth_scheme" where
  "sync_enetaddr e = e\<lparr>eth_devices := map (\<lambda>(i, d).
     let (ok, a) = eth_getenv_enetaddr_by_index i e in if ok then d\<lparr>enetaddr := a\<rparr> else d) (enumerate 0 (eth_devices e))\<rparr>"

definition eth_init :: "(nat \<Rightarrow> bool) \<Rightarrow> 'a eth_scheme \<Rightarrow> (int \<times> 'a eth_scheme) option" where
  "eth_init drv e =
     (if eth_devices e = [] then Some (-1, e)
      else let e = sync_enetaddr e in eth_init_loop drv (eth_current e) e)"

definition eth_halt :: "'a eth_scheme \<Rightarrow> 'a eth_scheme" where
  "eth_halt e = (if eth_devices e = [] then e else set_dev_state ETH_STATE_PASSIVE e)"

definition eth_send :: "u8 list \<Rightarrow> 'a eth_scheme \<Rightarrow> 'a eth_scheme" where
  "eth_send packet e = (if eth_devices e = [] then e else e\<lparr>eth_sent := eth_sent e @ [packet]\<rparr>)"

text \<open>\<open>eth_set_current\<close>: the pointer \<open>act\<close> is read again whenever the environment has changed, so that
  it always is the value of \<open>ethact\<close>.\<close>

definition eth_set_current :: "'a eth_scheme \<Rightarrow> 'a eth_scheme" where
  "eth_set_current e =
     (if eth_devices e = [] then e
      else
        let n = length (eth_devices e);
            found = (case environment e ''ethact'' of None \<Rightarrow> None
              | Some act \<Rightarrow> List.find (\<lambda>i. dev_name (eth_devices e ! i) = act) (map (\<lambda>k. (eth_current e + k) mod n) [0..<n]))
        in case found of Some i \<Rightarrow> e\<lparr>eth_current := i\<rparr>
           | None \<Rightarrow> env_set ''ethact'' (eth_get_name e) e)"

section \<open>Starting a device\<close>

definition eth_ok :: "'a eth_scheme \<Rightarrow> bool" where
  "eth_ok e \<longleftrightarrow> (eth_devices e \<noteq> [] \<longrightarrow> eth_current e < length (eth_devices e))"

text \<open>The devices \<open>eth_init\<close> tries, in order.\<close>

definition rotation :: "'a eth_scheme \<Rightarrow> nat list" where
  "rotation e = (if environment e ''ethrotate'' = Some ''no'' then [eth_current e]
     else map (\<lambda>k. (eth_current e + k) mod length (eth_devices e)) [0..<length (eth_devices e)])"

lemma update_ethact_fields [simp]:
  "eth_devices (update_ethact e) = eth_devices e" "eth_current (update_ethact e) = eth_current e"
  "first_failed (update_ethact e) = first_failed e" "NetRestartWrap (update_ethact e) = NetRestartWrap e"
  "eth_sent (update_ethact e) = eth_sent e" "n \<noteq> ''ethact'' \<Longrightarrow> environment (update_ethact e) n = environment e n"
  by (simp_all add: update_ethact_def env_set_def)

lemma try_another_fields:
  assumes "eth_devices e \<noteq> []" "environment e ''ethrotate'' \<noteq> Some ''no''"
  shows "eth_current (eth_try_another fr e) = Suc (eth_current e) mod length (eth_devices e)"
    "eth_devices (eth_try_another fr e) = eth_devices e"
    "environment (eth_try_another fr e) ''ethrotate'' = environment e ''ethrotate''"
  using assms by (simp_all add: eth_try_another_def Let_def)

lemma set_dev_state_fields:
  assumes "eth_current e < length (eth_devices e)"
  shows "eth_current (set_dev_state st e) = eth_current e" "dev_state (eth_devices (set_dev_state st e) ! eth_current e) = st"
  using assms by (simp_all add: set_dev_state_def)

lemma init_loop_rotates:
  assumes "environment e ''ethrotate'' \<noteq> Some ''no''" "c < length (eth_devices e)"
    and "eth_current e = (c + k) mod length (eth_devices e)" "k < length (eth_devices e)"
  shows "\<exists>r e'. eth_init_loop drv c e = Some (r, e') \<and>
    (case List.find drv (map (\<lambda>k. (c + k) mod length (eth_devices e)) [k..<length (eth_devices e)]) of
       Some i \<Rightarrow> r = 0 \<and> eth_current e' = i \<and> dev_state (eth_devices e' ! i) = ETH_STATE_ACTIVE
     | None \<Rightarrow> r = -1 \<and> eth_current e' = c)"
  using assms
proof (induction "length (eth_devices e) - k" arbitrary: e k)
  case (Suc m)
  let ?n = "length (eth_devices e)" and ?i = "(c + k) mod length (eth_devices e)" and ?u = "eth_try_another False e"
  have up: "[k..<?n] = k # [Suc k..<?n]" using Suc.prems(4) by (rule upt_conv_Cons)
  have ne: "eth_devices e \<noteq> []" using Suc.prems(4) by auto
  note u = try_another_fields [OF ne Suc.prems(1), of False]
  show ?case
  proof (cases "drv ?i")
    case True
    moreover have "?i < ?n" using ne by simp
    ultimately show ?thesis using Suc.prems(3) set_dev_state_fields [of e ETH_STATE_ACTIVE]
      by (subst eth_init_loop.simps) (simp add: up)
  next
    case False
    have cur: "eth_current ?u = (c + Suc k) mod ?n" using Suc.prems(3) by (simp add: u mod_Suc_eq)
    have step: "eth_init_loop drv c e = (if eth_current ?u = c then Some (-1, ?u) else eth_init_loop drv c ?u)"
      using False Suc.prems(3) by (subst eth_init_loop.simps) (simp add: Let_def)
    show ?thesis
    proof (cases "Suc k = ?n")
      case True
      then have "eth_current ?u = c" using cur Suc.prems(2) by simp
      then show ?thesis using False step True by (simp add: up)
    next
      case k: False
      then have lt: "Suc k < ?n" using Suc.prems(4) by simp
      have "(c + Suc k) mod ?n \<noteq> c mod ?n"
        using lt by (simp add: mod_eq_dvd_iff_nat nat_dvd_not_less)
      then have "eth_current ?u \<noteq> c" using cur Suc.prems(2) by simp
      moreover have "m = length (eth_devices ?u) - Suc k" using Suc.hyps(2) u(2) by simp
      ultimately show ?thesis using Suc.hyps(1) [of ?u "Suc k"] Suc.prems lt cur u False step by (simp add: up)
    qed
  qed
qed simp

lemma sync_fields [simp]:
  "length (eth_devices (sync_enetaddr e)) = length (eth_devices e)" "eth_current (sync_enetaddr e) = eth_current e"
  "environment (sync_enetaddr e) = environment e" "eth_devices (sync_enetaddr e) = [] \<longleftrightarrow> eth_devices e = []"
  by (simp_all add: sync_enetaddr_def) (metis length_0_conv length_enumerate)

text \<open>C36: Starting the network ends, whatever the drivers do: \<open>eth_init\<close> tries the current device and then, unless
  \<open>ethrotate\<close> forbids it, every other registered device once, in the order of registration. The
  first one that starts becomes the current device and is active; when none starts the result is -1
  and the current device is the old one.\<close>

theorem eth_init_first_working:
  assumes "eth_ok e" "eth_devices e \<noteq> []"
  shows "\<exists>r e'. eth_init drv e = Some (r, e') \<and>
    (case List.find drv (rotation e) of
       Some i \<Rightarrow> r = 0 \<and> eth_current e' = i \<and> dev_state (eth_devices e' ! i) = ETH_STATE_ACTIVE
     | None \<Rightarrow> r = -1 \<and> eth_current e' = eth_current e)"
proof (cases "environment e ''ethrotate'' = Some ''no''")
  case True
  let ?s = "sync_enetaddr e"
  have "eth_try_another False ?s = ?s" using True by (simp add: eth_try_another_def)
  moreover have "eth_current ?s < length (eth_devices ?s)" using assms by (simp add: eth_ok_def)
  ultimately show ?thesis using True assms(2) set_dev_state_fields [of ?s ETH_STATE_ACTIVE]
    by (simp add: eth_init_def rotation_def eth_init_loop.simps Let_def)
next
  case False
  let ?s = "sync_enetaddr e"
  show ?thesis using init_loop_rotates [of ?s "eth_current e" 0 drv] False assms
    by (simp add: eth_init_def rotation_def eth_ok_def Let_def)
qed

definition two_devices :: eth where
  "two_devices = \<lparr>eth_devices = [\<lparr>dev_name = ''ppc_4xx_eth0'', enetaddr = [0, 1, 2, 3, 4, 5], dev_state = ETH_STATE_INIT\<rparr>,
     \<lparr>dev_name = ''ppc_4xx_eth1'', enetaddr = [0, 1, 2, 3, 4, 6], dev_state = ETH_STATE_INIT\<rparr>],
     eth_current = 0, first_failed = None, NetRestartWrap = False, environment = (\<lambda>_. None), env_id = 1, eth_sent = []\<rparr>"

theorem eth_init_first_working_witness:
  "\<exists>e'. eth_init (\<lambda>i. i = 1) two_devices = Some (0, e') \<and> eth_current e' = 1"
  using eth_init_first_working [of two_devices "\<lambda>i. i = 1"]
  by (auto simp: eth_ok_def two_devices_def rotation_def upt_rec)

section \<open>Addresses as text\<close>

definition mac_text :: "u8 list \<Rightarrow> string" where
  "mac_text a = pack_hex_byte (a ! 0) @ '':'' @ pack_hex_byte (a ! 1) @ '':'' @ pack_hex_byte (a ! 2) @ '':'' @
     pack_hex_byte (a ! 3) @ '':'' @ pack_hex_byte (a ! 4) @ '':'' @ pack_hex_byte (a ! 5)"

lemma hex_digits:
  assumes "k < 16"
  shows "digit (hex_asc ! k) = k \<and> isxdigit (hex_asc ! k) \<and> (hex_asc ! k = CHR ''0'' \<longleftrightarrow> k = 0) \<and> hex_asc ! k \<noteq> CHR ''x''"
proof -
  have "\<forall>k\<in>set [0..<16]. digit (hex_asc ! k) = k \<and> isxdigit (hex_asc ! k) \<and> (hex_asc ! k = CHR ''0'' \<longleftrightarrow> k = 0) \<and> hex_asc ! k \<noteq> CHR ''x''"
    by code_simp
  then show ?thesis using assms by simp
qed

lemma hex_nibbles:
  "unat (drop_bit 4 (b AND 0xf0)) < 16 \<and> unat (b AND 0xf) < 16 \<and> unat (drop_bit 4 (b AND 0xf0)) * 16 + unat (b AND 0xf) = unat (b :: u8)"
proof -
  have ub: "unat b < 256" using unsigned_less [of b] by simp
  have l: "unat (b AND 0xf) = unat b mod 16" by (rule and_0xf_mod)
  have "drop_bit 4 (b AND 0xf0) = drop_bit 4 b AND 0xf" by simp
  then have "unat (drop_bit 4 (b AND 0xf0)) = unat b div 16 mod 16"
    using unat_drop_div [of 4 b] by (simp only: and_0xf_mod) simp
  then have h: "unat (drop_bit 4 (b AND 0xf0)) = unat b div 16" using ub by simp
  show ?thesis unfolding h l using ub div_mult_mod_eq [of "unat b" 16] by simp
qed

lemma odd_unat: "odd (unat (x :: u8)) \<longleftrightarrow> bit x 0"
  using bit_unsigned_iff [where ?'a = nat, of x 0] by (simp add: bit_0)

lemma ucast_u8_u32: "(ucast (ucast (b :: u8) :: u32) :: u8) = b"
  by (rule bit_word_eqI) (simp add: bit_simps)

lemma strnlen_eq: "NUL \<notin> set s \<Longrightarrow> length s \<le> unat count \<Longrightarrow> strnlen s count = length s"
proof (induction s arbitrary: count)
  case (Cons c s)
  then have "count \<noteq> 0" "unat (count - 1) = unat count - 1" using unat_pred [of count] by auto
  then show ?case using Cons by auto
qed simp

lemma string_plain:
  assumes "length s < 2 ^ 32 - 1" "NUL \<notin> set s"
  shows "string (Some s) (-1) (-1) flags = s"
proof -
  have u: "unat (- 1 :: u32) = 2 ^ 32 - 1" by (simp add: unsigned_minus_1_eq_mask mask_eq_exp_minus_1)
  have sp: "0 \<le> len \<Longrightarrow> fw < 0 \<Longrightarrow> spaces len fw = ([], fw - 1)" for len fw by (subst spaces.simps) simp
  have "strnlen s (of_int (- 1)) = length s" using assms u by (intro strnlen_eq) simp_all
  then show ?thesis by (simp add: string_def Let_def sp)
qed

lemma vsprintf_pM:
  assumes "p \<noteq> 0"
  shows "vsprintf mem ''%pM'' [VPtr p] = Some (mac_text (map (\<lambda>i. mem (p + of_nat i)) [0..<6]), [])"
proof -
  have a: "isalnum CHR ''M''" by code_simp
  have "length (mac_text xs) < 2 ^ 32 - 1" for xs by (simp add: mac_text_def pack_hex_byte_def)
  moreover have "NUL \<notin> set (pack_hex_byte b)" for b
  proof -
    have "unat (drop_bit 4 (b AND 0xf0)) < 16" "unat (b AND 0xf) < 16"
      using hex_nibbles [of b] by simp_all
    moreover have "\<not> isxdigit NUL" by (simp add: isxdigit_iff)
    ultimately show ?thesis using hex_digits by (fastforce simp: pack_hex_byte_def)
  qed
  then have "NUL \<notin> set (mac_text xs)" for xs by (simp add: mac_text_def)
  ultimately have sp: "string (Some (mac_text xs)) (-1) (-1) flags = mac_text xs" for xs flags by (rule string_plain)
  have "mac_address_string (\<lambda>i. mem (p + of_nat i)) (-1) (-1) flags = mac_text (map (\<lambda>i. mem (p + of_nat i)) [0..<6])"
    if "\<not> flag_set flags SPECIAL" for flags
  proof -
    have "concat (map (\<lambda>i. pack_hex_byte (mem (p + of_nat i)) @ (if \<not> flag_set flags SPECIAL \<and> i \<noteq> 5 then '':'' else [])) [0..<6]) =
        mac_text (map (\<lambda>i. mem (p + of_nat i)) [0..<6])"
      using that by (simp add: mac_text_def upt_rec)
    then show ?thesis by (simp only: mac_address_string_def sp)
  qed
  then show ?thesis using assms a
    by (simp add: conv_simps flag_set_def pointer_def)
qed

lemma strtoul_hex_byte:
  assumes "r = [] \<or> hd r = CHR '':''"
  shows "simple_strtoul (pack_hex_byte b @ r) 16 = (ucast b, r)"
proof -
  define h where "h = unat (drop_bit 4 (b AND 0xf0))"
  define l where "l = unat (b AND 0x0f)"
  have h16: "h < 16" and l16: "l < 16" and sum: "h * 16 + l = unat b"
    unfolding h_def l_def using hex_nibbles [of b] by simp_all
  note d = hex_digits [OF h16] hex_digits [OF l16]
  have c: "\<not> isxdigit (CHR '':'')" by (simp add: isxdigit_iff)
  have r: "takeWhile (is_digit_of 16) r = []" "dropWhile (is_digit_of 16) r = r"
    using assms c by (cases r; simp add: is_digit_of_def)+
  have ubw: "(ucast b :: u32) = of_nat (unat b)" by (simp add: of_nat_unat)
  have e: "pack_hex_byte b = [hex_asc ! h, hex_asc ! l]" by (simp add: pack_hex_byte_def h_def l_def)
  show ?thesis
    unfolding e simple_strtoul_spec Let_def ubw sum [symmetric]
    using d r h16 l16 by (auto simp: is_digit_of_def numeral_value_def)
qed

lemma parse_mac_text: "eth_parse_enetaddr (Some (mac_text a)) = map (\<lambda>i. a ! i) [0..<6]"
proof -
  have last: "simple_strtoul (pack_hex_byte b) 16 = (ucast b, [])" for b using strtoul_hex_byte [of "[]" b] by simp
  show ?thesis
    by (simp add: eth_parse_enetaddr_def mac_text_def numeral_eq_Suc strtoul_hex_byte last ucast_u8_u32 upt_rec)
qed



section \<open>What the device operations leave alone\<close>

lemma eth_more_keeps:
  "eth.more (env_set nm v e) = eth.more e" "eth.more (update_ethact e) = eth.more e" "eth.more (set_dev_state st e) = eth.more e"
  "eth.more (sync_enetaddr e) = eth.more e"  "eth.more (eth_halt e) = eth.more e" "eth.more (eth_try_another fr e) = eth.more e"
  by (simp_all add: env_set_def update_ethact_def set_dev_state_def sync_enetaddr_def eth_halt_def eth_try_another_def Let_def)

lemma init_loop_more: "eth_init_loop drv c e = Some (r, e') \<Longrightarrow> eth.more e' = eth.more e"
proof (rule eth_init_loop.raw_induct [where P = "\<lambda>drv c e re. eth.more (snd re) = eth.more e", of drv c e "(r, e')", simplified snd_conv])
  fix f :: "(nat \<Rightarrow> bool) \<Rightarrow> nat \<Rightarrow> 'a eth_scheme \<Rightarrow> (int \<times> 'a eth_scheme) option" and drv c and e :: "'a eth_scheme" and re
  assume IH: "\<And>drv c e re. f drv c e = Some re \<Longrightarrow> eth.more (snd re) = eth.more e"
    and s: "(if drv (eth_current e) then Some (0, set_dev_state ETH_STATE_ACTIVE e)
      else let e = eth_try_another False e in if eth_current e = c then Some (-1, e) else f drv c e) = Some re"
  then show "eth.more (snd re) = eth.more e"
    using IH [of drv c "eth_try_another False e" re] by (auto simp: Let_def eth_more_keeps split: if_splits)
qed

lemma eth_init_more: "eth_init drv e = Some (r, e') \<Longrightarrow> eth.more e' = eth.more e"
  using init_loop_more [of drv _ "sync_enetaddr e" r e'] by (auto simp: eth_init_def Let_def eth_more_keeps split: if_splits)

end
