(* ===== verification/Net.thy ===== *)
theory Net
  imports Eth MemString
begin

text \<open>
  net/net.c: the headers and checksums of outgoing packets, the resolution of Ethernet addresses by ARP,
  the dispatch of received frames, ping, and the timeout and packet handlers. The global variables
  are the fields of a record that extends the one of the devices; \<open>now\<close> is the value of
  \<open>get_timer(0)\<close>. The target is big-endian, so that \<open>htons\<close> and \<open>htonl\<close> are the identity. A received frame
  is a receive buffer and the length the driver reports; \<open>None\<close> is an access outside of the
  buffer. \<open>udp_log\<close> records the datagrams handed to \<open>NetSendUDPPacket\<close>; no code depends on it.
\<close>

section \<open>State\<close>

datatype net_state = NETLOOP_CONTINUE | NETLOOP_RESTART | NETLOOP_SUCCESS | NETLOOP_FAIL

datatype rxhand = Dummy_handler | Tftp_handler | StartAgain_handler | Ping_handler | Bootp_handler | Rarp_handler

datatype thand = Tftp_timeout | StartAgain_timeout | Ping_timeout | Bootp_timeout | Rarp_timeout

text \<open>The Ethernet addresses a pointer may point to.\<close>

datatype ether_ptr = Ptr_NetServerEther | Ptr_NetBcastAddr | Ptr_ping_mac

text \<open>A datagram: destination address and port, source port, contents.\<close>

type_synonym datagram = "u32 \<times> u32 \<times> u32 \<times> u8 list"

record net = eth +
  NetOurIP :: u32
  NetServerIP :: u32
  NetOurSubnetMask :: u32
  NetOurGatewayIP :: u32
  NetOurEther :: "u8 list"
  NetServerEther :: "u8 list"
  NetBcastAddr :: "u8 list"
  ping_mac :: "u8 list"
  NetOurVLAN :: u16
  NetOurNativeVLAN :: u16
  NetIPID :: u32
  NetTxPacket :: "u8 list"
  NetState :: net_state
  NetTryCount :: u32
  NetRestarted :: bool
  NetDevExists :: bool
  packetHandler :: rxhand
  timeHandler :: "thand option"
  timeStart :: u32
  timeDelta :: u32
  NetArpWaitPacketIP :: u32
  NetArpWaitReplyIP :: u32
  NetArpWaitPacketMAC :: "ether_ptr option"
  NetArpWaitTxPacket :: "u8 list"
  NetArpWaitTxPacketSize :: nat
  NetArpWaitTimerStart :: u32
  NetArpWaitTry :: int
  NetPingIP :: u32
  PingSeqNo :: u16
  now :: u32
  udp_log :: "datagram list"
  NetRxPacket :: "u8 list"
  NetRxPacketLen :: int
  NetOurDNSIP :: u32
  NetOurHostName :: string
  NetOurRootPath :: string
  NetOurNISDomain :: string
  NetBootFileSize :: u16
  BootpID :: u32
  BootpTry :: int
  RarpTry :: int
  bd_ip_addr :: u32
  net_env_id :: int

abbreviation (input) "VLAN_NONE \<equiv> (4095 :: u16)"
abbreviation (input) "VLAN_IDMASK \<equiv> (0xfff :: u16)"
abbreviation (input) "PROT_IP \<equiv> (0x0800 :: u32)"
abbreviation (input) "PROT_ARP \<equiv> (0x0806 :: u32)"
abbreviation (input) "PROT_RARP \<equiv> (0x8035 :: u32)"
abbreviation (input) "PROT_VLAN \<equiv> (0x8100 :: u32)"
abbreviation (input) "ETHER_HDR_SIZE \<equiv> (14 :: nat)"
abbreviation (input) "VLAN_ETHER_HDR_SIZE \<equiv> (18 :: nat)"
abbreviation (input) "E802_HDR_SIZE \<equiv> (22 :: nat)"
abbreviation (input) "IP_HDR_SIZE \<equiv> (28 :: nat)"
abbreviation (input) "IP_HDR_SIZE_NO_UDP \<equiv> (20 :: nat)"
abbreviation (input) "ARP_HDR_SIZE \<equiv> (28 :: nat)"
abbreviation (input) "ARP_TIMEOUT \<equiv> (5000 :: u32)"
abbreviation (input) "ARP_TIMEOUT_COUNT \<equiv> (5 :: int)"

section \<open>Bytes\<close>

definition be16 :: "u32 \<Rightarrow> u8 list" where
  "be16 w = [ucast (drop_bit 8 w), ucast w]"

definition get16 :: "u8 list \<Rightarrow> nat \<Rightarrow> u32 option" where
  "get16 buf i = do { a \<leftarrow> rd buf i; b \<leftarrow> rd buf (i + 1); Some (push_bit 8 (ucast a) OR ucast b) }"

text \<open>\<open>memcpy\<close> into a buffer, and out of it.\<close>

definition put :: "nat \<Rightarrow> 'a list \<Rightarrow> 'a list \<Rightarrow> 'a list option" where
  "put i xs buf = (if i + length xs \<le> length buf then Some (take i buf @ xs @ drop (i + length xs) buf) else None)"

definition slice :: "nat \<Rightarrow> nat \<Rightarrow> 'a list \<Rightarrow> 'a list option" where
  "slice i n buf = (if i + n \<le> length buf then Some (take n (drop i buf)) else None)"

definition NetReadIP :: "u8 list \<Rightarrow> nat \<Rightarrow> u32 option" where
  "NetReadIP buf i = do { a \<leftarrow> rd buf i; b \<leftarrow> rd buf (i + 1); c \<leftarrow> rd buf (i + 2); d \<leftarrow> rd buf (i + 3); Some (load_be32 a b c d) }"

section \<open>Checksums\<close>

fun cksum_loop :: "nat \<Rightarrow> u32 \<Rightarrow> u8 list \<Rightarrow> u32 option" where
  "cksum_loop 0 xsum p = Some xsum"
| "cksum_loop (Suc len) xsum (a # b # p) = cksum_loop len (xsum + (push_bit 8 (ucast a) OR ucast b)) p"
| "cksum_loop (Suc len) xsum _ = None"

definition cksum_fold :: "u32 \<Rightarrow> u32" where
  "cksum_fold xsum = (xsum AND 0xffff) + drop_bit 16 xsum"

definition NetCksum :: "u8 list \<Rightarrow> nat \<Rightarrow> u32 option" where
  "NetCksum p len = do { xsum \<leftarrow> cksum_loop len 0 p; Some (cksum_fold (cksum_fold xsum) AND 0xffff) }"

definition NetCksumOk :: "u8 list \<Rightarrow> nat \<Rightarrow> bool option" where
  "NetCksumOk p len = do { c \<leftarrow> NetCksum p len; Some ((c + 1) AND 0xfffe = 0) }"

section \<open>Headers\<close>

definition myvlanid :: "'a net_scheme \<Rightarrow> u16" where
  "myvlanid n = (if NetOurVLAN n = -1 then VLAN_NONE else NetOurVLAN n)"

definition NetEthHdrSize :: "'a net_scheme \<Rightarrow> nat" where
  "NetEthHdrSize n = (if myvlanid n AND VLAN_IDMASK = VLAN_NONE then ETHER_HDR_SIZE else VLAN_ETHER_HDR_SIZE)"

definition NetSetEther :: "'a net_scheme \<Rightarrow> u8 list \<Rightarrow> u32 \<Rightarrow> u8 list \<Rightarrow> (nat \<times> u8 list) option" where
  "NetSetEther n addr prot buf = do {
     buf \<leftarrow> put 0 addr buf;
     buf \<leftarrow> put 6 (NetOurEther n) buf;
     if myvlanid n AND VLAN_IDMASK = VLAN_NONE then do {
       buf \<leftarrow> put 12 (be16 prot) buf;
       Some (ETHER_HDR_SIZE, buf)
     } else do {
       buf \<leftarrow> put 12 (be16 PROT_VLAN @ be16 (ucast (myvlanid n AND VLAN_IDMASK)) @ be16 prot) buf;
       Some (VLAN_ETHER_HDR_SIZE, buf)
     }
   }"

text \<open>The header with \<open>ip_sum\<close> still 0, and \<open>NetSetIP\<close> at an offset of a buffer.\<close>

definition ip_header :: "'a net_scheme \<Rightarrow> u32 \<Rightarrow> u32 \<Rightarrow> u8 \<Rightarrow> u8 list" where
  "ip_header n dest iplen p =
     [0x45, 0] @ be16 iplen @ be16 (NetIPID n) @ be16 0x4000 @ [255, p] @ be16 0 @ store_be32 (NetOurIP n) @ store_be32 dest"

definition NetSetIP :: "nat \<Rightarrow> u32 \<Rightarrow> u32 \<Rightarrow> u32 \<Rightarrow> nat \<Rightarrow> u8 list \<Rightarrow> 'a net_scheme \<Rightarrow> (u8 list \<times> 'a net_scheme) option" where
  "NetSetIP off dest dport sport len buf n = do {
     buf \<leftarrow> (if odd len then put (off + IP_HDR_SIZE + len) [0] buf else Some buf);
     buf \<leftarrow> put off (ip_header n dest (of_nat (IP_HDR_SIZE + len)) 17 @
       be16 sport @ be16 dport @ be16 (of_nat (8 + len)) @ be16 0) buf;
     sum \<leftarrow> NetCksum (drop off buf) (IP_HDR_SIZE_NO_UDP div 2);
     buf \<leftarrow> put (off + 10) (be16 (NOT sum)) buf;
     Some (buf, n\<lparr>NetIPID := NetIPID n + 1\<rparr>)
   }"

section \<open>Sending\<close>

definition ether_at :: "ether_ptr \<Rightarrow> 'a net_scheme \<Rightarrow> u8 list" where
  "ether_at p n = (case p of Ptr_NetServerEther \<Rightarrow> NetServerEther n | Ptr_NetBcastAddr \<Rightarrow> NetBcastAddr n | Ptr_ping_mac \<Rightarrow> ping_mac n)"

definition ether_set :: "ether_ptr \<Rightarrow> u8 list \<Rightarrow> 'a net_scheme \<Rightarrow> 'a net_scheme" where
  "ether_set p a n = (case p of Ptr_NetServerEther \<Rightarrow> n\<lparr>NetServerEther := a\<rparr> | Ptr_NetBcastAddr \<Rightarrow> n\<lparr>NetBcastAddr := a\<rparr>
     | Ptr_ping_mac \<Rightarrow> n\<lparr>ping_mac := a\<rparr>)"

definition arp_reply_ip :: "'a net_scheme \<Rightarrow> u32" where
  "arp_reply_ip n =
     (if NetArpWaitPacketIP n AND NetOurSubnetMask n \<noteq> NetOurIP n AND NetOurSubnetMask n
      then if NetOurGatewayIP n = 0 then NetArpWaitPacketIP n else NetOurGatewayIP n
      else NetArpWaitPacketIP n)"

definition ArpRequest :: "'a net_scheme \<Rightarrow> 'a net_scheme option" where
  "ArpRequest n = do {
     (h, pkt) \<leftarrow> NetSetEther n (NetBcastAddr n) PROT_ARP (NetTxPacket n);
     let n = n\<lparr>NetArpWaitReplyIP := arp_reply_ip n\<rparr>;
     pkt \<leftarrow> put h (be16 1 @ be16 PROT_IP @ [6, 4] @ be16 1 @ NetOurEther n @ store_be32 (NetOurIP n) @
       replicate 6 0 @ store_be32 (NetArpWaitReplyIP n)) pkt;
     let n = n\<lparr>NetTxPacket := pkt\<rparr>;
     Some (eth_send (take (h + ARP_HDR_SIZE) pkt) n)
   }"

text \<open>A packet that waits for the address of its destination, and the request for it.\<close>

definition arp_wait :: "u32 \<Rightarrow> ether_ptr \<Rightarrow> u8 list \<Rightarrow> nat \<Rightarrow> 'a net_scheme \<Rightarrow> 'a net_scheme option" where
  "arp_wait dest ether pkt sz n =
     ArpRequest (n\<lparr>NetArpWaitPacketIP := dest, NetArpWaitPacketMAC := Some ether, NetArpWaitTxPacket := pkt,
       NetArpWaitTxPacketSize := sz, NetArpWaitTry := 1, NetArpWaitTimerStart := now n\<rparr>)"

text \<open>The payload is in \<open>NetTxPacket\<close> already, behind the headers. The result tells whether the packet has
  been sent (0) or waits (1).\<close>

definition NetSendUDPPacket :: "ether_ptr \<Rightarrow> u32 \<Rightarrow> u32 \<Rightarrow> u32 \<Rightarrow> nat \<Rightarrow> 'a net_scheme \<Rightarrow> (int \<times> 'a net_scheme) option" where
  "NetSendUDPPacket ether dest dport sport len n = do {
     payload \<leftarrow> slice (NetEthHdrSize n + IP_HDR_SIZE) len (NetTxPacket n);
     let n = n\<lparr>udp_log := udp_log n @ [(dest, dport, sport, payload)]\<rparr>;
     let dest = (if dest = 0 then 0xffffffff else dest);
     let ether = (if dest = 0xffffffff then Ptr_NetBcastAddr else ether);
     if ether_at ether n = replicate 6 0 then do {
       (h, pkt) \<leftarrow> NetSetEther n (ether_at ether n) PROT_IP (NetArpWaitTxPacket n);
       (pkt, n) \<leftarrow> NetSetIP h dest dport sport len pkt n;
       data \<leftarrow> slice (h + IP_HDR_SIZE) len (NetTxPacket n);
       pkt \<leftarrow> put (h + IP_HDR_SIZE) data pkt;
       n \<leftarrow> arp_wait dest ether pkt (h + IP_HDR_SIZE + len) n;
       Some (1, n)
     } else do {
       (h, pkt) \<leftarrow> NetSetEther n (ether_at ether n) PROT_IP (NetTxPacket n);
       (pkt, n) \<leftarrow> NetSetIP h dest dport sport len pkt n;
       Some (0, eth_send (take (h + IP_HDR_SIZE + len) pkt) (n\<lparr>NetTxPacket := pkt\<rparr>))
     }
   }"

definition PingSend :: "'a net_scheme \<Rightarrow> 'a net_scheme option" where
  "PingSend n = do {
     let n = n\<lparr>ping_mac := replicate 6 0\<rparr>;
     (h, pkt) \<leftarrow> NetSetEther n (ping_mac n) PROT_IP (NetArpWaitTxPacket n);
     pkt \<leftarrow> put h (ip_header n (NetPingIP n) (of_nat (IP_HDR_SIZE_NO_UDP + 8)) 1) pkt;
     sum \<leftarrow> NetCksum (drop h pkt) (IP_HDR_SIZE_NO_UDP div 2);
     pkt \<leftarrow> put (h + 10) (be16 (NOT sum)) pkt;
     pkt \<leftarrow> put (h + IP_HDR_SIZE_NO_UDP) (be16 0x0800 @ be16 0 @ be16 0 @ be16 (ucast (PingSeqNo n))) pkt;
     sum \<leftarrow> NetCksum (drop (h + IP_HDR_SIZE_NO_UDP) pkt) (8 div 2);
     pkt \<leftarrow> put (h + IP_HDR_SIZE_NO_UDP + 2) (be16 (NOT sum)) pkt;
     arp_wait (NetPingIP n) Ptr_ping_mac pkt (h + IP_HDR_SIZE_NO_UDP + 8)
       (n\<lparr>NetIPID := NetIPID n + 1, PingSeqNo := PingSeqNo n + 1\<rparr>)
   }"

section \<open>Handlers, timeouts and starting again\<close>

definition NetSetTimeout :: "u32 \<Rightarrow> thand \<Rightarrow> 'a net_scheme \<Rightarrow> 'a net_scheme" where
  "NetSetTimeout iv f n =
     (if iv = 0 then n\<lparr>timeHandler := None\<rparr> else n\<lparr>timeHandler := Some f, timeStart := now n, timeDelta := iv\<rparr>)"

definition NetSetHandler :: "rxhand \<Rightarrow> 'a net_scheme \<Rightarrow> 'a net_scheme" where
  "NetSetHandler f n = n\<lparr>packetHandler := f\<rparr>"

text \<open>\<open>eth_init\<close> always returns, by \<open>eth_init_first_working\<close>; its result is not used here.\<close>

definition eth_restart :: "(nat \<Rightarrow> bool) \<Rightarrow> 'a net_scheme \<Rightarrow> 'a net_scheme" where
  "eth_restart drv n = (case eth_init drv n of Some (_, n') \<Rightarrow> n' | None \<Rightarrow> n)"

definition NetStartAgain :: "(nat \<Rightarrow> bool) \<Rightarrow> 'a net_scheme \<Rightarrow> 'a net_scheme" where
  "NetStartAgain drv n =
     (let (retry_forever, retrycnt) =
        (case environment n ''netretry'' of
           None \<Rightarrow> (True, 0)
         | Some nretry \<Rightarrow>
             if nretry = ''yes'' then (True, 0)
             else if nretry = ''no'' then (False, 0)
             else if nretry = ''once'' then (False, 1)
             else (False, fst (simple_strtoul nretry 0)))
      in if \<not> retry_forever \<and> NetTryCount n \<ge> retrycnt then (eth_halt n)\<lparr>NetState := NETLOOP_FAIL\<rparr>
         else
           let n = n\<lparr>NetTryCount := NetTryCount n + 1\<rparr>;
               n = eth_halt n;
               n = eth_try_another (\<not> NetRestarted n) n;
               n = eth_restart drv n
           in if NetRestartWrap n then
                let n = n\<lparr>NetRestartWrap := False\<rparr>
                in if NetDevExists n
                   then NetSetHandler StartAgain_handler (NetSetTimeout 10000 StartAgain_timeout n)
                   else n\<lparr>NetState := NETLOOP_FAIL\<rparr>
              else n\<lparr>NetState := NETLOOP_RESTART\<rparr>)"

definition startAgainTimeout :: "'a net_scheme \<Rightarrow> 'a net_scheme" where
  "startAgainTimeout n = n\<lparr>NetState := NETLOOP_RESTART\<rparr>"

definition ArpTimeoutCheck :: "(nat \<Rightarrow> bool) \<Rightarrow> 'a net_scheme \<Rightarrow> 'a net_scheme option" where
  "ArpTimeoutCheck drv n =
     (if NetArpWaitPacketIP n = 0 then Some n
      else if now n - NetArpWaitTimerStart n > ARP_TIMEOUT then
        let n = n\<lparr>NetArpWaitTry := NetArpWaitTry n + 1\<rparr>
        in if NetArpWaitTry n \<ge> ARP_TIMEOUT_COUNT
           then Some (NetStartAgain drv (n\<lparr>NetArpWaitTry := 0\<rparr>))
           else ArpRequest (n\<lparr>NetArpWaitTimerStart := now n\<rparr>)
      else Some n)"

definition PingTimeout :: "'a net_scheme \<Rightarrow> 'a net_scheme" where
  "PingTimeout n = (eth_halt n)\<lparr>NetState := NETLOOP_FAIL\<rparr>"

definition PingHandler :: "u8 list \<Rightarrow> 'a net_scheme \<Rightarrow> 'a net_scheme option" where
  "PingHandler pkt n = do {
     tmp \<leftarrow> NetReadIP pkt 12;
     Some (if tmp \<noteq> NetPingIP n then n else n\<lparr>NetState := NETLOOP_SUCCESS\<rparr>)
   }"

definition PingStart :: "'a net_scheme \<Rightarrow> 'a net_scheme option" where
  "PingStart n = PingSend (NetSetHandler Ping_handler (NetSetTimeout 10000 Ping_timeout n))"

section \<open>Receiving\<close>

text \<open>A call of the packet handler: the packet, if any, the ports and the length.\<close>

type_synonym handler_call = "u8 list option \<times> u32 \<times> u32 \<times> u32"

text \<open>An ARP packet at the offset \<open>off\<close> of the receive buffer, answered in place.\<close>

definition arp_request :: "nat \<Rightarrow> u8 list \<Rightarrow> 'a net_scheme \<Rightarrow> 'a net_scheme option" where
  "arp_request off pkt n = do {
     src \<leftarrow> slice 6 6 pkt;
     (h, pkt) \<leftarrow> NetSetEther n src PROT_ARP pkt;
     pkt \<leftarrow> put (off + 6) (be16 2) pkt;
     sha \<leftarrow> slice (off + 8) 6 pkt;
     pkt \<leftarrow> put (off + 18) sha pkt;
     spa \<leftarrow> slice (off + 14) 4 pkt;
     pkt \<leftarrow> put (off + 24) spa pkt;
     pkt \<leftarrow> put (off + 8) (NetOurEther n) pkt;
     pkt \<leftarrow> put (off + 14) (store_be32 (NetOurIP n)) pkt;
     Some (eth_send (take (h + ARP_HDR_SIZE) pkt) n)
   }"

definition arp_reply :: "nat \<Rightarrow> u8 list \<Rightarrow> 'a net_scheme \<Rightarrow> 'a net_scheme option" where
  "arp_reply off pkt n =
     (case NetArpWaitPacketMAC n of
        None \<Rightarrow> Some n
      | Some ether \<Rightarrow>
          if NetArpWaitPacketIP n = 0 then Some n
          else do {
            tmp \<leftarrow> NetReadIP pkt (off + 14);
            if tmp = NetArpWaitReplyIP n then do {
              sha \<leftarrow> slice (off + 8) 6 pkt;
              let n = ether_set ether sha n;
              tx \<leftarrow> put 0 (ether_at ether n) (NetArpWaitTxPacket n);
              let n = eth_send (take (NetArpWaitTxPacketSize n) tx) (n\<lparr>NetArpWaitTxPacket := tx\<rparr>);
              Some (n\<lparr>NetArpWaitPacketIP := 0, NetArpWaitTxPacketSize := 0, NetArpWaitPacketMAC := None\<rparr>)
            } else Some n
          })"

definition receive_arp :: "nat \<Rightarrow> int \<Rightarrow> u8 list \<Rightarrow> 'a net_scheme \<Rightarrow> 'a net_scheme option" where
  "receive_arp off len pkt n =
     (if len < int ARP_HDR_SIZE then Some n
      else do {
        hrd \<leftarrow> get16 pkt off;
        pro \<leftarrow> get16 pkt (off + 2);
        hln \<leftarrow> rd pkt (off + 4);
        pln \<leftarrow> rd pkt (off + 5);
        tpa \<leftarrow> NetReadIP pkt (off + 24);
        oper \<leftarrow> get16 pkt (off + 6);
        if hrd \<noteq> 1 \<or> pro \<noteq> PROT_IP \<or> hln \<noteq> 6 \<or> pln \<noteq> 4 \<or> NetOurIP n = 0 \<or> tpa \<noteq> NetOurIP n then Some n
        else if oper = 1 then arp_request off pkt n
        else if oper = 2 then arp_reply off pkt n
        else Some n
      })"

definition receive_rarp :: "nat \<Rightarrow> int \<Rightarrow> u8 list \<Rightarrow> 'a net_scheme \<Rightarrow> (handler_call option \<times> 'a net_scheme) option" where
  "receive_rarp off len pkt n =
     (if len < int ARP_HDR_SIZE then Some (None, n)
      else do {
        oper \<leftarrow> get16 pkt (off + 6);
        hrd \<leftarrow> get16 pkt off;
        pro \<leftarrow> get16 pkt (off + 2);
        hln \<leftarrow> rd pkt (off + 4);
        pln \<leftarrow> rd pkt (off + 5);
        if oper \<noteq> 4 \<or> hrd \<noteq> 1 \<or> pro \<noteq> PROT_IP \<or> hln \<noteq> 6 \<or> pln \<noteq> 4 then Some (None, n)
        else do {
          our \<leftarrow> NetReadIP pkt (off + 24);
          srv \<leftarrow> NetReadIP pkt (off + 14);
          sha \<leftarrow> slice (off + 8) 6 pkt;
          let n = n\<lparr>NetOurIP := our\<rparr>;
          let n = (if NetServerIP n = 0 then n\<lparr>NetServerIP := srv\<rparr> else n);
          Some (Some (None, 0, 0, 0), n\<lparr>NetServerEther := sha\<rparr>)
        }
      })"

text \<open>An echo request, answered in place. The number of words of the second checksum is computed without
  sign, \<open>len\<close> being the length in the IP header.\<close>

definition echo_reply :: "nat \<Rightarrow> nat \<Rightarrow> u8 list \<Rightarrow> 'a net_scheme \<Rightarrow> 'a net_scheme option" where
  "echo_reply off len pkt n = do {
     src \<leftarrow> slice 6 6 pkt;
     pkt \<leftarrow> put 0 src pkt;
     pkt \<leftarrow> put 6 (NetOurEther n) pkt;
     pkt \<leftarrow> put (off + 10) (be16 0) pkt;
     pkt \<leftarrow> put (off + 6) (be16 0) pkt;
     ip_src \<leftarrow> slice (off + 12) 4 pkt;
     pkt \<leftarrow> put (off + 16) ip_src pkt;
     pkt \<leftarrow> put (off + 12) (store_be32 (NetOurIP n)) pkt;
     sum \<leftarrow> NetCksum (drop off pkt) (IP_HDR_SIZE_NO_UDP div 2);
     pkt \<leftarrow> put (off + 10) (be16 (NOT sum)) pkt;
     pkt \<leftarrow> put (off + 20) [0] pkt;
     pkt \<leftarrow> put (off + 22) (be16 0) pkt;
     sum \<leftarrow> NetCksum (drop (off + 20) pkt) (unat (drop_bit 1 (of_nat len - of_nat IP_HDR_SIZE_NO_UDP :: u32)));
     pkt \<leftarrow> put (off + 22) (be16 (NOT sum)) pkt;
     frame \<leftarrow> slice 0 (ETHER_HDR_SIZE + len) pkt;
     Some (eth_send frame n)
   }"

text \<open>An IP packet at the offset \<open>off\<close>. The comparison of \<open>len\<close> with the size of the header is one of unsigned
  numbers, that with the length in the header one of signed numbers.\<close>

definition receive_ip :: "nat \<Rightarrow> int \<Rightarrow> u8 list \<Rightarrow> 'a net_scheme \<Rightarrow> (handler_call option \<times> 'a net_scheme) option" where
  "receive_ip off len pkt n =
     (if unat (of_int len :: u32) < IP_HDR_SIZE then Some (None, n)
      else do {
        ip_len \<leftarrow> get16 pkt (off + 2);
        if len < int (unat ip_len) then Some (None, n)
        else do {
          hl_v \<leftarrow> rd pkt off;
          ok \<leftarrow> NetCksumOk (drop off pkt) (IP_HDR_SIZE_NO_UDP div 2);
          dst \<leftarrow> NetReadIP pkt (off + 16);
          ip_off \<leftarrow> get16 pkt (off + 6);
          p \<leftarrow> rd pkt (off + 9);
          if hl_v AND 0xf0 \<noteq> 0x40 \<or> hl_v AND 0x0f > 0x05 \<or> \<not> ok then Some (None, n)
          else if NetOurIP n \<noteq> 0 \<and> dst \<noteq> NetOurIP n \<and> dst \<noteq> 0xffffffff then Some (None, n)
          else if ip_off AND (0x1fff OR 0x2000) \<noteq> 0 then Some (None, n)
          else if p = 1 then do {
            t \<leftarrow> rd pkt (off + 20);
            if t = 0 then Some (Some (Some (drop off pkt), 0, 0, 0), n)
            else if t = 8 then do { n \<leftarrow> echo_reply off (unat ip_len) pkt n; Some (None, n) }
            else Some (None, n)
          }
          else if p \<noteq> 17 then Some (None, n)
          else do {
            udp_src \<leftarrow> get16 pkt (off + 20);
            udp_dst \<leftarrow> get16 pkt (off + 22);
            udp_len \<leftarrow> get16 pkt (off + 24);
            Some (Some (Some (drop (off + IP_HDR_SIZE) pkt), udp_dst, udp_src, udp_len - 8), n)
          }
        }
      })"

text \<open>\<open>NetReceive\<close> up to the call of the packet handler: the protocol, the offset of the packet and the rest of
  the length, then the VLAN filter.\<close>

definition frame_payload :: "u8 list \<Rightarrow> int \<Rightarrow> 'a net_scheme \<Rightarrow> (u32 \<times> nat \<times> int \<times> u16) option option" where
  "frame_payload inpkt len n = do {
     x \<leftarrow> get16 inpkt 12;
     if x < 1514 then do {
       x \<leftarrow> get16 inpkt 20;
       Some (Some (x, E802_HDR_SIZE, len - int E802_HDR_SIZE, VLAN_NONE))
     }
     else if x \<noteq> PROT_VLAN then Some (Some (x, ETHER_HDR_SIZE, len - int ETHER_HDR_SIZE, VLAN_NONE))
     else if len < int VLAN_ETHER_HDR_SIZE \<or> NetOurVLAN n AND VLAN_IDMASK = VLAN_NONE then Some None
     else do {
       cti \<leftarrow> get16 inpkt 14;
       x \<leftarrow> get16 inpkt 16;
       Some (Some (x, VLAN_ETHER_HDR_SIZE, len - int VLAN_ETHER_HDR_SIZE, ucast cti AND VLAN_IDMASK))
     }
   }"

definition vlan_accepts :: "u16 \<Rightarrow> 'a net_scheme \<Rightarrow> bool" where
  "vlan_accepts vlanid n =
     (let my = myvlanid n;
          mynvlanid = (if NetOurNativeVLAN n = -1 then VLAN_NONE else NetOurNativeVLAN n)
      in my AND VLAN_IDMASK \<noteq> VLAN_NONE \<longrightarrow>
         (if vlanid = VLAN_NONE then mynvlanid AND VLAN_IDMASK else vlanid) = my AND VLAN_IDMASK)"

definition receive_frame :: "u8 list \<Rightarrow> int \<Rightarrow> 'a net_scheme \<Rightarrow> (handler_call option \<times> 'a net_scheme) option" where
  "receive_frame inpkt len n =
     (if len < int ETHER_HDR_SIZE then Some (None, n)
      else do {
        f \<leftarrow> frame_payload inpkt len n;
        case f of None \<Rightarrow> Some (None, n)
        | Some (x, off, len, vlanid) \<Rightarrow>
            if \<not> vlan_accepts vlanid n then Some (None, n)
            else if x = PROT_ARP then do { n \<leftarrow> receive_arp off len inpkt n; Some (None, n) }
            else if x = PROT_RARP then receive_rarp off len inpkt n
            else if x = PROT_IP then receive_ip off len inpkt n
            else Some (None, n)
      })"

definition NetReceive :: "u8 list \<Rightarrow> int \<Rightarrow> 'a net_scheme \<Rightarrow> (handler_call option \<times> 'a net_scheme) option" where
  "NetReceive inpkt len n = receive_frame inpkt len (n\<lparr>NetRxPacket := inpkt, NetRxPacketLen := len\<rparr>)"

end
