(* ===== verification/Tftp.thy ===== *)
theory Tftp
  imports Net
begin

text \<open>
  net/tftp.c, the TFTP client, with \<open>string_to_ip\<close> of lib/net_utils.c. The file-level variables of
  the C code, and the global variables of the transfer, are the fields of a record that extends
  the network state; \<open>ram\<close> is the memory the file is loaded to. A received datagram is given by its
  length and the receive buffer that holds it, so that reading behind the datagram is visible.
  Progress output is left out; \<open>None\<close> is an access outside of a buffer.
\<close>

section \<open>State\<close>

datatype tftp_phase = STATE_RRQ | STATE_DATA | STATE_TOO_LARGE | STATE_BAD_MAGIC | STATE_OACK

record tftp = net +
  TftpServerIP :: u32
  TftpServerPort :: u32
  TftpOurPort :: u32
  TftpTimeoutCount :: int
  TftpTimeoutCountMax :: int
  TftpTimeoutMSecs :: u32
  TftpRRQTimeoutCountMax :: int
  TftpBlock :: u32
  TftpLastBlock :: u32
  TftpBlockWrap :: u32
  TftpBlockWrapOffset :: u32
  TftpState :: tftp_phase
  TftpBlkSize :: u16
  TftpBlkSizeOption :: u16
  tftp_filename :: string
  BootFile :: string
  NetBootFileXferSize :: u32
  tf_load_addr :: u32
  ram :: mem

abbreviation (input) "TIMEOUT_COUNT \<equiv> (10 :: int)"
abbreviation (input) "WELL_KNOWN_PORT \<equiv> (69 :: u32)"
abbreviation (input) "TFTP_BLOCK_SIZE \<equiv> (512 :: u16)"
abbreviation (input) "MAX_LEN \<equiv> (128 :: nat)"

section \<open>Packets\<close>

definition bytes_of :: "string \<Rightarrow> u8 list" where
  "bytes_of s = map byte_of s"

definition cstr :: "string \<Rightarrow> u8 list" where
  "cstr s = bytes_of s @ [0]"

text \<open>The packet \<open>TftpSend\<close> assembles behind the headers of the transmit buffer.\<close>

definition tftp_message :: "tftp \<Rightarrow> u8 list" where
  "tftp_message t =
     (case TftpState t of
        STATE_RRQ \<Rightarrow>
          be16 1 @ cstr (tftp_filename t) @ cstr ''octet'' @ cstr ''timeout'' @
          cstr (sprintf_text ''%lu'' [VInt (TftpTimeoutMSecs t div 1000)]) @
          bytes_of (sprintf_text ''blksize%c%d%c'' [VInt 0, VInt (ucast (TftpBlkSizeOption t)), VInt 0])
      | STATE_OACK \<Rightarrow> be16 4 @ be16 (TftpBlock t)
      | STATE_DATA \<Rightarrow> be16 4 @ be16 (TftpBlock t)
      | STATE_TOO_LARGE \<Rightarrow> be16 5 @ be16 3 @ cstr ''File too large''
      | STATE_BAD_MAGIC \<Rightarrow> be16 5 @ be16 2 @ cstr ''File has bad magic'')"

definition TftpSend :: "tftp \<Rightarrow> tftp option" where
  "TftpSend t = do {
     let msg = tftp_message t;
     pkt \<leftarrow> put (NetEthHdrSize t + IP_HDR_SIZE) msg (NetTxPacket t);
     (rc, t) \<leftarrow> NetSendUDPPacket Ptr_NetServerEther (TftpServerIP t) (TftpServerPort t) (TftpOurPort t) (length msg)
       (t\<lparr>NetTxPacket := pkt\<rparr>);
     Some t
   }"

section \<open>Receiving\<close>

fun store_bytes :: "mem \<Rightarrow> u32 \<Rightarrow> u8 list \<Rightarrow> mem" where
  "store_bytes m a [] = m"
| "store_bytes m a (b # bs) = store_bytes (m(a := b)) (a + 1) bs"

definition store_block :: "u32 \<Rightarrow> u8 list \<Rightarrow> tftp \<Rightarrow> tftp" where
  "store_block block data t =
     (let offset = block * ucast (TftpBlkSize t) + TftpBlockWrapOffset t;
          newsize = offset + of_nat (length data)
      in t\<lparr>ram := store_bytes (ram t) (tf_load_addr t + offset) data,
           NetBootFileXferSize := (if NetBootFileXferSize t < newsize then newsize else NetBootFileXferSize t)\<rparr>)"

text \<open>The string at an index of the receive buffer.\<close>

definition string_at :: "u8 list \<Rightarrow> nat \<Rightarrow> string" where
  "string_at buf i = map char_of_byte (takeWhile (\<lambda>b. b \<noteq> 0) (drop i buf))"

text \<open>The search for the option \<open>blksize\<close> in an OACK, whose options start at index 2 of the buffer.\<close>

definition oack_blksize :: "u8 list \<Rightarrow> nat \<Rightarrow> u16 \<Rightarrow> u16" where
  "oack_blksize buf len blksize =
     foldl (\<lambda>sz i. if string_at buf (2 + i) = ''blksize''
                   then ucast (fst (simple_strtoul (string_at buf (2 + i + 8)) 10)) else sz)
       blksize [0..<len - 8]"

definition handle_oack :: "u32 \<Rightarrow> nat \<Rightarrow> u8 list \<Rightarrow> tftp \<Rightarrow> tftp option" where
  "handle_oack src len buf t =
     TftpSend (t\<lparr>TftpState := STATE_OACK, TftpServerPort := src, TftpBlkSize := oack_blksize buf len (TftpBlkSize t)\<rparr>)"

text \<open>A data packet: the block number, with the memory offset that a wrap-around of the 16-bit counter
  adds; the first packet of a transfer; and a packet that is not a repetition.\<close>

definition count_block :: "u32 \<Rightarrow> tftp \<Rightarrow> tftp" where
  "count_block block t =
     (if block = 0
      then t\<lparr>TftpBlock := block, TftpBlockWrap := TftpBlockWrap t + 1,
             TftpBlockWrapOffset := TftpBlockWrapOffset t + ucast (TftpBlkSize t) * 0x10000\<rparr>
      else t\<lparr>TftpBlock := block\<rparr>)"

definition first_block :: "u32 \<Rightarrow> tftp \<Rightarrow> tftp" where
  "first_block src t = t\<lparr>TftpState := STATE_DATA, TftpServerPort := src, TftpLastBlock := 0,
     TftpBlockWrap := 0, TftpBlockWrapOffset := 0\<rparr>"

definition store_data :: "u32 \<Rightarrow> u8 list \<Rightarrow> tftp \<Rightarrow> tftp" where
  "store_data block data t =
     (let t = t\<lparr>TftpLastBlock := block, TftpTimeoutCountMax := TIMEOUT_COUNT\<rparr>;
          t = NetSetTimeout (TftpTimeoutMSecs t) Tftp_timeout t
      in store_block (block - 1) data t)"

definition accept_data :: "u32 \<Rightarrow> u8 list \<Rightarrow> tftp \<Rightarrow> tftp option" where
  "accept_data block data t = do {
     t \<leftarrow> TftpSend (store_data block data t);
     Some (if length data < unat (TftpBlkSize t) then t\<lparr>NetState := NETLOOP_SUCCESS\<rparr> else t)
   }"

definition handle_data :: "(nat \<Rightarrow> bool) \<Rightarrow> u32 \<Rightarrow> nat \<Rightarrow> u8 list \<Rightarrow> tftp \<Rightarrow> tftp option" where
  "handle_data drv src len buf t =
     (if len < 2 then Some t
      else do {
        let len = len - 2;
        block \<leftarrow> get16 buf 2;
        let t = count_block block t;
        let first = (TftpState t = STATE_RRQ \<or> TftpState t = STATE_OACK);
        let t = (if first then first_block src t else t);
        if first \<and> block \<noteq> 1 then Some (NetStartAgain drv t)
        else if block = TftpLastBlock t then Some t
        else if 4 + len \<le> length buf then accept_data block (take len (drop 4 buf)) t
        else None
      })"

definition handle_error :: "(nat \<Rightarrow> bool) \<Rightarrow> u8 list \<Rightarrow> tftp \<Rightarrow> tftp option" where
  "handle_error drv buf t = do {
     e \<leftarrow> get16 buf 2;
     Some (if e = 1 \<or> e = 2 then (eth_halt t)\<lparr>NetState := NETLOOP_FAIL\<rparr> else NetStartAgain drv t)
   }"

text \<open>\<open>TftpHandler(pkt, dest, src, len)\<close>; \<open>drv\<close> says which network devices can be started.\<close>

definition TftpHandler :: "(nat \<Rightarrow> bool) \<Rightarrow> u32 \<Rightarrow> u32 \<Rightarrow> nat \<Rightarrow> u8 list \<Rightarrow> tftp \<Rightarrow> tftp option" where
  "TftpHandler drv dest src len buf t =
     (if dest \<noteq> TftpOurPort t then Some t
      else if TftpState t \<noteq> STATE_RRQ \<and> src \<noteq> TftpServerPort t then Some t
      else if len < 2 then Some t
      else do {
        let len = len - 2;
        proto \<leftarrow> get16 buf 0;
        if proto = 6 then handle_oack src len buf t
        else if proto = 3 then handle_data drv src len buf t
        else if proto = 5 then handle_error drv buf t
        else Some t
      })"

definition TftpTimeout :: "(nat \<Rightarrow> bool) \<Rightarrow> tftp \<Rightarrow> tftp option" where
  "TftpTimeout drv t =
     (let t = t\<lparr>TftpTimeoutCount := TftpTimeoutCount t + 1\<rparr>
      in if TftpTimeoutCount t > TftpTimeoutCountMax t then Some (NetStartAgain drv t)
         else TftpSend (NetSetTimeout (TftpTimeoutMSecs t) Tftp_timeout t))"

section \<open>Starting a transfer\<close>

text \<open>\<open>string_to_ip\<close>; \<open>htonl\<close> is the identity on the target.\<close>

fun string_to_ip_loop :: "nat \<Rightarrow> u32 \<Rightarrow> string \<Rightarrow> u32" where
  "string_to_ip_loop 0 addr s = addr"
| "string_to_ip_loop (Suc i) addr s =
     (let (val, e) = simple_strtoul s 10
      in string_to_ip_loop i (push_bit 8 addr OR (val AND 0xff)) (if e \<noteq> [] then tl e else e))"

definition string_to_ip :: "string option \<Rightarrow> u32" where
  "string_to_ip s = (case s of None \<Rightarrow> 0 | Some s \<Rightarrow> string_to_ip_loop 4 0 s)"

definition default_filename :: "u32 \<Rightarrow> string" where
  "default_filename ip = sprintf_text ''%02lX%02lX%02lX%02lX.img''
     [VInt (ip AND 0xff), VInt (drop_bit 8 ip AND 0xff), VInt (drop_bit 16 ip AND 0xff), VInt (drop_bit 24 ip AND 0xff)]"

text \<open>\<open>strncpy(tftp_filename, s, MAX_LEN)\<close> and the terminating NUL.\<close>

definition copy_name :: "string \<Rightarrow> string" where
  "copy_name s = take (MAX_LEN - 1) s"

text \<open>\<open>TftpStart\<close> up to the request it sends.\<close>

definition tftp_prepare :: "tftp \<Rightarrow> tftp" where
  "tftp_prepare t =
     (let t = (case environment t ''tftpblocksize'' of None \<Rightarrow> t
               | Some ep \<Rightarrow> t\<lparr>TftpBlkSizeOption := ucast (fst (simple_strtol ep 10))\<rparr>);
          t = (case environment t ''tftptimeout'' of None \<Rightarrow> t
               | Some ep \<Rightarrow> t\<lparr>TftpTimeoutMSecs := fst (simple_strtol ep 10)\<rparr>);
          t = (if TftpTimeoutMSecs t < 1000 then t\<lparr>TftpTimeoutMSecs := 1000\<rparr> else t);
          t = t\<lparr>TftpServerIP := NetServerIP t\<rparr>;
          t = (if BootFile t = [] then t\<lparr>tftp_filename := copy_name (default_filename (NetOurIP t))\<rparr>
               else case strchr (BootFile t) CHR '':'' of
                 None \<Rightarrow> t\<lparr>tftp_filename := copy_name (BootFile t)\<rparr>
               | Some p \<Rightarrow> t\<lparr>TftpServerIP := string_to_ip (Some (BootFile t)), tftp_filename := copy_name (drop (p + 1) (BootFile t))\<rparr>);
          t = t\<lparr>TftpTimeoutCountMax := TftpRRQTimeoutCountMax t\<rparr>;
          t = NetSetTimeout (TftpTimeoutMSecs t) Tftp_timeout t;
          t = NetSetHandler Tftp_handler t
      in t\<lparr>TftpServerPort := WELL_KNOWN_PORT, TftpTimeoutCount := 0, TftpState := STATE_RRQ,
                TftpOurPort := 1024 + (now t mod 3072), TftpBlock := 0, NetServerEther := replicate 6 0,
                TftpBlkSize := TFTP_BLOCK_SIZE\<rparr>)"

definition TftpStart :: "tftp \<Rightarrow> tftp option" where
  "TftpStart t = TftpSend (tftp_prepare t)"

end
