(* ===== verification/Bootp.thy ===== *)
theory Bootp
  imports Tftp
begin

text \<open>
  net/rarp.c and net/bootp.c as configured for the board (no DHCP, none of the \<open>CONFIG_BOOTP\<close> options): the
  protocols that find out the address of the machine and then, unless \<open>autoload\<close> says no, start the
  TFTP client. \<open>setenv_net\<close> is \<open>setenv\<close> with its effects on the network variables.
\<close>

section \<open>Environment variables that are kept elsewhere\<close>

definition setenv_net :: "string \<Rightarrow> string \<Rightarrow> tftp \<Rightarrow> tftp" where
  "setenv_net name val t =
     (let t = env_set name val t
      in if name = ''ipaddr'' then t\<lparr>bd_ip_addr := string_to_ip_loop 4 0 val\<rparr>
         else if name = ''loadaddr'' then t\<lparr>tf_load_addr := fst (simple_strtoul val 16)\<rparr>
         else if name = ''bootfile'' then t\<lparr>BootFile := copy_filename val 128\<rparr>
         else t)"

text \<open>The end of \<open>RarpHandler\<close> and \<open>BootpHandler\<close>: load a file unless \<open>autoload\<close> starts with an n.\<close>

definition autoload :: "tftp \<Rightarrow> tftp option" where
  "autoload t =
     (case environment t ''autoload'' of
        Some s \<Rightarrow> if peek s 0 = CHR ''n'' then Some (t\<lparr>NetState := NETLOOP_SUCCESS\<rparr>) else TftpStart t
      | None \<Rightarrow> TftpStart t)"

section \<open>RARP\<close>

abbreviation (input) "RARP_TIMEOUT \<equiv> (5000 :: u32)"
abbreviation (input) "RARP_TIMEOUT_COUNT \<equiv> (5 :: int)"

definition RarpHandler :: "tftp \<Rightarrow> tftp option" where
  "RarpHandler t = autoload t"

definition RarpRequest :: "tftp \<Rightarrow> tftp option" where
  "RarpRequest t = do {
     let t = t\<lparr>RarpTry := RarpTry t + 1\<rparr>;
     (h, pkt) \<leftarrow> NetSetEther t (NetBcastAddr t) PROT_RARP (NetTxPacket t);
     pkt \<leftarrow> put h (be16 1 @ be16 PROT_IP @ [6, 4] @ be16 3) pkt;
     pkt \<leftarrow> put (h + 8) (NetOurEther t) pkt;
     pkt \<leftarrow> put (h + 14) (store_be32 (NetOurIP t)) pkt;
     pkt \<leftarrow> put (h + 18) (NetOurEther t) pkt;
     pkt \<leftarrow> put (h + 24) (replicate 4 0xff) pkt;
     let t = eth_send (take (h + ARP_HDR_SIZE) pkt) (t\<lparr>NetTxPacket := pkt\<rparr>);
     Some (NetSetHandler Rarp_handler (NetSetTimeout RARP_TIMEOUT Rarp_timeout t))
   }"

definition RarpTimeout :: "(nat \<Rightarrow> bool) \<Rightarrow> tftp \<Rightarrow> tftp option" where
  "RarpTimeout drv t =
     (if RarpTry t \<ge> RARP_TIMEOUT_COUNT then Some (NetStartAgain drv t)
      else RarpRequest (NetSetTimeout RARP_TIMEOUT Rarp_timeout t))"

section \<open>BOOTP replies\<close>

abbreviation (input) "BOOTP_TIMEOUT \<equiv> (5000 :: u32)"
abbreviation (input) "BOOTP_TIMEOUT_COUNT \<equiv> (5 :: int)"
abbreviation (input) "SELECT_TIMEOUT \<equiv> (3000 :: u32)"
abbreviation (input) "PORT_BOOTPS \<equiv> (67 :: u32)"
abbreviation (input) "PORT_BOOTPC \<equiv> (68 :: u32)"
abbreviation (input) "BOOTP_VENDOR_MAGIC \<equiv> (0x63825363 :: u32)"
abbreviation (input) "OPT_SIZE \<equiv> (64 :: nat)"
abbreviation (input) "BOOTP_HDR_SIZE \<equiv> (300 :: nat)"

text \<open>The tests a reply has to pass; the result is 0 for a good one.\<close>

definition BootpCheckPkt :: "u8 list \<Rightarrow> u32 \<Rightarrow> u32 \<Rightarrow> u32 \<Rightarrow> tftp \<Rightarrow> int option" where
  "BootpCheckPkt pkt dest src len t =
     (if dest \<noteq> PORT_BOOTPC \<or> src \<noteq> PORT_BOOTPS then Some (-1)
      else if unat len < BOOTP_HDR_SIZE - OPT_SIZE then Some (-2)
      else do {
        bp_op \<leftarrow> rd pkt 0;
        bp_htype \<leftarrow> rd pkt 1;
        bp_hlen \<leftarrow> rd pkt 2;
        bp_id \<leftarrow> NetReadIP pkt 4;
        Some (if bp_op \<noteq> 1 \<and> bp_op \<noteq> 2 \<and> bp_op \<noteq> 2 \<and> bp_op \<noteq> 5 \<and> bp_op \<noteq> 6 then -3
              else if bp_htype \<noteq> 1 then -4
              else if bp_hlen \<noteq> 6 then -5
              else if bp_id \<noteq> BootpID t then -6
              else 0)
      })"

text \<open>A NUL-terminated string in a buffer; without a NUL it is read past the end.\<close>

definition c_string :: "u8 list \<Rightarrow> nat \<Rightarrow> string option" where
  "c_string buf i = (if 0 \<in> set (drop i buf) then Some (string_at buf i) else None)"

definition BootpCopyNetParams :: "u8 list \<Rightarrow> tftp \<Rightarrow> tftp option" where
  "BootpCopyNetParams pkt t = do {
     bp_yiaddr \<leftarrow> NetReadIP pkt 16;
     bp_siaddr \<leftarrow> NetReadIP pkt 20;
     et_src \<leftarrow> slice 6 6 (NetRxPacket t);
     bp_file \<leftarrow> c_string pkt 108;
     let t = t\<lparr>NetOurIP := bp_yiaddr\<rparr>;
     let t = (if bp_siaddr \<noteq> 0 then t\<lparr>NetServerIP := bp_siaddr\<rparr> else t);
     let t = t\<lparr>NetServerEther := et_src\<rparr>;
     let t = (if length bp_file > 0 then t\<lparr>BootFile := copy_filename bp_file 128\<rparr> else t);
     Some (if BootFile t \<noteq> [] then setenv_net ''bootfile'' (BootFile t) t else t)
   }"

definition truncate_sz :: "nat \<Rightarrow> nat \<Rightarrow> nat" where
  "truncate_sz maxlen curlen = (if curlen \<ge> maxlen then maxlen - 1 else curlen)"

text \<open>The text \<open>memcpy\<close> and the terminating NUL leave in an array of the given size.\<close>

definition vendor_text :: "u8 list \<Rightarrow> nat \<Rightarrow> nat \<Rightarrow> nat \<Rightarrow> string option" where
  "vendor_text pkt ext arr sz = do {
     bs \<leftarrow> slice (ext + 2) (truncate_sz arr sz) pkt;
     Some (map char_of_byte (takeWhile (\<lambda>b. b \<noteq> 0) bs))
   }"

definition BootpVendorFieldProcess :: "u8 list \<Rightarrow> nat \<Rightarrow> tftp \<Rightarrow> tftp option" where
  "BootpVendorFieldProcess pkt ext t = do {
     code \<leftarrow> rd pkt ext;
     sz \<leftarrow> rd pkt (ext + 1);
     let t = t\<lparr>NetBootFileSize := 0\<rparr>;
     if code = 1 \<and> NetOurSubnetMask t = 0 then do { a \<leftarrow> NetReadIP pkt (ext + 2); Some (t\<lparr>NetOurSubnetMask := a\<rparr>) }
     else if code = 3 \<and> NetOurGatewayIP t = 0 then do { a \<leftarrow> NetReadIP pkt (ext + 2); Some (t\<lparr>NetOurGatewayIP := a\<rparr>) }
     else if code = 6 \<and> NetOurDNSIP t = 0 then do { a \<leftarrow> NetReadIP pkt (ext + 2); Some (t\<lparr>NetOurDNSIP := a\<rparr>) }
     else if code = 12 \<and> NetOurHostName t = [] then do { s \<leftarrow> vendor_text pkt ext 32 (unat sz); Some (t\<lparr>NetOurHostName := s\<rparr>) }
     else if code = 13 \<and> sz = 2 then do { w \<leftarrow> get16 pkt (ext + 2); Some (t\<lparr>NetBootFileSize := ucast w\<rparr>) }
     else if code = 13 \<and> sz = 4 then do { w \<leftarrow> NetReadIP pkt (ext + 2); Some (t\<lparr>NetBootFileSize := ucast w\<rparr>) }
     else if code = 17 \<and> NetOurRootPath t = [] then do { s \<leftarrow> vendor_text pkt ext 64 (unat sz); Some (t\<lparr>NetOurRootPath := s\<rparr>) }
     else if code = 40 \<and> NetOurNISDomain t = [] then do { s \<leftarrow> vendor_text pkt ext 32 (unat sz); Some (t\<lparr>NetOurNISDomain := s\<rparr>) }
     else Some t
   }"

text \<open>The loop over the extensions, from the index \<open>ext\<close> up to the index \<open>stop\<close>.\<close>

function vendor_loop :: "u8 list \<Rightarrow> nat \<Rightarrow> int \<Rightarrow> tftp \<Rightarrow> tftp option" where
  "vendor_loop pkt ext stop t =
     (if int ext < stop then do {
        code \<leftarrow> rd pkt ext;
        if code = 0xff then Some t
        else if code = 0 then vendor_loop pkt (ext + 1) stop t
        else do {
          sz \<leftarrow> rd pkt (ext + 1);
          t \<leftarrow> (if int (ext + unat sz + 2) \<le> stop then BootpVendorFieldProcess pkt ext t else Some t);
          vendor_loop pkt (ext + unat sz + 2) stop t
        }
      } else Some t)"
  by pat_completeness auto
termination
  by (relation "measure (\<lambda>(pkt, ext, stop, t). nat stop - ext)") (auto simp: zless_nat_eq_int_zless)

declare vendor_loop.simps [simp del]

definition BootpVendorProcess :: "u8 list \<Rightarrow> nat \<Rightarrow> int \<Rightarrow> tftp \<Rightarrow> tftp option" where
  "BootpVendorProcess pkt ext sz t = vendor_loop pkt ext (int ext + sz) t"

definition BootpHandler :: "u8 list \<Rightarrow> u32 \<Rightarrow> u32 \<Rightarrow> u32 \<Rightarrow> tftp \<Rightarrow> tftp option" where
  "BootpHandler pkt dest src len t = do {
     r \<leftarrow> BootpCheckPkt pkt dest src len t;
     if r \<noteq> 0 then Some t
     else do {
       t \<leftarrow> BootpCopyNetParams pkt t;
       magic \<leftarrow> NetReadIP pkt 236;
       t \<leftarrow> (if magic = BOOTP_VENDOR_MAGIC then BootpVendorProcess pkt 240 (sint len) t else Some t);
       autoload (t\<lparr>timeHandler := None\<rparr>)
     }
   }"

section \<open>BOOTP requests\<close>

definition BootpExtended :: "u8 list" where
  "BootpExtended = [99, 130, 83, 99, 255]"

definition bootp_id :: "tftp \<Rightarrow> u32" where
  "bootp_id t = load_be32 (NetOurEther t ! 2) (NetOurEther t ! 3) (NetOurEther t ! 4) (NetOurEther t ! 5) + now t"

definition BootpRequest :: "tftp \<Rightarrow> tftp option" where
  "BootpRequest t = do {
     let t = t\<lparr>BootpTry := BootpTry t + 1\<rparr>;
     pkt \<leftarrow> put 0 (replicate 1518 0) (NetTxPacket t);
     (h, pkt) \<leftarrow> NetSetEther t (NetBcastAddr t) PROT_IP pkt;
     let bp = h + IP_HDR_SIZE;
     pkt \<leftarrow> put bp [1, 1, 6, 0] pkt;
     pkt \<leftarrow> put (bp + 8) (be16 (now t div 1000)) pkt;
     pkt \<leftarrow> put (bp + 12) (replicate 16 0) pkt;
     pkt \<leftarrow> put (bp + 28) (NetOurEther t) pkt;
     pkt \<leftarrow> put (bp + 108) (cstr (copy_filename (BootFile t) 128)) pkt;
     pkt \<leftarrow> put (bp + 236) BootpExtended pkt;
     let t = t\<lparr>BootpID := bootp_id t\<rparr>;
     pkt \<leftarrow> put (bp + 4) (store_be32 (BootpID t)) pkt;
     let iplen = BOOTP_HDR_SIZE - OPT_SIZE + length BootpExtended;
     (pkt, t) \<leftarrow> NetSetIP h 0xffffffff PORT_BOOTPS PORT_BOOTPC iplen pkt t;
     let t = NetSetHandler Bootp_handler (NetSetTimeout SELECT_TIMEOUT Bootp_timeout (t\<lparr>NetTxPacket := pkt\<rparr>));
     Some (eth_send (take (bp + iplen) pkt) t)
   }"

definition BootpTimeout :: "(nat \<Rightarrow> bool) \<Rightarrow> tftp \<Rightarrow> tftp option" where
  "BootpTimeout drv t =
     (if BootpTry t \<ge> BOOTP_TIMEOUT_COUNT then Some (NetStartAgain drv t)
      else BootpRequest (NetSetTimeout BOOTP_TIMEOUT Bootp_timeout t))"

end
