(* ===== verification/NetLoop.thy ===== *)
theory NetLoop
  imports Bootp
begin

text \<open>
  \<open>NetLoop\<close> of net/net.c, the state machine of the network code, and the commands of common/cmd_net.c that run it.
  What happens outside, the frames the current device has received, the keyboard and the timer, is
  the input of one round of the loop; a run is given by a list of inputs, so that a loop that has not
  ended is visible as such. Within a handler the time does not change.
\<close>

section \<open>Dispatch\<close>

datatype proto_t = BOOTP | RARP | ARP | TFTP | DHCP | PING | DNS | NFS | CDP | NETCONS | SNTP

text \<open>A call of \<open>packetHandler\<close>, with the null pointer for the packet as the empty buffer.\<close>

definition handle_packet :: "(nat \<Rightarrow> bool) \<Rightarrow> handler_call \<Rightarrow> tftp \<Rightarrow> tftp option" where
  "handle_packet drv call t =
     (let (pkt, dest, src, len) = call;
          buf = (case pkt of None \<Rightarrow> [] | Some p \<Rightarrow> p)
      in case packetHandler t of
           Tftp_handler \<Rightarrow> TftpHandler drv dest src (unat len) buf t
         | Ping_handler \<Rightarrow> PingHandler buf t
         | Bootp_handler \<Rightarrow> BootpHandler buf dest src len t
         | Rarp_handler \<Rightarrow> RarpHandler t
         | StartAgain_handler \<Rightarrow> Some t
         | Dummy_handler \<Rightarrow> Some t)"

definition run_timeout :: "(nat \<Rightarrow> bool) \<Rightarrow> thand \<Rightarrow> tftp \<Rightarrow> tftp option" where
  "run_timeout drv x t =
     (case x of
        Tftp_timeout \<Rightarrow> TftpTimeout drv t
      | StartAgain_timeout \<Rightarrow> Some (startAgainTimeout t)
      | Ping_timeout \<Rightarrow> Some (PingTimeout t)
      | Bootp_timeout \<Rightarrow> BootpTimeout drv t
      | Rarp_timeout \<Rightarrow> RarpTimeout drv t)"

text \<open>The device hands a received frame to \<open>NetReceive\<close>, which calls the packet handler.\<close>

definition deliver_frame :: "(nat \<Rightarrow> bool) \<Rightarrow> u8 list \<Rightarrow> int \<Rightarrow> tftp \<Rightarrow> tftp option" where
  "deliver_frame drv inpkt len t = do {
     (call, t) \<leftarrow> NetReceive inpkt len t;
     case call of None \<Rightarrow> Some t | Some c \<Rightarrow> handle_packet drv c t
   }"

definition frame_step :: "(nat \<Rightarrow> bool) \<Rightarrow> u32 \<times> u8 list \<times> int \<Rightarrow> tftp \<Rightarrow> tftp option" where
  "frame_step drv f t = (case f of (time, inpkt, len) \<Rightarrow> deliver_frame drv inpkt len (t\<lparr>now := time\<rparr>))"

definition eth_rx :: "(nat \<Rightarrow> bool) \<Rightarrow> (u32 \<times> u8 list \<times> int) list \<Rightarrow> tftp \<Rightarrow> tftp option" where
  "eth_rx drv = run_steps (frame_step drv)"

section \<open>Configuration\<close>

definition getenv_IPaddr :: "string \<Rightarrow> 'a eth_scheme \<Rightarrow> u32" where
  "getenv_IPaddr var e = string_to_ip (environment e var)"

definition string_to_VLAN :: "string option \<Rightarrow> u16" where
  "string_to_VLAN s =
     (case s of None \<Rightarrow> VLAN_NONE
      | Some s \<Rightarrow> if byte_of (peek s 0) < byte_of CHR ''0'' \<or> byte_of (peek s 0) > byte_of CHR ''9'' then VLAN_NONE else ucast (fst (simple_strtoul s 10)))"

definition getenv_VLAN :: "string \<Rightarrow> 'a eth_scheme \<Rightarrow> u16" where
  "getenv_VLAN var e = string_to_VLAN (environment e var)"

definition NetInitLoop :: "tftp \<Rightarrow> tftp" where
  "NetInitLoop t =
     (if net_env_id t \<noteq> env_id t
      then t\<lparr>NetOurIP := bd_ip_addr t, NetOurGatewayIP := getenv_IPaddr ''gatewayip'' t, NetOurSubnetMask := getenv_IPaddr ''netmask'' t,
             NetServerIP := getenv_IPaddr ''serverip'' t, NetOurNativeVLAN := getenv_VLAN ''nvlan'' t, NetOurVLAN := getenv_VLAN ''vlan'' t,
             net_env_id := env_id t\<rparr>
      else t)"

definition check_ether :: "(nat \<Rightarrow> bool) \<Rightarrow> tftp \<Rightarrow> int \<times> tftp" where
  "check_ether drv t =
     (if NetOurEther t = replicate 6 0
      then if eth_get_dev_index t = -1 then (1, t) else (2, NetStartAgain drv t)
      else (0, t))"

definition net_check_prereq :: "(nat \<Rightarrow> bool) \<Rightarrow> proto_t \<Rightarrow> tftp \<Rightarrow> int \<times> tftp" where
  "net_check_prereq drv protocol t =
     (if protocol = PING then
        if NetPingIP t = 0 then (1, t) else if NetOurIP t = 0 then (1, t) else check_ether drv t
      else if protocol \<in> {NETCONS, TFTP} then
        if NetServerIP t = 0 then (1, t) else if NetOurIP t = 0 then (1, t) else check_ether drv t
      else if protocol \<in> {DHCP, RARP, BOOTP, CDP} then check_ether drv t
      else (0, t))"

section \<open>The loop\<close>

definition start_protocol :: "proto_t \<Rightarrow> tftp \<Rightarrow> tftp option" where
  "start_protocol protocol t =
     (case protocol of
        TFTP \<Rightarrow> TftpStart t
      | BOOTP \<Rightarrow> BootpRequest (t\<lparr>BootpTry := 0, NetOurIP := 0\<rparr>)
      | RARP \<Rightarrow> RarpRequest (t\<lparr>RarpTry := 0, NetOurIP := 0\<rparr>)
      | PING \<Rightarrow> PingStart t
      | _ \<Rightarrow> Some t)"

text \<open>From the label \<open>restart\<close> to the loop; a result is the value \<open>NetLoop\<close> returns at once.\<close>

definition net_restart :: "(nat \<Rightarrow> bool) \<Rightarrow> proto_t \<Rightarrow> tftp \<Rightarrow> (int option \<times> tftp) option" where
  "net_restart drv protocol t = do {
     dev \<leftarrow> eth_get_dev t;
     let t = NetInitLoop (t\<lparr>NetOurEther := enetaddr dev, NetState := NETLOOP_CONTINUE\<rparr>);
     let (r, t) = net_check_prereq drv protocol t;
     if r = 1 then Some (Some (-1), eth_halt t)
     else if r = 2 then Some (None, t)
     else do {
       t \<leftarrow> start_protocol protocol (t\<lparr>NetDevExists := True\<rparr>);
       Some (None, t\<lparr>NetBootFileXferSize := 0\<rparr>)
     }
   }"

text \<open>The input of one round: the frames received, with their times, whether ctrl-c has been pressed, and the times
  at which the two timeouts are checked.\<close>

record net_input =
  frames :: "(u32 \<times> u8 list \<times> int) list"
  pressed :: bool
  arp_time :: u32
  timer_time :: u32

datatype round_end = Again | Restart | Return int

definition check_timer :: "(nat \<Rightarrow> bool) \<Rightarrow> tftp \<Rightarrow> tftp option" where
  "check_timer drv t =
     (case timeHandler t of
        None \<Rightarrow> Some t
      | Some x \<Rightarrow> if now t - timeStart t > timeDelta t then run_timeout drv x (t\<lparr>timeHandler := None\<rparr>) else Some t)"

definition loop_success :: "tftp \<Rightarrow> round_end \<times> tftp" where
  "loop_success t =
     (let sz = NetBootFileXferSize t;
          t = (if sz > 0
               then setenv_net ''fileaddr'' (sprintf_text ''%lX'' [VInt (tf_load_addr t)])
                      (setenv_net ''filesize'' (sprintf_text ''%lX'' [VInt sz]) t)
               else t)
      in (Return (sint sz), eth_halt t))"

definition net_round :: "(nat \<Rightarrow> bool) \<Rightarrow> net_input \<Rightarrow> tftp \<Rightarrow> (round_end \<times> tftp) option" where
  "net_round drv inp t = do {
     t \<leftarrow> eth_rx drv (frames inp) t;
     if pressed inp then Some (Return (-1), eth_halt t)
     else do {
       t \<leftarrow> ArpTimeoutCheck drv (t\<lparr>now := arp_time inp\<rparr>);
       t \<leftarrow> check_timer drv (t\<lparr>now := timer_time inp\<rparr>);
       Some (case NetState t of
          NETLOOP_RESTART \<Rightarrow> (Restart, t\<lparr>NetRestarted := True\<rparr>)
        | NETLOOP_SUCCESS \<Rightarrow> loop_success t
        | NETLOOP_FAIL \<Rightarrow> (Return (-1), t)
        | NETLOOP_CONTINUE \<Rightarrow> (Again, t))
     }
   }"

text \<open>The rounds; the result is the value returned, or \<open>None\<close> while the loop is still running.\<close>

fun net_rounds :: "(nat \<Rightarrow> bool) \<Rightarrow> proto_t \<Rightarrow> net_input list \<Rightarrow> tftp \<Rightarrow> (int option \<times> tftp) option" where
  "net_rounds drv protocol [] t = Some (None, t)"
| "net_rounds drv protocol (inp # inps) t = do {
     (e, t) \<leftarrow> net_round drv inp t;
     case e of
       Again \<Rightarrow> net_rounds drv protocol inps t
     | Return r \<Rightarrow> Some (Some r, t)
     | Restart \<Rightarrow> do {
         (r, t) \<leftarrow> net_restart drv protocol t;
         case r of Some r \<Rightarrow> Some (Some r, t) | None \<Rightarrow> net_rounds drv protocol inps t
       }
   }"

definition NetLoop :: "(nat \<Rightarrow> bool) \<Rightarrow> proto_t \<Rightarrow> net_input list \<Rightarrow> tftp \<Rightarrow> (int option \<times> tftp) option" where
  "NetLoop drv protocol inps t = do {
     let t = t\<lparr>NetRestarted := False, NetDevExists := False, NetArpWaitPacketMAC := None, NetArpWaitPacketIP := 0,
               NetArpWaitReplyIP := 0, NetTryCount := 1, NetArpWaitTxPacketSize := 0\<rparr>;
     (rc, t) \<leftarrow> eth_init drv (eth_set_current (eth_halt t));
     if rc < 0 then Some (Some (-1), eth_halt t)
     else do {
       (r, t) \<leftarrow> net_restart drv protocol t;
       case r of Some r \<Rightarrow> Some (Some r, t) | None \<Rightarrow> net_rounds drv protocol inps t
     }
   }"

section \<open>Commands\<close>

definition ip_to_string :: "u32 \<Rightarrow> string" where
  "ip_to_string x = sprintf_text ''%d.%d.%d.%d''
     [VInt (drop_bit 24 x AND 0xff), VInt (drop_bit 16 x AND 0xff), VInt (drop_bit 8 x AND 0xff), VInt (x AND 0xff)]"

definition set_ip :: "string \<Rightarrow> u32 \<Rightarrow> tftp \<Rightarrow> tftp" where
  "set_ip name ip t = (if ip \<noteq> 0 then setenv_net name (ip_to_string ip) t else t)"

definition set_text :: "string \<Rightarrow> string \<Rightarrow> tftp \<Rightarrow> tftp" where
  "set_text name s t = (if s \<noteq> [] then setenv_net name s t else t)"

definition netboot_update_env :: "tftp \<Rightarrow> tftp" where
  "netboot_update_env t =
     (let t = set_ip ''gatewayip'' (NetOurGatewayIP t) t;
          t = set_ip ''netmask'' (NetOurSubnetMask t) t;
          t = set_text ''hostname'' (NetOurHostName t) t;
          t = set_text ''rootpath'' (NetOurRootPath t) t;
          t = set_ip ''ipaddr'' (NetOurIP t) t;
          t = set_ip ''serverip'' (NetServerIP t) t;
          t = set_ip ''dnsip'' (NetOurDNSIP t) t
      in set_text ''domain'' (NetOurNISDomain t) t)"

text \<open>The arguments of \<open>netboot_common\<close>: a load address, a file name, or both.\<close>

definition netboot_args :: "string list \<Rightarrow> tftp \<Rightarrow> tftp option" where
  "netboot_args argv t =
     (let t = (case environment t ''loadaddr'' of None \<Rightarrow> t | Some s \<Rightarrow> t\<lparr>tf_load_addr := fst (simple_strtoul s 16)\<rparr>)
      in case argv of
           [_] \<Rightarrow> Some t
         | [_, a] \<Rightarrow>
             (let (addr, e) = simple_strtoul a 16
              in if e = [] then Some (t\<lparr>tf_load_addr := addr\<rparr>) else Some (t\<lparr>BootFile := copy_filename a 128\<rparr>))
         | [_, a, f] \<Rightarrow> Some (t\<lparr>tf_load_addr := fst (simple_strtoul a 16), BootFile := copy_filename f 128\<rparr>)
         | _ \<Rightarrow> None)"

text \<open>\<open>netboot_common\<close>; \<open>bootm\<close> is the command \<open>do_bootm\<close>, run when \<open>autostart\<close> is yes. The result is \<open>None\<close>
  while the network loop is still running.\<close>

definition netboot_common :: "(nat \<Rightarrow> bool) \<Rightarrow> (tftp \<Rightarrow> int \<times> tftp) \<Rightarrow> proto_t \<Rightarrow> string list \<Rightarrow> net_input list \<Rightarrow> tftp \<Rightarrow>
    (int option \<times> tftp) option" where
  "netboot_common drv bootm proto argv inps t =
     (case netboot_args argv t of
        None \<Rightarrow> Some (Some 1, case environment t ''loadaddr'' of None \<Rightarrow> t | Some s \<Rightarrow> t\<lparr>tf_load_addr := fst (simple_strtoul s 16)\<rparr>)
      | Some t \<Rightarrow> do {
          (r, t) \<leftarrow> NetLoop drv proto inps t;
          case r of None \<Rightarrow> Some (None, t)
          | Some sz \<Rightarrow>
              if sz < 0 then Some (Some 1, t)
              else
                let t = netboot_update_env t
                in if sz = 0 then Some (Some 0, t)
                   else if environment t ''autostart'' = Some ''yes'' then (let (rc, t) = bootm t in Some (Some rc, t))
                   else Some (Some 0, t)
        })"

definition do_bootp :: "(nat \<Rightarrow> bool) \<Rightarrow> (tftp \<Rightarrow> int \<times> tftp) \<Rightarrow> string list \<Rightarrow> net_input list \<Rightarrow> tftp \<Rightarrow> (int option \<times> tftp) option" where
  "do_bootp drv bootm argv inps t = netboot_common drv bootm BOOTP argv inps t"

definition do_tftpb :: "(nat \<Rightarrow> bool) \<Rightarrow> (tftp \<Rightarrow> int \<times> tftp) \<Rightarrow> string list \<Rightarrow> net_input list \<Rightarrow> tftp \<Rightarrow> (int option \<times> tftp) option" where
  "do_tftpb drv bootm argv inps t = netboot_common drv bootm TFTP argv inps t"

definition do_rarpb :: "(nat \<Rightarrow> bool) \<Rightarrow> (tftp \<Rightarrow> int \<times> tftp) \<Rightarrow> string list \<Rightarrow> net_input list \<Rightarrow> tftp \<Rightarrow> (int option \<times> tftp) option" where
  "do_rarpb drv bootm argv inps t = netboot_common drv bootm RARP argv inps t"

definition do_ping :: "(nat \<Rightarrow> bool) \<Rightarrow> string list \<Rightarrow> net_input list \<Rightarrow> tftp \<Rightarrow> (int option \<times> tftp) option" where
  "do_ping drv argv inps t =
     (if length argv < 2 then Some (Some (-1), t)
      else
        let t = t\<lparr>NetPingIP := string_to_ip (Some (argv ! 1))\<rparr>
        in if NetPingIP t = 0 then Some (Some (-1), t)
           else do {
             (r, t) \<leftarrow> NetLoop drv PING inps t;
             Some (map_option (\<lambda>r. if r < 0 then 1 else 0) r, t)
           })"

end
