(* ===== verification/NetSpec.thy ===== *)
theory NetSpec
  imports Net
begin

text \<open>
  Sending and receiving fit together: a datagram one machine sends reaches the packet handler of
  another with its contents and ports, and a datagram for an unknown Ethernet address is sent
  once the address has been resolved.
\<close>

section \<open>Sixteen-bit fields\<close>

lemma be16_take_bit:
  "push_bit 8 (ucast (ucast (drop_bit 8 w) :: u8) :: u32) OR ucast (ucast w :: u8) = take_bit 16 (w :: u32)"
proof (rule bit_word_eqI)
  fix n assume "n < LENGTH(32)"
  show "bit (push_bit 8 (ucast (ucast (drop_bit 8 w) :: u8) :: u32) OR ucast (ucast w :: u8)) n \<longleftrightarrow> bit (take_bit 16 w) n"
    by (cases "n < 8"; cases "n < 16") (auto simp: bit_simps bit_u8_ge)
qed

lemma unat_take_16: "unat (take_bit 16 (w :: u32)) = unat w mod 65536"
  unfolding unsigned_take_bit_eq by (simp add: take_bit_eq_mod)

lemma take_bit_16_small: "unat (w :: u32) < 65536 \<Longrightarrow> take_bit 16 w = w"
  by (rule word_unat_eq_iff [THEN iffD2]) (simp add: unat_take_16 del: take_bit_eq_mod)

section \<open>The Internet checksum\<close>

lemma unat_cksum_fold: "unat (cksum_fold x) = unat x mod 65536 + unat x div 65536"
proof -
  have a: "unat (x AND 0xffff) = unat x mod 65536" using and_mask_mod [of x 16] by (simp add: mask_eq_exp_minus_1)
  have b: "unat (drop_bit 16 x) = unat x div 65536" using unat_drop_div [of 16 x] by simp
  have "unat x < 2 ^ 32" using unsigned_less [of x] by simp
  then have "unat x div 65536 < 65536" by simp
  then show ?thesis unfolding cksum_fold_def by (subst unat_add_nowrap) (simp_all add: a b)
qed

text \<open>Folding twice gives the representative of the sum modulo 65535 between 1 and 65535, or 0 for 0.\<close>

definition ones_sum :: "u32 \<Rightarrow> u32" where
  "ones_sum x = cksum_fold (cksum_fold x) AND 0xffff"

lemma fold_mod: "(n mod 65536 + n div 65536) mod 65535 = (n :: nat) mod 65535"
proof -
  have "n = n mod 65536 + 65536 * (n div 65536)" by simp
  then have "n mod 65535 = (n mod 65536 + n div 65536 + 65535 * (n div 65536)) mod 65535" by (simp add: algebra_simps)
  then show ?thesis by (simp only: mod_mult_self2)
qed

lemma unat_ones_sum: "unat (ones_sum x) = (if x = 0 then 0 else (unat x - 1) mod 65535 + 1)"
proof -
  define y where "y = unat x mod 65536 + unat x div 65536"
  define z where "z = y mod 65536 + y div 65536"
  have x: "unat x < 2 ^ 32" using unsigned_less [of x] by simp
  then have "unat x div 65536 < 65536" "unat x mod 65536 < 65536" by simp_all
  then have y: "y \<le> 131070" unfolding y_def by linarith
  have "y div 65536 \<le> 1" "y mod 65536 = y - 65536 * (y div 65536)" using y by (simp_all add: minus_mult_div_eq_mod)
  then have z: "z \<le> 65535" using y unfolding z_def by (cases "y div 65536 = 0") linarith+
  have "unat (cksum_fold (cksum_fold x)) = z" by (simp add: unat_cksum_fold z_def y_def)
  then have s: "unat (ones_sum x) = z" using and_mask_mod [of "cksum_fold (cksum_fold x)" 16] z
    by (simp add: ones_sum_def mask_eq_exp_minus_1)
  show ?thesis
  proof (cases "x = 0")
    case False
    then have "0 < unat x" by (simp add: unat_gt_0)
    then have "0 < y" unfolding y_def by (metis add_gr_0 div_mult_mod_eq mult_is_0 neq0_conv)
    then have p: "0 < z" unfolding z_def by (metis add_gr_0 div_mult_mod_eq mult_is_0 neq0_conv)
    have "z mod 65535 = unat x mod 65535" unfolding z_def y_def by (simp only: fold_mod)
    then have "Suc (z - 1) mod 65535 = Suc (unat x - 1) mod 65535" using p \<open>0 < unat x\<close> by simp
    then have "(z - 1) mod 65535 = (unat x - 1) mod 65535" by (simp only: mod_Suc split: if_splits)
    then show ?thesis using p z s False by simp
  qed (use s in \<open>simp add: z_def y_def\<close>)
qed

text \<open>A sum to which the complement of its folded value is added folds to \<open>0xffff\<close>.\<close>

lemma unat_complement_16:
  assumes "unat (w :: u32) \<le> 65535"
  shows "unat (take_bit 16 (NOT w)) = 65535 - unat w"
proof -
  have m: "unat (- 1 :: u32) = 4294967295" by (simp add: unsigned_minus_1_eq_mask mask_eq_exp_minus_1)
  have "unat (- 1 - w) = unat (- 1 :: u32) - unat w" by (rule unat_sub_le) simp
  then have "unat (NOT w) = 4294967295 - unat w" unfolding m by (simp add: not_eq_complement minus_diff_commute)
  also have "\<dots> = (65535 - unat w) + 65536 * 65535" using assms by simp
  finally have "unat (NOT w) mod 65536 = (65535 - unat w) mod 65536" by (simp only: mod_mult_self2)
  then show ?thesis unfolding unat_take_16 by simp
qed

lemma ones_sum_complement:
  assumes "x \<noteq> 0" "unat x < 2 ^ 31"
  shows "ones_sum (x + take_bit 16 (NOT (ones_sum x))) = 0xffff"
proof -
  define z where "z = (unat x - 1) mod 65535 + 1"
  define q where "q = (unat x - 1) div 65535"
  let ?c = "take_bit 16 (NOT (ones_sum x))"
  have z: "unat (ones_sum x) = z" using assms(1) by (simp add: unat_ones_sum z_def)
  have z16: "z \<le> 65535" unfolding z_def using mod_less_divisor [of 65535 "unat x - 1"] by linarith
  have c: "unat ?c = 65535 - z" using unat_complement_16 [of "ones_sum x"] z z16 by simp
  have "0 < unat x" using assms(1) by (simp add: unat_gt_0)
  moreover have "unat x - 1 = q * 65535 + (z - 1)" unfolding q_def z_def by simp
  ultimately have x: "unat x = q * 65535 + z" using z_def by linarith
  have "unat (x + ?c) = unat x + unat ?c" using assms(2) by (intro unat_add_nowrap) (simp add: c)
  then have u: "unat (x + ?c) = Suc (65534 + 65535 * q)" using x c z16 by simp
  then have "x + ?c \<noteq> 0" by (metis nat.distinct(1) unat_0)
  moreover have "(unat (x + ?c) - 1) mod 65535 = 65534" unfolding u by (simp only: diff_Suc_1 mod_mult_self2) simp
  ultimately have "unat (ones_sum (x + ?c)) = 65535" by (simp add: unat_ones_sum)
  then show ?thesis by (simp add: word_unat_eq_iff)
qed

section \<open>The header of a datagram\<close>

lemma be16_word: "push_bit 8 (ucast (ucast (drop_bit 8 w) :: u8) :: u32) OR ucast (ucast w :: u8) = of_nat (unat (w :: u32) mod 65536)"
  unfolding be16_take_bit by (metis unat_take_16 of_nat_unat ucast_id)

lemma store_be32_be16: "store_be32 w = be16 (drop_bit 16 w) @ be16 w"
  by (simp add: store_be32_def be16_def)

lemma cksum_loop_be16: "cksum_loop (Suc k) (of_nat m) (be16 w @ p) = cksum_loop k (of_nat (m + unat w mod 65536)) p"
  by (simp add: be16_def be16_word)

lemma cksum_loop_0: "cksum_loop k 0 p = cksum_loop k (of_nat 0) p"
  by simp

text \<open>The sixteen-bit words of the IP header of a datagram, the checksum left out, and their sum.\<close>

definition header_sum :: "u32 \<Rightarrow> u32 \<Rightarrow> u32 \<Rightarrow> u32 \<Rightarrow> nat" where
  "header_sum ident src dest iplen = 0x4500 + unat iplen mod 65536 + unat ident mod 65536 + 0x4000 + 0xff11 +
     unat (drop_bit 16 src) mod 65536 + unat src mod 65536 + unat (drop_bit 16 dest) mod 65536 + unat dest mod 65536"

definition udp_header :: "u32 \<Rightarrow> u32 \<Rightarrow> u32 \<Rightarrow> u32 \<Rightarrow> u32 \<Rightarrow> nat \<Rightarrow> u8 list" where
  "udp_header ident src dest dport sport len =
     [0x45, 0] @ be16 (of_nat (28 + len)) @ be16 ident @ be16 0x4000 @ [255, 17] @
     be16 (NOT (ones_sum (of_nat (header_sum ident src dest (of_nat (28 + len)))))) @ store_be32 src @ store_be32 dest @
     be16 sport @ be16 dport @ be16 (of_nat (8 + len)) @ be16 0"

lemma header_sum_bounds: "0x4500 \<le> header_sum ident src dest iplen" "header_sum ident src dest iplen < 1000000"
  unfolding header_sum_def
  using mod_less_divisor [of 65536 "unat iplen"] mod_less_divisor [of 65536 "unat ident"]
    mod_less_divisor [of 65536 "unat src"] mod_less_divisor [of 65536 "unat dest"]
    mod_less_divisor [of 65536 "unat (drop_bit 16 src)"] mod_less_divisor [of 65536 "unat (drop_bit 16 dest)"]
  by linarith+

lemma header_cksum:
  "cksum_loop 10 0 ([0x45, 0] @ be16 iplen @ be16 ident @ be16 0x4000 @ [255, 17] @ be16 c @ store_be32 src @ store_be32 dest @ p) =
     Some (of_nat (header_sum ident src dest iplen + unat c mod 65536))"
proof -
  have v: "[0x45, 0] = be16 0x4500" "[255, 17] = be16 0xff11" by (simp_all add: be16_def)
  have ten: "(10 :: nat) = Suc (Suc (Suc (Suc (Suc (Suc (Suc (Suc (Suc (Suc 0)))))))))" by simp
  have k: "unat (0x4500 :: u32) mod 65536 = 0x4500" "unat (0x4000 :: u32) mod 65536 = 0x4000" "unat (0xff11 :: u32) mod 65536 = 0xff11"
    by simp_all
  show ?thesis
    unfolding ten v store_be32_be16 append_assoc cksum_loop_0 [of _ "_ @ _"]
    by (simp only: cksum_loop_be16 cksum_loop.simps(1) k header_sum_def add_0 ac_simps)
qed

lemma header_cksum_ok:
  assumes "c = NOT (ones_sum (of_nat (header_sum ident src dest iplen)))"
  shows "NetCksumOk ([0x45, 0] @ be16 iplen @ be16 ident @ be16 0x4000 @ [255, 17] @ be16 c @ store_be32 src @ store_be32 dest @ p) 10 = Some True"
proof -
  let ?S = "of_nat (header_sum ident src dest iplen) :: u32"
  have u: "unat ?S = header_sum ident src dest iplen" using header_sum_bounds [of ident src dest iplen] by (simp add: unat_of_nat)
  have "(of_nat (header_sum ident src dest iplen + unat c mod 65536) :: u32) = ?S + take_bit 16 c"
    by (metis of_nat_add unat_take_16 of_nat_unat ucast_id)
  moreover have "?S \<noteq> 0" using u header_sum_bounds(1) [of ident src dest iplen] by (auto simp: unat_eq_0 [symmetric])
  then have "ones_sum (?S + take_bit 16 c) = 0xffff"
    unfolding assms using u header_sum_bounds(2) [of ident src dest iplen] by (intro ones_sum_complement) simp_all
  ultimately show ?thesis by (simp only: NetCksumOk_def NetCksum_def header_cksum) (simp add: ones_sum_def)
qed

section \<open>Sending\<close>

lemma put_append: "length as = i \<Longrightarrow> length xs \<le> length bs \<Longrightarrow> put i xs (as @ bs) = Some (as @ xs @ drop (length xs) bs)"
  by (simp add: put_def)

lemma slice_append: "length as = i \<Longrightarrow> length bs = k \<Longrightarrow> slice i k (as @ bs @ cs) = Some bs"
  by (simp add: slice_def)

lemma be16_length [simp]: "length (be16 w) = 2"
  by (simp add: be16_def)

lemma store_be32_length [simp]: "length (store_be32 w) = 4"
  by (simp add: store_be32_def)

lemma udp_header_length [simp]: "length (udp_header ident src dest dport sport len) = 28"
  by (simp add: udp_header_def)

text \<open>The network state has its buffers, addresses of six bytes and a device.\<close>

definition net_ok :: "'a net_scheme \<Rightarrow> bool" where
  "net_ok n \<longleftrightarrow> length (NetTxPacket n) = 1536 \<and> length (NetArpWaitTxPacket n) = 1536 \<and> length (NetOurEther n) = 6 \<and>
     length (NetServerEther n) = 6 \<and> length (NetBcastAddr n) = 6 \<and> length (ping_mac n) = 6 \<and> eth_devices n \<noteq> []"

definition ether_hdr :: "'a net_scheme \<Rightarrow> u8 list \<Rightarrow> u8 list \<Rightarrow> u32 \<Rightarrow> u8 list" where
  "ether_hdr n dst src prot = dst @ src @ (if myvlanid n AND 0xfff = 4095 then be16 prot
     else be16 0x8100 @ be16 (ucast (myvlanid n AND 0xfff)) @ be16 prot)"

lemma ether_hdr_length: "length dst = 6 \<Longrightarrow> length src = 6 \<Longrightarrow> length (ether_hdr n dst src prot) = NetEthHdrSize n"
  by (simp add: ether_hdr_def NetEthHdrSize_def)

lemma NetSetEther_eq:
  assumes "length addr = 6" "length (NetOurEther n) = 6" "18 \<le> length buf"
  shows "NetSetEther n addr prot buf =
    Some (NetEthHdrSize n, ether_hdr n addr (NetOurEther n) prot @ drop (NetEthHdrSize n) buf)"
  using assms by (simp add: NetSetEther_def put_def ether_hdr_def NetEthHdrSize_def)

lemma put_be16_drop:
  assumes "length a = i" "length b = 2"
  shows "put i (be16 w) (a @ b @ c) = Some (a @ be16 w @ c)"
  using assms by (simp add: put_def)

lemma NetSetIP_eq:
  assumes "length pre = off" "28 + len < length rest"
  shows "\<exists>tail. NetSetIP off dest dport sport len (pre @ rest) n =
      Some (pre @ udp_header (NetIPID n) (NetOurIP n) dest dport sport len @ tail, n\<lparr>NetIPID := NetIPID n + 1\<rparr>) \<and>
    take len tail = take len (drop 28 rest) \<and> length tail = length rest - 28"
proof -
  define rest' where "rest' = (if odd len then rest[28 + len := 0] else rest)"
  have r': "length rest' = length rest" "take len (drop 28 rest') = take len (drop 28 rest)"
    by (simp_all add: rest'_def drop_update_swap)
  have pad: "(if odd len then put (off + 28 + len) [0] (pre @ rest) else Some (pre @ rest)) = Some (pre @ rest')"
    using assms by (simp add: put_def rest'_def upd_conv_take_nth_drop)
  let ?ip = "ip_header n dest (of_nat (28 + len)) 17" and ?udp = "be16 sport @ be16 dport @ be16 (of_nat (8 + len)) @ be16 0"
  have l: "length ?ip = 20" "length (?ip @ ?udp) = 28" by (simp_all add: ip_header_def)
  have p1: "put off (?ip @ ?udp) (pre @ rest') = Some (pre @ (?ip @ ?udp) @ drop 28 rest')"
    using assms r'(1) l by (subst put_append) simp_all
  have "cksum_loop 10 0 (?ip @ ?udp @ drop 28 rest') =
      Some (of_nat (header_sum (NetIPID n) (NetOurIP n) dest (of_nat (28 + len)) + unat (0 :: u32) mod 65536))"
    using header_cksum [of "of_nat (28 + len)" "NetIPID n" 0] by (simp only: ip_header_def append_assoc)
  then have sum: "NetCksum (drop off (pre @ (?ip @ ?udp) @ drop 28 rest')) (20 div 2) =
      Some (ones_sum (of_nat (header_sum (NetIPID n) (NetOurIP n) dest (of_nat (28 + len)))))"
    using assms(1) by (simp add: NetCksum_def ones_sum_def)
  have p2: "put (off + 10) (be16 c) (pre @ (?ip @ ?udp) @ drop 28 rest') =
      Some (pre @ (take 10 ?ip @ be16 c @ drop 12 ?ip @ ?udp) @ drop 28 rest')" for c
    using put_be16_drop [of "pre @ take 10 ?ip" "off + 10" "take 2 (drop 10 ?ip)" c "drop 12 ?ip @ ?udp @ drop 28 rest'"]
      assms(1) l by (simp add: ip_header_def)
  show ?thesis
    unfolding NetSetIP_def pad bind.bind_lunit p1 sum p2
    using r' by (intro exI [of _ "drop 28 rest'"]) (simp add: udp_header_def ip_header_def)
qed

text \<open>The frame of a datagram.\<close>

definition udp_frame :: "'a net_scheme \<Rightarrow> u8 list \<Rightarrow> u32 \<Rightarrow> u32 \<Rightarrow> u32 \<Rightarrow> u8 list \<Rightarrow> u8 list" where
  "udp_frame n dst dest dport sport payload =
     ether_hdr n dst (NetOurEther n) 0x0800 @ udp_header (NetIPID n) (NetOurIP n) dest dport sport (length payload) @ payload"

text \<open>The payload of the packet in preparation.\<close>

definition tx_payload :: "nat \<Rightarrow> 'a net_scheme \<Rightarrow> u8 list" where
  "tx_payload len n = take len (drop (NetEthHdrSize n + 28) (NetTxPacket n))"

lemma hdr_size_cases: "NetEthHdrSize n = 14 \<or> NetEthHdrSize n = 18"
  by (simp add: NetEthHdrSize_def)

text \<open>Headers and payload in a transmit buffer.\<close>

lemma build_frame:
  assumes "length addr = 6" "length (NetOurEther n) = 6" "length buf = 1536" "len \<le> 1468"
  shows "\<exists>pkt tail. NetSetEther n addr 0x0800 buf = Some (NetEthHdrSize n, pkt) \<and>
    NetSetIP (NetEthHdrSize n) dest dport sport len pkt n =
      Some (ether_hdr n addr (NetOurEther n) 0x0800 @ udp_header (NetIPID n) (NetOurIP n) dest dport sport len @ tail,
        n\<lparr>NetIPID := NetIPID n + 1\<rparr>) \<and>
    take len tail = take len (drop (NetEthHdrSize n + 28) buf) \<and> length tail = 1536 - (NetEthHdrSize n + 28)"
proof -
  let ?h = "NetEthHdrSize n" and ?e = "ether_hdr n addr (NetOurEther n) 0x0800"
  have h: "?h \<le> 18" using hdr_size_cases [of n] by auto
  have "NetSetEther n addr 0x0800 buf = Some (?h, ?e @ drop ?h buf)"
    using assms by (intro NetSetEther_eq) simp_all
  moreover have "length ?e = ?h" using assms by (simp add: ether_hdr_length)
  moreover have "28 + len < length (drop ?h buf)" using assms h by simp
  ultimately show ?thesis
    using NetSetIP_eq [of ?e ?h len "drop ?h buf" dest dport sport n] assms h
    by (auto simp: add.commute)
qed

text \<open>\<open>ip_dest\<close> turns the old broadcast address into the new one.\<close>

definition ip_dest :: "u32 \<Rightarrow> u32" where
  "ip_dest dest = (if dest = 0 then 0xffffffff else dest)"

definition ether_dest :: "ether_ptr \<Rightarrow> u32 \<Rightarrow> ether_ptr" where
  "ether_dest ether dest = (if ip_dest dest = 0xffffffff then Ptr_NetBcastAddr else ether)"

lemma ether_at_length: "net_ok n \<Longrightarrow> length (ether_at p n) = 6"
  by (simp add: net_ok_def ether_at_def split: ether_ptr.split)

lemma payload_slice: "net_ok n \<Longrightarrow> len \<le> 1468 \<Longrightarrow> slice (NetEthHdrSize n + 28) len (NetTxPacket n) = Some (tx_payload len n)"
  using hdr_size_cases [of n] by (auto simp: slice_def tx_payload_def net_ok_def)

lemma tx_payload_length: "net_ok n \<Longrightarrow> len \<le> 1468 \<Longrightarrow> length (tx_payload len n) = len"
  using hdr_size_cases [of n] by (auto simp: tx_payload_def net_ok_def)

lemma log_same:
  "NetEthHdrSize (n\<lparr>udp_log := l\<rparr>) = NetEthHdrSize n" "ether_hdr (n\<lparr>udp_log := l\<rparr>) = ether_hdr n"
  "ether_at p (n\<lparr>udp_log := l\<rparr>) = ether_at p n"
  by (simp_all add: NetEthHdrSize_def myvlanid_def ether_hdr_def fun_eq_iff ether_at_def split: ether_ptr.split)

lemma NetSendUDPPacket_unfold:
  "NetSendUDPPacket ether dest dport sport len n = do {
     payload \<leftarrow> slice (NetEthHdrSize n + 28) len (NetTxPacket n);
     let m = n\<lparr>udp_log := udp_log n @ [(dest, dport, sport, payload)]\<rparr>;
     let e = ether_dest ether dest;
     if ether_at e n = replicate 6 0 then do {
       (h, pkt) \<leftarrow> NetSetEther m (ether_at e n) 0x0800 (NetArpWaitTxPacket n);
       (pkt, m) \<leftarrow> NetSetIP h (ip_dest dest) dport sport len pkt m;
       data \<leftarrow> slice (h + 28) len (NetTxPacket m);
       pkt \<leftarrow> put (h + 28) data pkt;
       m \<leftarrow> arp_wait (ip_dest dest) e pkt (h + 28 + len) m;
       Some (1, m)
     } else do {
       (h, pkt) \<leftarrow> NetSetEther m (ether_at e n) 0x0800 (NetTxPacket n);
       (pkt, m) \<leftarrow> NetSetIP h (ip_dest dest) dport sport len pkt m;
       Some (0, eth_send (take (h + 28 + len) pkt) (m\<lparr>NetTxPacket := pkt\<rparr>))
     }
   }"
  unfolding NetSendUDPPacket_def Let_def ip_dest_def [symmetric] ether_dest_def [symmetric] log_same by (simp cong: if_cong)

lemma send_known:
  assumes "net_ok n" "len \<le> 1468" "ether_at (ether_dest ether dest) n \<noteq> replicate 6 0"
  shows "\<exists>buf. length buf = 1536 \<and> NetSendUDPPacket ether dest dport sport len n = Some (0,
    n\<lparr>udp_log := udp_log n @ [(dest, dport, sport, tx_payload len n)], NetIPID := NetIPID n + 1, NetTxPacket := buf,
      eth_sent := eth_sent n @ [udp_frame n (ether_at (ether_dest ether dest) n) (ip_dest dest) dport sport (tx_payload len n)]\<rparr>)"
proof -
  let ?m = "n\<lparr>udp_log := udp_log n @ [(dest, dport, sport, tx_payload len n)]\<rparr>" and ?a = "ether_at (ether_dest ether dest) n"
  have h: "NetEthHdrSize n \<le> 18" using hdr_size_cases [of n] by auto
  have l: "length ?a = 6" "length (NetOurEther n) = 6" "length (NetTxPacket n) = 1536"
    using assms(1) ether_at_length [OF assms(1)] by (simp_all add: net_ok_def)
  obtain pkt tail where b: "NetSetEther ?m ?a 0x0800 (NetTxPacket n) = Some (NetEthHdrSize n, pkt)"
      "NetSetIP (NetEthHdrSize n) (ip_dest dest) dport sport len pkt ?m =
        Some (ether_hdr n ?a (NetOurEther n) 0x0800 @ udp_header (NetIPID n) (NetOurIP n) (ip_dest dest) dport sport len @ tail,
          ?m\<lparr>NetIPID := NetIPID n + 1\<rparr>)"
      "take len tail = tx_payload len n" "length tail = 1536 - (NetEthHdrSize n + 28)"
    using build_frame [of ?a ?m "NetTxPacket n" len "ip_dest dest" dport sport] l assms(2) unfolding log_same tx_payload_def
    by auto
  define buf where "buf = ether_hdr n ?a (NetOurEther n) 0x0800 @ udp_header (NetIPID n) (NetOurIP n) (ip_dest dest) dport sport len @ tail"
  have f: "take (NetEthHdrSize n + 28 + len) buf = udp_frame n ?a (ip_dest dest) dport sport (tx_payload len n)"
    using b(3) l tx_payload_length [OF assms(1,2)] by (simp add: buf_def udp_frame_def ether_hdr_length)
  have "length buf = 1536" using b(4) l h by (simp add: buf_def ether_hdr_length)
  moreover have "NetSendUDPPacket ether dest dport sport len n =
      Some (0, eth_send (take (NetEthHdrSize n + 28 + len) buf) (?m\<lparr>NetIPID := NetIPID n + 1, NetTxPacket := buf\<rparr>))"
    unfolding NetSendUDPPacket_unfold Let_def payload_slice [OF assms(1,2)]
    using assms(3) b(1) b(2) [folded buf_def] by simp
  ultimately show ?thesis using assms(1) unfolding f by (intro exI [of _ buf]) (simp add: eth_send_def net_ok_def)
qed

section \<open>Address resolution\<close>

definition arp_packet :: "u32 \<Rightarrow> u8 list \<Rightarrow> u32 \<Rightarrow> u8 list \<Rightarrow> u32 \<Rightarrow> u8 list" where
  "arp_packet oper sha spa tha tpa =
     be16 1 @ be16 0x0800 @ [6, 4] @ be16 oper @ sha @ store_be32 spa @ tha @ store_be32 tpa"

lemma arp_packet_length: "length sha = 6 \<Longrightarrow> length tha = 6 \<Longrightarrow> length (arp_packet oper sha spa tha tpa) = 28"
  by (simp add: arp_packet_def)

lemma ArpRequest_eq:
  assumes "net_ok n"
  shows "\<exists>buf. length buf = 1536 \<and> ArpRequest n = Some (n\<lparr>NetArpWaitReplyIP := arp_reply_ip n, NetTxPacket := buf,
    eth_sent := eth_sent n @ [ether_hdr n (NetBcastAddr n) (NetOurEther n) 0x0806 @
      arp_packet 1 (NetOurEther n) (NetOurIP n) (replicate 6 0) (arp_reply_ip n)]\<rparr>)"
proof -
  let ?h = "NetEthHdrSize n" and ?e = "ether_hdr n (NetBcastAddr n) (NetOurEther n) 0x0806"
    and ?a = "arp_packet 1 (NetOurEther n) (NetOurIP n) (replicate 6 0) (arp_reply_ip n)"
  have h: "?h \<le> 18" using hdr_size_cases [of n] by auto
  have l: "length (NetTxPacket n) = 1536" "length ?e = ?h" "length ?a = 28"
    using assms by (simp_all add: net_ok_def ether_hdr_length arp_packet_length)
  have "NetSetEther n (NetBcastAddr n) 0x0806 (NetTxPacket n) = Some (?h, ?e @ drop ?h (NetTxPacket n))"
    using assms by (intro NetSetEther_eq) (simp_all add: net_ok_def)
  moreover have "put ?h ?a (?e @ drop ?h (NetTxPacket n)) = Some (?e @ ?a @ drop (length ?a) (drop ?h (NetTxPacket n)))"
    using l h by (intro put_append) simp_all
  ultimately show ?thesis using assms l h unfolding ArpRequest_def arp_packet_def [symmetric]
    by (intro exI [of _ "?e @ ?a @ drop (length ?a) (drop ?h (NetTxPacket n))"])
      (simp add: Let_def eth_send_def net_ok_def arp_packet_def)
qed

text \<open>A packet waits for the answer to the request for the address of its destination or gateway.\<close>

definition waiting :: "'a net_scheme \<Rightarrow> u32 \<Rightarrow> ether_ptr \<Rightarrow> u8 list \<Rightarrow> bool" where
  "waiting n dest ether frame \<longleftrightarrow> NetArpWaitPacketIP n = dest \<and> NetArpWaitPacketMAC n = Some ether \<and>
     take (NetArpWaitTxPacketSize n) (NetArpWaitTxPacket n) = frame \<and> NetArpWaitReplyIP n = arp_reply_ip n"

lemma send_unknown:
  assumes "net_ok n" "len \<le> 1468" "ether_at (ether_dest ether dest) n = replicate 6 0"
  shows "\<exists>m. NetSendUDPPacket ether dest dport sport len n = Some (1, m) \<and> net_ok m \<and>
    waiting m (ip_dest dest) (ether_dest ether dest) (udp_frame n (replicate 6 0) (ip_dest dest) dport sport (tx_payload len n)) \<and>
    eth_sent m = eth_sent n @ [ether_hdr n (NetBcastAddr n) (NetOurEther n) 0x0806 @
      arp_packet 1 (NetOurEther n) (NetOurIP n) (replicate 6 0) (NetArpWaitReplyIP m)] \<and>
    (\<exists>x1 x2 x3 x4 x5. m = n\<lparr>udp_log := udp_log n @ [(dest, dport, sport, tx_payload len n)], NetIPID := NetIPID n + 1,
       NetArpWaitPacketIP := ip_dest dest, NetArpWaitPacketMAC := Some (ether_dest ether dest), NetArpWaitTxPacket := x1,
       NetArpWaitTxPacketSize := x2, NetArpWaitTry := 1, NetArpWaitTimerStart := now n, NetArpWaitReplyIP := x3,
       NetTxPacket := x4, eth_sent := x5\<rparr>)"
proof -
  let ?m = "n\<lparr>udp_log := udp_log n @ [(dest, dport, sport, tx_payload len n)]\<rparr>" and ?z = "replicate 6 (0 :: u8)"
    and ?h = "NetEthHdrSize n" and ?e = "ether_dest ether dest"
  have h: "?h \<le> 18" using hdr_size_cases [of n] by auto
  have l: "length ?z = 6" "length (NetOurEther n) = 6" "length (NetArpWaitTxPacket n) = 1536" "length (NetTxPacket n) = 1536"
    using assms(1) by (simp_all add: net_ok_def)
  obtain pkt tail where b: "NetSetEther ?m ?z 0x0800 (NetArpWaitTxPacket n) = Some (?h, pkt)"
      "NetSetIP ?h (ip_dest dest) dport sport len pkt ?m =
        Some (ether_hdr n ?z (NetOurEther n) 0x0800 @ udp_header (NetIPID n) (NetOurIP n) (ip_dest dest) dport sport len @ tail,
          ?m\<lparr>NetIPID := NetIPID n + 1\<rparr>)" "length tail = 1536 - (?h + 28)"
    using build_frame [of ?z ?m "NetArpWaitTxPacket n" len "ip_dest dest" dport sport] l assms(2) unfolding log_same by auto
  let ?pre = "ether_hdr n ?z (NetOurEther n) 0x0800 @ udp_header (NetIPID n) (NetOurIP n) (ip_dest dest) dport sport len"
    and ?d = "tx_payload len n"
  define w where "w = ?pre @ ?d @ drop len tail"
  have d: "length ?d = len" by (rule tx_payload_length [OF assms(1,2)])
  have lp: "length ?pre = ?h + 28" using l by (simp add: ether_hdr_length)
  have p: "put (?h + 28) ?d (?pre @ tail) = Some w"
    using put_append [of ?pre "?h + 28" ?d tail] lp d b(3) assms(2) h by (simp add: w_def)
  let ?w = "?m\<lparr>NetIPID := NetIPID n + 1, NetArpWaitPacketIP := ip_dest dest, NetArpWaitPacketMAC := Some ?e,
    NetArpWaitTxPacket := w, NetArpWaitTxPacketSize := ?h + 28 + len, NetArpWaitTry := 1, NetArpWaitTimerStart := now n\<rparr>"
  have lw: "length w = 1536" using lp d b(3) assms(2) h by (simp add: w_def)
  have okw: "net_ok ?w" using assms(1) lw by (simp add: net_ok_def)
  obtain buf where a: "length buf = 1536" "ArpRequest ?w = Some (?w\<lparr>NetArpWaitReplyIP := arp_reply_ip ?w, NetTxPacket := buf,
      eth_sent := eth_sent ?w @ [ether_hdr ?w (NetBcastAddr ?w) (NetOurEther ?w) 0x0806 @
        arp_packet 1 (NetOurEther ?w) (NetOurIP ?w) ?z (arp_reply_ip ?w)]\<rparr>)" (is "_ = Some ?r")
    using ArpRequest_eq [OF okw] by blast
  have "NetSendUDPPacket ether dest dport sport len n = Some (1, ?r)"
    unfolding NetSendUDPPacket_unfold Let_def payload_slice [OF assms(1,2)] arp_wait_def
    using assms(3) b(1,2) p payload_slice [OF assms(1,2)] a(2) by simp
  moreover have "net_ok ?r" using okw a(1) by (simp add: net_ok_def)
  moreover have "take (?h + 28 + len) w = udp_frame n ?z (ip_dest dest) dport sport ?d"
    using lp d by (simp add: w_def udp_frame_def)
  moreover have "ether_hdr ?w = ether_hdr n" by (simp add: fun_eq_iff ether_hdr_def myvlanid_def)
  moreover have "arp_reply_ip ?r = arp_reply_ip ?w" by (simp add: arp_reply_ip_def)
  moreover have "\<exists>x1 x2 x3 x4 x5. ?r = n\<lparr>udp_log := udp_log n @ [(dest, dport, sport, ?d)], NetIPID := NetIPID n + 1,
       NetArpWaitPacketIP := ip_dest dest, NetArpWaitPacketMAC := Some ?e, NetArpWaitTxPacket := x1,
       NetArpWaitTxPacketSize := x2, NetArpWaitTry := 1, NetArpWaitTimerStart := now n, NetArpWaitReplyIP := x3,
       NetTxPacket := x4, eth_sent := x5\<rparr>" by (intro exI) (rule refl)
  ultimately show ?thesis by (intro exI [of _ ?r] conjI) (simp_all add: waiting_def)
qed

section \<open>Receiving\<close>

lemma rd_off: "rd (pre @ p) (length pre + k) = rd p k"
  by (simp add: rd_def nth_append)

lemma get16_off: "get16 (pre @ p) (length pre + k) = get16 p k"
  using rd_off [of pre p k] rd_off [of pre p "k + 1"] by (simp add: get16_def)

lemma NetReadIP_off: "NetReadIP (pre @ p) (length pre + k) = NetReadIP p k"
  using rd_off [of pre p k] rd_off [of pre p "k + 1"] rd_off [of pre p "k + 2"] rd_off [of pre p "k + 3"]
  by (simp add: NetReadIP_def add.assoc)

lemma slice_off: "slice (length pre + k) l (pre @ p) = slice k l p"
  by (simp add: slice_def)

lemmas off_simps = rd_off get16_off NetReadIP_off slice_off rd_off [where k = 0, simplified] get16_off [where k = 0, simplified]

lemma get16_be16: "length as = i \<Longrightarrow> get16 (as @ be16 w @ cs) i = Some (take_bit 16 w)"
  using get16_off [of as "be16 w @ cs" 0] be16_take_bit [of w] by (simp add: get16_def be16_def rd_def)

lemma NetReadIP_store: "length as = i \<Longrightarrow> NetReadIP (as @ store_be32 w @ cs) i = Some w"
proof -
  assume "length as = i"
  then have "NetReadIP (as @ store_be32 w @ cs) i = NetReadIP (store_be32 w @ cs) 0" using NetReadIP_off [of as _ 0] by simp
  also have "\<dots> = Some w" using load_be32_store_be32 [OF store_be32_def [of w]] by (simp add: NetReadIP_def store_be32_def rd_def)
  finally show ?thesis .
qed

lemma frame_payload_eq:
  assumes "length dst = 6" "length src = 6" "NetOurVLAN m = NetOurVLAN n"
    and "prot = 0x0800 \<or> prot = 0x0806" "int (NetEthHdrSize n) \<le> len"
  shows "\<exists>v. frame_payload (ether_hdr m dst src prot @ body) len n =
    Some (Some (prot, NetEthHdrSize n, len - int (NetEthHdrSize n), v)) \<and> vlan_accepts v n"
proof -
  have my: "myvlanid m = myvlanid n" using assms(3) by (simp add: myvlanid_def)
  have t: "take_bit 16 prot = prot" "\<not> prot < 1514" "prot \<noteq> 0x8100" using assms(4) by auto
  show ?thesis
  proof (cases "myvlanid n AND 0xfff = 4095")
    case True
    then have "ether_hdr m dst src prot @ body = (dst @ src) @ be16 prot @ body" by (simp add: ether_hdr_def my)
    then have "get16 (ether_hdr m dst src prot @ body) 12 = Some prot" using assms(1,2) t(1) get16_be16 [of "dst @ src" 12 prot body] by simp
    then show ?thesis using True t by (simp add: frame_payload_def NetEthHdrSize_def vlan_accepts_def Let_def)
  next
    case False
    let ?v = "myvlanid n AND 0xfff"
    have e: "ether_hdr m dst src prot @ body = (dst @ src) @ be16 0x8100 @ be16 (ucast ?v) @ be16 prot @ body"
      using False by (simp add: ether_hdr_def my)
    have "get16 (ether_hdr m dst src prot @ body) 12 = Some 0x8100"
      unfolding e using assms(1,2) get16_be16 [of "dst @ src" 12 "0x8100"] by simp
    moreover have "get16 (ether_hdr m dst src prot @ body) 14 = Some (take_bit 16 (ucast ?v))"
      unfolding e using assms(1,2) get16_be16 [of "(dst @ src) @ be16 0x8100" 14 "ucast ?v" "be16 prot @ body"] by simp
    moreover have "get16 (ether_hdr m dst src prot @ body) 16 = Some prot"
      unfolding e using assms(1,2) t(1) get16_be16 [of "(dst @ src) @ be16 0x8100 @ be16 (ucast ?v)" 16 prot body] by simp
    moreover have v: "ucast (take_bit 16 (ucast ?v :: u32)) AND 0xfff = ?v"
      by (rule bit_word_eqI) (auto simp: bit_simps)
    moreover have "NetOurVLAN n AND 0xfff \<noteq> 4095" using False by (auto simp: myvlanid_def split: if_splits)
    ultimately show ?thesis using False assms(5) by (simp add: frame_payload_def NetEthHdrSize_def vlan_accepts_def Let_def)
  qed
qed

lemma udp_header_fields:
  assumes "p = udp_header ident src dest dport sport len @ cs" "28 + len < 65536" "unat dport < 65536" "unat sport < 65536"
  shows "rd p 0 = Some 0x45" "get16 p 2 = Some (of_nat (28 + len))" "get16 p 6 = Some 0x4000" "rd p 9 = Some 17"
    "NetReadIP p 16 = Some dest" "get16 p 20 = Some sport" "get16 p 22 = Some dport" "get16 p 24 = Some (of_nat (8 + len))"
    "NetCksumOk p 10 = Some True" "drop 28 p = cs"
proof -
  let ?c = "NOT (ones_sum (of_nat (header_sum ident src dest (of_nat (28 + len)))))"
  let ?v = "[0x45, 0] :: u8 list" and ?w = "[255, 17] :: u8 list"
  have p: "p = ?v @ be16 (of_nat (28 + len)) @ be16 ident @ be16 0x4000 @ ?w @ be16 ?c @ store_be32 src @ store_be32 dest @
      be16 sport @ be16 dport @ be16 (of_nat (8 + len)) @ be16 0 @ cs"
    using assms(1) by (simp add: udp_header_def)
  have small: "take_bit 16 (of_nat (28 + len) :: u32) = of_nat (28 + len)" "take_bit 16 (of_nat (8 + len) :: u32) = of_nat (8 + len)"
      "take_bit 16 sport = sport" "take_bit 16 dport = dport"
    using assms(2-4) by (simp_all add: take_bit_16_small unat_of_nat del: of_nat_add of_nat_numeral)
  show "rd p 0 = Some 0x45" by (simp add: p rd_def)
  show "rd p 9 = Some 17" by (simp add: p rd_def be16_def)
  show "get16 p 2 = Some (of_nat (28 + len))"
    unfolding p using get16_be16 [of ?v 2 "of_nat (28 + len)"] small(1) by simp
  show "get16 p 6 = Some 0x4000"
    unfolding p using get16_be16 [of "?v @ be16 (of_nat (28 + len)) @ be16 ident" 6 "0x4000"] by simp
  let ?h = "?v @ be16 (of_nat (28 + len)) @ be16 ident @ be16 0x4000 @ ?w @ be16 ?c @ store_be32 src"
  show "NetReadIP p 16 = Some dest" unfolding p using NetReadIP_store [of ?h 16 dest] by simp
  show "get16 p 20 = Some sport" unfolding p using get16_be16 [of "?h @ store_be32 dest" 20 sport] small(3) by simp
  show "get16 p 22 = Some dport" unfolding p using get16_be16 [of "?h @ store_be32 dest @ be16 sport" 22 dport] small(4) by simp
  show "get16 p 24 = Some (of_nat (8 + len))"
    unfolding p using get16_be16 [of "?h @ store_be32 dest @ be16 sport @ be16 dport" 24 "of_nat (8 + len)"] small(2) by simp
  show "NetCksumOk p 10 = Some True" unfolding p by (rule header_cksum_ok [OF refl])
  show "drop 28 p = cs" using assms(1) by simp
qed

lemma receive_udp:
  assumes "length pre = off" "length payload = len" "28 + len < 65536" "unat dport < 65536" "unat sport < 65536"
    and "28 + int len \<le> iplen" "iplen < 2 ^ 32" "NetOurIP n = 0 \<or> dest = NetOurIP n \<or> dest = 0xffffffff"
  shows "receive_ip off iplen (pre @ udp_header ident src dest dport sport len @ payload @ cs) n =
    Some (Some (Some (payload @ cs), dport, sport, of_nat len), n)"
proof -
  let ?p = "udp_header ident src dest dport sport len @ payload @ cs"
  note f = udp_header_fields [OF refl assms(3-5), of ident src dest "payload @ cs"]
  have o: "get16 (pre @ ?p) (off + k) = get16 ?p k" "rd (pre @ ?p) (off + k) = rd ?p k" "NetReadIP (pre @ ?p) (off + k) = NetReadIP ?p k" for k
    using assms(1) off_simps(1-3) [of pre ?p k] by auto
  have o0: "rd (pre @ ?p) off = Some 0x45" using o(2) [of 0] f(1) by simp
  have "(of_int iplen :: u32) = of_nat (nat iplen)" using assms(6) by simp
  moreover have "nat iplen < 2 ^ 32" using assms(6,7) by (simp add: nat_less_iff)
  ultimately have "unat (of_int iplen :: u32) = nat iplen" by (simp only: unat_of_nat) simp
  then have c1: "\<not> unat (of_int iplen :: u32) < 28" using assms(6) by simp
  have "unat (of_nat (28 + len) :: u32) = 28 + len" using assms(3) by (simp add: unat_of_nat del: of_nat_add of_nat_numeral)
  then have c2: "\<not> iplen < int (unat (of_nat (28 + len) :: u32))" using assms(6) by simp
  have u: "(of_nat (8 + len) :: u32) - 8 = of_nat len" by simp
  have dr: "drop off (pre @ ?p) = ?p" "drop (off + 28) (pre @ ?p) = payload @ cs" using assms(1) by simp_all
  show ?thesis
    using c1 c2 assms(8) unfolding receive_ip_def o dr f o0
    by (auto simp: f(9) u simp del: of_nat_add of_nat_numeral)
qed

text \<open>A datagram of another machine, with the padding that short frames get.\<close>

lemma receive_udp_frame:
  assumes "length mac = 6" "length (NetOurEther a) = 6" "length p \<le> 1468" "int (length (udp_frame a mac dest dport sport p)) \<le> len" "len < 2 ^ 31"
    and "NetOurVLAN b = NetOurVLAN a" "NetOurIP b = 0 \<or> NetOurIP b = dest \<or> dest = 0xffffffff"
    and "unat dport < 65536" "unat sport < 65536"
  shows "receive_frame (udp_frame a mac dest dport sport p @ cs) len b = Some (Some (Some (p @ cs), dport, sport, of_nat (length p)), b)"
proof -
  let ?f = "udp_frame a mac dest dport sport p" and ?e = "ether_hdr a mac (NetOurEther a) 0x0800" and ?l = "len - int (NetEthHdrSize a)"
  have h: "NetEthHdrSize b = NetEthHdrSize a" using assms(6) by (simp add: NetEthHdrSize_def myvlanid_def)
  have le: "length ?e = NetEthHdrSize a" using assms(1,2) by (simp add: ether_hdr_length)
  have lf: "length ?f = NetEthHdrSize a + 28 + length p" using le by (simp add: udp_frame_def)
  obtain v where v: "frame_payload (?f @ cs) len b = Some (Some (0x0800, NetEthHdrSize a, ?l, v))" "vlan_accepts v b"
    using frame_payload_eq [of mac "NetOurEther a" a b "0x0800" len "udp_header (NetIPID a) (NetOurIP a) dest dport sport (length p) @ p @ cs"]
      assms(1,2,4,6) h lf by (auto simp: udp_frame_def)
  have "receive_ip (NetEthHdrSize a) ?l (?f @ cs) b = Some (Some (Some (p @ cs), dport, sport, of_nat (length p)), b)"
    using receive_udp [of ?e "NetEthHdrSize a" p "length p" dport sport ?l b dest "NetIPID a" "NetOurIP a" cs] le lf assms(3-5,7-9)
    by (auto simp: udp_frame_def)
  moreover have "14 \<le> len" using lf assms(4) hdr_size_cases [of a] by auto
  ultimately show ?thesis using v by (simp add: receive_frame_def)
qed

text \<open>C7: A datagram arrives. The frame \<open>NetSendUDPPacket\<close> transmits on one machine, received on a machine with
  the destination address (or one without an address, or for a broadcast) and the same VLAN,
  passes every test of \<open>NetReceive\<close>, the checksum included, and calls its packet handler with
  the payload, the ports and the length; the rest of its state is unchanged.\<close>

theorem udp_send_receive:
  assumes "net_ok a" "len \<le> 1468" "ether_at (ether_dest ether dest) a \<noteq> replicate 6 0"
    and "NetOurVLAN b = NetOurVLAN a" "NetOurIP b = 0 \<or> NetOurIP b = ip_dest dest \<or> ip_dest dest = 0xffffffff"
    and "unat dport < 65536" "unat sport < 65536"
  shows "\<exists>a' frame. NetSendUDPPacket ether dest dport sport len a = Some (0, a') \<and> eth_sent a' = eth_sent a @ [frame] \<and>
    NetReceive (frame @ cs) (int (length frame)) b = Some (Some (Some (tx_payload len a @ cs), dport, sport, of_nat len),
      b\<lparr>NetRxPacket := frame @ cs, NetRxPacketLen := int (length frame)\<rparr>)"
proof -
  let ?m = "ether_at (ether_dest ether dest) a" and ?p = "tx_payload len a"
  let ?f = "udp_frame a ?m (ip_dest dest) dport sport ?p"
  obtain buf where s: "NetSendUDPPacket ether dest dport sport len a = Some (0,
    a\<lparr>udp_log := udp_log a @ [(dest, dport, sport, ?p)], NetIPID := NetIPID a + 1, NetTxPacket := buf, eth_sent := eth_sent a @ [?f]\<rparr>)"
    using send_known [OF assms(1-3), of dport sport] by blast
  have l: "length ?m = 6" "length (NetOurEther a) = 6" "length ?p = len"
    using ether_at_length [OF assms(1)] tx_payload_length [OF assms(1,2)] assms(1) by (simp_all add: net_ok_def)
  have "length ?f \<le> 18 + 28 + 1468" using l assms(2) by (simp add: udp_frame_def ether_hdr_length NetEthHdrSize_def)
  then have "int (length ?f) < 2 ^ 31" by simp
  then have "NetReceive (?f @ cs) (int (length ?f)) b = Some (Some (Some (?p @ cs), dport, sport, of_nat len),
      b\<lparr>NetRxPacket := ?f @ cs, NetRxPacketLen := int (length ?f)\<rparr>)"
    using receive_udp_frame [OF l(1,2), of ?p "ip_dest dest" dport sport "int (length ?f)" "b\<lparr>NetRxPacket := ?f @ cs, NetRxPacketLen := int (length ?f)\<rparr>" cs]
      assms(2,4-7) l(3) by (simp add: NetReceive_def)
  then show ?thesis using s by auto
qed

definition sample_net :: net where
  "sample_net = eth.extend two_devices (net.fields 0x0a000002 0x0a000001 0xffffff00 0x0a0000fe [2, 0, 0, 0, 0, 2] (replicate 6 0)
     (replicate 6 0xff) (replicate 6 0) (-1) (-1) 7 (replicate 1536 0) NETLOOP_CONTINUE 1 False True Dummy_handler None 0 0
     0 0 None (replicate 1536 0) 0 0 0 0 0 0 [] [] 0 0 [] [] [] 0 0 0 0 0x0a000002 0)"

lemma sample_net_ok: "net_ok sample_net"
  by (simp add: net_ok_def sample_net_def eth.defs net.defs two_devices_def)

theorem udp_send_receive_witness:
  "\<exists>a' frame. NetSendUDPPacket Ptr_NetServerEther 0 67 68 4 sample_net = Some (0, a') \<and>
    map_option fst (NetReceive frame (int (length frame)) sample_net) = Some (Some (Some [0, 0, 0, 0], 67, 68, 4))"
proof -
  have p: "tx_payload 4 sample_net = [0, 0, 0, 0]"
    by (simp add: tx_payload_def sample_net_def eth.defs net.defs NetEthHdrSize_def myvlanid_def numeral_eq_Suc)
  have e: "ether_at (ether_dest Ptr_NetServerEther 0) sample_net \<noteq> replicate 6 0"
    by (simp add: ether_at_def ether_dest_def ip_dest_def sample_net_def eth.defs net.defs)
  show ?thesis
    using udp_send_receive [OF sample_net_ok _ e, of 4 sample_net 67 68 "[]"] by (auto simp: p ip_dest_def)
qed

lemma arp_packet_fields:
  assumes "p = arp_packet oper sha spa tha tpa @ cs" "length sha = 6" "length tha = 6" "unat oper < 65536"
  shows "get16 p 0 = Some 1" "get16 p 2 = Some 0x0800" "rd p 4 = Some 6" "rd p 5 = Some 4" "get16 p 6 = Some oper"
    "slice 8 6 p = Some sha" "NetReadIP p 14 = Some spa" "NetReadIP p 24 = Some tpa"
proof -
  let ?h = "be16 1 @ be16 0x0800 @ [6, 4]"
  have p: "p = ?h @ be16 oper @ sha @ store_be32 spa @ tha @ store_be32 tpa @ cs" using assms(1) by (simp add: arp_packet_def)
  show "get16 p 0 = Some 1" unfolding p using get16_be16 [of "[]" 0 1] by simp
  show "get16 p 2 = Some 0x0800" unfolding p using get16_be16 [of "be16 1" 2 "0x0800"] by simp
  show "rd p 4 = Some 6" "rd p 5 = Some 4" by (simp_all add: p rd_def be16_def)
  show "get16 p 6 = Some oper" unfolding p using get16_be16 [of ?h 6 oper] assms(4) by (simp add: take_bit_16_small)
  show "slice 8 6 p = Some sha" unfolding p using slice_append [of "?h @ be16 oper" 8 sha 6] assms(2) by simp
  show "NetReadIP p 14 = Some spa" unfolding p using NetReadIP_store [of "?h @ be16 oper @ sha" 14 spa] assms(2) by simp
  show "NetReadIP p 24 = Some tpa"
    unfolding p using NetReadIP_store [of "?h @ be16 oper @ sha @ store_be32 spa @ tha" 24 tpa] assms(2,3) by simp
qed

text \<open>The answer to an ARP request completes the header of the packet that waits and sends it; nothing else changes
  but the address that was asked for.\<close>

definition arp_same :: "'a net_scheme \<Rightarrow> 'a net_scheme \<Rightarrow> bool" where
  "arp_same n m \<longleftrightarrow> net.more m = net.more n \<and> NetOurIP m = NetOurIP n \<and> NetOurVLAN m = NetOurVLAN n \<and> NetOurNativeVLAN m = NetOurNativeVLAN n \<and>
     NetState m = NetState n \<and> packetHandler m = packetHandler n \<and> timeHandler m = timeHandler n \<and> timeStart m = timeStart n \<and>
     timeDelta m = timeDelta n \<and> udp_log m = udp_log n \<and> environment m = environment n \<and> eth_devices m = eth_devices n \<and>
     eth_current m = eth_current n \<and> now m = now n"

lemma reply_sends_waiting:
  assumes "net_ok n" "waiting n dest ether frame" "dest \<noteq> 0" "length mac = 6" "length tha = 6" "NetOurIP n \<noteq> 0" "28 \<le> len"
    and "length pre = off" "6 \<le> length frame"
  shows "\<exists>m. receive_arp off len (pre @ arp_packet 2 mac (NetArpWaitReplyIP n) tha (NetOurIP n) @ cs) n = Some m \<and>
    ether_at ether m = mac \<and> eth_sent m = eth_sent n @ [mac @ drop 6 frame] \<and> NetArpWaitPacketIP m = 0 \<and> net_ok m \<and> arp_same n m"
proof -
  let ?p = "arp_packet 2 mac (NetArpWaitReplyIP n) tha (NetOurIP n) @ cs"
  note f = arp_packet_fields [OF refl assms(4,5), of 2 "NetArpWaitReplyIP n" "NetOurIP n" cs, simplified]
  have o: "get16 (pre @ ?p) (off + k) = get16 ?p k" "rd (pre @ ?p) (off + k) = rd ?p k" "NetReadIP (pre @ ?p) (off + k) = NetReadIP ?p k"
      "slice (off + k) l (pre @ ?p) = slice k l ?p" for k l
    using assms(8) off_simps(1-3) [of pre ?p k] slice_off [of pre k l ?p] by auto
  have o0: "get16 (pre @ ?p) off = Some 1" using o(1) [of 0] f(1) by simp
  have w: "NetArpWaitPacketIP n \<noteq> 0" "NetArpWaitPacketMAC n = Some ether" "take (NetArpWaitTxPacketSize n) (NetArpWaitTxPacket n) = frame"
    using assms(2,3) by (auto simp: waiting_def)
  let ?n = "ether_set ether mac n" and ?t = "mac @ drop 6 (NetArpWaitTxPacket n)"
  have n: "ether_at ether ?n = mac" "NetArpWaitTxPacket ?n = NetArpWaitTxPacket n" "NetArpWaitTxPacketSize ?n = NetArpWaitTxPacketSize n"
      "eth_sent ?n = eth_sent n" "eth_devices ?n = eth_devices n"
    by (cases ether; simp add: ether_set_def ether_at_def)+
  have len6: "6 \<le> NetArpWaitTxPacketSize n" using w(3) assms(9) by auto
  have lt: "length ?t = 1536" using assms(1,4) by (simp add: net_ok_def)
  have tk: "take (NetArpWaitTxPacketSize n) ?t = mac @ drop 6 frame"
    unfolding w(3) [symmetric] using assms(4) len6 by (simp add: drop_take)
  have pt: "put 0 mac (NetArpWaitTxPacket n) = Some ?t" using assms(1,4) by (simp add: put_def net_ok_def)
  let ?m = "(eth_send (mac @ drop 6 frame) (?n\<lparr>NetArpWaitTxPacket := ?t\<rparr>))\<lparr>NetArpWaitPacketIP := 0, NetArpWaitTxPacketSize := 0, NetArpWaitPacketMAC := None\<rparr>"
  have "arp_reply off (pre @ ?p) n = Some ?m"
    unfolding arp_reply_def o f using w(1,2) n pt tk by simp
  then have "receive_arp off len (pre @ ?p) n = Some ?m"
    unfolding receive_arp_def o o0 f using assms(6,7) by simp
  moreover have "ether_at ether ?m = mac" "net_ok ?m" using assms(1,4) lt
    by (cases ether; simp add: eth_send_def ether_set_def ether_at_def net_ok_def)+
  moreover have "eth_sent ?m = eth_sent n @ [mac @ drop 6 frame]" using assms(1) n by (simp add: eth_send_def net_ok_def)
  moreover have "arp_same n ?m" by (cases ether) (simp_all add: arp_same_def eth_send_def ether_set_def)
  ultimately show ?thesis by (intro exI [of _ ?m]) simp
qed

text \<open>Who is asked for the address: the destination on the own network, otherwise the gateway if there is one.\<close>

definition arp_target :: "'a net_scheme \<Rightarrow> u32 \<Rightarrow> u32" where
  "arp_target n dest = (if dest AND NetOurSubnetMask n \<noteq> NetOurIP n AND NetOurSubnetMask n \<and> NetOurGatewayIP n \<noteq> 0
     then NetOurGatewayIP n else dest)"

lemma receive_arp_reply:
  assumes "net_ok n" "waiting n dest ether frame" "dest \<noteq> 0" "length mac = 6" "length tha = 6" "NetOurIP n \<noteq> 0" "6 \<le> length frame"
    and "NetOurVLAN a = NetOurVLAN n" "int (NetEthHdrSize n + 28) \<le> len"
  shows "\<exists>m. receive_frame (ether_hdr a tha mac 0x0806 @ arp_packet 2 mac (NetArpWaitReplyIP n) tha (NetOurIP n) @ cs) len n = Some (None, m) \<and>
    ether_at ether m = mac \<and> eth_sent m = eth_sent n @ [mac @ drop 6 frame] \<and> NetArpWaitPacketIP m = 0 \<and> net_ok m \<and> arp_same n m"
proof -
  let ?h = "ether_hdr a tha mac 0x0806" and ?p = "arp_packet 2 mac (NetArpWaitReplyIP n) tha (NetOurIP n) @ cs"
  have e: "NetEthHdrSize a = NetEthHdrSize n" using assms(8) by (simp add: NetEthHdrSize_def myvlanid_def)
  then have lh: "length ?h = NetEthHdrSize n" using assms(4,5) by (simp add: ether_hdr_length)
  have len: "28 \<le> len - int (NetEthHdrSize n)" using assms(9) by simp
  obtain m where m: "receive_arp (NetEthHdrSize n) (len - int (NetEthHdrSize n)) (?h @ ?p) n = Some m" "ether_at ether m = mac"
      "eth_sent m = eth_sent n @ [mac @ drop 6 frame]" "NetArpWaitPacketIP m = 0" "net_ok m" "arp_same n m"
    using reply_sends_waiting [OF assms(1-6) len lh assms(7), of cs] by auto
  obtain v where v: "frame_payload (?h @ ?p) len n = Some (Some (0x0806, NetEthHdrSize n, len - int (NetEthHdrSize n), v))" "vlan_accepts v n"
    using frame_payload_eq [of tha mac a n "0x0806" len ?p] assms(4,5,8,9) by auto
  have "receive_frame (?h @ ?p) len n = Some (None, m)" using v m(1) assms(9) hdr_size_cases [of n] by (auto simp: receive_frame_def)
  then show ?thesis using m by blast
qed

text \<open>C38: Address resolution. A datagram for a server whose Ethernet address is not known yet is kept back, and
  an ARP request for the server or the gateway is broadcast instead. When the answer arrives, the
  frame sent is exactly the one that would have been sent at first had the address been known,
  the address is remembered and nothing waits any more.\<close>

theorem arp_resolves:
  assumes "net_ok n" "len \<le> 1468" "NetServerEther n = replicate 6 0" "dest \<noteq> 0" "dest \<noteq> 0xffffffff"
    and "NetOurIP n \<noteq> 0" "length mac = 6"
  shows "\<exists>m1 m2. NetSendUDPPacket Ptr_NetServerEther dest dport sport len n = Some (1, m1) \<and>
    eth_sent m1 = eth_sent n @ [ether_hdr n (NetBcastAddr n) (NetOurEther n) 0x0806 @
      arp_packet 1 (NetOurEther n) (NetOurIP n) (replicate 6 0) (arp_target n dest)] \<and>
    NetReceive (ether_hdr n (NetOurEther n) mac 0x0806 @ arp_packet 2 mac (arp_target n dest) (NetOurEther n) (NetOurIP n) @ cs)
      (int (NetEthHdrSize n + 28)) m1 = Some (None, m2) \<and>
    eth_sent m2 = eth_sent m1 @ [udp_frame n mac dest dport sport (tx_payload len n)] \<and>
    NetServerEther m2 = mac \<and> NetArpWaitPacketIP m2 = 0"
proof -
  let ?z = "replicate 6 (0 :: u8)" and ?e = Ptr_NetServerEther
  have d: "ip_dest dest = dest" "ether_dest ?e dest = ?e" using assms(4,5) by (simp_all add: ip_dest_def ether_dest_def)
  have z: "ether_at (ether_dest ?e dest) n = ?z" using assms(3) d by (simp add: ether_at_def)
  obtain m1 x1 x2 x3 x4 x5 where m1: "NetSendUDPPacket ?e dest dport sport len n = Some (1, m1)" "net_ok m1"
      "waiting m1 dest ?e (udp_frame n ?z dest dport sport (tx_payload len n))"
      "eth_sent m1 = eth_sent n @ [ether_hdr n (NetBcastAddr n) (NetOurEther n) 0x0806 @
        arp_packet 1 (NetOurEther n) (NetOurIP n) ?z (NetArpWaitReplyIP m1)]"
      "m1 = n\<lparr>udp_log := udp_log n @ [(dest, dport, sport, tx_payload len n)], NetIPID := NetIPID n + 1,
       NetArpWaitPacketIP := dest, NetArpWaitPacketMAC := Some ?e, NetArpWaitTxPacket := x1,
       NetArpWaitTxPacketSize := x2, NetArpWaitTry := 1, NetArpWaitTimerStart := now n, NetArpWaitReplyIP := x3,
       NetTxPacket := x4, eth_sent := x5\<rparr>"
    using send_unknown [OF assms(1,2) z, of dport sport] unfolding d by blast
  have same: "NetOurIP m1 = NetOurIP n" "NetEthHdrSize m1 = NetEthHdrSize n" "NetOurVLAN n = NetOurVLAN m1" "arp_reply_ip m1 = arp_target n dest"
    unfolding m1(5) by (simp_all add: NetEthHdrSize_def myvlanid_def arp_reply_ip_def arp_target_def)
  then have r: "NetArpWaitReplyIP m1 = arp_target n dest" using m1(3) by (simp add: waiting_def)
  have l: "length (NetOurEther n) = 6" using assms(1) by (simp add: net_ok_def)
  let ?h = "ether_hdr n (NetOurEther n) mac 0x0806" and ?p = "arp_packet 2 mac (arp_target n dest) (NetOurEther n) (NetOurIP n)"
  let ?r = "m1\<lparr>NetRxPacket := ?h @ ?p @ cs, NetRxPacketLen := int (NetEthHdrSize n + 28)\<rparr>"
  have lf: "6 \<le> length (udp_frame n ?z dest dport sport (tx_payload len n))" by (simp add: udp_frame_def)
  have "net_ok ?r" "waiting ?r dest ?e (udp_frame n ?z dest dport sport (tx_payload len n))" "NetEthHdrSize ?r = NetEthHdrSize m1"
    using m1(2,3) by (simp_all add: net_ok_def waiting_def arp_reply_ip_def NetEthHdrSize_def myvlanid_def)
  then obtain m2 where m2: "receive_frame (?h @ ?p @ cs) (int (NetEthHdrSize n + 28)) ?r = Some (None, m2)" "ether_at ?e m2 = mac"
      "eth_sent m2 = eth_sent m1 @ [mac @ drop 6 (udp_frame n ?z dest dport sport (tx_payload len n))]" "NetArpWaitPacketIP m2 = 0"
    using receive_arp_reply [of ?r dest ?e _ mac "NetOurEther n" n "int (NetEthHdrSize n + 28)" cs] assms(4,6,7) l lf r same by auto
  have "NetReceive (?h @ ?p @ cs) (int (NetEthHdrSize n + 28)) m1 = Some (None, m2)"
    using m2(1) by (simp add: NetReceive_def)
  moreover have "mac @ drop 6 (udp_frame n ?z dest dport sport p) = udp_frame n mac dest dport sport p" for p
    by (simp add: udp_frame_def ether_hdr_def)
  ultimately show ?thesis using m1(1,4) m2 r by (intro exI [of _ m1] exI [of _ m2]) (simp add: ether_at_def)
qed

theorem arp_resolves_witness:
  "\<exists>m1 m2 frame. NetSendUDPPacket Ptr_NetServerEther 0x0a000001 69 1024 4 sample_net = Some (1, m1) \<and>
    NetReceive frame 42 m1 = Some (None, m2) \<and> NetServerEther m2 = [2, 0, 0, 0, 0, 1]"
proof -
  have "NetServerEther sample_net = replicate 6 0" "NetOurIP sample_net \<noteq> 0" "NetEthHdrSize sample_net = 14"
    by (simp_all add: sample_net_def eth.defs net.defs NetEthHdrSize_def myvlanid_def)
  then show ?thesis
    using arp_resolves [OF sample_net_ok, of 4 "0x0a000001" "[2, 0, 0, 0, 0, 1]" 69 1024 "[]"] by fastforce
qed

section \<open>Where reception goes wrong\<close>

text \<open>The length in the UDP header is not compared with anything: a datagram that claims to be shorter than its
  header reaches the packet handler with a length of almost 4 GB.\<close>

definition bare_net :: net where
  "bare_net = sample_net\<lparr>NetTxPacket := [], NetArpWaitTxPacket := []\<rparr>"

lemma bare_net_code [code]: "bare_net = eth.extend two_devices (net.fields 0x0a000002 0x0a000001 0xffffff00 0x0a0000fe
     [2, 0, 0, 0, 0, 2] (replicate 6 0) (replicate 6 0xff) (replicate 6 0) (-1) (-1) 7 [] NETLOOP_CONTINUE 1 False True
     Dummy_handler None 0 0 0 0 None [] 0 0 0 0 0 0 [] [] 0 0 [] [] [] 0 0 0 0 0x0a000002 0)"
  by (simp add: bare_net_def sample_net_def eth.defs net.defs)

definition short_udp_frame :: "u8 list" where
  "short_udp_frame = [2, 0, 0, 0, 0, 2, 2, 0, 0, 0, 0, 1, 0x08, 0x00, 0x45, 0, 0, 28, 0, 1, 0x40, 0, 0xff, 17, 0x67, 0xcd,
     10, 0, 0, 1, 10, 0, 0, 2, 0x04, 0, 0x04, 0, 0, 0, 0, 0]"

lemma short_udp_length: "map_option fst (NetReceive short_udp_frame 42 bare_net) = Some (Some (Some [], 1024, 1024, 0xfffffff8))"
  by code_simp

text \<open>The length in the IP header has no lower bound either: an echo request that claims less than 20 bytes has
  its checksum computed over two gigabytes.\<close>

lemma cksum_loop_short: "length p < 2 * len \<Longrightarrow> cksum_loop len xsum p = None"
  by (induction len xsum p rule: cksum_loop.induct) auto

lemma bind_None: "(\<And>x. f x = None) \<Longrightarrow> Option.bind m f = None"
  by (cases m) simp_all

lemma put_bind_None:
  assumes "length buf \<le> 1536" "\<And>b. length b \<le> 1536 \<Longrightarrow> f b = None"
  shows "Option.bind (put i xs buf) f = None"
  using assms by (simp add: put_def)

lemma short_echo_overruns:
  assumes "len < 20" "length pkt \<le> 1536"
  shows "echo_reply off len pkt n = None"
proof -
  have "unat (of_nat len - 20 :: u32) \<ge> 2 ^ 31"
  proof -
    have "(of_nat len - 20 :: u32) = of_nat (4294967276 + len)" by simp
    moreover have "unat (of_nat (4294967276 + len) :: u32) = 4294967276 + len" using assms(1) by (simp only: unat_of_nat) simp
    ultimately have "unat (of_nat len - 20 :: u32) = 4294967276 + len" by (simp only:)
    then show ?thesis by simp
  qed
  then have big: "2 ^ 30 \<le> unat (drop_bit 1 (of_nat len - 20 :: u32))" using unat_drop_div [of 1 "of_nat len - 20 :: u32"] by simp
  have ck: "NetCksum (drop k b) (unat (drop_bit 1 (of_nat len - of_nat 20 :: u32))) = None" if "length b \<le> 1536" for k and b :: "u8 list"
    using that big by (simp add: NetCksum_def cksum_loop_short)
  show ?thesis
    unfolding echo_reply_def
    by (rule bind_None, (rule put_bind_None, simp add: assms(2))+, rule bind_None, (rule put_bind_None, assumption)+,
      rule bind_None, (rule put_bind_None, assumption)+) (simp add: ck [simplified])
qed

text \<open>The answer to an echo request of odd length has a wrong checksum, because the last byte is left out.\<close>

definition odd_echo_frame :: "u8 list" where
  "odd_echo_frame = [2, 0, 0, 0, 0, 2, 2, 0, 0, 0, 0, 1, 0x08, 0x00, 0x45, 0, 0, 29, 0, 1, 0x40, 0, 0xff, 1, 0x67, 0xdc,
     10, 0, 0, 1, 10, 0, 0, 2, 8, 0, 0xf6, 0xfd, 0, 1, 0, 1, 1]"

lemma odd_echo_checksum:
  "NetCksum (drop 34 odd_echo_frame @ [0]) 5 = Some 0xffff"
  "map_option (\<lambda>(_, n). NetCksum (drop 34 (last (eth_sent n)) @ [0]) 5) (NetReceive odd_echo_frame 43 bare_net) = Some (Some 0x100)"
  by code_simp+
section \<open>Starting again\<close>

lemma eth_restart_more: "eth.more (eth_restart drv n) = eth.more n"
  using eth_init_more [of drv n] by (auto simp: eth_restart_def split: option.split)

lemma udp_log_more: "eth.more m = eth.more n \<Longrightarrow> udp_log m = udp_log n"
  by (cases m; cases n) simp

lemma again_log: "udp_log (NetStartAgain drv n) = udp_log n"
proof -
  have h: "udp_log (eth_halt m) = udp_log m" "udp_log (eth_try_another fr m) = udp_log m" "udp_log (eth_restart drv m) = udp_log m" for fr and m :: "'a net_scheme"
    by (rule udp_log_more, simp add: eth_more_keeps eth_restart_more)+
  show ?thesis by (simp add: NetStartAgain_def Let_def h NetSetHandler_def NetSetTimeout_def split: prod.split)
qed

end
