(* ===== verification/TftpSpec.thy ===== *)
theory TftpSpec
  imports NetLoop NetSpec
begin

text \<open>
  The TFTP client receives every file: fed with the data packets of a file in order, each possibly
  repeated by the network, it stores the file at the load address, acknowledges every block
  once and reports success, also past 65535 blocks, where the block number wraps around.
\<close>

section \<open>Storing bytes\<close>

lemma store_bytes_append:
  "store_bytes m a (xs @ ys) = store_bytes (store_bytes m a xs) (a + of_nat (length xs)) ys"
  by (induction xs arbitrary: m a) (simp_all add: add.assoc)

lemma unat_sub_Suc: "(x :: u32) \<noteq> a \<Longrightarrow> unat (x - a) = Suc (unat (x - (a + 1)))"
proof -
  assume "x \<noteq> a"
  then have "1 \<le> unat (x - a)" by (metis One_nat_def Suc_leI diff_eq_eq add_0 neq0_conv unat_eq_0)
  then show ?thesis using unat_pred [of "x - a"] by (simp add: diff_diff_eq)
qed

lemma store_bytes_other: "length bs \<le> unat (x - a) \<Longrightarrow> store_bytes m a bs x = m x"
proof (induction bs arbitrary: m a)
  case (Cons b bs)
  then have "x \<noteq> a" by auto
  then show ?case using Cons unat_sub_Suc [of x a] by simp
qed simp

lemma store_bytes_nth:
  "length bs \<le> 2 ^ 32 \<Longrightarrow> unat (x - a) < length bs \<Longrightarrow> store_bytes m a bs x = bs ! unat (x - a)"
proof (induction bs arbitrary: m a)
  case (Cons b bs)
  show ?case
  proof (cases "x = a")
    case True
    have "unat (a - (a + 1)) = 2 ^ 32 - 1" by (simp add: unsigned_minus_1_eq_mask mask_eq_exp_minus_1)
    then show ?thesis using True Cons.prems by (simp add: store_bytes_other)
  next
    case False
    then show ?thesis using Cons unat_sub_Suc [OF False] by simp
  qed
qed simp

lemma store_bytes_eq:
  "length bs \<le> 2 ^ 32 \<Longrightarrow> store_bytes m a bs x = (if unat (x - a) < length bs then bs ! unat (x - a) else m x)"
  by (simp add: store_bytes_nth store_bytes_other)

section \<open>Data packets\<close>

text \<open>Data packet number \<open>n\<close>, as a server sends it.\<close>

definition block_number :: "nat \<Rightarrow> u32" where
  "block_number n = of_nat (n mod 65536)"

definition data_packet :: "nat \<Rightarrow> u8 list \<Rightarrow> u8 list" where
  "data_packet n data = be16 3 @ be16 (block_number n) @ data"

definition ack_packet :: "nat \<Rightarrow> u8 list" where
  "ack_packet n = be16 4 @ be16 (block_number n)"

lemma block_number_small: "unat (block_number n) = n mod 65536"
  by (simp add: block_number_def unat_of_nat)

lemma block_number_0: "block_number n = 0 \<longleftrightarrow> 65536 dvd n"
  by (simp add: unat_eq_0 [symmetric] block_number_small mod_eq_0_iff_dvd)

lemma packet_fields:
  "get16 (data_packet n data @ cs) 0 = Some 3" "get16 (data_packet n data @ cs) 2 = Some (block_number n)"
  "length (data_packet n data) = 4 + length data" "drop 4 (data_packet n data @ cs) = data @ cs"
  using get16_be16 [of "[]" 0 3 "be16 (block_number n) @ data @ cs"] get16_be16 [of "be16 3" 2 "block_number n" "data @ cs"]
    take_bit_16_small [of "block_number n"] block_number_small [of n]
  by (simp_all add: data_packet_def)

section \<open>A transfer block by block\<close>

text \<open>A file as the list of its blocks for the block size \<open>B\<close>: all are full but the last one, which
  ends the transfer.\<close>

definition file_blocks :: "nat \<Rightarrow> u8 list list \<Rightarrow> bool" where
  "file_blocks B bs \<longleftrightarrow> 0 < B \<and> bs \<noteq> [] \<and> (\<forall>b\<in>set (butlast bs). length b = B) \<and> length (last bs) < B \<and>
     length (concat bs) < 2 ^ 32"

text \<open>The client has received the first \<open>k\<close> blocks, starting from the state \<open>t0\<close>.\<close>

definition received :: "tftp \<Rightarrow> u32 \<Rightarrow> u8 list list \<Rightarrow> nat \<Rightarrow> tftp \<Rightarrow> bool" where
  "received t0 src bs k t \<longleftrightarrow>
     net_ok t \<and> packetHandler t = Tftp_handler \<and>
     TftpState t = STATE_DATA \<and> TftpServerPort t = src \<and> TftpOurPort t = TftpOurPort t0 \<and>
     TftpServerIP t = TftpServerIP t0 \<and> TftpBlkSize t = TftpBlkSize t0 \<and> tf_load_addr t = tf_load_addr t0 \<and>
     (0 < k \<longrightarrow> TftpBlock t = block_number k) \<and> TftpLastBlock t = block_number k \<and>
     TftpBlockWrapOffset t = of_nat (65536 * (k div 65536) * unat (TftpBlkSize t0)) \<and>
     ram t = store_bytes (ram t0) (tf_load_addr t0) (concat (take k bs)) \<and>
     NetBootFileXferSize t = of_nat (length (concat (take k bs))) \<and>
     NetState t = (if k < length bs then NETLOOP_CONTINUE else NETLOOP_SUCCESS) \<and>
     udp_log t = udp_log t0 @ map (\<lambda>i. (TftpServerIP t0, src, TftpOurPort t0, ack_packet i)) [1..<Suc k]"

lemma full_prefix:
  assumes "\<forall>b\<in>set (butlast bs). length b = B" "k < length bs"
  shows "length (concat (take k bs)) = k * B"
  using assms(2)
proof (induction k)
  case (Suc k)
  have "bs ! k \<in> set (butlast bs)" using Suc.prems by (metis Suc_lessD in_set_conv_nth length_butlast less_diff_conv nth_butlast plus_1_eq_Suc add.commute)
  then show ?case using Suc assms(1) by (simp add: take_Suc_conv_app_nth)
qed simp

lemma block_offset:
  "(block_number (Suc k) - 1) * of_nat B + of_nat (65536 * (Suc k div 65536) * B) = (of_nat (k * B) :: u32)"
proof -
  have "Suc k = Suc k mod 65536 + 65536 * (Suc k div 65536)" by simp
  then have "(of_nat (Suc k) :: u32) = of_nat (Suc k mod 65536) + of_nat (65536 * (Suc k div 65536))"
    by (metis of_nat_add)
  then have "block_number (Suc k) + of_nat (65536 * (Suc k div 65536)) = of_nat k + 1"
    by (simp add: block_number_def add.commute)
  from arg_cong [OF this, where f = "\<lambda>x. x * of_nat B"] show ?thesis by (simp add: algebra_simps)
qed

lemma wrap_offset:
  "(if block_number (Suc k) = 0 then of_nat (65536 * (k div 65536) * B) + of_nat B * 0x10000
    else of_nat (65536 * (k div 65536) * B)) = (of_nat (65536 * (Suc k div 65536) * B) :: u32)"
proof (cases "65536 dvd Suc k")
  case True
  then have "Suc k mod 65536 = 0" by (simp add: mod_eq_0_iff_dvd)
  then have "Suc k div 65536 = Suc (k div 65536)" by (simp add: div_Suc)
  then show ?thesis using True by (simp add: block_number_0 algebra_simps)
next
  case False
  then have "Suc k mod 65536 \<noteq> 0" by (simp add: mod_eq_0_iff_dvd)
  then have "Suc k div 65536 = k div 65536" by (simp add: div_Suc)
  then show ?thesis using False by (simp add: block_number_0)
qed

lemma block_number_Suc: "block_number (Suc k) \<noteq> block_number k"
proof
  assume "block_number (Suc k) = block_number k"
  then have "Suc k mod 65536 = k mod 65536" by (metis block_number_small)
  then show False by (simp add: mod_Suc split: if_splits)
qed

section \<open>Sending\<close>

text \<open>The state after a packet has been sent: the transfer, the loop state and the handlers are as before, and the
  datagram has been handed to the network.\<close>

definition net_same :: "tftp \<Rightarrow> tftp \<Rightarrow> bool" where
  "net_same t t' \<longleftrightarrow> now t' = now t \<and> environment t' = environment t \<and> NetOurVLAN t' = NetOurVLAN t \<and> NetOurIP t' = NetOurIP t \<and>
     NetServerEther t' = NetServerEther t \<and>
     (NetServerEther t \<noteq> replicate 6 0 \<and> TftpServerIP t \<noteq> 0 \<and> TftpServerIP t \<noteq> 0xffffffff \<longrightarrow> NetArpWaitPacketIP t' = NetArpWaitPacketIP t) \<and>
     eth_devices t' = eth_devices t \<and> eth_current t' = eth_current t"

text \<open>The datagram waits for the Ethernet address of the server.\<close>

definition resolving :: "tftp \<Rightarrow> u32 \<Rightarrow> tftp \<Rightarrow> bool" where
  "resolving t ip t' \<longleftrightarrow> (\<exists>f. 6 \<le> length f \<and> waiting t' ip Ptr_NetServerEther f) \<and> NetArpWaitTimerStart t' = now t"

definition sent_by :: "tftp \<Rightarrow> tftp \<Rightarrow> bool" where
  "sent_by t t' \<longleftrightarrow> net.more t' = net.more t \<and> net_ok t' \<and> NetState t' = NetState t \<and> packetHandler t' = packetHandler t \<and>
     timeHandler t' = timeHandler t \<and> timeStart t' = timeStart t \<and> timeDelta t' = timeDelta t \<and> net_same t t' \<and>
     (NetServerEther t = replicate 6 0 \<and> TftpServerIP t \<noteq> 0 \<and> TftpServerIP t \<noteq> 0xffffffff \<longrightarrow> resolving t (TftpServerIP t) t') \<and>
     udp_log t' = udp_log t @ [(TftpServerIP t, TftpServerPort t, TftpOurPort t, tftp_message t)]"

lemma more_fields:
  assumes "net.more t' = net.more t"
  shows "TftpServerIP t' = TftpServerIP t" "TftpServerPort t' = TftpServerPort t" "TftpOurPort t' = TftpOurPort t"
    "TftpTimeoutCount t' = TftpTimeoutCount t" "TftpTimeoutCountMax t' = TftpTimeoutCountMax t" "TftpTimeoutMSecs t' = TftpTimeoutMSecs t"
    "TftpBlock t' = TftpBlock t" "TftpLastBlock t' = TftpLastBlock t" "TftpBlockWrapOffset t' = TftpBlockWrapOffset t"
    "TftpState t' = TftpState t" "TftpBlkSize t' = TftpBlkSize t" "TftpBlkSizeOption t' = TftpBlkSizeOption t"
    "tftp_filename t' = tftp_filename t" "NetBootFileXferSize t' = NetBootFileXferSize t" "tf_load_addr t' = tf_load_addr t"
    "ram t' = ram t" "TftpRRQTimeoutCountMax t' = TftpRRQTimeoutCountMax t"
  using assms by (cases t; cases t'; simp)+

lemma send_ok:
  assumes "net_ok t" "length (tftp_message t) \<le> 1468"
  shows "\<exists>t'. TftpSend t = Some t' \<and> sent_by t t'"
proof -
  let ?m = "tftp_message t" and ?h = "NetEthHdrSize t + 28"
  define buf where "buf = take ?h (NetTxPacket t) @ ?m @ drop (?h + length ?m) (NetTxPacket t)"
  let ?u = "t\<lparr>NetTxPacket := buf\<rparr>"
  have h: "?h \<le> 46" using hdr_size_cases [of t] by auto
  have l: "length (NetTxPacket t) = 1536" using assms(1) by (simp add: net_ok_def)
  have p: "put ?h ?m (NetTxPacket t) = Some buf" using assms(2) h l by (simp add: put_def buf_def)
  have "length buf = 1536" using assms(2) h l by (simp add: buf_def)
  then have ok: "net_ok ?u" using assms(1) by (simp add: net_ok_def)
  have hu: "NetEthHdrSize ?u = NetEthHdrSize t" by (simp add: NetEthHdrSize_def myvlanid_def)
  have pl: "tx_payload (length ?m) ?u = ?m" using h l unfolding tx_payload_def hu by (simp add: buf_def)
  let ?s = "NetSendUDPPacket Ptr_NetServerEther (TftpServerIP t) (TftpServerPort t) (TftpOurPort t) (length ?m) ?u"
  have "\<exists>rc t'. ?s = Some (rc, t') \<and> sent_by t t'"
  proof (cases "ether_at (ether_dest Ptr_NetServerEther (TftpServerIP t)) ?u = replicate 6 0")
    case True
    obtain m x1 x2 x3 x4 x5 where m: "?s = Some (1, m)" "net_ok m"
        "waiting m (ip_dest (TftpServerIP t)) (ether_dest Ptr_NetServerEther (TftpServerIP t)) (udp_frame ?u (replicate 6 0) (ip_dest (TftpServerIP t)) (TftpServerPort t) (TftpOurPort t) ?m)"
        "m = ?u\<lparr>udp_log := udp_log t @ [(TftpServerIP t, TftpServerPort t, TftpOurPort t, ?m)], NetIPID := NetIPID t + 1,
         NetArpWaitPacketIP := ip_dest (TftpServerIP t), NetArpWaitPacketMAC := Some (ether_dest Ptr_NetServerEther (TftpServerIP t)),
         NetArpWaitTxPacket := x1, NetArpWaitTxPacketSize := x2, NetArpWaitTry := 1, NetArpWaitTimerStart := now t, NetArpWaitReplyIP := x3,
         NetTxPacket := x4, eth_sent := x5\<rparr>"
      using send_unknown [OF ok assms(2) True, of "TftpServerPort t" "TftpOurPort t"] unfolding pl by auto
    have "TftpServerIP t \<noteq> 0 \<Longrightarrow> TftpServerIP t \<noteq> 0xffffffff \<Longrightarrow> NetServerEther t = replicate 6 0"
      using True by (simp add: ether_at_def ether_dest_def ip_dest_def)
    moreover have "resolving t (TftpServerIP t) m" if "TftpServerIP t \<noteq> 0" "TftpServerIP t \<noteq> 0xffffffff"
    proof -
      have d: "ip_dest (TftpServerIP t) = TftpServerIP t" "ether_dest Ptr_NetServerEther (TftpServerIP t) = Ptr_NetServerEther"
        using that by (simp_all add: ip_dest_def ether_dest_def)
      have "NetArpWaitTimerStart m = now t" by (simp add: m(4))
      moreover have "6 \<le> length (udp_frame ?u (replicate 6 0) (TftpServerIP t) (TftpServerPort t) (TftpOurPort t) ?m)"
        by (simp add: udp_frame_def)
      ultimately show ?thesis using m(3) unfolding resolving_def d by blast
    qed
    ultimately show ?thesis using m(1,2) by (intro exI [of _ 1] exI [of _ m] conjI) (auto simp: sent_by_def net_same_def m(4))
  next
    case False
    from send_known [OF ok assms(2) False, of "TftpServerPort t" "TftpOurPort t"] show ?thesis
      unfolding pl using ok False by (auto simp: sent_by_def net_ok_def net_same_def ether_at_def ether_dest_def ip_dest_def split: if_splits)
  qed
  then show ?thesis unfolding TftpSend_def Let_def p by auto
qed

section \<open>One data packet\<close>

text \<open>The packet is at the start of the receive buffer, followed by anything.\<close>

lemma handler_data:
  assumes "TftpState t = STATE_DATA"
  shows "TftpHandler drv (TftpOurPort t) (TftpServerPort t) (length (data_packet n data)) (data_packet n data @ cs) t =
    (if block_number n = TftpLastBlock t then Some (count_block (block_number n) t)
     else accept_data (block_number n) data (count_block (block_number n) t))"
proof -
  have "TftpState (count_block b t) = STATE_DATA" "TftpLastBlock (count_block b t) = TftpLastBlock t" for b
    using assms by (simp_all add: count_block_def)
  then show ?thesis using assms packet_fields(1,2,4) [of n data cs] packet_fields(3) [of n data]
    by (simp add: TftpHandler_def handle_data_def Let_def)
qed

lemma handler_first:
  assumes "TftpState t = STATE_RRQ \<or> TftpState t = STATE_OACK \<and> TftpServerPort t = src"
  shows "TftpHandler drv (TftpOurPort t) src (length (data_packet 1 data)) (data_packet 1 data @ cs) t =
    accept_data 1 data (first_block src (count_block 1 t))"
proof -
  have "block_number 1 = 1" by (simp add: block_number_def)
  moreover have "TftpState (count_block 1 t) = TftpState t" "TftpLastBlock (first_block src u) = 0" for u
    by (simp_all add: count_block_def first_block_def)
  ultimately show ?thesis using assms packet_fields(1,2,4) [of 1 data cs] packet_fields(3) [of 1 data]
    by (auto simp: TftpHandler_def handle_data_def Let_def)
qed

text \<open>The timer was set at the given time.\<close>

definition timer_at :: "u32 \<Rightarrow> tftp \<Rightarrow> bool" where
  "timer_at s t \<longleftrightarrow> timeHandler t = Some Tftp_timeout \<and> timeStart t = s \<and> timeDelta t = TftpTimeoutMSecs t"

text \<open>What storing a block changes, and what counting it changes.\<close>

lemma store_fields:
  defines "off b t \<equiv> (b - 1) * ucast (TftpBlkSize t) + TftpBlockWrapOffset t"
  shows "net_ok (store_data b d t) = net_ok t" "packetHandler (store_data b d t) = packetHandler t"
    "TftpState (store_data b d t) = TftpState t" "TftpServerPort (store_data b d t) = TftpServerPort t"
    "TftpOurPort (store_data b d t) = TftpOurPort t" "TftpServerIP (store_data b d t) = TftpServerIP t"
    "TftpBlkSize (store_data b d t) = TftpBlkSize t" "tf_load_addr (store_data b d t) = tf_load_addr t"
    "TftpBlock (store_data b d t) = TftpBlock t" "TftpLastBlock (store_data b d t) = b"
    "TftpBlockWrapOffset (store_data b d t) = TftpBlockWrapOffset t"
    "ram (store_data b d t) = store_bytes (ram t) (tf_load_addr t + off b t) d"
    "NetBootFileXferSize (store_data b d t) =
       (if NetBootFileXferSize t < off b t + of_nat (length d) then off b t + of_nat (length d) else NetBootFileXferSize t)"
    "NetState (store_data b d t) = NetState t" "udp_log (store_data b d t) = udp_log t"
    "net_same (store_data b d t) u = net_same t u" "TftpTimeoutMSecs (store_data b d t) = TftpTimeoutMSecs t"
    "TftpTimeoutMSecs t \<noteq> 0 \<Longrightarrow> timer_at (now t) (store_data b d t)"
  unfolding off_def store_data_def Let_def
  by (simp_all add: NetSetTimeout_def store_block_def net_ok_def net_same_def timer_at_def Let_def)

lemma count_fields:
  "net_ok (count_block b t) = net_ok t" "packetHandler (count_block b t) = packetHandler t"
  "TftpState (count_block b t) = TftpState t" "TftpServerPort (count_block b t) = TftpServerPort t"
  "TftpOurPort (count_block b t) = TftpOurPort t" "TftpServerIP (count_block b t) = TftpServerIP t"
  "TftpBlkSize (count_block b t) = TftpBlkSize t" "tf_load_addr (count_block b t) = tf_load_addr t"
  "TftpBlock (count_block b t) = b" "TftpLastBlock (count_block b t) = TftpLastBlock t"
  "TftpBlockWrapOffset (count_block b t) =
     (if b = 0 then TftpBlockWrapOffset t + ucast (TftpBlkSize t) * 0x10000 else TftpBlockWrapOffset t)"
  "ram (count_block b t) = ram t" "NetBootFileXferSize (count_block b t) = NetBootFileXferSize t"
  "NetState (count_block b t) = NetState t" "udp_log (count_block b t) = udp_log t"
  "net_same (count_block b t) u = net_same t u" "TftpTimeoutMSecs (count_block b t) = TftpTimeoutMSecs t" "now (count_block b t) = now t"
  by (simp_all add: count_block_def net_ok_def net_same_def)

lemma ucast_u16: "(ucast (w :: u16) :: u32) = of_nat (unat w)"
  by (metis of_nat_unat)

lemma size_step:
  assumes "a + b < 2 ^ 32"
  shows "(if of_nat a < of_nat a + (of_nat b :: u32) then of_nat a + of_nat b else of_nat a) = (of_nat (a + b) :: u32)"
proof -
  have ua: "unat (of_nat a :: u32) = a" and ub: "unat (of_nat b :: u32) = b" using assms by (simp_all add: unat_of_nat)
  then have "unat (of_nat a + of_nat b :: u32) = a + b" using assms by (subst unat_add_nowrap) simp_all
  then have "of_nat a < of_nat a + (of_nat b :: u32) \<longleftrightarrow> 0 < b" unfolding word_less_nat_alt ua by simp
  then show ?thesis by simp
qed

text \<open>An accepted packet is stored and acknowledged.\<close>

lemma accept_ok:
  assumes "net_ok t" "TftpState t = STATE_DATA"
  shows "\<exists>u. sent_by (store_data b d t) u \<and>
    accept_data b d t = Some (if length d < unat (TftpBlkSize t) then u\<lparr>NetState := NETLOOP_SUCCESS\<rparr> else u)"
proof -
  have "length (tftp_message (store_data b d t)) \<le> 1468" using assms(2) by (simp add: tftp_message_def store_fields)
  then obtain u where u: "TftpSend (store_data b d t) = Some u" "sent_by (store_data b d t) u"
    using send_ok [of "store_data b d t"] assms(1) by (auto simp: store_fields)
  then have "TftpBlkSize u = TftpBlkSize t" using more_fields(11) [of u "store_data b d t"] by (simp add: sent_by_def store_fields)
  then show ?thesis using u by (auto simp: accept_data_def)
qed

text \<open>The client has set its timer again and the rest of the network state is the same.\<close>

definition rearmed :: "tftp \<Rightarrow> tftp \<Rightarrow> bool" where
  "rearmed t t' \<longleftrightarrow> net_same t t' \<and> TftpTimeoutMSecs t' = TftpTimeoutMSecs t \<and> (TftpTimeoutMSecs t \<noteq> 0 \<longrightarrow> timer_at (now t) t')"

lemma rearmed_state: "rearmed t (t'\<lparr>NetState := s\<rparr>) = rearmed t t'"
  by (simp add: rearmed_def net_same_def timer_at_def)

lemma received_step:
  assumes r: "received t0 src bs k t" and f: "file_blocks (unat (TftpBlkSize t0)) bs" and k: "k < length bs"
  shows "\<exists>t'. accept_data (block_number (Suc k)) (bs ! k) (count_block (block_number (Suc k)) t) = Some t' \<and>
    received t0 src bs (Suc k) t' \<and> rearmed t t'"
proof -
  let ?B = "unat (TftpBlkSize t0)" and ?b = "block_number (Suc k)" and ?d = "bs ! k"
  define u where "u = count_block ?b t"
  have len: "length (concat (take k bs)) = k * ?B"
    using f k by (intro full_prefix) (simp_all add: file_blocks_def)
  have cat: "concat (take (Suc k) bs) = concat (take k bs) @ ?d" using k by (simp add: take_Suc_conv_app_nth)
  have "concat bs = concat (take (Suc k) bs) @ concat (drop (Suc k) bs)"
    by (metis append_take_drop_id concat_append)
  then have small: "k * ?B + length ?d < 2 ^ 32"
    using f len cat by (simp add: file_blocks_def)
  have rt: "TftpBlkSize t = TftpBlkSize t0" "TftpBlockWrapOffset t = of_nat (65536 * (k div 65536) * ?B)"
    using r unfolding received_def by blast+
  have w: "TftpBlockWrapOffset u = of_nat (65536 * (Suc k div 65536) * ?B)"
    unfolding u_def count_fields rt ucast_u16 by (rule wrap_offset)
  have off: "(?b - 1) * ucast (TftpBlkSize t0) + of_nat (65536 * (Suc k div 65536) * ?B) = of_nat (k * ?B)"
    unfolding ucast_u16 by (rule block_offset)
  note xfer = size_step [OF small]
  have last: "length ?d < ?B \<longleftrightarrow> \<not> Suc k < length bs"
  proof (cases "Suc k < length bs")
    case True
    then have "?d \<in> set (butlast bs)"
      by (metis in_set_conv_nth length_butlast less_diff_conv nth_butlast plus_1_eq_Suc add.commute)
    then show ?thesis using True f by (simp add: file_blocks_def)
  next
    case False
    then have "?d = last bs" using k by (metis Suc_lessI diff_Suc_1 last_conv_nth list.size(3) not_less_zero)
    then show ?thesis using False f by (simp add: file_blocks_def)
  qed
  have u: "net_ok u" "packetHandler u = Tftp_handler" "TftpState u = STATE_DATA" "TftpServerPort u = src" "TftpOurPort u = TftpOurPort t0"
    "TftpServerIP u = TftpServerIP t0" "TftpBlkSize u = TftpBlkSize t0" "tf_load_addr u = tf_load_addr t0"
    "TftpBlock u = ?b" "ram u = store_bytes (ram t0) (tf_load_addr t0) (concat (take k bs))"
    "NetBootFileXferSize u = of_nat (k * ?B)" "NetState u = NETLOOP_CONTINUE"
    "udp_log u = udp_log t0 @ map (\<lambda>i. (TftpServerIP t0, src, TftpOurPort t0, ack_packet i)) [1..<Suc k]"
    using r k len unfolding u_def count_fields received_def by simp_all
  obtain v where v: "sent_by (store_data ?b ?d u) v"
      "accept_data ?b ?d u = Some (if length ?d < unat (TftpBlkSize u) then v\<lparr>NetState := NETLOOP_SUCCESS\<rparr> else v)"
    using accept_ok [OF u(1,3)] by blast
  have m: "net.more v = net.more (store_data ?b ?d u)" using v(1) by (simp add: sent_by_def)
  have msg: "tftp_message (store_data ?b ?d u) = ack_packet (Suc k)"
    using u(3,9) by (simp add: tftp_message_def store_fields ack_packet_def)
  note vf = more_fields [OF m, unfolded store_fields u w off xfer]
  have vn: "net_ok v" "packetHandler v = Tftp_handler" "NetState v = NETLOOP_CONTINUE"
    "udp_log v = udp_log u @ [(TftpServerIP t0, src, TftpOurPort t0, ack_packet (Suc k))]"
    using v(1) unfolding sent_by_def store_fields msg u by simp_all
  have "received t0 src bs (Suc k) (if length ?d < unat (TftpBlkSize u) then v\<lparr>NetState := NETLOOP_SUCCESS\<rparr> else v)"
    unfolding received_def u(7) last using vf vn u(13)
    by (simp add: net_ok_def xfer cat len store_bytes_append del: of_nat_mult of_nat_add)
  moreover have "rearmed t v" using v(1) more_fields(6) [OF m] store_fields(18) [of u ?b ?d]
    by (simp add: rearmed_def sent_by_def store_fields(16,17) timer_at_def u_def count_fields)
  ultimately show ?thesis using v(2) unfolding u_def by (auto simp: rearmed_state)
qed

section \<open>Delivering a stream of packets\<close>

text \<open>Datagrams delivered one after the other to the client's port, from the port \<open>src\<close>, each followed in the receive
  buffer by what an earlier packet left there.\<close>

definition tftp_receive :: "(nat \<Rightarrow> bool) \<Rightarrow> u32 \<Rightarrow> (u8 list \<times> u8 list) list \<Rightarrow> tftp \<Rightarrow> tftp option" where
  "tftp_receive drv src = run_steps (\<lambda>(p, cs) t. handle_packet drv (Some (p @ cs), TftpOurPort t, src, of_nat (length p)) t)"

lemma tftp_receive_simps [simp]:
  "tftp_receive drv src [] t = Some t"
  "tftp_receive drv src ((p, cs) # ps) t = do {
     t \<leftarrow> handle_packet drv (Some (p @ cs), TftpOurPort t, src, of_nat (length p)) t;
     tftp_receive drv src ps t
   }"
  by (simp_all add: tftp_receive_def)

lemma tftp_receive_append:
  "tftp_receive drv src (ps @ qs) t = do { t \<leftarrow> tftp_receive drv src ps t; tftp_receive drv src qs t }"
  by (simp add: tftp_receive_def run_steps_append)

text \<open>The stream of packets, given by the block numbers from 1 on with their repetitions and what follows each packet.\<close>

definition packets :: "u8 list list \<Rightarrow> (nat \<times> u8 list) list \<Rightarrow> (u8 list \<times> u8 list) list" where
  "packets bs ds = map (\<lambda>(i, cs). (data_packet i (bs ! (i - 1)), cs)) ds"

text \<open>The network delivers the blocks after number \<open>k\<close> in order and may repeat the latest block, but not a block whose
  number is 0 modulo 65536.\<close>

fun in_order :: "nat \<Rightarrow> nat \<Rightarrow> nat list \<Rightarrow> bool" where
  "in_order n k [] \<longleftrightarrow> k = n"
| "in_order n k (i # is) \<longleftrightarrow> (i = Suc k \<and> k < n \<or> i = k \<and> 0 < k \<and> \<not> 65536 dvd k) \<and> in_order n i is"

lemma small_packet:
  assumes "file_blocks (unat (B :: u16)) bs" "k < length bs"
  shows "unat (of_nat (length (data_packet i (bs ! k))) :: u32) = length (data_packet i (bs ! k))"
proof -
  have "length (bs ! k) \<le> unat B"
  proof (cases "Suc k < length bs")
    case True
    then have "bs ! k \<in> set (butlast bs)"
      by (metis in_set_conv_nth length_butlast less_diff_conv nth_butlast plus_1_eq_Suc add.commute)
    then show ?thesis using assms(1) by (simp add: file_blocks_def)
  next
    case False
    then have "bs ! k = last bs" using assms(2) by (metis Suc_lessI diff_Suc_1 last_conv_nth list.size(3) not_less_zero)
    then show ?thesis using assms(1) by (simp add: file_blocks_def)
  qed
  moreover have "unat B < 65536" using unsigned_less [of B] by simp
  ultimately show ?thesis unfolding packet_fields(3) by (simp only: unat_of_nat) simp
qed

lemma deliver_again:
  assumes "received t0 src bs k t" "0 < k" "\<not> 65536 dvd k" "unat (of_nat (length (data_packet k d)) :: u32) = length (data_packet k d)"
  shows "handle_packet drv (Some (data_packet k d @ cs), TftpOurPort t, src, of_nat (length (data_packet k d))) t = Some t"
proof -
  have r: "TftpState t = STATE_DATA" "TftpServerPort t = src" "TftpBlock t = block_number k" "packetHandler t = Tftp_handler"
      "TftpLastBlock t = block_number k"
    using assms(1,2) unfolding received_def by blast+
  have "block_number k \<noteq> 0" using assms(3) by (simp add: block_number_0)
  then have "count_block (block_number k) t = t\<lparr>TftpBlock := TftpBlock t\<rparr>" using r(3) by (simp add: count_block_def)
  then show ?thesis using handler_data [OF r(1), of drv k d cs] r(2,4,5) assms(4) by (simp add: handle_packet_def)
qed

lemma deliver_next:
  assumes "received t0 src bs k t" "file_blocks (unat (TftpBlkSize t0)) bs" "k < length bs"
  shows "\<exists>t'. handle_packet drv (Some (data_packet (Suc k) (bs ! k) @ cs), TftpOurPort t, src,
      of_nat (length (data_packet (Suc k) (bs ! k)))) t = Some t' \<and> received t0 src bs (Suc k) t' \<and> rearmed t t'"
proof -
  have r: "TftpState t = STATE_DATA" "TftpServerPort t = src" "packetHandler t = Tftp_handler" "TftpLastBlock t = block_number k"
    using assms(1) unfolding received_def by blast+
  show ?thesis
    using handler_data [OF r(1), of drv "Suc k" "bs ! k" cs] received_step [OF assms] r(2-4) block_number_Suc [of k]
      small_packet [OF assms(2,3), of "Suc k"]
    by (simp add: handle_packet_def)
qed

lemma deliver_rest:
  assumes "file_blocks (unat (TftpBlkSize t0)) bs"
  shows "received t0 src bs k t \<Longrightarrow> in_order (length bs) k (map fst ds) \<Longrightarrow> k \<le> length bs \<Longrightarrow>
    \<exists>t'. tftp_receive drv src (packets bs ds) t = Some t' \<and> received t0 src bs (length bs) t'"
proof (induction ds arbitrary: k t)
  case Nil
  then show ?case by (simp add: packets_def)
next
  case (Cons d ds)
  obtain i cs where d: "d = (i, cs)" by (cases d)
  have o: "in_order (length bs) i (map fst ds)" using Cons.prems(2) d by simp
  have "\<exists>t1. handle_packet drv (Some (data_packet i (bs ! (i - 1)) @ cs), TftpOurPort t, src,
      of_nat (length (data_packet i (bs ! (i - 1))))) t = Some t1 \<and> received t0 src bs i t1 \<and> i \<le> length bs"
  proof (cases "i = Suc k")
    case True
    then have "k < length bs" using Cons.prems(2,3) d by auto
    then show ?thesis using deliver_next [OF Cons.prems(1) assms, of drv cs] True by auto
  next
    case False
    then have k: "i = k" "0 < k" "\<not> 65536 dvd k" using Cons.prems(2) d by auto
    then have "k - 1 < length bs" using Cons.prems(3) by simp
    then show ?thesis using deliver_again [OF Cons.prems(1) k(2,3), of "bs ! (k - 1)"] small_packet [OF assms, of "k - 1" k] k Cons.prems(1,3)
      by auto
  qed
  then obtain t1 where t1: "handle_packet drv (Some (data_packet i (bs ! (i - 1)) @ cs), TftpOurPort t, src,
      of_nat (length (data_packet i (bs ! (i - 1))))) t = Some t1" "received t0 src bs i t1" "i \<le> length bs" by blast
  show ?case using Cons.IH [OF t1(2) o t1(3)] t1(1) by (simp add: packets_def d)
qed

text \<open>The first packet: the client asks for the file, or has agreed on options with the server's port.\<close>

definition awaiting_first :: "tftp \<Rightarrow> u32 \<Rightarrow> bool" where
  "awaiting_first t src \<longleftrightarrow> (TftpState t = STATE_RRQ \<or> TftpState t = STATE_OACK \<and> TftpServerPort t = src) \<and>
     net_ok t \<and> packetHandler t = Tftp_handler \<and> NetState t = NETLOOP_CONTINUE \<and> NetBootFileXferSize t = 0"

lemma first_received:
  assumes "awaiting_first t src" "file_blocks (unat (TftpBlkSize t)) bs"
  shows "received t src bs 0 (first_block src t)"
  using assms by (simp add: awaiting_first_def received_def first_block_def file_blocks_def block_number_def net_ok_def)

lemma first_count_commute: "first_block src (count_block 1 t) = count_block 1 (first_block src t)"
  by (simp add: first_block_def count_block_def)

lemma deliver_first:
  assumes "awaiting_first t src" "file_blocks (unat (TftpBlkSize t)) bs"
  shows "\<exists>t'. handle_packet drv (Some (data_packet 1 (bs ! 0) @ cs), TftpOurPort t, src, of_nat (length (data_packet 1 (bs ! 0)))) t =
    Some t' \<and> received t src bs 1 t' \<and> rearmed t t'"
proof -
  have l: "0 < length bs" using assms(2) by (simp add: file_blocks_def)
  have b: "block_number (Suc 0) = 1" by (simp add: block_number_def)
  obtain t' where "accept_data 1 (bs ! 0) (count_block 1 (first_block src t)) = Some t'" "received t src bs (Suc 0) t'" "rearmed (first_block src t) t'"
    using received_step [OF first_received [OF assms] assms(2) l] unfolding b by blast
  moreover have "rearmed (first_block src t) t' = rearmed t t'"
    by (simp add: rearmed_def net_same_def timer_at_def first_block_def)
  ultimately show ?thesis using handler_first [of t src drv "bs ! 0" cs] assms(1) small_packet [OF assms(2) l, of 1]
    by (simp add: first_count_commute awaiting_first_def handle_packet_def)
qed

lemma deliver_all:
  assumes t: "awaiting_first t src" and f: "file_blocks (unat (TftpBlkSize t)) bs" and o: "in_order (length bs) 0 (map fst ds)"
  shows "\<exists>t'. tftp_receive drv src (packets bs ds) t = Some t' \<and> received t src bs (length bs) t'"
proof (cases ds)
  case Nil
  then show ?thesis using f o by (simp add: file_blocks_def)
next
  case (Cons d ds')
  obtain i cs where d: "d = (i, cs)" by (cases d)
  have i: "i = 1" "in_order (length bs) 1 (map fst ds')" using o Cons d by auto
  have l: "1 \<le> length bs" using f by (cases bs) (simp_all add: file_blocks_def)
  obtain t1 where t1: "handle_packet drv (Some (data_packet 1 (bs ! 0) @ cs), TftpOurPort t, src, of_nat (length (data_packet 1 (bs ! 0)))) t = Some t1"
      "received t src bs 1 t1"
    using deliver_first [OF t f] by blast
  have "tftp_receive drv src (packets bs ds) t = tftp_receive drv src (packets bs ds') t1"
    using t1(1) by (simp add: Cons d i(1) packets_def)
  then show ?thesis using deliver_rest [OF f t1(2) i(2) l] by simp
qed

section \<open>The request\<close>

lemma sprintf_lu: "sprintf_text ''%lu'' [VInt w] = rev (radix_rev 10 False (unat w))"
proof -
  have "number (ucast w) 10 (-1) (-1) 0 = rev (radix_rev 10 False (unat w))"
    using number_default [of 10 "ucast w" 0]
    by (simp add: num_sign_def num_prefix_def num_digits_def num_magnitude_def flag_set_def unat_ucast_32_64)
  then show ?thesis by (simp add: sprintf_text_def sprintf_mem_def sprintf_def conv_simps flag_set_def)
qed

lemma sprintf_blksize:
  "sprintf_text ''blksize%c%d%c'' [VInt 0, VInt (ucast (w :: u16)), VInt 0] = ''blksize'' @ [NUL] @ rev (radix_rev 10 False (unat w)) @ [NUL]"
proof -
  have w: "unat w < 65536" using unsigned_less [of w] by simp
  then have u: "unat (ucast w :: u32) = unat w" by (simp add: unat_ucast_mod)
  from w have s: "sint (ucast w :: u32) = int (unat w)"
    using sint_small [of "ucast w :: u32"] u by simp
  have s2: "sint (scast (ucast w :: u32) :: u64) = sint (ucast w :: u32)" by (rule sint_up_scast) (simp add: is_up)
  have "number (scast (ucast w :: u32)) 10 (-1) (-1) 2 = rev (radix_rev 10 False (unat w))"
    using number_default [of 10 "scast (ucast w :: u32)" 2]
    by (simp add: num_sign_def num_prefix_def num_digits_def num_magnitude_def flag_set_def s s2)
  moreover have "char_of (0 :: nat) = NUL" by code_simp
  ultimately show ?thesis by (simp add: sprintf_text_def sprintf_mem_def sprintf_def conv_simps flag_set_def conv_char_def
    char_pad.simps [of "- 1"] char_pad.simps [of "- 2"] char_of_byte_def)
qed

lemma radix_rev_length: "n < 10 ^ k \<Longrightarrow> 0 < k \<Longrightarrow> length (radix_rev 10 small n) \<le> k"
proof (induction k arbitrary: n)
  case (Suc k)
  show ?case
  proof (cases "n < 10")
    case True
    then show ?thesis by (subst radix_rev.simps) simp
  next
    case False
    then have "n div 10 < 10 ^ k" "0 < k" using Suc.prems by (auto simp: less_mult_imp_div_less mult.commute intro: gr0I)
    then show ?thesis using Suc.IH [of "n div 10"] False by (subst radix_rev.simps) simp
  qed
qed simp

text \<open>A request asks for the file in octet mode and offers the timeout and block size options.\<close>

definition dec_text :: "nat \<Rightarrow> string" where
  "dec_text n = rev (radix_rev 10 False n)"

lemma request_message:
  assumes "TftpState t = STATE_RRQ"
  shows "tftp_message t = be16 1 @ cstr (tftp_filename t) @ cstr ''octet'' @ cstr ''timeout'' @
    cstr (dec_text (unat (TftpTimeoutMSecs t div 1000))) @ cstr ''blksize'' @ cstr (dec_text (unat (TftpBlkSizeOption t)))"
  using assms by (simp add: tftp_message_def sprintf_lu sprintf_blksize dec_text_def cstr_def bytes_of_def byte_of_def)

lemma request_length:
  assumes "TftpState t = STATE_RRQ" "length (tftp_filename t) \<le> 127"
  shows "length (tftp_message t) \<le> 1468"
proof -
  have l: "length (dec_text n) \<le> 10" if "n < 10 ^ 10" for n using radix_rev_length [of n 10 False] that by (simp add: dec_text_def)
  have "unat (TftpTimeoutMSecs t div 1000) < 2 ^ 32" "unat (TftpBlkSizeOption t) < 2 ^ 16"
    using unsigned_less [of "TftpTimeoutMSecs t div 1000"] unsigned_less [of "TftpBlkSizeOption t"] by simp_all
  then have "length (dec_text (unat (TftpTimeoutMSecs t div 1000))) \<le> 10" "length (dec_text (unat (TftpBlkSizeOption t))) \<le> 10"
    by (intro l, simp)+
  then show ?thesis unfolding request_message [OF assms(1)] using assms(2)
    by (simp add: cstr_def bytes_of_def)
qed

section \<open>Starting and options\<close>

lemma copy_name_length: "length (copy_name s) \<le> 127"
  by (simp add: copy_name_def)

lemma prepare_fields:
  "TftpState (tftp_prepare t) = STATE_RRQ" "length (tftp_filename (tftp_prepare t)) \<le> 127" "TftpBlkSize (tftp_prepare t) = 512"
  "TftpBlock (tftp_prepare t) = 0" "ram (tftp_prepare t) = ram t" "tf_load_addr (tftp_prepare t) = tf_load_addr t"
  "NetBootFileXferSize (tftp_prepare t) = NetBootFileXferSize t" "NetState (tftp_prepare t) = NetState t"
  "packetHandler (tftp_prepare t) = Tftp_handler" "udp_log (tftp_prepare t) = udp_log t" "now (tftp_prepare t) = now t"
  "TftpTimeoutCount (tftp_prepare t) = 0" "TftpTimeoutCountMax (tftp_prepare t) = TftpRRQTimeoutCountMax t"
  "TftpOurPort (tftp_prepare t) = 1024 + now t mod 3072" "NetOurVLAN (tftp_prepare t) = NetOurVLAN t" "NetOurIP (tftp_prepare t) = NetOurIP t"
  "environment (tftp_prepare t) = environment t"
  unfolding tftp_prepare_def Let_def
  by (simp_all add: NetSetTimeout_def NetSetHandler_def copy_name_length split: option.splits)

lemma prepare_net_ok: "net_ok t \<Longrightarrow> net_ok (tftp_prepare t)"
  unfolding tftp_prepare_def Let_def
  by (simp add: NetSetTimeout_def NetSetHandler_def net_ok_def split: option.splits)

lemma prepare_timer:
  "timeHandler (tftp_prepare t) = Some Tftp_timeout" "timeStart (tftp_prepare t) = now t"
  "timeDelta (tftp_prepare t) = TftpTimeoutMSecs (tftp_prepare t)" "\<not> TftpTimeoutMSecs (tftp_prepare t) < 1000"
  unfolding tftp_prepare_def Let_def
  by (auto simp: NetSetTimeout_def NetSetHandler_def split: option.splits)

lemma start_ok:
  assumes "net_ok t"
  shows "\<exists>t0. TftpStart t = Some t0 \<and> sent_by (tftp_prepare t) t0"
  unfolding TftpStart_def
  by (rule send_ok) (auto intro: prepare_net_ok [OF assms] request_length simp: prepare_fields)

lemma start_awaits:
  assumes "sent_by (tftp_prepare t) t0" "NetState t = NETLOOP_CONTINUE" "NetBootFileXferSize t = 0"
  shows "awaiting_first t0 src" "TftpBlkSize t0 = 512" "TftpBlock t0 = 0" "ram t0 = ram t" "tf_load_addr t0 = tf_load_addr t"
proof -
  have m: "net.more t0 = net.more (tftp_prepare t)" using assms(1) by (simp add: sent_by_def)
  note f = more_fields [OF m, unfolded prepare_fields]
  show "awaiting_first t0 src" using assms f by (simp add: awaiting_first_def sent_by_def prepare_fields)
  show "TftpBlkSize t0 = 512" "TftpBlock t0 = 0" "ram t0 = ram t" "tf_load_addr t0 = tf_load_addr t"
    using f by simp_all
qed

lemma oack_awaits:
  assumes a: "awaiting_first t src" and p: "get16 p 0 = Some 6" "2 \<le> length p" "length p < 65536"
  shows "\<exists>t'. handle_packet drv (Some (p @ cs), TftpOurPort t, src, of_nat (length p)) t = Some t' \<and> awaiting_first t' src \<and>
    TftpBlkSize t' = oack_blksize (p @ cs) (length p - 2) (TftpBlkSize t) \<and> ram t' = ram t \<and> tf_load_addr t' = tf_load_addr t \<and>
    TftpServerPort t' = src \<and> TftpOurPort t' = TftpOurPort t \<and> TftpServerIP t' = TftpServerIP t \<and>
    net_same t t' \<and> TftpTimeoutMSecs t' = TftpTimeoutMSecs t \<and> (\<forall>s. timer_at s t' = timer_at s t) \<and>
    udp_log t' = udp_log t @ [(TftpServerIP t, src, TftpOurPort t, be16 4 @ be16 (TftpBlock t))]"
proof -
  let ?u = "t\<lparr>TftpState := STATE_OACK, TftpServerPort := src, TftpBlkSize := oack_blksize (p @ cs) (length p - 2) (TftpBlkSize t)\<rparr>"
  have "get16 (p @ cs) 0 = Some 6" using p(1,2) by (cases p) (auto simp: get16_def rd_def nth_append)
  moreover have "unat (of_nat (length p) :: u32) = length p" using p(3) by (simp add: unat_of_nat)
  ultimately have h: "handle_packet drv (Some (p @ cs), TftpOurPort t, src, of_nat (length p)) t = TftpSend ?u"
    using a p(2) by (auto simp: handle_packet_def TftpHandler_def handle_oack_def awaiting_first_def Let_def)
  have "net_ok ?u" using a by (simp add: awaiting_first_def net_ok_def)
  moreover have m: "tftp_message ?u = be16 4 @ be16 (TftpBlock t)" by (simp add: tftp_message_def)
  ultimately obtain t' where t': "TftpSend ?u = Some t'" "sent_by ?u t'" using send_ok [of ?u] by auto
  have "net.more t' = net.more ?u" using t'(2) by (simp add: sent_by_def)
  note f = more_fields [OF this]
  show ?thesis using h t' f a m by (simp add: awaiting_first_def sent_by_def net_same_def timer_at_def)
qed

text \<open>What a server may answer before the first block: nothing, or one OACK, which fixes the block size.\<close>

fun agreed_blksize :: "(u8 list \<times> u8 list) list \<Rightarrow> u16" where
  "agreed_blksize [] = 512"
| "agreed_blksize ((p, cs) # _) = oack_blksize (p @ cs) (length p - 2) 512"

definition oack_answer :: "(u8 list \<times> u8 list) list \<Rightarrow> bool" where
  "oack_answer oacks \<longleftrightarrow> oacks = [] \<or> (length oacks = 1 \<and> 2 \<le> length (fst (hd oacks)) \<and> length (fst (hd oacks)) < 65536 \<and>
     get16 (fst (hd oacks)) 0 = Some 6)"

lemma answer_awaits:
  assumes "sent_by (tftp_prepare t) t0" "NetState t = NETLOOP_CONTINUE" "NetBootFileXferSize t = 0" "oack_answer oacks"
  shows "\<exists>t1. tftp_receive drv src oacks t0 = Some t1 \<and> awaiting_first t1 src \<and> TftpBlkSize t1 = agreed_blksize oacks \<and>
    ram t1 = ram t \<and> tf_load_addr t1 = tf_load_addr t \<and> TftpOurPort t1 = TftpOurPort t0 \<and> TftpServerIP t1 = TftpServerIP t0 \<and>
    udp_log t1 = udp_log t0 @ map (\<lambda>i. (TftpServerIP t0, src, TftpOurPort t0, ack_packet i)) [if oacks = [] then 1 else 0..<1]"
proof (cases oacks)
  case Nil
  then show ?thesis using start_awaits [OF assms(1-3)] by simp
next
  case (Cons q qs)
  obtain p cs where q: "q = (p, cs)" by (cases q)
  note s = start_awaits [OF assms(1-3)]
  have p: "get16 p 0 = Some 6" "2 \<le> length p" "length p < 65536" "qs = []" using assms(4) Cons q by (auto simp: oack_answer_def)
  obtain t1 where t1: "handle_packet drv (Some (p @ cs), TftpOurPort t0, src, of_nat (length p)) t0 = Some t1" "awaiting_first t1 src"
      "TftpBlkSize t1 = oack_blksize (p @ cs) (length p - 2) (TftpBlkSize t0)" "ram t1 = ram t0" "tf_load_addr t1 = tf_load_addr t0"
      "TftpOurPort t1 = TftpOurPort t0" "TftpServerIP t1 = TftpServerIP t0"
      "udp_log t1 = udp_log t0 @ [(TftpServerIP t0, src, TftpOurPort t0, be16 4 @ be16 (TftpBlock t0))]"
    using oack_awaits [OF s(1) [of src] p(1-3), of drv cs] by blast
  then show ?thesis using s(2-5) p(4) Cons q by (intro exI [of _ t1]) (simp add: ack_packet_def block_number_def)
qed


definition idle_tftp :: tftp where
  "idle_tftp = net.extend sample_net (tftp.fields 0 0 0 0 10 5000 10 0 0 0 0 STATE_RRQ 512 1468 [] ''uImage'' 0 0x100000 (\<lambda>_. 0))"

lemma idle_tftp_ok: "net_ok idle_tftp" "NetState idle_tftp = NETLOOP_CONTINUE" "NetBootFileXferSize idle_tftp = 0"
    "tf_load_addr idle_tftp = 0x100000" "TftpRRQTimeoutCountMax idle_tftp = 10"
  using sample_net_ok by (simp_all add: idle_tftp_def net_ok_def net.defs tftp.defs sample_net_def eth.defs two_devices_def)

definition oack_2 :: "u8 list" where
  "oack_2 = be16 6 @ cstr ''blksize'' @ cstr ''2''"

lemma oack_2_size: "agreed_blksize [(oack_2, [])] = 2"
  by code_simp

lemma oack_2_answer: "oack_answer [(oack_2, [])]"
  by (simp add: oack_answer_def oack_2_def be16_def cstr_def bytes_of_def get16_def rd_def)


section \<open>Timeouts\<close>

text \<open>The timer fires at each of the given times. \<open>NetLoop\<close> clears it before it calls the handler.\<close>

definition timeouts :: "(nat \<Rightarrow> bool) \<Rightarrow> u32 list \<Rightarrow> tftp \<Rightarrow> tftp option" where
  "timeouts drv = run_steps (\<lambda>i t. TftpTimeout drv (t\<lparr>now := i, timeHandler := None\<rparr>))"

lemma timeouts_simps [simp]:
  "timeouts drv [] t = Some t"
  "timeouts drv (i # is) t = do { t \<leftarrow> TftpTimeout drv (t\<lparr>now := i, timeHandler := None\<rparr>); timeouts drv is t }"
  by (simp_all add: timeouts_def)

lemma timeouts_append: "timeouts drv (is @ js) t = do { t \<leftarrow> timeouts drv is t; timeouts drv js t }"
  by (simp add: timeouts_def run_steps_append)

text \<open>The datagram the client repeats.\<close>

definition datagram_of :: "tftp \<Rightarrow> datagram" where
  "datagram_of t = (TftpServerIP t, TftpServerPort t, TftpOurPort t, tftp_message t)"

lemma datagram_more:
  assumes "net.more t' = net.more (t\<lparr>TftpTimeoutCount := c\<rparr>)"
  shows "datagram_of t' = datagram_of t"
  using more_fields [OF assms] by (simp add: datagram_of_def tftp_message_def split: tftp_phase.split)

lemma timeouts_resend:
  assumes "net_ok t" "length (tftp_message t) \<le> 1468" "TftpTimeoutCount t + int (length is) \<le> TftpTimeoutCountMax t"
  shows "\<exists>t'. timeouts drv is t = Some t' \<and> net.more t' = net.more (t\<lparr>TftpTimeoutCount := TftpTimeoutCount t + int (length is)\<rparr>) \<and>
    net_ok t' \<and> NetState t' = NetState t \<and> udp_log t' = udp_log t @ replicate (length is) (datagram_of t) \<and>
    (is \<noteq> [] \<longrightarrow> TftpTimeoutMSecs t \<noteq> 0 \<longrightarrow> timeHandler t' = Some Tftp_timeout \<and> timeDelta t' = TftpTimeoutMSecs t)"
  using assms
proof (induction "is" arbitrary: t)
  case Nil
  then show ?case by simp
next
  case (Cons i "is")
  let ?s = "NetSetTimeout (TftpTimeoutMSecs t) Tftp_timeout (t\<lparr>now := i, timeHandler := None, TftpTimeoutCount := TftpTimeoutCount t + 1\<rparr>)"
  have ms: "net.more ?s = net.more (t\<lparr>TftpTimeoutCount := TftpTimeoutCount t + 1\<rparr>)"
    by (cases t) (simp add: NetSetTimeout_def)
  have d: "datagram_of ?s = datagram_of t" by (rule datagram_more [OF ms])
  have e: "TftpTimeout drv (t\<lparr>now := i, timeHandler := None\<rparr>) = TftpSend ?s"
    using Cons.prems(3) by (simp add: TftpTimeout_def Let_def)
  have "net_ok ?s" using Cons.prems(1) by (simp add: net_ok_def NetSetTimeout_def)
  moreover have "length (tftp_message ?s) \<le> 1468" using Cons.prems(2) d by (simp add: datagram_of_def)
  ultimately obtain u where u: "TftpSend ?s = Some u" "sent_by ?s u" using send_ok by blast
  have mu: "net.more u = net.more (t\<lparr>TftpTimeoutCount := TftpTimeoutCount t + 1\<rparr>)" using u(2) ms by (simp add: sent_by_def)
  note fu = more_fields [OF mu]
  have du: "datagram_of u = datagram_of t" by (rule datagram_more [OF mu])
  have lu: "udp_log u = udp_log t @ [datagram_of t]"
    using u(2) d by (simp add: sent_by_def datagram_of_def NetSetTimeout_def)
  have ok: "net_ok u" "length (tftp_message u) \<le> 1468" "TftpTimeoutCount u + int (length is) \<le> TftpTimeoutCountMax u"
    using u(2) Cons.prems(2,3) du fu by (simp_all add: sent_by_def datagram_of_def)
  obtain t' where t': "timeouts drv is u = Some t'" "net.more t' = net.more (u\<lparr>TftpTimeoutCount := TftpTimeoutCount u + int (length is)\<rparr>)"
      "net_ok t'" "NetState t' = NetState u" "udp_log t' = udp_log u @ replicate (length is) (datagram_of u)"
      "is \<noteq> [] \<longrightarrow> TftpTimeoutMSecs u \<noteq> 0 \<longrightarrow> timeHandler t' = Some Tftp_timeout \<and> timeDelta t' = TftpTimeoutMSecs u"
    using Cons.IH [OF ok] by blast
  have m: "net.more t' = net.more (t\<lparr>TftpTimeoutCount := TftpTimeoutCount t + int (length (i # is))\<rparr>)"
    using t'(2) mu fu by (cases u; cases t) (simp add: add.commute add.left_commute)
  have s: "NetState u = NetState t" "TftpTimeoutMSecs t \<noteq> 0 \<longrightarrow> timeHandler u = Some Tftp_timeout \<and> timeDelta u = TftpTimeoutMSecs t"
    using u(2) by (simp_all add: sent_by_def NetSetTimeout_def)
  have "TftpTimeoutMSecs t \<noteq> 0 \<longrightarrow> timeHandler t' = Some Tftp_timeout \<and> timeDelta t' = TftpTimeoutMSecs t"
    using t'(1,6) s(2) fu by (cases "is") simp_all
  moreover have "udp_log t' = udp_log t @ replicate (length (i # is)) (datagram_of t)"
    using t'(5) lu du by simp
  moreover have "timeouts drv (i # is) t = Some t'" using e u(1) t'(1) by simp
  ultimately show ?case using m t'(3,4) s(1) by (intro exI [of _ t']) simp
qed

text \<open>C39: A server that does not answer. After \<open>TftpStart\<close> the timer runs. As long as at most as many timeouts
  have occurred as allowed (10 by default), every one repeats the request, the loop goes on and the
  timer is set again. The next timeout gives up: it starts the network again, and sends no datagram.\<close>

theorem tftp_timeouts_give_up:
  assumes "net_ok t" "NetState t = NETLOOP_CONTINUE" "TftpRRQTimeoutCountMax t = int m" "length is \<le> m" "length js = m"
  shows "\<exists>t0 t1 t2. TftpStart t = Some t0 \<and> timeHandler t0 = Some Tftp_timeout \<and> TftpTimeoutMSecs t0 \<ge> 1000 \<and>
    udp_log t0 = udp_log t @ [datagram_of t0] \<and>
    timeouts drv is t0 = Some t1 \<and> udp_log t1 = udp_log t @ replicate (Suc (length is)) (datagram_of t0) \<and>
    NetState t1 = NETLOOP_CONTINUE \<and> timeHandler t1 = Some Tftp_timeout \<and>
    timeouts drv js t0 = Some t2 \<and>
    timeouts drv (js @ [i]) t0 = Some (NetStartAgain drv (t2\<lparr>now := i, timeHandler := None, TftpTimeoutCount := int m + 1\<rparr>)) \<and>
    udp_log (NetStartAgain drv (t2\<lparr>now := i, timeHandler := None, TftpTimeoutCount := int m + 1\<rparr>)) = udp_log t2"
proof -
  obtain t0 where t0: "TftpStart t = Some t0" "sent_by (tftp_prepare t) t0" using start_ok [OF assms(1)] by blast
  have m: "net.more t0 = net.more (tftp_prepare t)" using t0(2) by (simp add: sent_by_def)
  note f = more_fields [OF m]
  have d: "datagram_of t0 = datagram_of (tftp_prepare t)"
    using f by (simp add: datagram_of_def tftp_message_def split: tftp_phase.split)
  have l0: "udp_log t0 = udp_log t @ [datagram_of t0]"
    using t0(2) d by (simp add: sent_by_def datagram_of_def prepare_fields)
  have h0: "timeHandler t0 = Some Tftp_timeout" "timeDelta t0 = TftpTimeoutMSecs t0" "NetState t0 = NETLOOP_CONTINUE" "net_ok t0"
    using t0(2) f assms(2) by (simp_all add: sent_by_def prepare_timer prepare_fields)
  have c0: "TftpTimeoutCount t0 = 0" "TftpTimeoutCountMax t0 = int m" "\<not> TftpTimeoutMSecs t0 < 1000"
    using f prepare_timer(4) [of t] assms(3) by (simp_all add: prepare_fields)
  have "length (tftp_message (tftp_prepare t)) \<le> 1468" by (rule request_length) (simp_all add: prepare_fields)
  then have len: "length (tftp_message t0) \<le> 1468" using d by (simp add: datagram_of_def)
  have nz: "TftpTimeoutMSecs t0 \<noteq> 0" using c0(3) by auto
  obtain t1 where t1: "timeouts drv is t0 = Some t1" "NetState t1 = NetState t0"
      "udp_log t1 = udp_log t0 @ replicate (length is) (datagram_of t0)" "is \<noteq> [] \<longrightarrow> timeHandler t1 = Some Tftp_timeout"
    using timeouts_resend [OF h0(4) len, of "is" drv] c0 nz assms(4) by auto
  obtain t2 where t2: "timeouts drv js t0 = Some t2" "net.more t2 = net.more (t0\<lparr>TftpTimeoutCount := TftpTimeoutCount t0 + int (length js)\<rparr>)"
    using timeouts_resend [OF h0(4) len, of js drv] c0 assms(5) by auto
  note g = more_fields [OF t2(2)]
  have "TftpTimeout drv (t2\<lparr>now := i, timeHandler := None\<rparr>) =
      Some (NetStartAgain drv (t2\<lparr>now := i, timeHandler := None, TftpTimeoutCount := int m + 1\<rparr>))"
    using g c0 assms(5) by (simp add: TftpTimeout_def Let_def)
  then have "timeouts drv (js @ [i]) t0 = Some (NetStartAgain drv (t2\<lparr>now := i, timeHandler := None, TftpTimeoutCount := int m + 1\<rparr>))"
    unfolding timeouts_append t2(1) by simp
  moreover have "udp_log (NetStartAgain drv (t2\<lparr>now := i, timeHandler := None, TftpTimeoutCount := int m + 1\<rparr>)) = udp_log t2"
    by (simp add: again_log)
  moreover have "timeHandler t1 = Some Tftp_timeout" using t1(1,4) h0(1) by (cases "is") simp_all
  moreover have "udp_log t1 = udp_log t @ replicate (Suc (length is)) (datagram_of t0)" using t1(3) l0 by simp
  ultimately show ?thesis using t0(1) h0 c0(3) l0 t1(1,2) t2(1) by (intro exI [of _ t0] exI [of _ t1] exI [of _ t2]) (simp add: not_less)
qed

theorem tftp_timeouts_give_up_witness:
  "\<exists>t0 t1. TftpStart idle_tftp = Some t0 \<and> timeouts (\<lambda>_. True) [5001, 10001, 15001] t0 = Some t1 \<and> NetState t1 = NETLOOP_CONTINUE \<and>
    udp_log t1 = udp_log idle_tftp @ replicate 4 (datagram_of t0)"
  using tftp_timeouts_give_up [of idle_tftp 10 "[5001, 10001, 15001]" "replicate 10 0" "\<lambda>_. True"] idle_tftp_ok
  by (fastforce simp: numeral_eq_Suc)

section \<open>Where the client goes wrong\<close>

text \<open>A repeated packet number 0 (block 65536, 131072, \<dots>) moves the wrap-around offset again before it is
  recognised as a repetition, so that all later blocks are stored 65536 blocks too high.\<close>

lemma repeated_block_0_moves_offset:
  assumes "TftpLastBlock t = 0" "TftpState t = STATE_DATA" "65536 dvd n"
  shows "handle_data drv src (length (data_packet n d) - 2) (data_packet n d @ cs) t =
    Some (t\<lparr>TftpBlock := 0, TftpBlockWrap := TftpBlockWrap t + 1,
      TftpBlockWrapOffset := TftpBlockWrapOffset t + ucast (TftpBlkSize t) * 0x10000\<rparr>)"
proof -
  have "get16 (data_packet n d @ cs) 2 = Some 0"
    using get16_be16 [of "be16 3" 2 "block_number n" "d @ cs"] assms(3) block_number_0 [of n] by (simp add: data_packet_def)
  then show ?thesis using assms by (simp add: handle_data_def count_block_def data_packet_def Let_def)
qed

text \<open>An error packet of two bytes is answered from the error code behind its end.\<close>

lemma short_error_read_behind:
  "TftpHandler drv (TftpOurPort t) (TftpServerPort t) 2 (be16 5) t = None"
  by (simp add: TftpHandler_def handle_error_def get16_def be16_def rd_def Let_def)

text \<open>The timeouts of a whole transfer are counted together: a block that arrives does not reset the count.\<close>

lemma accept_keeps_timeout_count:
  assumes "accept_data b d t = Some t'" "net_ok t" "TftpState t = STATE_DATA"
  shows "TftpTimeoutCount t' = TftpTimeoutCount t"
proof -
  have "TftpState (store_data b d t) = STATE_DATA" "TftpTimeoutCount (store_data b d t) = TftpTimeoutCount t" "net_ok (store_data b d t)"
    using assms(2,3) by (simp_all add: store_data_def store_block_def NetSetTimeout_def Let_def net_ok_def)
  moreover from this obtain u where "TftpSend (store_data b d t) = Some u" "sent_by (store_data b d t) u"
    using send_ok [of "store_data b d t"] by (auto simp: tftp_message_def)
  moreover from this have "net.more u = net.more (store_data b d t)" by (simp add: sent_by_def)
  ultimately show ?thesis using assms(1) more_fields [of u "store_data b d t"] by (auto simp: accept_data_def)
qed

end
