(* ===== verification/NetLoopSpec.thy ===== *)
theory NetLoopSpec
  imports TftpSpec
begin

text \<open>
  \<open>NetLoop\<close> runs a TFTP transfer to its end. The network is described by an inductive predicate on the inputs of
  the rounds, \<open>served\<close>, whose stages follow the client; the client's state at each stage is \<open>stage_ok\<close>. Every
  rule of the predicate has its step lemma, and the transfer follows by induction on the rules.
\<close>

section \<open>A good network\<close>

text \<open>A round in which nothing arrives, and one in which a frame arrives; the two timeouts are checked at the times
  \<open>a\<close> and \<open>b\<close>.\<close>

definition idle :: "u32 \<Rightarrow> u32 \<Rightarrow> net_input" where
  "idle a b = \<lparr>frames = [], pressed = False, arp_time = a, timer_time = b\<rparr>"

definition hears :: "u32 \<Rightarrow> u8 list \<Rightarrow> int \<Rightarrow> u32 \<Rightarrow> u32 \<Rightarrow> net_input" where
  "hears tm inpkt len a b = \<lparr>frames = [(tm, inpkt, len)], pressed = False, arp_time = a, timer_time = b\<rparr>"

text \<open>A frame with a datagram for the client, sent by some machine and possibly padded; \<open>cs\<close> is what follows in the
  receive buffer. A frame with the answer to the client's ARP request.\<close>

definition datagram_frame :: "u16 \<Rightarrow> u32 \<Rightarrow> u32 \<Rightarrow> u32 \<Rightarrow> u8 list \<Rightarrow> u8 list \<Rightarrow> u8 list \<Rightarrow> int \<Rightarrow> bool" where
  "datagram_frame vlan ip port src p cs inpkt len \<longleftrightarrow> (\<exists>(a :: net) mac. inpkt = udp_frame a mac ip port src p @ cs \<and> length mac = 6 \<and>
     length (NetOurEther a) = 6 \<and> NetOurVLAN a = vlan \<and> length p \<le> 1468 \<and> unat src < 65536 \<and>
     int (length (udp_frame a mac ip port src p)) \<le> len \<and> len < 2 ^ 31)"

definition arp_answer :: "u16 \<Rightarrow> u32 \<Rightarrow> u32 \<Rightarrow> u8 list \<Rightarrow> int \<Rightarrow> bool" where
  "arp_answer vlan ip hop inpkt len \<longleftrightarrow> (\<exists>(a :: net) mac tha cs. inpkt = ether_hdr a tha mac 0x0806 @ arp_packet 2 mac hop tha ip @ cs \<and>
     length mac = 6 \<and> mac \<noteq> replicate 6 0 \<and> length tha = 6 \<and> NetOurVLAN a = vlan \<and> int (NetEthHdrSize a + 28) \<le> len)"

text \<open>How far the transfer has come: the Ethernet address of the server is not known yet, the request has been sent, an
  OACK has been received, or a number of blocks has been loaded.\<close>

datatype stage = Asking | Requested | Agreed | Loaded nat

fun blocks_done :: "stage \<Rightarrow> nat option" where
  "blocks_done Asking = None"
| "blocks_done Requested = Some 0"
| "blocks_done Agreed = Some 0"
| "blocks_done (Loaded k) = Some k"

text \<open>A network that serves the blocks \<open>bs\<close>, of size \<open>B\<close>, to a client with the given VLAN, address, next hop, port and
  timeout, from the port \<open>src\<close>. The client's timer was started at the time \<open>s\<close>; nothing is assumed
  of what comes after the last block.\<close>

inductive served :: "u16 \<Rightarrow> u32 \<Rightarrow> u32 \<Rightarrow> u32 \<Rightarrow> u32 \<Rightarrow> u32 \<Rightarrow> u16 \<Rightarrow> u8 list list \<Rightarrow> stage \<Rightarrow> u32 \<Rightarrow> net_input list \<Rightarrow> bool"
  for vlan ip hop port src T B bs where
  Idle: "served vlan ip hop port src T B bs st s inps \<Longrightarrow> b - s \<le> T \<Longrightarrow> st = Asking \<longrightarrow> a - s \<le> 5000 \<Longrightarrow>
    served vlan ip hop port src T B bs st s (idle a b # inps)"
| Arp: "served vlan ip hop port src T B bs Requested s inps \<Longrightarrow> arp_answer vlan ip hop inpkt len \<Longrightarrow> b - s \<le> T \<Longrightarrow>
    served vlan ip hop port src T B bs Asking s (hears tm inpkt len a b # inps)"
| Oack: "served vlan ip hop port src T B bs Agreed s inps \<Longrightarrow> datagram_frame vlan ip port src p cs inpkt len \<Longrightarrow>
    get16 p 0 = Some 6 \<Longrightarrow> 2 \<le> length p \<Longrightarrow> oack_blksize (p @ cs) (length p - 2) 512 = B \<Longrightarrow> b - s \<le> T \<Longrightarrow>
    served vlan ip hop port src T B bs Requested s (hears tm inpkt len a b # inps)"
| Block: "served vlan ip hop port src T B bs (Loaded (Suc k)) tm inps \<Longrightarrow> blocks_done st = Some k \<Longrightarrow> Suc k < length bs \<Longrightarrow>
    st = Requested \<longrightarrow> B = 512 \<Longrightarrow> datagram_frame vlan ip port src (data_packet (Suc k) (bs ! k)) cs inpkt len \<Longrightarrow> b - tm \<le> T \<Longrightarrow>
    served vlan ip hop port src T B bs st s (hears tm inpkt len a b # inps)"
| Repeat: "served vlan ip hop port src T B bs (Loaded k) s inps \<Longrightarrow> \<not> 65536 dvd k \<Longrightarrow>
    datagram_frame vlan ip port src (data_packet k (bs ! (k - 1))) cs inpkt len \<Longrightarrow> b - s \<le> T \<Longrightarrow>
    served vlan ip hop port src T B bs (Loaded k) s (hears tm inpkt len a b # inps)"
| Final: "blocks_done st = Some k \<Longrightarrow> Suc k = length bs \<Longrightarrow> st = Requested \<longrightarrow> B = 512 \<Longrightarrow>
    datagram_frame vlan ip port src (data_packet (Suc k) (bs ! k)) cs inpkt len \<Longrightarrow> b - tm \<le> T \<Longrightarrow>
    served vlan ip hop port src T B bs st s (hears tm inpkt len a b # inps)"

section \<open>One round\<close>

definition after_round :: "u32 \<Rightarrow> tftp \<Rightarrow> round_end \<times> tftp" where
  "after_round b t = (case NetState t of
     NETLOOP_RESTART \<Rightarrow> (Restart, t\<lparr>now := b, NetRestarted := True\<rparr>) | NETLOOP_SUCCESS \<Rightarrow> loop_success (t\<lparr>now := b\<rparr>)
   | NETLOOP_FAIL \<Rightarrow> (Return (-1), t\<lparr>now := b\<rparr>) | NETLOOP_CONTINUE \<Rightarrow> (Again, t\<lparr>now := b\<rparr>))"

lemma quiet_round:
  assumes "eth_rx drv (frames inp) t = Some t1" "\<not> pressed inp" "timer_at s t1" "timer_time inp - s \<le> TftpTimeoutMSecs t1"
    and "NetArpWaitPacketIP t1 = 0 \<or> arp_time inp - NetArpWaitTimerStart t1 \<le> 5000"
  shows "net_round drv inp t = Some (after_round (timer_time inp) t1)"
proof -
  have a: "ArpTimeoutCheck drv (t1\<lparr>now := arp_time inp\<rparr>) = Some (t1\<lparr>now := arp_time inp\<rparr>)"
    using assms(5) by (auto simp: ArpTimeoutCheck_def)
  have "check_timer drv (t1\<lparr>now := timer_time inp\<rparr>) = Some (t1\<lparr>now := timer_time inp\<rparr>)"
    using assms(3,4) by (auto simp: check_timer_def timer_at_def)
  then show ?thesis using assms(1,2) a by (simp add: net_round_def after_round_def split: net_state.split)
qed

lemma eth_rx_simps [simp]:
  "eth_rx drv [] t = Some t"
  "eth_rx drv ((time, inpkt, len) # fs) t = do { t \<leftarrow> deliver_frame drv inpkt len (t\<lparr>now := time\<rparr>); eth_rx drv fs t }"
  by (simp_all add: eth_rx_def frame_step_def)

section \<open>The stages of a transfer\<close>

text \<open>The address of the server is known and nothing waits.\<close>

definition linked :: "tftp \<Rightarrow> bool" where
  "linked t \<longleftrightarrow> NetArpWaitPacketIP t = 0 \<and> NetServerEther t \<noteq> replicate 6 0"

definition client :: "(string \<Rightarrow> string option) \<Rightarrow> u16 \<Rightarrow> u32 \<Rightarrow> u32 \<Rightarrow> u32 \<Rightarrow> u32 \<Rightarrow> tftp \<Rightarrow> bool" where
  "client E vlan ip port T s t \<longleftrightarrow> environment t = E \<and> NetOurVLAN t = vlan \<and> NetOurIP t = ip \<and> TftpOurPort t = port \<and> unat port < 65536 \<and> TftpTimeoutMSecs t = T \<and> timer_at s t \<and>
     TftpServerIP t \<noteq> 0 \<and> TftpServerIP t \<noteq> 0xffffffff"

definition fresh :: "u32 \<Rightarrow> mem \<Rightarrow> u32 \<Rightarrow> u16 \<Rightarrow> tftp \<Rightarrow> bool" where
  "fresh src m addr B t \<longleftrightarrow> awaiting_first t src \<and> ram t = m \<and> tf_load_addr t = addr \<and> TftpBlkSize t = B"

fun stage_ok :: "u32 \<Rightarrow> u32 \<Rightarrow> u16 \<Rightarrow> u8 list list \<Rightarrow> mem \<Rightarrow> u32 \<Rightarrow> stage \<Rightarrow> u32 \<Rightarrow> tftp \<Rightarrow> bool" where
  "stage_ok hop src B bs m addr Asking s t \<longleftrightarrow> fresh src m addr 512 t \<and> TftpState t = STATE_RRQ \<and> NetArpWaitReplyIP t = hop \<and> NetOurIP t \<noteq> 0 \<and>
     (\<exists>f. 6 \<le> length f \<and> waiting t (TftpServerIP t) Ptr_NetServerEther f) \<and> NetArpWaitTimerStart t = s"
| "stage_ok hop src B bs m addr Requested s t \<longleftrightarrow> linked t \<and> fresh src m addr 512 t \<and> TftpState t = STATE_RRQ"
| "stage_ok hop src B bs m addr Agreed s t \<longleftrightarrow> linked t \<and> fresh src m addr B t"
| "stage_ok hop src B bs m addr (Loaded k) s t \<longleftrightarrow> linked t \<and> 0 < k \<and> k \<le> length bs \<and>
     (\<exists>t1. received t1 src bs k t \<and> TftpBlkSize t1 = B \<and> ram t1 = m \<and> tf_load_addr t1 = addr)"

text \<open>The state in which a frame is handled.\<close>

definition rx_state :: "u32 \<Rightarrow> u8 list \<Rightarrow> int \<Rightarrow> tftp \<Rightarrow> tftp" where
  "rx_state tm inpkt len t = t\<lparr>now := tm, NetRxPacket := inpkt, NetRxPacketLen := len\<rparr>"

lemma rx_stage: "stage_ok hop src B bs m addr st s (rx_state tm inpkt len t) = stage_ok hop src B bs m addr st s t"
  by (cases st) (simp_all add: rx_state_def fresh_def awaiting_first_def net_ok_def waiting_def arp_reply_ip_def linked_def received_def)

lemma now_stage: "stage_ok hop src B bs m addr st s (t\<lparr>now := x\<rparr>) = stage_ok hop src B bs m addr st s t"
  by (cases st) (simp_all add: fresh_def awaiting_first_def net_ok_def waiting_def arp_reply_ip_def linked_def received_def)

lemma rx_client: "client E vlan ip port T s (rx_state tm inpkt len t) = client E vlan ip port T s t"
  by (simp add: client_def rx_state_def timer_at_def)

lemma now_client: "client E vlan ip port T s (t\<lparr>now := x\<rparr>) = client E vlan ip port T s t"
  by (simp add: client_def timer_at_def)

lemma datagram_handled:
  assumes "datagram_frame vlan ip port src p cs inpkt len" "NetOurVLAN t = vlan" "NetOurIP t = 0 \<or> NetOurIP t = ip" "unat port < 65536"
  shows "deliver_frame drv inpkt len t =
      handle_packet drv (Some (p @ cs), port, src, of_nat (length p)) (t\<lparr>NetRxPacket := inpkt, NetRxPacketLen := len\<rparr>) \<and> 12 \<le> length inpkt"
proof -
  obtain a :: net and mac where f: "inpkt = udp_frame a mac ip port src p @ cs" "length mac = 6" "length (NetOurEther a) = 6" "NetOurVLAN a = vlan"
      "length p \<le> 1468" "unat src < 65536" "int (length (udp_frame a mac ip port src p)) \<le> len" "len < 2 ^ 31"
    using assms(1) by (auto simp: datagram_frame_def)
  have "receive_frame inpkt len (t\<lparr>NetRxPacket := inpkt, NetRxPacketLen := len\<rparr>) =
      Some (Some (Some (p @ cs), port, src, of_nat (length p)), t\<lparr>NetRxPacket := inpkt, NetRxPacketLen := len\<rparr>)"
    unfolding f(1) using f assms(2-4) by (intro receive_udp_frame) auto
  moreover have "12 \<le> length inpkt" using f(1-3) by (simp add: udp_frame_def ether_hdr_def)
  ultimately show ?thesis by (simp add: deliver_frame_def NetReceive_def)
qed

lemma rx_datagram:
  assumes "datagram_frame vlan ip port src p cs inpkt len" "client E vlan ip port T s t"
  shows "eth_rx drv (frames (hears tm inpkt len a b)) t =
    handle_packet drv (Some (p @ cs), port, src, of_nat (length p)) (rx_state tm inpkt len t)"
  using datagram_handled [OF assms(1), of "t\<lparr>now := tm\<rparr>" drv] assms(2)
  by (simp add: hears_def client_def rx_state_def Option.bind_rzero cong: Option.bind_cong)

lemma client_same:
  assumes "client E vlan ip port T s t" "linked t" "net_same t t'" "TftpOurPort t' = TftpOurPort t" "TftpServerIP t' = TftpServerIP t"
    "TftpTimeoutMSecs t' = TftpTimeoutMSecs t" "timer_at s' t'"
  shows "client E vlan ip port T s' t'" "linked t'"
  using assms by (simp_all add: client_def linked_def net_same_def)

lemma arp_step:
  assumes "arp_answer vlan ip hop inpkt len" "client E vlan ip port T s t" "stage_ok hop src B bs m addr Asking s t"
  shows "\<exists>t1. eth_rx drv (frames (hears tm inpkt len a b)) t = Some t1 \<and> client E vlan ip port T s t1 \<and> stage_ok hop src B bs m addr Requested s t1"
proof -
  let ?r = "rx_state tm inpkt len t"
  have c: "client E vlan ip port T s ?r" "stage_ok hop src B bs m addr Asking s ?r" using assms(2,3) by (simp_all add: rx_client rx_stage)
  obtain a :: net and mac tha cs where f: "inpkt = ether_hdr a tha mac 0x0806 @ arp_packet 2 mac hop tha ip @ cs"
      "length mac = 6" "mac \<noteq> replicate 6 0" "length tha = 6" "NetOurVLAN a = vlan" "int (NetEthHdrSize a + 28) \<le> len"
    using assms(1) by (auto simp: arp_answer_def)
  obtain fr where fr: "6 \<le> length fr" "waiting ?r (TftpServerIP ?r) Ptr_NetServerEther fr" using c(2) by auto
  have h: "NetEthHdrSize a = NetEthHdrSize ?r" using c(1) f(5) by (simp add: NetEthHdrSize_def myvlanid_def client_def)
  have k: "net_ok ?r" "TftpServerIP ?r \<noteq> 0" "NetOurIP ?r = ip" "ip \<noteq> 0" "NetArpWaitReplyIP ?r = hop" "NetOurVLAN a = NetOurVLAN ?r"
    using c f(5) by (auto simp: fresh_def awaiting_first_def client_def)
  obtain n where n: "receive_frame inpkt len ?r = Some (None, n)" "ether_at Ptr_NetServerEther n = mac" "NetArpWaitPacketIP n = 0" "net_ok n" "arp_same ?r n"
    using receive_arp_reply [OF k(1) fr(2) k(2) f(2,4) _ fr(1) k(6), of len cs] k f(6) h unfolding f(1) by auto
  note g = more_fields [of n ?r]
  have "client E vlan ip port T s n" "stage_ok hop src B bs m addr Requested s n"
    using n g c f(3) by (auto simp: client_def arp_same_def timer_at_def linked_def ether_at_def fresh_def awaiting_first_def)
  moreover have "eth_rx drv (frames (hears tm inpkt len x b)) t = Some n" for x
    using n(1) by (simp add: hears_def deliver_frame_def NetReceive_def rx_state_def)
  ultimately show ?thesis by blast
qed

lemma oack_step:
  assumes "datagram_frame vlan ip port src p cs inpkt len" "client E vlan ip port T s t" "stage_ok hop src B bs m addr Requested s t"
    and "get16 p 0 = Some 6" "2 \<le> length p" "oack_blksize (p @ cs) (length p - 2) 512 = B"
  shows "\<exists>t1. eth_rx drv (frames (hears tm inpkt len a b)) t = Some t1 \<and> client E vlan ip port T s t1 \<and> stage_ok hop src B bs m addr Agreed s t1"
proof -
  let ?r = "rx_state tm inpkt len t"
  have c: "client E vlan ip port T s ?r" "stage_ok hop src B bs m addr Requested s ?r" using assms(2,3) by (simp_all add: rx_client rx_stage)
  have p: "length p < 65536" using assms(1) by (auto simp: datagram_frame_def)
  have w: "awaiting_first ?r src" "TftpBlkSize ?r = 512" "linked ?r" "TftpOurPort ?r = port" using c by (simp_all add: fresh_def client_def)
  obtain u where u: "handle_packet drv (Some (p @ cs), port, src, of_nat (length p)) ?r = Some u" "awaiting_first u src"
      "TftpBlkSize u = B" "ram u = ram ?r" "tf_load_addr u = tf_load_addr ?r" "TftpOurPort u = TftpOurPort ?r" "TftpServerIP u = TftpServerIP ?r"
      "net_same ?r u" "TftpTimeoutMSecs u = TftpTimeoutMSecs ?r" "timer_at s u = timer_at s ?r"
    using oack_awaits [OF w(1) assms(4,5) p, of drv cs] unfolding w(2,4) assms(6) by auto
  have "timer_at s u" using c(1) u(10) by (simp add: client_def)
  then have "client E vlan ip port T s u" "linked u" using client_same [OF c(1) w(3) u(8,6,7,9)] by simp_all
  moreover have "fresh src m addr B u" using u c(2) by (simp add: fresh_def)
  ultimately show ?thesis using rx_datagram [OF assms(1,2)] u(1) by simp
qed

lemma block_step:
  assumes "datagram_frame vlan ip port src (data_packet (Suc k) (bs ! k)) cs inpkt len" "client E vlan ip port T s t" "stage_ok hop src B bs m addr st s t"
    and "blocks_done st = Some k" "k < length bs" "st = Requested \<longrightarrow> B = 512" "file_blocks (unat B) bs" "T \<noteq> 0"
  shows "\<exists>t1. eth_rx drv (frames (hears tm inpkt len a b)) t = Some t1 \<and> client E vlan ip port T tm t1 \<and> stage_ok hop src B bs m addr (Loaded (Suc k)) tm t1"
proof -
  let ?r = "rx_state tm inpkt len t" and ?p = "data_packet (Suc k) (bs ! k)"
  have c: "client E vlan ip port T s ?r" "stage_ok hop src B bs m addr st s ?r" using assms(2,3) by (simp_all add: rx_client rx_stage)
  have port: "TftpOurPort ?r = port" "linked ?r" using c assms(4) by (auto simp: client_def elim: blocks_done.elims)
  have "\<exists>u t1. handle_packet drv (Some (?p @ cs), port, src, of_nat (length ?p)) ?r = Some u \<and> received t1 src bs (Suc k) u \<and> rearmed ?r u \<and>
      TftpBlkSize t1 = B \<and> ram t1 = m \<and> tf_load_addr t1 = addr \<and> TftpServerIP ?r = TftpServerIP t1 \<and> TftpOurPort ?r = TftpOurPort t1"
  proof (cases "\<exists>k. st = Loaded k")
    case True
    then have "st = Loaded k" using assms(4) by auto
    then obtain t1 where t1: "received t1 src bs k ?r" "TftpBlkSize t1 = B" "ram t1 = m" "tf_load_addr t1 = addr" using c(2) by auto
    moreover have "TftpServerIP ?r = TftpServerIP t1" "TftpOurPort ?r = TftpOurPort t1" using t1(1) by (simp_all add: received_def)
    moreover obtain u where "handle_packet drv (Some (?p @ cs), TftpOurPort ?r, src, of_nat (length ?p)) ?r = Some u"
        "received t1 src bs (Suc k) u" "rearmed ?r u"
      using deliver_next [OF t1(1) _ assms(5), of drv cs] assms(7) t1(2) by auto
    ultimately show ?thesis unfolding port(1) by blast
  next
    case False
    then have st: "st = Requested \<or> st = Agreed" "k = 0" using assms(4) by (auto elim: blocks_done.elims)
    then have f: "fresh src m addr B ?r" using c(2) assms(6) by auto
    then obtain u where "handle_packet drv (Some (data_packet 1 (bs ! 0) @ cs), TftpOurPort ?r, src, of_nat (length (data_packet 1 (bs ! 0)))) ?r = Some u"
        "received ?r src bs 1 u" "rearmed ?r u"
      using deliver_first [of ?r src bs drv cs] assms(7) by (auto simp: fresh_def)
    then show ?thesis using f st(2) port(1) by - (rule exI [of _ u], rule exI [of _ ?r], simp add: fresh_def)
  qed
  then obtain u t1 where u: "handle_packet drv (Some (?p @ cs), port, src, of_nat (length ?p)) ?r = Some u" "received t1 src bs (Suc k) u" "rearmed ?r u"
      "TftpBlkSize t1 = B" "ram t1 = m" "tf_load_addr t1 = addr" "TftpServerIP ?r = TftpServerIP t1" "TftpOurPort ?r = TftpOurPort t1" by blast
  have s: "TftpServerIP u = TftpServerIP ?r" "TftpOurPort u = TftpOurPort ?r" using u(2,7,8) by (simp_all add: received_def)
  have tm: "now ?r = tm" "TftpTimeoutMSecs ?r = T" using c(1) by (simp_all add: rx_state_def client_def)
  then have "timer_at tm u" "net_same ?r u" "TftpTimeoutMSecs u = TftpTimeoutMSecs ?r" using u(3) assms(8) by (simp_all add: rearmed_def)
  then have "client E vlan ip port T tm u" "linked u" using client_same [OF c(1) port(2) _ s(2,1)] by simp_all
  then show ?thesis using rx_datagram [OF assms(1,2)] u(1,2,4-6) assms(5) by auto
qed

lemma repeat_step:
  assumes "datagram_frame vlan ip port src (data_packet k (bs ! (k - 1))) cs inpkt len" "client E vlan ip port T s t" "stage_ok hop src B bs m addr (Loaded k) s t"
    and "\<not> 65536 dvd k"
  shows "\<exists>t1. eth_rx drv (frames (hears tm inpkt len a b)) t = Some t1 \<and> client E vlan ip port T s t1 \<and> stage_ok hop src B bs m addr (Loaded k) s t1"
proof -
  let ?r = "rx_state tm inpkt len t" and ?p = "data_packet k (bs ! (k - 1))"
  have c: "client E vlan ip port T s ?r" "stage_ok hop src B bs m addr (Loaded k) s ?r" using assms(2,3) by (simp_all add: rx_client rx_stage)
  then obtain t1 where t1: "received t1 src bs k ?r" "0 < k" by auto
  have "length ?p < 65536" using assms(1) by (auto simp: datagram_frame_def)
  then have "unat (of_nat (length ?p) :: u32) = length ?p" by (simp add: unat_of_nat)
  then have "handle_packet drv (Some (?p @ cs), port, src, of_nat (length ?p)) ?r = Some ?r"
    using deliver_again [OF t1 assms(4), of "bs ! (k - 1)" drv cs] c(1) by (simp add: client_def)
  then show ?thesis using rx_datagram [OF assms(1,2)] c by auto
qed

section \<open>The whole transfer\<close>

text \<open>The file is in memory, and the variables tell where.\<close>

definition loaded :: "(string \<Rightarrow> string option) \<Rightarrow> mem \<Rightarrow> u32 \<Rightarrow> u8 list \<Rightarrow> tftp \<Rightarrow> bool" where
  "loaded E m addr file t \<longleftrightarrow> (\<forall>x. ram t x = (let i = unat (x - addr) in if i < length file then file ! i else m x)) \<and>
     NetBootFileXferSize t = of_nat (length file) \<and>
     environment t = (if file = [] then E else E(''filesize'' \<mapsto> sprintf_text ''%lX'' [VInt (of_nat (length file))],
       ''fileaddr'' \<mapsto> sprintf_text ''%lX'' [VInt addr]))"

lemma stage_continues:
  assumes "stage_ok hop src B bs m addr st s t" "\<forall>k. st = Loaded k \<longrightarrow> k < length bs"
  shows "NetState t = NETLOOP_CONTINUE"
  using assms by (cases st) (auto simp: fresh_def awaiting_first_def received_def)

lemma stage_linked: "stage_ok hop src B bs m addr st s t \<Longrightarrow> st \<noteq> Asking \<Longrightarrow> NetArpWaitPacketIP t = 0"
  by (cases st) (auto simp: linked_def)

lemma round_goes_on:
  assumes "eth_rx drv (frames inp) t = Some t1" "\<not> pressed inp" "client E vlan ip port T s t1" "stage_ok hop src B bs m addr st s t1"
    and "timer_time inp - s \<le> T" "st = Asking \<longrightarrow> arp_time inp - s \<le> 5000" "\<forall>k. st = Loaded k \<longrightarrow> k < length bs"
  shows "net_rounds drv proto (inp # inps) t = net_rounds drv proto inps (t1\<lparr>now := timer_time inp\<rparr>)"
proof -
  have "NetArpWaitPacketIP t1 = 0 \<or> arp_time inp - NetArpWaitTimerStart t1 \<le> 5000"
    using assms(4,6) stage_linked [OF assms(4)] by (cases "st = Asking") auto
  then have "net_round drv inp t = Some (after_round (timer_time inp) t1)"
    using assms(3,5) by (intro quiet_round [OF assms(1,2)]) (auto simp: client_def)
  then show ?thesis using stage_continues [OF assms(4,7)] by (simp add: after_round_def)
qed

lemma hears_goes_on:
  assumes "eth_rx drv (frames (hears tm inpkt len a b)) t = Some t1" "client E vlan ip port T s t1" "stage_ok hop src B bs m addr st s t1"
    and "b - s \<le> T" "st \<noteq> Asking" "\<forall>k. st = Loaded k \<longrightarrow> k < length bs"
  shows "net_rounds drv proto (hears tm inpkt len a b # inps) t = net_rounds drv proto inps (t1\<lparr>now := b\<rparr>)"
  using round_goes_on [OF assms(1) _ assms(2,3) _ _ assms(6)] assms(4,5) by (simp add: hears_def)

lemma success_loaded:
  assumes "received t1 src bs (length bs) t" "tf_load_addr t1 = addr" "ram t1 = m" "length (concat bs) < 2 ^ 31" "environment t = E"
  shows "\<exists>t'. loop_success t = (Return (int (length (concat bs))), t') \<and> loaded E m addr (concat bs) t'"
proof -
  let ?n = "length (concat bs)" and ?f = "concat bs"
  have r: "NetBootFileXferSize t = of_nat ?n" "ram t = store_bytes m addr ?f" "tf_load_addr t = addr"
    using assms(1-3) by (simp_all add: received_def)
  have un: "unat (of_nat ?n :: u32) = ?n" using assms(4) by (simp add: unat_of_nat)
  then have si: "sint (of_nat ?n :: u32) = int ?n" using assms(4) by (simp add: sint_small)
  have z: "(0 :: u32) < of_nat ?n \<longleftrightarrow> ?f \<noteq> []" by (simp add: word_less_nat_alt un)
  have h: "ram (eth_halt u) = ram u" "NetBootFileXferSize (eth_halt u) = NetBootFileXferSize u" "environment (eth_halt u) = environment u" for u :: tftp
    by (simp_all add: eth_halt_def set_dev_state_def)
  have "\<forall>x. ram t x = (let i = unat (x - addr) in if i < ?n then ?f ! i else m x)"
    unfolding r(2) using assms(4) by (simp add: store_bytes_eq Let_def)
  then show ?thesis using assms(5) unfolding loop_success_def Let_def r(1,3) si z
    by (auto simp: loaded_def h setenv_net_def env_set_def r(1) Let_def)
qed

lemma rounds_load:
  assumes "served vlan ip hop port src T B bs st s inps" "client E vlan ip port T s t" "stage_ok hop src B bs m addr st s t"
    "\<forall>k. st = Loaded k \<longrightarrow> k < length bs" "file_blocks (unat B) bs" "length (concat bs) < 2 ^ 31" "T \<noteq> 0"
  shows "\<exists>t'. net_rounds drv TFTP inps t = Some (Some (int (length (concat bs))), t') \<and> loaded E m addr (concat bs) t'"
  using assms(1-4)
proof (induction arbitrary: t rule: served.induct)
  case (Idle st s inps b a)
  have "net_rounds drv TFTP (idle a b # inps) t = net_rounds drv TFTP inps (t\<lparr>now := timer_time (idle a b)\<rparr>)"
    using Idle by (intro round_goes_on [where st = st]) (auto simp: idle_def)
  then show ?case using Idle.IH [of "t\<lparr>now := b\<rparr>"] Idle.prems by (simp add: idle_def now_client now_stage)
next
  case (Arp s inps inpkt len b tm a)
  obtain t1 where t1: "eth_rx drv (frames (hears tm inpkt len a b)) t = Some t1" "client E vlan ip port T s t1" "stage_ok hop src B bs m addr Requested s t1"
    using arp_step [OF Arp.hyps(2) Arp.prems(1,2)] by blast
  show ?case using hears_goes_on [OF t1 Arp.hyps(3), of TFTP inps] Arp.IH [of "t1\<lparr>now := b\<rparr>"] t1(2,3) by (simp only: now_client now_stage) simp
next
  case (Oack s inps p cs inpkt len b tm a)
  obtain t1 where t1: "eth_rx drv (frames (hears tm inpkt len a b)) t = Some t1" "client E vlan ip port T s t1" "stage_ok hop src B bs m addr Agreed s t1"
    using oack_step [OF Oack.hyps(2) Oack.prems(1,2) Oack.hyps(3-5)] by blast
  show ?case using hears_goes_on [OF t1 Oack.hyps(6), of TFTP inps] Oack.IH [of "t1\<lparr>now := b\<rparr>"] t1(2,3) by (simp only: now_client now_stage) simp
next
  case (Block k tm inps st cs inpkt len b s a)
  obtain t1 where t1: "eth_rx drv (frames (hears tm inpkt len a b)) t = Some t1" "client E vlan ip port T tm t1" "stage_ok hop src B bs m addr (Loaded (Suc k)) tm t1"
    using block_step [OF Block.hyps(5) Block.prems(1,2) Block.hyps(2) Suc_lessD [OF Block.hyps(3)] Block.hyps(4) assms(5,7)] by blast
  show ?case using hears_goes_on [OF t1 Block.hyps(6), of TFTP inps] Block.IH [of "t1\<lparr>now := b\<rparr>"] t1(2,3) Block.hyps(3) by (simp only: now_client now_stage) simp
next
  case (Repeat k s inps cs inpkt len b tm a)
  obtain t1 where t1: "eth_rx drv (frames (hears tm inpkt len a b)) t = Some t1" "client E vlan ip port T s t1" "stage_ok hop src B bs m addr (Loaded k) s t1"
    using repeat_step [OF Repeat.hyps(3) Repeat.prems(1,2) Repeat.hyps(2)] by blast
  show ?case using hears_goes_on [OF t1 Repeat.hyps(4), of TFTP inps] Repeat.IH [of "t1\<lparr>now := b\<rparr>"] t1(2,3) Repeat.prems(3) by (simp only: now_client now_stage) simp
next
  case (Final st k cs inpkt len b tm s a inps)
  have "k < length bs" using Final.hyps(2) by simp
  then obtain t1 where t1: "eth_rx drv (frames (hears tm inpkt len a b)) t = Some t1" "client E vlan ip port T tm t1" "stage_ok hop src B bs m addr (Loaded (Suc k)) tm t1"
    using block_step [OF Final.hyps(4) Final.prems(1,2) Final.hyps(1) _ Final.hyps(3) assms(5,7)] by blast
  obtain t2 where t2: "received t2 src bs (length bs) t1" "tf_load_addr t2 = addr" "ram t2 = m" using t1(3) Final.hyps(2) by auto
  have "net_round drv (hears tm inpkt len a b) t = Some (after_round (timer_time (hears tm inpkt len a b)) t1)"
    using t1(2) Final.hyps(5) stage_linked [OF t1(3)] by (intro quiet_round [OF t1(1)]) (auto simp: hears_def client_def)
  moreover have "NetState t1 = NETLOOP_SUCCESS" "received t2 src bs (length bs) (t1\<lparr>now := b\<rparr>)"
    using t2(1) by (simp_all add: received_def net_ok_def)
  ultimately show ?case using success_loaded [of t2 src bs "t1\<lparr>now := b\<rparr>", OF _ t2(2,3) assms(6)] t1(2)
    by (auto simp: after_round_def hears_def client_def)
qed

section \<open>Starting the loop\<close>

text \<open>The devices have addresses, and the machine and the server have addresses in the environment, which are also
  those in use when the environment has not changed since.\<close>

definition good_devices :: "'a eth_scheme \<Rightarrow> bool" where
  "good_devices e \<longleftrightarrow> eth_devices e \<noteq> [] \<and> eth_current e < length (eth_devices e) \<and>
     (\<forall>d\<in>set (eth_devices e). length (enetaddr d) = 6 \<and> enetaddr d \<noteq> replicate 6 0)"

definition unicast :: "u32 \<Rightarrow> bool" where
  "unicast ip \<longleftrightarrow> ip \<noteq> 0 \<and> ip \<noteq> 0xffffffff"

definition configured :: "tftp \<Rightarrow> bool" where
  "configured t \<longleftrightarrow> bd_ip_addr t \<noteq> 0 \<and> unicast (getenv_IPaddr ''serverip'' t) \<and>
     (net_env_id t \<ge> env_id t \<longrightarrow> NetOurIP t \<noteq> 0 \<and> unicast (NetServerIP t))"

lemma good_set_dev: "good_devices e \<Longrightarrow> good_devices (set_dev_state st e)"
  by (auto simp: good_devices_def set_dev_state_def dest!: set_update_subset_insert [THEN subsetD])

lemma parse_loop_length: "length (parse_enetaddr_loop n s) = n"
  by (induction n s rule: parse_enetaddr_loop.induct) (simp_all split: prod.split)

lemma good_sync: "good_devices e \<Longrightarrow> good_devices (sync_enetaddr e)"
proof -
  assume g: "good_devices e"
  have "length (enetaddr d) = 6 \<and> enetaddr d \<noteq> replicate 6 0" if mem: "d \<in> set (eth_devices (sync_enetaddr e))" for d
  proof -
    obtain i where "i < length (eth_devices (sync_enetaddr e))" "eth_devices (sync_enetaddr e) ! i = d"
      using mem unfolding in_set_conv_nth by blast
    then have i: "i < length (eth_devices e)" "d = eth_devices (sync_enetaddr e) ! i" by simp_all
    let ?d = "eth_devices e ! i"
    have d: "d = (let (ok, a) = eth_getenv_enetaddr_by_index i e in if ok then ?d\<lparr>enetaddr := a\<rparr> else ?d)"
      using i by (simp add: sync_enetaddr_def nth_enumerate_eq)
    have "length a = 6 \<and> a \<noteq> replicate 6 0" if "eth_getenv_enetaddr_by_index i e = (True, a)" for a
      using that by (auto simp: eth_getenv_enetaddr_by_index_def eth_getenv_enetaddr_def eth_parse_enetaddr_def parse_loop_length
          is_valid_ether_addr_def is_zero_ether_addr_def Let_def)
    then show ?thesis using d i(1) g by (cases "eth_getenv_enetaddr_by_index i e") (auto simp: good_devices_def)
  qed
  then show ?thesis using g by (simp add: good_devices_def)
qed

lemma find_index: "List.find P (map f xs) = Some y \<Longrightarrow> \<exists>x\<in>set xs. y = f x"
  by (auto simp: find_Some_iff)

lemma good_set_current: "good_devices e \<Longrightarrow> good_devices (eth_set_current e)"
  by (auto simp: good_devices_def eth_set_current_def env_set_def Let_def dest!: find_index split: option.split)

lemma set_current_env:
  "n \<noteq> ''ethact'' \<Longrightarrow> environment (eth_set_current e) n = environment e n"
  "env_id (eth_set_current e) \<ge> env_id e" "eth.more (eth_set_current e) = eth.more e"
  by (auto simp: eth_set_current_def env_set_def Let_def split: option.split)

definition prelude :: "tftp \<Rightarrow> tftp" where
  "prelude t = t\<lparr>NetRestarted := False, NetDevExists := False, NetArpWaitPacketMAC := None, NetArpWaitPacketIP := 0,
     NetArpWaitReplyIP := 0, NetTryCount := 1, NetArpWaitTxPacketSize := 0\<rparr>"

lemma eth_init_works:
  assumes "good_devices e" "\<forall>i. drv i"
  shows "eth_init drv e = Some (0, set_dev_state ETH_STATE_ACTIVE (sync_enetaddr e))"
  using assms by (simp add: eth_init_def good_devices_def eth_init_loop.simps Let_def)

lemma prelude_init:
  assumes "good_devices t" "\<forall>i. drv i"
  shows "\<exists>t1. eth_init drv (eth_set_current (eth_halt (prelude t))) = Some (0, t1) \<and> good_devices t1 \<and> eth.more t1 = eth.more (prelude t) \<and>
    env_id t1 \<ge> env_id t \<and> (\<forall>n. n \<noteq> ''ethact'' \<longrightarrow> environment t1 n = environment t n)"
proof -
  let ?e = "eth_set_current (eth_halt (prelude t))" and ?t1 = "set_dev_state ETH_STATE_ACTIVE (sync_enetaddr (eth_set_current (eth_halt (prelude t))))"
  have "good_devices (prelude t)" using assms(1) by (simp add: good_devices_def prelude_def)
  then have g: "good_devices ?e" by (simp add: eth_halt_def good_set_dev good_set_current)
  have "good_devices ?t1" by (intro good_set_dev good_sync g)
  moreover have "eth.more ?t1 = eth.more (prelude t)" by (simp add: eth_more_keeps set_current_env)
  moreover have h: "environment (eth_halt (prelude t)) = environment t" "env_id (eth_halt (prelude t)) = env_id t"
    by (simp_all add: eth_halt_def set_dev_state_def prelude_def)
  moreover have "environment ?t1 = environment ?e" "env_id ?t1 = env_id ?e" by (simp_all add: set_dev_state_def sync_enetaddr_def)
  moreover have "env_id ?e \<ge> env_id t" "n \<noteq> ''ethact'' \<Longrightarrow> environment ?e n = environment t n" for n
    using set_current_env(2) [of "eth_halt (prelude t)"] set_current_env(1) [of n "eth_halt (prelude t)"] unfolding h by auto
  ultimately show ?thesis using eth_init_works [OF g assms(2)] by auto
qed

lemma net_more_fields:
  fixes t t' :: "'a net_scheme"
  assumes "eth.more t' = eth.more t"
  shows "net.more t' = net.more t" "NetOurIP t' = NetOurIP t" "NetServerIP t' = NetServerIP t" "bd_ip_addr t' = bd_ip_addr t" "net_env_id t' = net_env_id t"
    "NetTxPacket t' = NetTxPacket t" "NetArpWaitTxPacket t' = NetArpWaitTxPacket t" "NetServerEther t' = NetServerEther t"
    "NetBcastAddr t' = NetBcastAddr t" "ping_mac t' = ping_mac t" "now t' = now t"
    "NetArpWaitPacketIP t' = NetArpWaitPacketIP t"
  using assms by (cases t; cases t'; simp)+

lemma init_loop_fields:
  fixes t :: tftp
  shows "NetOurEther (NetInitLoop t) = NetOurEther t" "NetState (NetInitLoop t) = NetState t" "now (NetInitLoop t) = now t"
    "net_ok (NetInitLoop t) = net_ok t" "net.more (NetInitLoop t) = net.more t" "environment (NetInitLoop t) = environment t"
    "NetArpWaitPacketIP (NetInitLoop t) = NetArpWaitPacketIP t"
  by (cases "net_env_id t = env_id t"; simp add: NetInitLoop_def net_ok_def)+

text \<open>The state \<open>NetLoop\<close> starts a protocol in.\<close>

lemma loop_start:
  assumes "good_devices t" "net_ok t" "\<forall>i. drv i"
  shows "\<exists>u. (\<forall>proto inps. net_check_prereq drv proto u = (0, u) \<longrightarrow> NetLoop drv proto inps t = do {
      v \<leftarrow> start_protocol proto (u\<lparr>NetDevExists := True\<rparr>);
      net_rounds drv proto inps (v\<lparr>NetBootFileXferSize := 0\<rparr>) }) \<and>
    net_ok u \<and> NetState u = NETLOOP_CONTINUE \<and> NetOurEther u \<noteq> replicate 6 0 \<and> NetArpWaitPacketIP u = 0 \<and> net.more u = net.more t \<and> now u = now t \<and>
    (\<forall>n. n \<noteq> ''ethact'' \<longrightarrow> environment u n = environment t n) \<and> (configured t \<longrightarrow> NetOurIP u \<noteq> 0 \<and> unicast (NetServerIP u))"
proof -
  obtain t1 where t1: "eth_init drv (eth_set_current (eth_halt (prelude t))) = Some (0, t1)" "good_devices t1" "eth.more t1 = eth.more (prelude t)"
      "env_id t1 \<ge> env_id t" "\<And>n. n \<noteq> ''ethact'' \<Longrightarrow> environment t1 n = environment t n"
    using prelude_init [OF assms(1,3)] by blast
  note f = net_more_fields [OF t1(3)]
  have p: "NetOurIP (prelude t) = NetOurIP t" "NetServerIP (prelude t) = NetServerIP t" "bd_ip_addr (prelude t) = bd_ip_addr t"
      "net_env_id (prelude t) = net_env_id t" "net.more (prelude t) = net.more t" "now (prelude t) = now t" "NetArpWaitPacketIP (prelude t) = 0"
    by (simp_all add: prelude_def)
  define dev where "dev = eth_devices t1 ! eth_current t1"
  have dev: "eth_get_dev t1 = Some dev" "length (enetaddr dev) = 6" "enetaddr dev \<noteq> replicate 6 0"
    using t1(2) by (auto simp: good_devices_def eth_get_dev_def dev_def)
  define u where "u = NetInitLoop (t1\<lparr>NetOurEther := enetaddr dev, NetState := NETLOOP_CONTINUE\<rparr>)"
  have "net_ok (t1\<lparr>NetOurEther := enetaddr dev, NetState := NETLOOP_CONTINUE\<rparr>)"
    using assms(2) dev t1(2) f by (simp add: net_ok_def good_devices_def prelude_def)
  then have e: "NetOurEther u = enetaddr dev" "NetState u = NETLOOP_CONTINUE" "net_ok u" "now u = now t" "net.more u = net.more t" "NetArpWaitPacketIP u = 0"
      "environment u = environment t1"
    unfolding u_def init_loop_fields using f p by simp_all
  have ip: "configured t \<longrightarrow> NetOurIP u \<noteq> 0 \<and> unicast (NetServerIP u)"
    using f p t1(4,5) unfolding u_def by (auto simp: NetInitLoop_def configured_def getenv_IPaddr_def)
  have "NetLoop drv proto inps t = do { v \<leftarrow> start_protocol proto (u\<lparr>NetDevExists := True\<rparr>);
      net_rounds drv proto inps (v\<lparr>NetBootFileXferSize := 0\<rparr>) }" if "net_check_prereq drv proto u = (0, u)" for proto inps
  proof -
    have "net_restart drv proto t1 = do { v \<leftarrow> start_protocol proto (u\<lparr>NetDevExists := True\<rparr>); Some (None, v\<lparr>NetBootFileXferSize := 0\<rparr>) }"
      using dev(1) that by (simp add: net_restart_def u_def [symmetric] Let_def)
    then show ?thesis using t1(1)
      by (cases "start_protocol proto (u\<lparr>NetDevExists := True\<rparr>)") (simp_all add: NetLoop_def prelude_def [symmetric] Let_def)
  qed
  then show ?thesis using e ip dev(3) t1(5) by (intro exI [of _ u]) simp
qed

lemma restart_ready:
  assumes "good_devices t" "net_ok t" "configured t" "\<forall>i. drv i"
  shows "\<exists>u. (\<forall>inps. NetLoop drv TFTP inps t = do {
      v \<leftarrow> start_protocol TFTP u;
      net_rounds drv TFTP inps (v\<lparr>NetBootFileXferSize := 0\<rparr>) }) \<and>
    net_ok u \<and> NetState u = NETLOOP_CONTINUE \<and> NetOurIP u \<noteq> 0 \<and> unicast (NetServerIP u) \<and> net.more u = net.more t \<and> now u = now t \<and>
    (\<forall>n. n \<noteq> ''ethact'' \<longrightarrow> environment u n = environment t n)"
proof -
  from loop_start [OF assms(1,2,4)]
  obtain u where u: "\<forall>proto inps. net_check_prereq drv proto u = (0, u) \<longrightarrow> NetLoop drv proto inps t = do {
      v \<leftarrow> start_protocol proto (u\<lparr>NetDevExists := True\<rparr>); net_rounds drv proto inps (v\<lparr>NetBootFileXferSize := 0\<rparr>) }"
      "net_ok u" "NetState u = NETLOOP_CONTINUE" "NetOurEther u \<noteq> replicate 6 0" "net.more u = net.more t" "now u = now t"
      "\<forall>n. n \<noteq> ''ethact'' \<longrightarrow> environment u n = environment t n" "configured t \<longrightarrow> NetOurIP u \<noteq> 0 \<and> unicast (NetServerIP u)"
    by (elim exE conjE) (rule that)
  have ip: "NetOurIP u \<noteq> 0" "unicast (NetServerIP u)" using u(8) assms(3) by simp_all
  then have "net_check_prereq drv TFTP u = (0, u)" using u(4) by (simp add: net_check_prereq_def check_ether_def unicast_def)
  moreover have "net_ok (u\<lparr>NetDevExists := True\<rparr>)" using u(2) by (simp add: net_ok_def)
  ultimately show ?thesis using u ip by (intro exI [of _ "u\<lparr>NetDevExists := True\<rparr>"]) simp
qed

text \<open>The client asks for the file, at the time the loop starts.\<close>

lemma strchr_None: "c \<notin> set s \<Longrightarrow> c \<noteq> NUL \<Longrightarrow> strchr s c = None"
  by (induction s) auto

lemma prepare_server: "CHR '':'' \<notin> set (BootFile t) \<Longrightarrow> TftpServerIP (tftp_prepare t) = NetServerIP t"
  "NetServerEther (tftp_prepare t) = replicate 6 0"
  unfolding tftp_prepare_def Let_def
  by (simp_all add: NetSetTimeout_def NetSetHandler_def strchr_None split: option.splits)

lemma port_16: "unat (1024 + x mod 3072 :: u32) < 65536"
proof -
  have "unat (x mod 3072) < 3072" by (simp add: unat_mod_distrib)
  then show ?thesis by (simp add: unat_word_ariths)
qed

lemma start_asking:
  assumes "net_ok u" "NetState u = NETLOOP_CONTINUE" "NetOurIP u \<noteq> 0" "unicast (NetServerIP u)" "CHR '':'' \<notin> set (BootFile u)"
  shows "\<exists>v. TftpStart u = Some v \<and> ram v = ram u \<and> tf_load_addr v = tf_load_addr u \<and> \<not> TftpTimeoutMSecs v < 1000 \<and> environment v = environment u \<and>
    client (environment v) (NetOurVLAN v) (NetOurIP v) (TftpOurPort v) (TftpTimeoutMSecs v) (now u) (v\<lparr>NetBootFileXferSize := 0\<rparr>) \<and>
    stage_ok (NetArpWaitReplyIP v) src B bs (ram u) (tf_load_addr u) Asking (now u) (v\<lparr>NetBootFileXferSize := 0\<rparr>)"
proof -
  let ?p = "tftp_prepare u"
  obtain v where v: "TftpStart u = Some v" "sent_by ?p v" using start_ok [OF assms(1)] by blast
  have m: "net.more v = net.more ?p" using v(2) by (simp add: sent_by_def)
  note f = more_fields [OF m, unfolded prepare_fields]
  have ip: "TftpServerIP ?p = NetServerIP u" by (rule prepare_server(1) [OF assms(5)])
  have r: "resolving ?p (TftpServerIP ?p) v"
    using v(2) assms(4) by (simp add: sent_by_def ip prepare_server(2) unicast_def)
  have t: "timer_at (now u) v" using v(2) f prepare_timer [of u] by (simp add: sent_by_def timer_at_def)
  have c: "client (environment v) (NetOurVLAN v) (NetOurIP v) (TftpOurPort v) (TftpTimeoutMSecs v) (now u) (v\<lparr>NetBootFileXferSize := 0\<rparr>)"
    using t f assms(4) ip port_16 [of "now u"] by (simp add: client_def timer_at_def unicast_def)
  have "waiting (v\<lparr>NetBootFileXferSize := 0\<rparr>) ip e fr = waiting v ip e fr" for ip e fr
    by (simp add: waiting_def arp_reply_ip_def)
  moreover have k: "net_ok v" "NetState v = NETLOOP_CONTINUE" "packetHandler v = Tftp_handler" "NetOurIP v \<noteq> 0"
    using v(2) assms(2,3) by (simp_all add: sent_by_def net_same_def prepare_fields)
  moreover have "net_ok (v\<lparr>NetBootFileXferSize := 0\<rparr>)" using k(1) by (simp add: net_ok_def)
  moreover have "NetArpWaitTimerStart v = now u" "\<exists>fr. 6 \<le> length fr \<and> waiting v (TftpServerIP v) Ptr_NetServerEther fr"
    using r f(1) by (simp_all add: resolving_def prepare_fields)
  ultimately have "stage_ok (NetArpWaitReplyIP v) src B bs (ram u) (tf_load_addr u) Asking (now u) (v\<lparr>NetBootFileXferSize := 0\<rparr>)"
    using f by (simp add: fresh_def awaiting_first_def)
  moreover have "environment v = environment u" using v(2) by (simp add: sent_by_def net_same_def prepare_fields)
  ultimately show ?thesis using v(1) f prepare_timer(4) [of u] c by simp
qed

lemma more_BootFile: "net.more t' = net.more t \<Longrightarrow> BootFile t' = BootFile t"
  by (cases t; cases t') simp

lemma loop_loads_file:
  assumes "good_devices t" "net_ok t" "configured t" "\<forall>i. drv i" "CHR '':'' \<notin> set (BootFile t)"
    and "file_blocks (unat B) bs" "length (concat bs) < 2 ^ 31"
  shows "\<exists>t0. NetLoop drv TFTP [] t = Some (None, t0) \<and> (\<forall>n. n \<noteq> ''ethact'' \<longrightarrow> environment t0 n = environment t n) \<and>
    (\<forall>inps. served (NetOurVLAN t0) (NetOurIP t0) (NetArpWaitReplyIP t0) (TftpOurPort t0) src (TftpTimeoutMSecs t0) B bs Asking (now t) inps \<longrightarrow>
      (\<exists>t'. NetLoop drv TFTP inps t = Some (Some (int (length (concat bs))), t') \<and> loaded (environment t0) (ram t) (tf_load_addr t) (concat bs) t'))"
proof -
  obtain u where u: "\<And>inps. NetLoop drv TFTP inps t = do { v \<leftarrow> start_protocol TFTP u; net_rounds drv TFTP inps (v\<lparr>NetBootFileXferSize := 0\<rparr>) }"
      "net_ok u" "NetState u = NETLOOP_CONTINUE" "NetOurIP u \<noteq> 0" "unicast (NetServerIP u)" "net.more u = net.more t" "now u = now t"
      "\<forall>n. n \<noteq> ''ethact'' \<longrightarrow> environment u n = environment t n"
    using restart_ready [OF assms(1-4)] by blast
  have m: "ram u = ram t" "tf_load_addr u = tf_load_addr t" "BootFile u = BootFile t"
    using more_fields(15,16) [OF u(6)] more_BootFile [OF u(6)] by simp_all
  have nc: "CHR '':'' \<notin> set (BootFile u)" using assms(5) m(3) by simp
  obtain v where v: "TftpStart u = Some v" "\<not> TftpTimeoutMSecs v < 1000" "environment v = environment u"
      "client (environment v) (NetOurVLAN v) (NetOurIP v) (TftpOurPort v) (TftpTimeoutMSecs v) (now u) (v\<lparr>NetBootFileXferSize := 0\<rparr>)"
      "stage_ok (NetArpWaitReplyIP v) src B bs (ram u) (tf_load_addr u) Asking (now u) (v\<lparr>NetBootFileXferSize := 0\<rparr>)"
    using start_asking [OF u(2-5) nc, of src B bs] by blast
  let ?t0 = "v\<lparr>NetBootFileXferSize := 0\<rparr>"
  have nl: "NetLoop drv TFTP inps t = net_rounds drv TFTP inps ?t0" for inps using u(1) v(1) by (simp add: start_protocol_def)
  have nz: "TftpTimeoutMSecs v \<noteq> 0" using v(2) by auto
  have "\<exists>t'. NetLoop drv TFTP inps t = Some (Some (int (length (concat bs))), t') \<and> loaded (environment v) (ram t) (tf_load_addr t) (concat bs) t'"
    if "served (NetOurVLAN v) (NetOurIP v) (NetArpWaitReplyIP v) (TftpOurPort v) src (TftpTimeoutMSecs v) B bs Asking (now t) inps" for inps
    using rounds_load [OF _ v(4,5) _ assms(6,7) nz, of inps drv] that unfolding nl u(7) m by simp
  then show ?thesis using u(8) v(3) by (intro exI [of _ ?t0]) (simp add: nl)
qed

section \<open>The command\<close>

lemma setenv_keeps:
  assumes "n \<notin> {''filesize'', ''fileaddr''}"
  shows "ram (setenv_net n v t) = ram t" "environment (setenv_net n v t) ''filesize'' = environment t ''filesize''"
    "environment (setenv_net n v t) ''fileaddr'' = environment t ''fileaddr''"
    "n \<noteq> ''autostart'' \<Longrightarrow> environment (setenv_net n v t) ''autostart'' = environment t ''autostart''"
  using assms by (auto simp: setenv_net_def env_set_def Let_def)

definition file_same :: "tftp \<Rightarrow> tftp \<Rightarrow> bool" where
  "file_same t u \<longleftrightarrow> ram u = ram t \<and> environment u ''filesize'' = environment t ''filesize'' \<and>
     environment u ''fileaddr'' = environment t ''fileaddr'' \<and> environment u ''autostart'' = environment t ''autostart''"

lemma file_same_set:
  assumes "file_same t u" "n \<notin> {''filesize'', ''fileaddr'', ''autostart''}"
  shows "file_same t (set_ip n ip u)" "file_same t (set_text n s u)"
  using assms by (simp_all add: file_same_def set_ip_def set_text_def setenv_keeps)

lemma file_same_let: "file_same t e \<Longrightarrow> (\<And>u. file_same t u \<Longrightarrow> file_same t (f u)) \<Longrightarrow> file_same t (let u = e in f u)"
  by simp

lemma update_env_keeps: "file_same t (netboot_update_env t)"
  unfolding netboot_update_env_def by (intro file_same_let file_same_set) (simp_all add: file_same_def)

lemma copy_filename_subset: "set (copy_filename s n) \<subseteq> set s"
proof -
  have "set (copy_filename_loop n s) \<subseteq> set s" for n s by (induction n s rule: copy_filename_loop.induct) auto
  then show ?thesis by (auto simp: copy_filename_def dest: list.set_sel(2) [rotated] split: if_splits) (metis list.set_sel(2) list.sel(2) subsetD)
qed



definition ready_tftp :: tftp where
  "ready_tftp = idle_tftp\<lparr>environment := [''serverip'' \<mapsto> ''10.0.0.1'']\<rparr>"

lemma ready_tftp_ok: "good_devices ready_tftp" "net_ok ready_tftp" "configured ready_tftp" "environment ready_tftp ''autostart'' \<noteq> Some ''yes''"
    "tf_load_addr ready_tftp = 0x100000"
proof -
  have "string_to_ip (Some ''10.0.0.1'') = 0x0a000001" by code_simp
  then show "configured ready_tftp"
    by (simp add: configured_def unicast_def getenv_IPaddr_def ready_tftp_def idle_tftp_def sample_net_def two_devices_def eth.defs net.defs tftp.defs)
qed (simp_all add: Cons_replicate_eq good_devices_def net_ok_def ready_tftp_def idle_tftp_def sample_net_def two_devices_def eth.defs net.defs tftp.defs)

text \<open>A server with one block.\<close>

lemma one_block_served:
  assumes "a = sample_net\<lparr>NetOurVLAN := vlan\<rparr>" "mac = [2, 0, 0, 0, 0, 1]"
  shows "served vlan ip hop port 3000 T 512 [[1, 2]] Asking s
    [hears s (ether_hdr a mac mac 0x0806 @ arp_packet 2 mac hop mac ip) 100 s s, hears s (udp_frame a mac ip port 3000 (data_packet 1 [1, 2])) 100 s s]"
proof -
  have l: "length (ether_hdr a x mac p) \<le> 18" if "length x = 6" for x p using that assms(2) hdr_size_cases [of a] by (auto simp: ether_hdr_length)
  have e: "length (NetOurEther a) = 6" using sample_net_ok by (simp add: assms(1) net_ok_def)
  then have "length (udp_frame a mac ip port 3000 (data_packet 1 [1, 2])) \<le> 100"
    using hdr_size_cases [of a] by (auto simp: udp_frame_def ether_hdr_length data_packet_def assms(2))
  then have "datagram_frame vlan ip port 3000 (data_packet 1 [1, 2]) [] (udp_frame a mac ip port 3000 (data_packet 1 [1, 2])) 100"
    unfolding datagram_frame_def using e by (intro exI [of _ a] exI [of _ mac]) (simp add: assms data_packet_def)
  then have "served vlan ip hop port 3000 T 512 [[1, 2]] Requested s [hears s (udp_frame a mac ip port 3000 (data_packet 1 [1, 2])) 100 s s]"
    by (intro Final [where k = 0 and cs = "[]"]) simp_all
  moreover have "arp_answer vlan ip hop (ether_hdr a mac mac 0x0806 @ arp_packet 2 mac hop mac ip) 100"
    unfolding arp_answer_def using hdr_size_cases [of a] by (intro exI [of _ a] exI [of _ mac] exI [of _ "[]"]) (auto simp: assms Cons_replicate_eq)
  ultimately show ?thesis by (intro Arp) simp_all
qed


end
