(* ===== verification/NetInv.thy ===== *)
theory NetInv
  imports NetLoopSpec
begin

text \<open>
  Whatever frames arrive and whenever the timers fire, the network state stays well formed: there is a current
  device, every device has an address of six bytes, and so have the other Ethernet addresses; the transmit
  buffers keep their size.
\<close>

section \<open>Well-formed states\<close>

definition dev_wf :: "'a eth_scheme \<Rightarrow> bool" where
  "dev_wf e \<longleftrightarrow> eth_devices e \<noteq> [] \<and> eth_current e < length (eth_devices e) \<and> (\<forall>d\<in>set (eth_devices e). length (enetaddr d) = 6)"

definition buf_wf :: "'a net_scheme \<Rightarrow> bool" where
  "buf_wf n \<longleftrightarrow> length (NetTxPacket n) = 1536 \<and> length (NetArpWaitTxPacket n) = 1536 \<and> length (NetOurEther n) = 6 \<and>
     length (NetServerEther n) = 6 \<and> length (NetBcastAddr n) = 6 \<and> length (ping_mac n) = 6"

definition net_wf :: "'a net_scheme \<Rightarrow> bool" where
  "net_wf n \<longleftrightarrow> dev_wf n \<and> buf_wf n"

lemma buf_wf_more:
  assumes "eth.more m = eth.more n"
  shows "buf_wf m = buf_wf n"
  using assms by (cases m; cases n) (simp add: buf_wf_def)

lemma dev_set_state: "dev_wf e \<Longrightarrow> dev_wf (set_dev_state st e)"
  by (auto simp: dev_wf_def set_dev_state_def dest!: set_update_subset_insert [THEN subsetD])

lemma dev_halt: "dev_wf e \<Longrightarrow> dev_wf (eth_halt e)"
  by (simp add: eth_halt_def dev_set_state)

lemma dev_try_another: "dev_wf e \<Longrightarrow> dev_wf (eth_try_another fr e)"
  by (auto simp: dev_wf_def eth_try_another_def Let_def)

lemma dev_sync: "dev_wf e \<Longrightarrow> dev_wf (sync_enetaddr e)"
  unfolding dev_wf_def
  by (auto simp: sync_enetaddr_def eth_getenv_enetaddr_by_index_def eth_getenv_enetaddr_def eth_parse_enetaddr_def parse_loop_length Let_def
      in_set_enumerate_eq split: if_splits dest: arg_cong [where f = length])

lemma dev_set_current: "dev_wf e \<Longrightarrow> dev_wf (eth_set_current e)"
  by (auto simp: dev_wf_def eth_set_current_def env_set_def Let_def dest!: find_index split: option.split)

lemma dev_init_loop: "eth_init_loop drv c e = Some (r, e') \<Longrightarrow> dev_wf e \<Longrightarrow> dev_wf e'"
proof (rule eth_init_loop.raw_induct [where P = "\<lambda>drv c e re. dev_wf e \<longrightarrow> dev_wf (snd re)", of drv c e "(r, e')", simplified snd_conv, THEN mp])
  fix f :: "(nat \<Rightarrow> bool) \<Rightarrow> nat \<Rightarrow> 'a eth_scheme \<Rightarrow> (int \<times> 'a eth_scheme) option" and drv c and e :: "'a eth_scheme" and re
  assume IH: "\<And>drv c e re. f drv c e = Some re \<Longrightarrow> dev_wf e \<longrightarrow> dev_wf (snd re)"
    and s: "(if drv (eth_current e) then Some (0, set_dev_state ETH_STATE_ACTIVE e)
      else let e = eth_try_another False e in if eth_current e = c then Some (-1, e) else f drv c e) = Some re"
  then show "dev_wf e \<longrightarrow> dev_wf (snd re)"
    using IH [of drv c "eth_try_another False e" re] by (auto simp: Let_def dev_set_state dev_try_another split: if_splits)
qed

lemma dev_init: "eth_init drv e = Some (r, e') \<Longrightarrow> dev_wf e \<Longrightarrow> dev_wf e'"
  using dev_init_loop [of drv _ "sync_enetaddr e" r e'] by (auto simp: eth_init_def Let_def dev_sync split: if_splits)

lemma wf_halt: "net_wf n \<Longrightarrow> net_wf (eth_halt n)"
  using buf_wf_more [of "eth_halt n" n] by (simp add: net_wf_def dev_halt eth_more_keeps)

lemma wf_init: "eth_init drv n = Some (r, n') \<Longrightarrow> net_wf n \<Longrightarrow> net_wf n'"
  using buf_wf_more [of n' n] dev_init [of drv n r n'] eth_init_more [of drv n r n'] by (simp add: net_wf_def)

lemma wf_restart: "net_wf n \<Longrightarrow> net_wf (eth_restart drv n)"
  using wf_init [of drv n] by (auto simp: eth_restart_def split: option.split)

lemma wf_try_another: "net_wf n \<Longrightarrow> net_wf (eth_try_another fr n)"
  using buf_wf_more [of "eth_try_another fr n" n] by (simp add: net_wf_def dev_try_another eth_more_keeps)

lemma wf_set_current: "net_wf n \<Longrightarrow> net_wf (eth_set_current n)"
  using buf_wf_more [of "eth_set_current n" n] by (simp add: net_wf_def dev_set_current set_current_env)

lemma wf_env_set: "net_wf (env_set nm v n) = net_wf n"
  by (simp add: net_wf_def dev_wf_def buf_wf_def env_set_def)

lemma wf_send: "net_wf (eth_send p n) = net_wf n"
  by (simp add: net_wf_def dev_wf_def buf_wf_def eth_send_def)

lemma wf_timeout: "net_wf (NetSetTimeout iv f n) = net_wf n" "net_wf (NetSetHandler h n) = net_wf n"
  by (simp_all add: net_wf_def dev_wf_def buf_wf_def NetSetTimeout_def NetSetHandler_def)

lemma wf_again: "net_wf n \<Longrightarrow> net_wf (NetStartAgain drv n)"
proof -
  assume n: "net_wf n"
  have s: "net_wf (m\<lparr>NetState := s\<rparr>) = net_wf m" "net_wf (m\<lparr>NetTryCount := c\<rparr>) = net_wf m" "net_wf (m\<lparr>NetRestartWrap := b\<rparr>) = net_wf m"
    for m :: "'a net_scheme" and s c b by (simp_all add: net_wf_def dev_wf_def buf_wf_def)
  show ?thesis using n by (simp add: NetStartAgain_def Let_def s wf_timeout wf_halt wf_try_another wf_restart split: prod.split)
qed

lemma yields_put: "(\<And>b. length b = length buf \<Longrightarrow> yields (f b) Q) \<Longrightarrow> yields (Option.bind (put i xs buf) f) Q"
  by (rule yields_bind [where P = "\<lambda>b. length b = length buf"]) (simp_all add: yields_def put_def)

lemma yields_slice: "(\<And>b. length b = k \<Longrightarrow> yields (f b) Q) \<Longrightarrow> yields (Option.bind (slice i k buf) f) Q"
  by (rule yields_bind [where P = "\<lambda>b. length b = k"]) (simp_all add: yields_def slice_def)

lemmas yields_intros = yields_put yields_slice yields_Some yields_None yields_if yields_option yields_prod yields_let

lemma yields_NetSetEther:
  assumes "\<And>h b. length b = length buf \<Longrightarrow> yields (f h b) Q"
  shows "yields (Option.bind (NetSetEther n a prot buf) (\<lambda>(h, b). f h b)) Q"
proof (rule yields_bind [where P = "\<lambda>(h, b). length b = length buf"])
  show "yields (NetSetEther n a prot buf) (\<lambda>(h, b). length b = length buf)"
    unfolding NetSetEther_def by (intro yields_intros) simp_all
qed (auto simp: assms)

lemma yields_NetSetIP:
  assumes "\<And>b. length b = length buf \<Longrightarrow> yields (f b (n\<lparr>NetIPID := NetIPID n + 1\<rparr>)) Q"
  shows "yields (Option.bind (NetSetIP off dest dport sport len buf n) (\<lambda>(b, n). f b n)) Q"
proof (rule yields_bind [where P = "\<lambda>(b, m). length b = length buf \<and> m = n\<lparr>NetIPID := NetIPID n + 1\<rparr>"])
  show "yields (NetSetIP off dest dport sport len buf n) (\<lambda>(b, m). length b = length buf \<and> m = n\<lparr>NetIPID := NetIPID n + 1\<rparr>)"
    unfolding NetSetIP_def by (intro yields_bind [where P = "\<lambda>b. length b = length buf"] yields_if yields_Some) (auto simp: yields_def put_def bind_eq_Some_conv)
qed (auto simp: assms)

lemmas wf_defs = net_wf_def dev_wf_def buf_wf_def

lemma wf_fields [simp]:
  "net_wf (n\<lparr>NetIPID := x\<rparr>) = net_wf n" "net_wf (n\<lparr>udp_log := l\<rparr>) = net_wf n" "net_wf (n\<lparr>NetState := s\<rparr>) = net_wf n"
  "net_wf (n\<lparr>now := y\<rparr>) = net_wf n" "net_wf (n\<lparr>timeHandler := h\<rparr>) = net_wf n" "net_wf (n\<lparr>NetOurIP := a\<rparr>) = net_wf n"
  "net_wf (n\<lparr>NetServerIP := a\<rparr>) = net_wf n" "net_wf (n\<lparr>NetDevExists := b\<rparr>) = net_wf n" "net_wf (n\<lparr>NetRestarted := b\<rparr>) = net_wf n"
  "net_wf (n\<lparr>NetArpWaitReplyIP := a\<rparr>) = net_wf n" "net_wf (n\<lparr>NetArpWaitTry := i\<rparr>) = net_wf n" "net_wf (n\<lparr>NetArpWaitTimerStart := y\<rparr>) = net_wf n"
  "net_wf (n\<lparr>NetArpWaitPacketIP := a\<rparr>) = net_wf n" "net_wf (n\<lparr>NetArpWaitPacketMAC := e\<rparr>) = net_wf n" "net_wf (n\<lparr>NetArpWaitTxPacketSize := k\<rparr>) = net_wf n"
  "net_wf (n\<lparr>PingSeqNo := w\<rparr>) = net_wf n" "net_wf (n\<lparr>NetRxPacket := p\<rparr>) = net_wf n" "net_wf (n\<lparr>NetRxPacketLen := i\<rparr>) = net_wf n"
  "net_wf (n\<lparr>NetTryCount := a\<rparr>) = net_wf n" "net_wf (n\<lparr>NetRestartWrap := b\<rparr>) = net_wf n"
  by (simp_all add: wf_defs)

lemma wf_bufs:
  "net_wf n \<Longrightarrow> length p = 1536 \<Longrightarrow> net_wf (n\<lparr>NetTxPacket := p\<rparr>)" "net_wf n \<Longrightarrow> length p = 1536 \<Longrightarrow> net_wf (n\<lparr>NetArpWaitTxPacket := p\<rparr>)"
  "net_wf n \<Longrightarrow> length a = 6 \<Longrightarrow> net_wf (n\<lparr>NetServerEther := a\<rparr>)" "net_wf n \<Longrightarrow> length a = 6 \<Longrightarrow> net_wf (n\<lparr>NetOurEther := a\<rparr>)"
  "net_wf n \<Longrightarrow> length a = 6 \<Longrightarrow> net_wf (n\<lparr>ping_mac := a\<rparr>)" "net_wf n \<Longrightarrow> length a = 6 \<Longrightarrow> net_wf (ether_set e a n)"
  "net_wf n \<Longrightarrow> length (NetTxPacket n) = 1536" "net_wf n \<Longrightarrow> length (NetArpWaitTxPacket n) = 1536"
  "net_wf n \<Longrightarrow> length (ether_at e n) = 6"
  by (cases e; simp add: wf_defs ether_set_def ether_at_def)+

lemma wf_ArpRequest: "net_wf n \<Longrightarrow> yields (ArpRequest n) net_wf"
  unfolding ArpRequest_def by (intro yields_NetSetEther yields_intros) (simp add: wf_bufs wf_send)

lemma wf_arp_wait: "net_wf n \<Longrightarrow> length pkt = 1536 \<Longrightarrow> yields (arp_wait dest e pkt sz n) net_wf"
  unfolding arp_wait_def by (rule wf_ArpRequest) (simp add: wf_bufs)

lemma wf_NetSendUDPPacket:
  assumes "net_wf n"
  shows "yields (NetSendUDPPacket e dest dport sport len n) (\<lambda>(rc, n). net_wf n)"
  unfolding NetSendUDPPacket_unfold
  by (intro yields_NetSetEther yields_NetSetIP yields_bind [OF wf_arp_wait] yields_intros) (simp_all add: assms wf_bufs wf_send)

lemma wf_PingSend: "net_wf n \<Longrightarrow> yields (PingSend n) net_wf"
  unfolding PingSend_def
  by (intro yields_NetSetEther wf_arp_wait yields_intros yields_skip) (simp_all add: wf_bufs)

lemma wf_ArpTimeoutCheck: "net_wf n \<Longrightarrow> yields (ArpTimeoutCheck drv n) net_wf"
  unfolding ArpTimeoutCheck_def by (intro yields_intros wf_again wf_ArpRequest) simp_all

lemma wf_arp_request: "net_wf n \<Longrightarrow> yields (arp_request off pkt n) net_wf"
  unfolding arp_request_def by (intro yields_NetSetEther yields_intros) (simp add: wf_send)

lemma wf_arp_reply: "net_wf n \<Longrightarrow> yields (arp_reply off pkt n) net_wf"
  unfolding arp_reply_def by (intro yields_intros yields_skip) (simp_all add: wf_bufs wf_send)

lemma wf_receive_arp: "net_wf n \<Longrightarrow> yields (receive_arp off len pkt n) net_wf"
  unfolding receive_arp_def by (intro yields_intros yields_skip wf_arp_request wf_arp_reply) simp_all

lemma wf_receive_rarp: "net_wf n \<Longrightarrow> yields (receive_rarp off len pkt n) (\<lambda>(c, n). net_wf n)"
  unfolding receive_rarp_def by (intro yields_intros yields_skip) (simp_all add: wf_bufs)

lemma wf_echo_reply: "net_wf n \<Longrightarrow> yields (echo_reply off len pkt n) net_wf"
  unfolding echo_reply_def by (intro yields_intros yields_skip) (simp_all add: wf_send)

lemma wf_receive_ip: "net_wf n \<Longrightarrow> yields (receive_ip off len pkt n) (\<lambda>(c, n). net_wf n)"
  unfolding receive_ip_def by (intro yields_intros yields_bind [OF wf_echo_reply] yields_skip) simp_all

lemma wf_NetReceive: "net_wf n \<Longrightarrow> yields (NetReceive inpkt len n) (\<lambda>(c, n). net_wf n)"
  unfolding NetReceive_def receive_frame_def
  by (intro yields_bind [OF wf_receive_arp] wf_receive_rarp wf_receive_ip yields_intros yields_skip) simp_all

section \<open>The clients\<close>

lemma wf_tftp_fields [simp]:
  "net_wf (t\<lparr>TftpServerIP := a\<rparr>) = net_wf t" "net_wf (t\<lparr>TftpServerPort := a\<rparr>) = net_wf t" "net_wf (t\<lparr>TftpOurPort := a\<rparr>) = net_wf t"
  "net_wf (t\<lparr>TftpTimeoutCount := i\<rparr>) = net_wf t" "net_wf (t\<lparr>TftpTimeoutCountMax := i\<rparr>) = net_wf t" "net_wf (t\<lparr>TftpTimeoutMSecs := a\<rparr>) = net_wf t"
  "net_wf (t\<lparr>TftpBlock := a\<rparr>) = net_wf t" "net_wf (t\<lparr>TftpLastBlock := a\<rparr>) = net_wf t" "net_wf (t\<lparr>TftpBlockWrap := a\<rparr>) = net_wf t"
  "net_wf (t\<lparr>TftpBlockWrapOffset := a\<rparr>) = net_wf t" "net_wf (t\<lparr>TftpState := ts\<rparr>) = net_wf t" "net_wf (t\<lparr>TftpBlkSize := w\<rparr>) = net_wf t"
  "net_wf (t\<lparr>TftpBlkSizeOption := w\<rparr>) = net_wf t" "net_wf (t\<lparr>tftp_filename := s\<rparr>) = net_wf t" "net_wf (t\<lparr>BootFile := s\<rparr>) = net_wf t"
  "net_wf (t\<lparr>NetBootFileXferSize := a\<rparr>) = net_wf t" "net_wf (t\<lparr>tf_load_addr := a\<rparr>) = net_wf t" "net_wf (t\<lparr>ram := m\<rparr>) = net_wf t"
  by (simp_all add: wf_defs)

lemma wf_boot_fields [simp]:
  "net_wf (t\<lparr>NetBootFileSize := w\<rparr>) = net_wf t" "net_wf (t\<lparr>NetOurSubnetMask := a\<rparr>) = net_wf t" "net_wf (t\<lparr>NetOurGatewayIP := a\<rparr>) = net_wf t"
  "net_wf (t\<lparr>NetOurDNSIP := a\<rparr>) = net_wf t" "net_wf (t\<lparr>NetOurHostName := s\<rparr>) = net_wf t" "net_wf (t\<lparr>NetOurRootPath := s\<rparr>) = net_wf t"
  "net_wf (t\<lparr>NetOurNISDomain := s\<rparr>) = net_wf t" "net_wf (t\<lparr>BootpID := a\<rparr>) = net_wf t" "net_wf (t\<lparr>BootpTry := i\<rparr>) = net_wf t"
  "net_wf (t\<lparr>RarpTry := i\<rparr>) = net_wf t" "net_wf (t\<lparr>bd_ip_addr := a\<rparr>) = net_wf t" "net_wf (t\<lparr>net_env_id := i\<rparr>) = net_wf t"
  "net_wf (t\<lparr>NetOurVLAN := w\<rparr>) = net_wf t" "net_wf (t\<lparr>NetOurNativeVLAN := w\<rparr>) = net_wf t" "net_wf (t\<lparr>NetPingIP := a\<rparr>) = net_wf t"
  by (simp_all add: wf_defs)

lemma wf_TftpSend: "net_wf t \<Longrightarrow> yields (TftpSend t) net_wf"
  unfolding TftpSend_def
  by (intro yields_let yields_put yields_bind [OF wf_NetSendUDPPacket]) (auto simp: wf_bufs intro: yields_Some)

lemma wf_tftp_steps [simp]:
  "net_wf (count_block b t) = net_wf t" "net_wf (first_block src t) = net_wf t" "net_wf (store_data b d t) = net_wf t"
  by (simp_all add: count_block_def first_block_def store_data_def store_block_def wf_timeout Let_def)

lemma wf_handle_data: "net_wf t \<Longrightarrow> yields (handle_data drv src len buf t) net_wf"
  unfolding handle_data_def accept_data_def
  by (intro yields_let yields_if yields_Some yields_None yields_bind [OF wf_TftpSend] yields_skip) (simp_all add: wf_again yields_Some split: if_splits)

lemma wf_TftpHandler: "net_wf t \<Longrightarrow> yields (TftpHandler drv dest src len buf t) net_wf"
  unfolding TftpHandler_def handle_oack_def handle_error_def
  by (intro yields_let yields_if yields_Some wf_TftpSend wf_handle_data yields_skip) (simp_all add: wf_again wf_halt)

lemma wf_TftpTimeout: "net_wf t \<Longrightarrow> yields (TftpTimeout drv t) net_wf"
  unfolding TftpTimeout_def by (intro yields_let yields_if yields_Some wf_TftpSend) (simp_all add: wf_again wf_timeout)

lemma wf_TftpStart: "net_wf t \<Longrightarrow> yields (TftpStart t) net_wf"
proof -
  assume "net_wf t"
  then have "net_wf (tftp_prepare t)" unfolding tftp_prepare_def Let_def by (simp add: wf_bufs wf_timeout split: option.split)
  then show ?thesis unfolding TftpStart_def by (rule wf_TftpSend)
qed

lemma wf_autoload: "net_wf t \<Longrightarrow> yields (autoload t) net_wf"
  unfolding autoload_def by (intro yields_option yields_if yields_Some wf_TftpStart) simp_all

lemma wf_setenv [simp]: "net_wf (setenv_net nm v t) = net_wf t"
  by (simp add: setenv_net_def wf_env_set Let_def)

lemma wf_vendor_field: "net_wf t \<Longrightarrow> yields (BootpVendorFieldProcess pkt ext t) net_wf"
  unfolding BootpVendorFieldProcess_def by (intro yields_let yields_if yields_Some yields_skip) simp_all

lemma wf_vendor_loop: "net_wf t \<Longrightarrow> yields (vendor_loop pkt ext stop t) net_wf"
proof (induction pkt ext stop t rule: vendor_loop.induct)
  case (1 pkt ext stop t)
  have f: "yields (if b then BootpVendorFieldProcess pkt ext t else Some t) net_wf" for b
    using wf_vendor_field [OF 1(3)] 1(3) by (simp add: yields_Some)
  have ih: "yields (vendor_loop pkt (ext + unat sz + 2) stop u) net_wf"
    if "int ext < stop" "rd pkt ext = Some code" "code \<noteq> 0xff" "code \<noteq> 0" "rd pkt (ext + 1) = Some sz"
       "(if int (ext + unat sz + 2) \<le> stop then BootpVendorFieldProcess pkt ext t else Some t) = Some u" for code sz u
    using 1(2) [OF that] f that(6) unfolding yields_def by blast
  show ?case by (subst vendor_loop.simps) (intro yields_if yields_run yields_Some; blast intro: 1(1,3) ih)
qed

lemma wf_BootpHandler: "net_wf t \<Longrightarrow> yields (BootpHandler pkt dest src len t) net_wf"
proof -
  assume t: "net_wf t"
  have c: "yields (BootpCopyNetParams pkt t) net_wf"
    unfolding BootpCopyNetParams_def Let_def by (intro yields_slice yields_skip yields_Some) (simp add: t wf_bufs)
  have v: "yields (if b then BootpVendorProcess pkt ext sz u else Some u) net_wf" if "net_wf u" for b ext sz u
    using that wf_vendor_loop [OF that] by (simp add: BootpVendorProcess_def yields_Some)
  show ?thesis unfolding BootpHandler_def
    by (intro yields_skip yields_if yields_Some yields_bind [OF c] yields_bind [OF v] wf_autoload) (simp_all add: t)
qed

lemma wf_BootpRequest: "net_wf t \<Longrightarrow> yields (BootpRequest t) net_wf"
  unfolding BootpRequest_def
  by (intro yields_let yields_put yields_NetSetEther yields_NetSetIP yields_Some) (simp add: wf_bufs wf_send wf_timeout)

lemma wf_RarpRequest: "net_wf t \<Longrightarrow> yields (RarpRequest t) net_wf"
  unfolding RarpRequest_def
  by (intro yields_let yields_put yields_NetSetEther yields_Some) (simp add: wf_bufs wf_send wf_timeout)

section \<open>The loop\<close>

lemma wf_handle_packet: "net_wf t \<Longrightarrow> yields (handle_packet drv call t) net_wf"
  by (auto simp: handle_packet_def PingHandler_def RarpHandler_def wf_TftpHandler wf_BootpHandler wf_autoload Let_def
      split: prod.split rxhand.split intro!: yields_Some yields_skip)

lemma wf_run_timeout: "net_wf t \<Longrightarrow> yields (run_timeout drv x t) net_wf"
  by (auto simp: run_timeout_def startAgainTimeout_def PingTimeout_def BootpTimeout_def RarpTimeout_def wf_halt wf_again wf_timeout
      split: thand.split intro!: yields_Some wf_TftpTimeout wf_BootpRequest wf_RarpRequest)

interpretation rx: stepwise net_wf "frame_step drv" for drv
proof
  fix t :: tftp and f :: "u32 \<times> u8 list \<times> int"
  assume t: "net_wf t"
  obtain time inpkt len where f: "f = (time, inpkt, len)" by (cases f)
  have "yields (NetReceive inpkt len (t\<lparr>now := time\<rparr>)) (\<lambda>(c, t). net_wf t)" using t by (intro wf_NetReceive) simp
  then show "yields (frame_step drv f t) net_wf"
    unfolding frame_step_def deliver_frame_def f split_conv
    by (rule yields_bind) (auto intro!: yields_option yields_Some wf_handle_packet)
qed

lemma wf_eth_rx: "net_wf t \<Longrightarrow> yields (eth_rx drv fs t) net_wf"
  unfolding eth_rx_def by (rule rx.steps_ok)

lemma wf_start_protocol: "net_wf t \<Longrightarrow> yields (start_protocol proto t) net_wf"
  unfolding start_protocol_def
  by (auto split: proto_t.split simp: PingStart_def wf_timeout intro!: wf_TftpStart wf_BootpRequest wf_RarpRequest wf_PingSend yields_Some)

lemma wf_NetInitLoop: "net_wf t \<Longrightarrow> net_wf (NetInitLoop t)"
  by (simp add: NetInitLoop_def)

lemma wf_prereq: "net_wf t \<Longrightarrow> net_wf (snd (net_check_prereq drv proto t))"
  by (auto simp: net_check_prereq_def check_ether_def wf_again)

lemma wf_net_restart:
  assumes "net_wf t"
  shows "yields (net_restart drv proto t) (\<lambda>(r, t). net_wf t)"
proof -
  have d: "yields (eth_get_dev t) (\<lambda>d. length (enetaddr d) = 6)"
    using assms by (auto simp: yields_def eth_get_dev_def wf_defs split: if_splits)
  have p: "net_wf (snd (net_check_prereq drv proto (NetInitLoop (t\<lparr>NetOurEther := enetaddr d, NetState := NETLOOP_CONTINUE\<rparr>))))"
    if "length (enetaddr d) = 6" for d :: eth_device
    using that assms by (intro wf_prereq wf_NetInitLoop) (simp add: wf_bufs)
  show ?thesis unfolding net_restart_def
    by (rule yields_bind [OF d], intro yields_let yields_prod yields_if yields_Some yields_bind [OF wf_start_protocol])
      (use p in \<open>force intro: wf_halt\<close>)+
qed

lemma wf_net_round:
  assumes "net_wf t"
  shows "yields (net_round drv inp t) (\<lambda>(e, t). net_wf t)"
proof -
  have c: "yields (check_timer drv t) net_wf" if "net_wf t" for t
    unfolding check_timer_def using that by (intro yields_option yields_if yields_Some wf_run_timeout) simp_all
  show ?thesis unfolding net_round_def
    by (intro yields_bind [OF wf_eth_rx] yields_if yields_Some yields_bind [OF wf_ArpTimeoutCheck] yields_bind [OF c])
      (use assms in \<open>auto simp: loop_success_def Let_def intro: wf_halt split: net_state.split\<close>)
qed

lemma wf_net_rounds: "net_wf t \<Longrightarrow> yields (net_rounds drv proto inps t) (\<lambda>(r, t). net_wf t)"
proof (induction inps arbitrary: t)
  case Nil
  then show ?case by (simp add: yields_def)
next
  case (Cons inp inps)
  have r: "yields (case r of None \<Rightarrow> net_rounds drv proto inps t | Some r \<Rightarrow> Some (Some r, t)) (\<lambda>(r, t). net_wf t)" if "net_wf t" for r t
    using Cons.IH [OF that] that by (intro yields_option yields_Some) simp_all
  show ?case unfolding net_rounds.simps
  proof (rule yields_bind [OF wf_net_round [OF Cons.prems]], clarify)
    fix e and u :: tftp
    assume u: "net_wf u"
    show "yields (case e of Again \<Rightarrow> net_rounds drv proto inps u | Restart \<Rightarrow> net_restart drv proto u \<bind> (\<lambda>(r, t).
        case r of None \<Rightarrow> net_rounds drv proto inps t | Some r \<Rightarrow> Some (Some r, t)) | Return r \<Rightarrow> Some (Some r, u)) (\<lambda>(r, t). net_wf t)"
      using Cons.IH [OF u] u r by (auto intro!: yields_bind [OF wf_net_restart [OF u]] yields_Some split: round_end.split)
  qed
qed



end
