(* ===== verification/BootpSpec.thy ===== *)
theory BootpSpec
  imports NetLoopSpec
begin

text \<open>
  What a BOOTP reply does: the extensions of net/bootp.c as a list of tagged values, the reply as a message, and
  the configuration the client ends up with.
\<close>

section \<open>File names\<close>

lemma copy_loop_bounds:
  "length (copy_filename_loop n s) \<le> nat (n - 1)" "CHR 0x22 \<notin> set (copy_filename_loop n s)"
  by (induction n s rule: copy_filename_loop.induct) auto

lemma copy_loop_id: "CHR 0x22 \<notin> set s \<Longrightarrow> int (length s) < n \<Longrightarrow> copy_filename_loop n s = s"
  by (induction n s rule: copy_filename_loop.induct) auto

lemma copy_filename_bounds: "0 < n \<Longrightarrow> int (length (copy_filename s n)) < n" "CHR 0x22 \<notin> set (copy_filename s n)"
  using copy_loop_bounds(1) [of n s] copy_loop_bounds(1) [of "n - 1" "tl s"] copy_loop_bounds(2) by (auto simp: copy_filename_def)

lemma copy_filename_twice [simp]: "0 < n \<Longrightarrow> copy_filename (copy_filename s n) n = copy_filename s n"
proof -
  assume n: "0 < n"
  let ?f = "copy_filename s n"
  have "peek ?f 0 \<noteq> CHR 0x22" using copy_filename_bounds(2) [of s n] by (cases ?f) (auto simp: peek_def)
  then show ?thesis using copy_loop_id [OF copy_filename_bounds(2) copy_filename_bounds(1) [OF n]] by (subst copy_filename_def) simp
qed

section \<open>Addresses as text\<close>

lemma ip_byte: "unat (drop_bit n x AND 0xff :: u32) < 256"
  by (simp add: and_0xff_mod)

lemma ip4: "(4 :: nat) = Suc (Suc (Suc (Suc 0)))" by simp

lemma ip_and: "of_nat (unat (y AND 0xff :: u32)) AND 0xff = y AND 0xff" by (simp add: and.assoc)

lemma ip_to_string_text:
  "ip_to_string x = rev (radix_rev 10 False (unat (drop_bit 24 x AND 0xff))) @ ''.'' @ rev (radix_rev 10 False (unat (drop_bit 16 x AND 0xff))) @ ''.'' @
     rev (radix_rev 10 False (unat (drop_bit 8 x AND 0xff))) @ ''.'' @ rev (radix_rev 10 False (unat (x AND 0xff)))"
  using ip_byte [of 24 x] ip_byte [of 16 x] ip_byte [of 8 x] ip_byte [of 0 x]
  by (simp add: ip_to_string_def sprintf_text_def sprintf_mem_def sprintf_def vsprintf_def vsprintf_loop_d vsprintf_loop_char) (simp add: vsprintf_loop.simps)

lemma ip_roundtrip: "string_to_ip_loop 4 0 (ip_to_string x) = x"
proof -
  have b: "unat (y AND 0xff :: u32) < 2 ^ 31" for y using ip_byte [of 0 y] by simp
  have "string_to_ip_loop 4 0 (ip_to_string x) = push_bit 8 (push_bit 8 (push_bit 8 (drop_bit 24 x AND 0xff) OR (drop_bit 16 x AND 0xff)) OR (drop_bit 8 x AND 0xff)) OR (x AND 0xff)"
    unfolding ip_to_string_text ip4 by (simp only: string_to_ip_loop.simps strtoul_stop) (simp add: strtoul_stop strtoul_stop [where r = "[]", simplified] ip_and)
  also have "\<dots> = x" 
  proof (rule bit_word_eqI)
    fix n assume "n < LENGTH(32)"
    then show "bit (push_bit 8 (push_bit 8 (push_bit 8 (drop_bit 24 x AND 0xff) OR (drop_bit 16 x AND 0xff)) OR (drop_bit 8 x AND 0xff)) OR (x AND 0xff)) n = bit x n"
      by (cases n rule: lane_cases) (auto simp: bit_simps word_bits)
  qed
  finally show ?thesis .
qed

section \<open>Extensions\<close>

type_synonym boot_option = "u8 \<times> u8 list"

definition option_bytes :: "boot_option list \<Rightarrow> u8 list" where
  "option_bytes opts = concat (map (\<lambda>(c, d). c # of_nat (length d) # d) opts)"

text \<open>The extensions with an IP address need four bytes; the code does not look at their length.\<close>

definition option_ok :: "boot_option \<Rightarrow> bool" where
  "option_ok opt \<longleftrightarrow> (case opt of (c, d) \<Rightarrow> c \<noteq> 0 \<and> c \<noteq> 0xff \<and> length d < 256 \<and> (c \<in> {1, 3, 6} \<longrightarrow> 4 \<le> length d))"

definition ip_value :: "u8 list \<Rightarrow> u32" where
  "ip_value d = load_be32 (d ! 0) (d ! 1) (d ! 2) (d ! 3)"

definition text_value :: "nat \<Rightarrow> u8 list \<Rightarrow> string" where
  "text_value arr d = map char_of_byte (takeWhile (\<lambda>b. b \<noteq> 0) (take (arr - 1) d))"

definition size_value :: "boot_option \<Rightarrow> u16" where
  "size_value opt = (case opt of (c, d) \<Rightarrow>
     if c = 13 \<and> length d = 2 then ucast (push_bit 8 (ucast (d ! 0)) OR ucast (d ! 1) :: u32)
     else if c = 13 \<and> length d = 4 then ucast (ip_value d) else 0)"

definition take_option :: "boot_option \<Rightarrow> tftp \<Rightarrow> tftp" where
  "take_option opt t = (case opt of (c, d) \<Rightarrow>
     let t = t\<lparr>NetBootFileSize := size_value (c, d)\<rparr>
     in if c = 1 \<and> NetOurSubnetMask t = 0 then t\<lparr>NetOurSubnetMask := ip_value d\<rparr>
        else if c = 3 \<and> NetOurGatewayIP t = 0 then t\<lparr>NetOurGatewayIP := ip_value d\<rparr>
        else if c = 6 \<and> NetOurDNSIP t = 0 then t\<lparr>NetOurDNSIP := ip_value d\<rparr>
        else if c = 12 \<and> NetOurHostName t = [] then t\<lparr>NetOurHostName := text_value 32 d\<rparr>
        else if c = 17 \<and> NetOurRootPath t = [] then t\<lparr>NetOurRootPath := text_value 64 d\<rparr>
        else if c = 40 \<and> NetOurNISDomain t = [] then t\<lparr>NetOurNISDomain := text_value 32 d\<rparr>
        else t)"

lemma read_option:
  assumes "length pre = i"
  shows "rd (pre @ c # l # d @ post) i = Some c" "rd (pre @ c # l # d @ post) (Suc i) = Some l"
    "4 \<le> length d \<Longrightarrow> NetReadIP (pre @ c # l # d @ post) (Suc (Suc i)) = Some (ip_value d)"
    "length d = 2 \<Longrightarrow> get16 (pre @ c # l # d @ post) (Suc (Suc i)) = Some (push_bit 8 (ucast (d ! 0)) OR ucast (d ! 1))"
    "0 < arr \<Longrightarrow> vendor_text (pre @ c # l # d @ post) i arr (length d) = Some (text_value arr d)"
  using assms by (auto simp: rd_def NetReadIP_def get16_def ip_value_def nth_append vendor_text_def slice_def truncate_sz_def text_value_def min_def)

lemma field_option:
  assumes "option_ok (c, d)" "length pre = i"
  shows "BootpVendorFieldProcess (pre @ c # of_nat (length d) # d @ post) i t = Some (take_option (c, d) t)"
proof -
  have u: "unat (of_nat (length d) :: u8) = length d" using assms(1) by (simp add: option_ok_def unat_of_nat)
  then have n: "(of_nat (length d) :: u8) = 2 \<longleftrightarrow> length d = 2" "(of_nat (length d) :: u8) = 4 \<longleftrightarrow> length d = 4"
    by (simp_all add: word_unat_eq_iff)
  define p where "p = pre @ c # of_nat (length d) # d @ post"
  note r = read_option [OF assms(2), where c = c and l = "of_nat (length d)" and d = d and post = post, folded p_def]
  have l: "c \<in> {1, 3, 6} \<Longrightarrow> 4 \<le> length d" using assms(1) by (auto simp: option_ok_def)
  consider "c = 1" | "c = 3" | "c = 6" | "c = 12" | "c = 13" | "c = 17" | "c = 40" | "c \<notin> {1, 3, 6, 12, 13, 17, 40}" by auto
  then have "BootpVendorFieldProcess p i t = Some (take_option (c, d) t)"
    unfolding BootpVendorFieldProcess_def take_option_def size_value_def Suc_eq_plus1 [symmetric] Let_def case_prod_conv
    by cases (simp_all add: r(1,2) r(3) [OF l] r(3-5) u n)
  then show ?thesis by (simp add: p_def)
qed

lemma vendor_options:
  assumes "list_all option_ok opts" "int (length pre + length (option_bytes opts)) < stop"
  shows "vendor_loop (pre @ option_bytes opts @ 0xff # post) (length pre) stop t = Some (fold take_option opts t)"
  using assms
proof (induction opts arbitrary: pre t)
  case Nil
  then show ?case by (subst vendor_loop.simps) (simp add: option_bytes_def rd_def nth_append)
next
  case (Cons opt opts)
  obtain c d where o: "opt = (c, d)" by (cases opt)
  let ?r = "option_bytes opts @ 0xff # post" and ?h = "c # of_nat (length d) # d"
  have ok: "option_ok (c, d)" "c \<noteq> 0" "c \<noteq> 0xff" "length d < 256" using Cons.prems(1) by (simp_all add: o option_ok_def)
  have u: "unat (of_nat (length d) :: u8) = length d" using ok(4) by (simp add: unat_of_nat)
  then have ui: "uint (of_nat (length d) :: u8) = int (length d)" by (metis uint_nat)
  have s: "pre @ option_bytes (opt # opts) @ 0xff # post = pre @ c # of_nat (length d) # d @ ?r" by (simp add: option_bytes_def o)
  have b: "int (length pre + length d + 2) \<le> stop" "int (length pre) < stop" using Cons.prems(2) by (simp_all add: option_bytes_def o)
  have "vendor_loop (pre @ c # of_nat (length d) # d @ ?r) (length pre) stop t =
      vendor_loop ((pre @ ?h) @ ?r) (length (pre @ ?h)) stop (take_option (c, d) t)"
    using b ok(2,3) u ui field_option [OF ok(1) refl, of pre ?r t]
    by (subst vendor_loop.simps) (simp add: read_option(1,2) [OF refl] add.commute add.left_commute)
  also have "\<dots> = Some (fold take_option opts (take_option (c, d) t))"
    using Cons.prems by (intro Cons.IH) (simp_all add: option_bytes_def o)
  finally show ?case unfolding s by (simp add: o)
qed

text \<open>Every parameter takes the first value that sets it, the present one first.\<close>

definition first_set :: "'a \<Rightarrow> 'a list \<Rightarrow> 'a" where
  "first_set z vs = (case filter (\<lambda>v. v \<noteq> z) vs of [] \<Rightarrow> z | v # _ \<Rightarrow> v)"

definition option_values :: "u8 \<Rightarrow> (u8 list \<Rightarrow> 'a) \<Rightarrow> boot_option list \<Rightarrow> 'a list" where
  "option_values c f opts = map (f \<circ> snd) (filter (\<lambda>opt. fst opt = c) opts)"

lemma first_set_simps:
  "first_set z [z] = z" "v \<noteq> z \<Longrightarrow> first_set z (v # vs) = v" "first_set z (z # vs) = first_set z vs"
  by (simp_all add: first_set_def)

lemma option_values_Cons: "option_values c f ((k, d) # opts) = (if k = c then f d # option_values c f opts else option_values c f opts)"
  by (simp add: option_values_def)

text \<open>Folding a step that sets a field once gives the first value.\<close>

lemma fold_first_set:
  assumes "\<And>k d t. get (step (k, d) t) = (if k = c \<and> get t = z then f d else get t)"
  shows "get (fold step opts t) = first_set z (get t # option_values c f opts)"
proof (induction opts arbitrary: t)
  case Nil
  show ?case by (simp add: option_values_def first_set_def)
next
  case (Cons opt opts)
  obtain k d where o: "opt = (k, d)" by (cases opt)
  show ?case using assms [of k d t] by (cases "get t = z") (auto simp: Cons.IH o option_values_Cons first_set_simps)
qed

lemma take_options_set:
  "NetOurSubnetMask (fold take_option opts t) = first_set 0 (NetOurSubnetMask t # option_values 1 ip_value opts)"
  "NetOurGatewayIP (fold take_option opts t) = first_set 0 (NetOurGatewayIP t # option_values 3 ip_value opts)"
  "NetOurDNSIP (fold take_option opts t) = first_set 0 (NetOurDNSIP t # option_values 6 ip_value opts)"
  "NetOurHostName (fold take_option opts t) = first_set [] (NetOurHostName t # option_values 12 (text_value 32) opts)"
  "NetOurRootPath (fold take_option opts t) = first_set [] (NetOurRootPath t # option_values 17 (text_value 64) opts)"
  "NetOurNISDomain (fold take_option opts t) = first_set [] (NetOurNISDomain t # option_values 40 (text_value 32) opts)"
  by (rule fold_first_set; simp add: take_option_def Let_def)+

lemma take_options_keep:
  "NetOurIP (fold take_option opts t) = NetOurIP t" "NetServerIP (fold take_option opts t) = NetServerIP t"
  "NetServerEther (fold take_option opts t) = NetServerEther t" "net.more (fold take_option opts t) = net.more t"
  "environment (fold take_option opts t) = environment t" "NetArpWaitPacketIP (fold take_option opts t) = NetArpWaitPacketIP t"
  "NetBootFileXferSize (fold take_option opts t) = NetBootFileXferSize t"
  by (induction opts arbitrary: t) (auto simp: take_option_def Let_def)

section \<open>Replies\<close>

text \<open>A reply with transaction \<open>xid\<close>: the address for the client, the address of the server (or 0), the file name in
  its 128 bytes, and extensions.\<close>

definition bootp_message :: "u32 \<Rightarrow> u32 \<Rightarrow> u32 \<Rightarrow> u8 list \<Rightarrow> boot_option list \<Rightarrow> u8 list \<Rightarrow> bool" where
  "bootp_message xid yiaddr siaddr file opts msg \<longleftrightarrow>
     (\<exists>hops secs rest pad. msg = [2, 1, 6, hops] @ store_be32 xid @ secs @ store_be32 yiaddr @ store_be32 siaddr @ rest @ file @
        store_be32 0x63825363 @ option_bytes opts @ 0xff # pad \<and> length secs = 8 \<and> length rest = 84) \<and>
     length file = 128 \<and> 0 \<in> set file \<and> list_all option_ok opts \<and> length msg \<le> 1468"

definition boot_name :: "u8 list \<Rightarrow> string" where
  "boot_name file = map char_of_byte (takeWhile (\<lambda>b. b \<noteq> 0) file)"

lemma message_fields:
  assumes "bootp_message xid yiaddr siaddr file opts msg"
  shows "rd (msg @ cs) 0 = Some 2" "rd (msg @ cs) 1 = Some 1" "rd (msg @ cs) 2 = Some 6" "NetReadIP (msg @ cs) 4 = Some xid"
    "NetReadIP (msg @ cs) 16 = Some yiaddr" "NetReadIP (msg @ cs) 20 = Some siaddr" "NetReadIP (msg @ cs) 236 = Some 0x63825363"
    "c_string (msg @ cs) 108 = Some (boot_name file)"
proof -
  obtain hops secs rest pad where m: "msg = [2, 1, 6, hops] @ store_be32 xid @ secs @ store_be32 yiaddr @ store_be32 siaddr @ rest @ file @
      store_be32 0x63825363 @ option_bytes opts @ 0xff # pad" "length secs = 8" "length rest = 84" "length file = 128" "0 \<in> set file"
    using assms by (auto simp: bootp_message_def)
  let ?e = "store_be32 0x63825363 @ option_bytes opts @ 0xff # pad @ cs"
  have s: "NetReadIP (as @ store_be32 w @ bs) i = Some w" if "length as = i" for as w bs i using that by (rule NetReadIP_store)
  show "rd (msg @ cs) 0 = Some 2" "rd (msg @ cs) 1 = Some 1" "rd (msg @ cs) 2 = Some 6" by (simp_all add: m(1) rd_def nth_Cons')
  show "NetReadIP (msg @ cs) 4 = Some xid"
    using s [of "[2, 1, 6, hops]" 4 xid "secs @ store_be32 yiaddr @ store_be32 siaddr @ rest @ file @ ?e"] by (simp add: m(1))
  show "NetReadIP (msg @ cs) 16 = Some yiaddr"
    using s [of "[2, 1, 6, hops] @ store_be32 xid @ secs" 16 yiaddr "store_be32 siaddr @ rest @ file @ ?e"] by (simp add: m(1,2))
  show "NetReadIP (msg @ cs) 20 = Some siaddr"
    using s [of "[2, 1, 6, hops] @ store_be32 xid @ secs @ store_be32 yiaddr" 20 siaddr "rest @ file @ ?e"] by (simp add: m(1,2))
  show "NetReadIP (msg @ cs) 236 = Some 0x63825363"
    using s [of "[2, 1, 6, hops] @ store_be32 xid @ secs @ store_be32 yiaddr @ store_be32 siaddr @ rest @ file" 236 "0x63825363"
      "option_bytes opts @ 0xff # pad @ cs"] by (simp add: m(1-4))
  have d: "drop 108 (msg @ cs) = file @ ?e" by (simp add: m(1-3))
  have "takeWhile (\<lambda>b. b \<noteq> 0) (file @ ?e) = takeWhile (\<lambda>b. b \<noteq> 0) file" using m(5) by (simp add: takeWhile_append1)
  then show "c_string (msg @ cs) 108 = Some (boot_name file)" using m(5) d by (simp add: c_string_def string_at_def boot_name_def)
qed

lemma message_shape:
  assumes "bootp_message xid yiaddr siaddr file opts msg"
  shows "\<exists>pre pad. msg = pre @ option_bytes opts @ 0xff # pad \<and> length pre = 240"
proof -
  obtain hops secs rest pad where "msg = ([2, 1, 6, hops] @ store_be32 xid @ secs @ store_be32 yiaddr @ store_be32 siaddr @ rest @ file @
      store_be32 0x63825363) @ option_bytes opts @ 0xff # pad" "length secs = 8" "length rest = 84" "length file = 128"
    using assms by (auto simp: bootp_message_def)
  then show ?thesis by (intro exI conjI) (assumption, simp)
qed

lemma copy_params:
  assumes "bootp_message xid yiaddr siaddr file opts msg" "12 \<le> length (NetRxPacket t)"
  shows "\<exists>u. BootpCopyNetParams (msg @ cs) t = Some u \<and> NetOurIP u = yiaddr \<and> NetServerIP u = (if siaddr = 0 then NetServerIP t else siaddr) \<and>
    NetServerEther u = take 6 (drop 6 (NetRxPacket t)) \<and> (boot_name file \<noteq> [] \<longrightarrow> BootFile u = copy_filename (boot_name file) 128) \<and>
    (\<forall>n. n \<noteq> ''bootfile'' \<longrightarrow> environment u n = environment t n) \<and>
    NetOurSubnetMask u = NetOurSubnetMask t \<and> NetOurGatewayIP u = NetOurGatewayIP t \<and> NetOurDNSIP u = NetOurDNSIP t \<and>
    NetOurHostName u = NetOurHostName t \<and> NetOurRootPath u = NetOurRootPath t \<and> NetOurNISDomain u = NetOurNISDomain t \<and>
    NetArpWaitPacketIP u = NetArpWaitPacketIP t \<and> NetBootFileXferSize u = NetBootFileXferSize t"
  using message_fields(5,6,8) [OF assms(1), of cs] assms(2)
  by (simp add: BootpCopyNetParams_def slice_def setenv_net_def env_set_def Let_def)

text \<open>The parameters after a reply. The address, the server and the file name come from the reply; each of subnet mask,
  gateway, name server, host name, root path and NIS domain keeps its value, or takes the first one the
  extensions give.\<close>

definition boot_params :: "tftp \<Rightarrow> u32 \<Rightarrow> u32 \<Rightarrow> u8 list \<Rightarrow> boot_option list \<Rightarrow> tftp \<Rightarrow> bool" where
  "boot_params t yiaddr siaddr file opts u \<longleftrightarrow> NetOurIP u = yiaddr \<and> NetServerIP u = (if siaddr = 0 then NetServerIP t else siaddr) \<and>
    (boot_name file \<noteq> [] \<longrightarrow> BootFile u = copy_filename (boot_name file) 128) \<and>
    NetOurSubnetMask u = first_set 0 (NetOurSubnetMask t # option_values 1 ip_value opts) \<and>
    NetOurGatewayIP u = first_set 0 (NetOurGatewayIP t # option_values 3 ip_value opts) \<and>
    NetOurDNSIP u = first_set 0 (NetOurDNSIP t # option_values 6 ip_value opts) \<and>
    NetOurHostName u = first_set [] (NetOurHostName t # option_values 12 (text_value 32) opts) \<and>
    NetOurRootPath u = first_set [] (NetOurRootPath t # option_values 17 (text_value 64) opts) \<and>
    NetOurNISDomain u = first_set [] (NetOurNISDomain t # option_values 40 (text_value 32) opts)"

text \<open>A reply to the request: the parameters are set, the timer is stopped, and the client goes on as \<open>autoload\<close> says.\<close>

lemma handle_reply:
  assumes "bootp_message (BootpID t) yiaddr siaddr file opts msg" "12 \<le> length (NetRxPacket t)"
  shows "\<exists>u. BootpHandler (msg @ cs) 68 67 (of_nat (length msg)) t = autoload u \<and> boot_params t yiaddr siaddr file opts u \<and>
    NetServerEther u = take 6 (drop 6 (NetRxPacket t)) \<and> (\<forall>n. n \<noteq> ''bootfile'' \<longrightarrow> environment u n = environment t n) \<and> timeHandler u = None \<and>
    NetArpWaitPacketIP u = NetArpWaitPacketIP t \<and> NetBootFileXferSize u = NetBootFileXferSize t"
proof -
  note f = message_fields [OF assms(1), of cs]
  have l: "length msg \<le> 1468" "list_all option_ok opts" using assms(1) by (simp_all add: bootp_message_def)
  have s: "unat (of_nat (length msg) :: u32) = length msg" "sint (of_nat (length msg) :: u32) = int (length msg)"
    using l(1) by (simp_all add: unat_of_nat sint_small)
  obtain pre pad where m: "msg = pre @ option_bytes opts @ 0xff # pad" "length pre = 240" using message_shape [OF assms(1)] by blast
  then have "240 \<le> length msg" by simp
  then have c: "BootpCheckPkt (msg @ cs) 68 67 (of_nat (length msg)) t = Some 0"
    unfolding BootpCheckPkt_def using f(1-4) s(1) by simp
  obtain u where u: "BootpCopyNetParams (msg @ cs) t = Some u" "NetOurIP u = yiaddr" "NetServerIP u = (if siaddr = 0 then NetServerIP t else siaddr)"
      "NetServerEther u = take 6 (drop 6 (NetRxPacket t))" "boot_name file \<noteq> [] \<longrightarrow> BootFile u = copy_filename (boot_name file) 128"
      "\<forall>n. n \<noteq> ''bootfile'' \<longrightarrow> environment u n = environment t n"
      "NetOurSubnetMask u = NetOurSubnetMask t" "NetOurGatewayIP u = NetOurGatewayIP t" "NetOurDNSIP u = NetOurDNSIP t"
      "NetOurHostName u = NetOurHostName t" "NetOurRootPath u = NetOurRootPath t" "NetOurNISDomain u = NetOurNISDomain t"
      "NetArpWaitPacketIP u = NetArpWaitPacketIP t" "NetBootFileXferSize u = NetBootFileXferSize t"
    using copy_params [OF assms, of cs] by blast
  have v: "BootpVendorProcess (msg @ cs) 240 (int (length msg)) u = Some (fold take_option opts u)"
    using vendor_options [OF l(2), of pre "240 + int (length msg)" "pad @ cs" u] m by (simp add: BootpVendorProcess_def)
  have "BootpHandler (msg @ cs) 68 67 (of_nat (length msg)) t = autoload (fold take_option opts u\<lparr>timeHandler := None\<rparr>)"
    using c f(7) s(2) u(1) v by (simp add: BootpHandler_def)
  moreover have "BootFile (fold take_option opts u) = BootFile u" by (rule more_BootFile) (rule take_options_keep)
  ultimately show ?thesis using u(2-)
    by (intro exI [of _ "fold take_option opts u\<lparr>timeHandler := None\<rparr>"]) (simp add: boot_params_def take_options_set take_options_keep)
qed

section \<open>Requests\<close>

lemma put_gap:
  assumes "length a + g = i" "g + length xs \<le> m"
  shows "put i xs (a @ replicate m 0 @ c) = Some (a @ replicate g 0 @ xs @ replicate (m - g - length xs) 0 @ c)"
proof -
  have "replicate m (0 :: 'a) = replicate g 0 @ replicate (length xs) 0 @ replicate (m - g - length xs) 0"
    using assms(2) by (simp add: replicate_add [symmetric])
  then show ?thesis using put_append [of "a @ replicate g 0" i xs "replicate (length xs) 0 @ replicate (m - g - length xs) 0 @ c"] assms(1) by simp
qed

text \<open>The message of a request.\<close>

definition request_message :: "tftp \<Rightarrow> u8 list" where
  "request_message t = [1, 1, 6, 0] @ store_be32 (bootp_id t) @ be16 (now t div 1000) @ replicate 18 0 @ NetOurEther t @ replicate 74 0 @
     cstr (copy_filename (BootFile t) 128) @ replicate (128 - length (cstr (copy_filename (BootFile t) 128))) 0 @ [99, 130, 83, 99, 255]"

lemma cstr_name: "length (cstr (copy_filename s 128)) \<le> 128"
  using copy_filename_bounds(1) [of 128 s] by (simp add: cstr_def bytes_of_def)

lemma bootp_request_length: "length (NetOurEther t) = 6 \<Longrightarrow> length (request_message t) = 241"
  using cstr_name [of "BootFile t"] by (simp add: request_message_def)

lemma request_puts:
  assumes "length P = bp" "length e = 6" "length f \<le> 128" "300 \<le> m"
  shows "do { pkt \<leftarrow> put bp [1, 1, 6, 0] (P @ replicate m 0 @ c); pkt \<leftarrow> put (bp + 8) (be16 s) pkt; pkt \<leftarrow> put (bp + 12) (replicate 16 0) pkt;
      pkt \<leftarrow> put (bp + 28) e pkt; pkt \<leftarrow> put (bp + 108) f pkt; pkt \<leftarrow> put (bp + 236) BootpExtended pkt; put (bp + 4) (store_be32 x) pkt } =
    Some (P @ [1, 1, 6, 0] @ store_be32 x @ be16 s @ replicate 18 0 @ e @ replicate 74 0 @ f @ replicate (128 - length f) 0 @ [99, 130, 83, 99, 255] @
      replicate (m - 241) 0 @ c)"
proof -
  have r18: "replicate 18 (0 :: u8) = replicate 2 0 @ replicate 16 0" by (simp flip: replicate_add)
  have "put bp [1, 1, 6, 0] (P @ replicate m 0 @ c) = Some (P @ [1, 1, 6, 0] @ replicate (m - 4) 0 @ c)"
    using put_gap [of P 0 bp "[1, 1, 6, 0]" m c] assms by simp
  moreover have "put (bp + 8) (be16 s) (P @ [1, 1, 6, 0] @ replicate (m - 4) 0 @ c) = Some (P @ [1, 1, 6, 0] @ replicate 4 0 @ be16 s @ replicate (m - 10) 0 @ c)"
    using put_gap [of "P @ [1, 1, 6, 0]" 4 "bp + 8" "be16 s" "m - 4" c] assms by simp
  moreover have "put (bp + 12) (replicate 16 0) (P @ [1, 1, 6, 0] @ replicate 4 0 @ be16 s @ replicate (m - 10) 0 @ c) =
      Some (P @ [1, 1, 6, 0] @ replicate 4 0 @ be16 s @ replicate 18 0 @ replicate (m - 28) 0 @ c)"
    using put_gap [of "P @ [1, 1, 6, 0] @ replicate 4 0 @ be16 s" 2 "bp + 12" "replicate 16 0" "m - 10" c] assms
    by (simp add: r18)
  moreover have "put (bp + 28) e (P @ [1, 1, 6, 0] @ replicate 4 0 @ be16 s @ replicate 18 0 @ replicate (m - 28) 0 @ c) =
      Some (P @ [1, 1, 6, 0] @ replicate 4 0 @ be16 s @ replicate 18 0 @ e @ replicate (m - 34) 0 @ c)"
    using put_gap [of "P @ [1, 1, 6, 0] @ replicate 4 0 @ be16 s @ replicate 18 0" 0 "bp + 28" e "m - 28" c] assms by simp
  moreover have "put (bp + 108) f (P @ [1, 1, 6, 0] @ replicate 4 0 @ be16 s @ replicate 18 0 @ e @ replicate (m - 34) 0 @ c) =
      Some (P @ [1, 1, 6, 0] @ replicate 4 0 @ be16 s @ replicate 18 0 @ e @ replicate 74 0 @ f @ replicate (m - 108 - length f) 0 @ c)"
    using put_gap [of "P @ [1, 1, 6, 0] @ replicate 4 0 @ be16 s @ replicate 18 0 @ e" 74 "bp + 108" f "m - 34" c] assms by simp
  moreover have "put (bp + 236) BootpExtended (P @ [1, 1, 6, 0] @ replicate 4 0 @ be16 s @ replicate 18 0 @ e @ replicate 74 0 @ f @ replicate (m - 108 - length f) 0 @ c) =
      Some (P @ [1, 1, 6, 0] @ replicate 4 0 @ be16 s @ replicate 18 0 @ e @ replicate 74 0 @ f @ replicate (128 - length f) 0 @ [99, 130, 83, 99, 255] @
        replicate (m - 241) 0 @ c)"
    using put_gap [of "P @ [1, 1, 6, 0] @ replicate 4 0 @ be16 s @ replicate 18 0 @ e @ replicate 74 0 @ f" "128 - length f" "bp + 236"
      BootpExtended "m - 108 - length f" c] assms by (simp add: BootpExtended_def)
  moreover have "put (bp + 4) (store_be32 x) (P @ [1, 1, 6, 0] @ replicate 4 0 @ rest) = Some (P @ [1, 1, 6, 0] @ store_be32 x @ rest)" for rest
    using put_append [of "P @ [1, 1, 6, 0]" "bp + 4" "store_be32 x" "replicate 4 0 @ rest"] assms(1) by simp
  ultimately show ?thesis by (simp only: bind.bind_lunit)
qed

lemma BootpRequest_eq:
  assumes "net_ok t"
  shows "\<exists>buf. length buf = 1536 \<and> BootpRequest t = Some (t\<lparr>BootpTry := BootpTry t + 1, BootpID := bootp_id t, NetIPID := NetIPID t + 1, NetTxPacket := buf,
    timeHandler := Some Bootp_timeout, timeStart := now t, timeDelta := 3000, packetHandler := Bootp_handler,
    eth_sent := eth_sent t @ [udp_frame t (NetBcastAddr t) 0xffffffff 67 68 (request_message t)]\<rparr>)"
proof -
  let ?h = "NetEthHdrSize t" and ?E = "ether_hdr t (NetBcastAddr t) (NetOurEther t) 0x0800" and ?u = "t\<lparr>BootpTry := BootpTry t + 1\<rparr>"
  let ?v = "?u\<lparr>BootpID := bootp_id t\<rparr>" and ?m = "1518 - ?h - 28" and ?c = "drop 1518 (NetTxPacket t)" and ?r = "request_message t"
  have l: "length (NetTxPacket t) = 1536" "length (NetBcastAddr t) = 6" "length (NetOurEther t) = 6" using assms by (simp_all add: net_ok_def)
  have h: "?h \<le> 18" "length ?E = ?h" using hdr_size_cases [of t] l by (auto simp: ether_hdr_length)
  have hu: "NetEthHdrSize ?u = ?h" "ether_hdr ?u a b p = ether_hdr t a b p" for a b p by (simp_all add: NetEthHdrSize_def ether_hdr_def myvlanid_def)
  have b0: "put 0 (replicate 1518 0) (NetTxPacket t) = Some (replicate 1518 0 @ ?c)" using l(1) by (simp add: put_def)
  have "drop ?h (replicate 1518 0 @ ?c) = replicate (1518 - ?h) 0 @ ?c" using h(1) by simp
  also have "\<dots> = replicate 28 0 @ replicate ?m 0 @ ?c" using h(1) by (simp flip: replicate_add append_assoc)
  finally have e: "NetSetEther ?u (NetBcastAddr t) 0x0800 (replicate 1518 0 @ ?c) = Some (?h, (?E @ replicate 28 0) @ replicate ?m 0 @ ?c)"
    using l by (simp add: NetSetEther_eq hu)
  define pkt where "pkt = ?E @ (replicate 28 0 @ ?r @ replicate (?m - 241) 0 @ ?c)"
  have p: "do { pkt \<leftarrow> put (?h + 28) [1, 1, 6, 0] ((?E @ replicate 28 0) @ replicate ?m 0 @ ?c); pkt \<leftarrow> put (?h + 28 + 8) (be16 (now t div 1000)) pkt; pkt \<leftarrow> put (?h + 28 + 12) (replicate 16 0) pkt;
      pkt \<leftarrow> put (?h + 28 + 28) (NetOurEther t) pkt; pkt \<leftarrow> put (?h + 28 + 108) (cstr (copy_filename (BootFile t) 128)) pkt; pkt \<leftarrow> put (?h + 28 + 236) BootpExtended pkt;
      put (?h + 28 + 4) (store_be32 (bootp_id t)) pkt } = Some pkt"
    using request_puts [of "?E @ replicate 28 0" "?h + 28" "NetOurEther t" "cstr (copy_filename (BootFile t) 128)" ?m ?c "now t div 1000" "bootp_id t"]
      h l(3) cstr_name [of "BootFile t"] by (simp add: pkt_def request_message_def)
  have len: "28 + 241 < length (replicate 28 0 @ ?r @ replicate (?m - 241) 0 @ ?c)" using h(1) l(1) bootp_request_length [OF l(3)] by simp
  obtain tl' where tl': "NetSetIP ?h 0xffffffff 67 68 241 pkt ?v = Some (?E @ udp_header (NetIPID t) (NetOurIP t) 0xffffffff 67 68 241 @ tl', ?v\<lparr>NetIPID := NetIPID t + 1\<rparr>)"
      "take 241 tl' = ?r" "length tl' = length (replicate 28 0 @ ?r @ replicate (?m - 241) 0 @ ?c) - 28"
    using NetSetIP_eq [OF h(2) len, of "0xffffffff" 67 68 ?v] bootp_request_length [OF l(3)] by (auto simp: pkt_def)
  let ?buf = "?E @ udp_header (NetIPID t) (NetOurIP t) 0xffffffff 67 68 241 @ tl'"
  have lb: "length ?buf = 1536" using h l(1) tl'(3) bootp_request_length [OF l(3)] by simp
  have f: "take (?h + 28 + 241) ?buf = udp_frame t (NetBcastAddr t) 0xffffffff 67 68 ?r"
    using h(2) tl'(2) bootp_request_length [OF l(3)] by (simp add: udp_frame_def)
  have "BootpRequest t = do { (h, pkt) \<leftarrow> NetSetEther ?u (NetBcastAddr t) 0x0800 (replicate 1518 0 @ ?c);
      pkt \<leftarrow> do { pkt \<leftarrow> put (h + 28) [1, 1, 6, 0] pkt; pkt \<leftarrow> put (h + 28 + 8) (be16 (now t div 1000)) pkt; pkt \<leftarrow> put (h + 28 + 12) (replicate 16 0) pkt;
        pkt \<leftarrow> put (h + 28 + 28) (NetOurEther t) pkt; pkt \<leftarrow> put (h + 28 + 108) (cstr (copy_filename (BootFile t) 128)) pkt; pkt \<leftarrow> put (h + 28 + 236) BootpExtended pkt;
        put (h + 28 + 4) (store_be32 (bootp_id t)) pkt };
      (pkt, t) \<leftarrow> NetSetIP h 0xffffffff 67 68 241 pkt ?v;
      Some (eth_send (take (h + 28 + 241) pkt) (NetSetHandler Bootp_handler (NetSetTimeout 3000 Bootp_timeout (t\<lparr>NetTxPacket := pkt\<rparr>)))) }"
    unfolding BootpRequest_def Let_def by (simp add: b0 bootp_id_def BootpExtended_def Option.bind_assoc)
  also have "\<dots> = Some (eth_send (udp_frame t (NetBcastAddr t) 0xffffffff 67 68 ?r)
      (NetSetHandler Bootp_handler (NetSetTimeout 3000 Bootp_timeout (?v\<lparr>NetIPID := NetIPID t + 1, NetTxPacket := ?buf\<rparr>))))"
    unfolding e bind.bind_lunit case_prod_conv p tl'(1) f ..
  finally show ?thesis using lb assms by (intro exI [of _ ?buf]) (simp add: eth_send_def NetSetHandler_def NetSetTimeout_def net_ok_def)
qed

section \<open>The environment\<close>

lemma set_ip_env:
  "environment (set_ip n ip t) m = (if m = n \<and> ip \<noteq> 0 then Some (ip_to_string ip) else environment t m)"
  "environment (set_text n s t) m = (if m = n \<and> s \<noteq> [] then Some s else environment t m)"
  "bd_ip_addr (set_ip n ip t) = (if n = ''ipaddr'' \<and> ip \<noteq> 0 then ip else bd_ip_addr t)"
  "n \<noteq> ''ipaddr'' \<Longrightarrow> bd_ip_addr (set_text n s t) = bd_ip_addr t"
  by (simp_all add: set_ip_def set_text_def setenv_net_def env_set_def Let_def ip_roundtrip)

lemma set_fields:
  "NetOurGatewayIP (set_ip n ip t) = NetOurGatewayIP t" "NetOurSubnetMask (set_ip n ip t) = NetOurSubnetMask t" "NetOurHostName (set_ip n ip t) = NetOurHostName t"
  "NetOurRootPath (set_ip n ip t) = NetOurRootPath t" "NetOurIP (set_ip n ip t) = NetOurIP t" "NetServerIP (set_ip n ip t) = NetServerIP t"
  "NetOurDNSIP (set_ip n ip t) = NetOurDNSIP t" "NetOurNISDomain (set_ip n ip t) = NetOurNISDomain t"
  "NetOurGatewayIP (set_text n s t) = NetOurGatewayIP t" "NetOurSubnetMask (set_text n s t) = NetOurSubnetMask t" "NetOurHostName (set_text n s t) = NetOurHostName t"
  "NetOurRootPath (set_text n s t) = NetOurRootPath t" "NetOurIP (set_text n s t) = NetOurIP t" "NetServerIP (set_text n s t) = NetServerIP t"
  "NetOurDNSIP (set_text n s t) = NetOurDNSIP t" "NetOurNISDomain (set_text n s t) = NetOurNISDomain t"
  by (simp_all add: set_ip_def set_text_def setenv_net_def env_set_def Let_def)

lemma update_env_eq:
  "netboot_update_env t = set_text ''domain'' (NetOurNISDomain t) (set_ip ''dnsip'' (NetOurDNSIP t) (set_ip ''serverip'' (NetServerIP t)
     (set_ip ''ipaddr'' (NetOurIP t) (set_text ''rootpath'' (NetOurRootPath t) (set_text ''hostname'' (NetOurHostName t)
     (set_ip ''netmask'' (NetOurSubnetMask t) (set_ip ''gatewayip'' (NetOurGatewayIP t) t)))))))"
  by (simp only: netboot_update_env_def Let_def set_fields)

text \<open>What the commands leave in the environment.\<close>

definition env_holds :: "string \<Rightarrow> u32 \<Rightarrow> tftp \<Rightarrow> bool" where
  "env_holds n ip t \<longleftrightarrow> (ip \<noteq> 0 \<longrightarrow> getenv_IPaddr n t = ip)"

definition env_text :: "string \<Rightarrow> string \<Rightarrow> tftp \<Rightarrow> bool" where
  "env_text n s t \<longleftrightarrow> (s \<noteq> [] \<longrightarrow> environment t n = Some s)"

lemma update_env_holds:
  "env_holds ''gatewayip'' (NetOurGatewayIP t) (netboot_update_env t)" "env_holds ''netmask'' (NetOurSubnetMask t) (netboot_update_env t)"
  "env_holds ''ipaddr'' (NetOurIP t) (netboot_update_env t)" "env_holds ''serverip'' (NetServerIP t) (netboot_update_env t)"
  "env_holds ''dnsip'' (NetOurDNSIP t) (netboot_update_env t)" "env_text ''hostname'' (NetOurHostName t) (netboot_update_env t)"
  "env_text ''rootpath'' (NetOurRootPath t) (netboot_update_env t)" "env_text ''domain'' (NetOurNISDomain t) (netboot_update_env t)"
  "NetOurIP t \<noteq> 0 \<Longrightarrow> bd_ip_addr (netboot_update_env t) = NetOurIP t"
  by (simp_all add: update_env_eq env_holds_def env_text_def getenv_IPaddr_def string_to_ip_def set_ip_env ip_roundtrip)

section \<open>The command\<close>

text \<open>Rounds in which nothing arrives and the timer, started at time \<open>s\<close>, does not fire.\<close>

definition quiet_inputs :: "u32 \<Rightarrow> net_input list \<Rightarrow> bool" where
  "quiet_inputs s ws \<longleftrightarrow> list_all (\<lambda>inp. frames inp = [] \<and> \<not> pressed inp \<and> timer_time inp - s \<le> 3000) ws"

text \<open>A round in which a reply arrives, sent to whatever address.\<close>

definition reply_input :: "u16 \<Rightarrow> u8 list \<Rightarrow> net_input \<Rightarrow> bool" where
  "reply_input vlan msg inp \<longleftrightarrow> \<not> pressed inp \<and>
     (\<exists>tm inpkt len cs ip. frames inp = [(tm, inpkt, len)] \<and> datagram_frame vlan ip 68 67 msg cs inpkt len)"

definition asking :: "u32 \<Rightarrow> tftp \<Rightarrow> bool" where
  "asking s t \<longleftrightarrow> packetHandler t = Bootp_handler \<and> timeHandler t = Some Bootp_timeout \<and> timeStart t = s \<and> timeDelta t = 3000 \<and>
     NetOurIP t = 0 \<and> NetState t = NETLOOP_CONTINUE \<and> NetArpWaitPacketIP t = 0 \<and> NetBootFileXferSize t = 0"

lemma quiet_rounds:
  assumes "asking s t" "quiet_inputs s ws"
  shows "\<exists>x. net_rounds drv proto (ws @ inps) t = net_rounds drv proto inps (t\<lparr>now := x\<rparr>)"
  using assms
proof (induction ws arbitrary: t)
  case Nil
  show ?case by (intro exI [of _ "now t"]) simp
next
  case (Cons w ws)
  have "\<not> 3000 < timer_time w - s" using Cons.prems(2) by (auto simp: quiet_inputs_def)
  then have "net_round drv w t = Some (Again, t\<lparr>now := timer_time w\<rparr>)"
    using Cons.prems by (simp add: net_round_def ArpTimeoutCheck_def check_timer_def asking_def quiet_inputs_def)
  moreover have "asking s (t\<lparr>now := timer_time w\<rparr>)" "quiet_inputs s ws" using Cons.prems by (simp_all add: asking_def quiet_inputs_def)
  ultimately show ?case using Cons.IH [of "t\<lparr>now := timer_time w\<rparr>"] by simp
qed

lemma reply_round:
  assumes "asking s t" "reply_input (NetOurVLAN t) msg inp" "bootp_message (BootpID t) yiaddr siaddr file opts msg"
    and "environment t ''autoload'' = Some (CHR ''n'' # a)"
  shows "\<exists>u. net_round drv inp t = Some (Return 0, u) \<and> boot_params t yiaddr siaddr file opts u"
proof -
  obtain tm inpkt len cs ip where f: "\<not> pressed inp" "frames inp = [(tm, inpkt, len)]" "datagram_frame (NetOurVLAN t) ip 68 67 msg cs inpkt len"
    using assms(2) by (auto simp: reply_input_def)
  let ?t = "t\<lparr>now := tm, NetRxPacket := inpkt, NetRxPacketLen := len\<rparr>"
  have d: "deliver_frame drv inpkt len (t\<lparr>now := tm\<rparr>) = BootpHandler (msg @ cs) 68 67 (of_nat (length msg)) ?t" "12 \<le> length (NetRxPacket ?t)"
    using datagram_handled [OF f(3), of "t\<lparr>now := tm\<rparr>" drv] assms(1) by (simp_all add: asking_def handle_packet_def)
  have m: "bootp_message (BootpID ?t) yiaddr siaddr file opts msg" using assms(3) by simp
  from handle_reply [OF m d(2), of cs]
  obtain u where u: "BootpHandler (msg @ cs) 68 67 (of_nat (length msg)) ?t = autoload u" "boot_params ?t yiaddr siaddr file opts u"
      "\<forall>n. n \<noteq> ''bootfile'' \<longrightarrow> environment u n = environment ?t n" "timeHandler u = None"
      "NetArpWaitPacketIP u = NetArpWaitPacketIP ?t" "NetBootFileXferSize u = NetBootFileXferSize ?t"
    by (elim exE conjE) (rule that)
  have z: "NetArpWaitPacketIP u = 0" "NetBootFileXferSize u = 0" using u(5,6) assms(1) by (simp_all add: asking_def)
  have al: "autoload u = Some (u\<lparr>NetState := NETLOOP_SUCCESS\<rparr>)" using u(3) assms(4) by (simp add: autoload_def)
  let ?v = "eth_halt (u\<lparr>NetState := NETLOOP_SUCCESS, now := timer_time inp\<rparr>)"
  have "net_round drv inp t = Some (Return 0, ?v)"
    using f(1,2) d(1) u(1,4) z al by (simp add: net_round_def ArpTimeoutCheck_def check_timer_def loop_success_def)
  moreover have "boot_params t yiaddr siaddr file opts ?v" using u(2) by (simp add: boot_params_def eth_halt_def set_dev_state_def)
  ultimately show ?thesis by blast
qed

text \<open>What the command leaves in the environment when the parameters were those of \<open>t\<close> before the reply.\<close>

definition boot_env :: "tftp \<Rightarrow> u32 \<Rightarrow> u32 \<Rightarrow> boot_option list \<Rightarrow> tftp \<Rightarrow> bool" where
  "boot_env t yiaddr siaddr opts t' \<longleftrightarrow>
     env_holds ''ipaddr'' yiaddr t' \<and> env_holds ''serverip'' siaddr t' \<and> (yiaddr \<noteq> 0 \<longrightarrow> bd_ip_addr t' = yiaddr) \<and>
     env_holds ''netmask'' (first_set 0 (NetOurSubnetMask t # option_values 1 ip_value opts)) t' \<and>
     env_holds ''gatewayip'' (first_set 0 (NetOurGatewayIP t # option_values 3 ip_value opts)) t' \<and>
     env_holds ''dnsip'' (first_set 0 (NetOurDNSIP t # option_values 6 ip_value opts)) t' \<and>
     env_text ''hostname'' (first_set [] (NetOurHostName t # option_values 12 (text_value 32) opts)) t' \<and>
     env_text ''rootpath'' (first_set [] (NetOurRootPath t # option_values 17 (text_value 64) opts)) t' \<and>
     env_text ''domain'' (first_set [] (NetOurNISDomain t # option_values 40 (text_value 32) opts)) t'"

lemma params_env:
  assumes "boot_params t yiaddr siaddr file opts u"
  shows "boot_env t yiaddr siaddr opts (netboot_update_env u)"
proof -
  have "env_holds ''serverip'' siaddr (netboot_update_env u)"
    using update_env_holds(4) [of u] assms by (cases "siaddr = 0") (simp_all add: boot_params_def env_holds_def)
  then show ?thesis using update_env_holds [of u] assms by (simp add: boot_params_def boot_env_def)
qed

text \<open>The state in which the command waits for a reply.\<close>

lemma request_sent:
  assumes "good_devices t" "net_ok t" "\<forall>i. drv i"
  shows "\<exists>t0 u0. (\<forall>inps. NetLoop drv BOOTP inps t = net_rounds drv BOOTP inps t0) \<and> asking (now t) t0 \<and> BootpID t0 = bootp_id u0 \<and>
    (\<forall>n. n \<noteq> ''ethact'' \<longrightarrow> environment t0 n = environment t n) \<and>
    last (eth_sent t0) = udp_frame u0 (NetBcastAddr u0) 0xffffffff 67 68 (request_message u0)"
proof -
  from loop_start [OF assms]
  obtain u where u: "\<forall>proto inps. net_check_prereq drv proto u = (0, u) \<longrightarrow> NetLoop drv proto inps t = do {
      v \<leftarrow> start_protocol proto (u\<lparr>NetDevExists := True\<rparr>); net_rounds drv proto inps (v\<lparr>NetBootFileXferSize := 0\<rparr>) }"
      "net_ok u" "NetState u = NETLOOP_CONTINUE" "NetOurEther u \<noteq> replicate 6 0" "NetArpWaitPacketIP u = 0" "now u = now t"
      "\<forall>n. n \<noteq> ''ethact'' \<longrightarrow> environment u n = environment t n"
    by (elim exE conjE) (rule that)
  define u0 where "u0 = u\<lparr>NetDevExists := True, BootpTry := 0, NetOurIP := 0\<rparr>"
  have "net_ok u0" using u(2) by (simp add: u0_def net_ok_def)
  from BootpRequest_eq [OF this]
  obtain buf where r: "BootpRequest u0 = Some (u0\<lparr>BootpTry := BootpTry u0 + 1, BootpID := bootp_id u0, NetIPID := NetIPID u0 + 1, NetTxPacket := buf,
      timeHandler := Some Bootp_timeout, timeStart := now u0, timeDelta := 3000, packetHandler := Bootp_handler,
      eth_sent := eth_sent u0 @ [udp_frame u0 (NetBcastAddr u0) 0xffffffff 67 68 (request_message u0)]\<rparr>)" (is "_ = Some ?v")
    by (elim exE conjE) (rule that)
  have "net_check_prereq drv BOOTP u = (0, u)" using u(4) by (simp add: net_check_prereq_def check_ether_def)
  then have loop: "NetLoop drv BOOTP inps t = net_rounds drv BOOTP inps (?v\<lparr>NetBootFileXferSize := 0\<rparr>)" for inps
    using u(1) r by (simp add: start_protocol_def u0_def [symmetric])
  have "environment ?v = environment u" "now u0 = now t" using u(6) by (simp_all add: u0_def)
  moreover have "asking (now u0) (?v\<lparr>NetBootFileXferSize := 0\<rparr>)" using u(3,5) by (simp add: asking_def u0_def)
  ultimately show ?thesis using loop u(7) by (intro exI [of _ "?v\<lparr>NetBootFileXferSize := 0\<rparr>"] exI [of _ u0]) simp
qed


definition ready_bootp :: tftp where
  "ready_bootp = idle_tftp\<lparr>environment := [''autoload'' \<mapsto> ''n'']\<rparr>"

text \<open>A reply with the address 10.0.0.7 and a subnet mask.\<close>

definition sample_options :: "boot_option list" where
  "sample_options = [(1, [255, 255, 255, 0])]"

definition sample_reply :: "u32 \<Rightarrow> u8 list" where
  "sample_reply xid = [2, 1, 6, 0] @ store_be32 xid @ replicate 8 0 @ store_be32 0x0a000007 @ store_be32 0 @ replicate 84 0 @ replicate 128 0 @
     store_be32 0x63825363 @ option_bytes sample_options @ 0xff # []"

lemma sample_message: "bootp_message xid 0x0a000007 0 (replicate 128 0) sample_options (sample_reply xid)"
  unfolding bootp_message_def sample_reply_def
  by (intro conjI exI [of _ 0] exI [of _ "replicate 8 0"] exI [of _ "replicate 84 0"] exI [of _ "[]"])
    (simp_all add: sample_options_def option_ok_def option_bytes_def)

lemma sample_frame:
  fixes vlan xid
  defines "a \<equiv> sample_net\<lparr>NetOurVLAN := vlan\<rparr>"
  shows "reply_input vlan (sample_reply xid) (hears 1 (udp_frame a [2, 0, 0, 0, 0, 2] 0xffffffff 68 67 (sample_reply xid)) 400 1 1)"
proof -
  have e: "length (NetOurEther a) = 6" using sample_net_ok by (simp add: a_def net_ok_def)
  have m: "length (sample_reply xid) = 247" by (simp add: sample_reply_def option_bytes_def sample_options_def)
  have "length (udp_frame a [2, 0, 0, 0, 0, 2] 0xffffffff 68 67 (sample_reply xid)) \<le> 400"
    using hdr_size_cases [of a] e m by (auto simp: udp_frame_def ether_hdr_length)
  then have "datagram_frame vlan 0xffffffff 68 67 (sample_reply xid) [] (udp_frame a [2, 0, 0, 0, 0, 2] 0xffffffff 68 67 (sample_reply xid)) 400"
    unfolding datagram_frame_def using e m by (intro exI [of _ a] exI [of _ "[2, 0, 0, 0, 0, 2]"]) (simp add: a_def)
  then show ?thesis by (auto simp: reply_input_def hears_def)
qed


section \<open>Behaviour to know about\<close>

text \<open>The size of the boot file is forgotten when another extension follows.\<close>

lemma boot_file_size_lost:
  "NetBootFileSize (take_option (12, d) (take_option (13, [1, 0]) t)) = 0" "NetBootFileSize (take_option (13, [1, 0]) t) = 256"
  by (simp_all add: take_option_def size_value_def Let_def)

text \<open>\<open>BootpVendorProcess\<close> is called with the length of the whole message: the loop runs past its end into what
  the receive buffer holds behind it, here a subnet mask that is not part of the message.\<close>

lemma options_behind_message:
  assumes "length pre = 240" "NetOurSubnetMask t = 0"
  shows "map_option NetOurSubnetMask (BootpVendorProcess (pre @ [1, 4, 255, 255, 0, 0, 0xff]) 240 240 t) = Some 0xffff0000"
proof -
  have "vendor_loop (pre @ option_bytes [(1, [255, 255, 0, 0])] @ 0xff # []) (length pre) 480 t = Some (fold take_option [(1, [255, 255, 0, 0])] t)"
    by (rule vendor_options) (simp_all add: option_ok_def option_bytes_def assms(1))
  moreover have "ip_value [255, 255, 0, 0] = 0xffff0000" by (simp add: ip_value_def load_be32_def)
  ultimately show ?thesis using assms by (simp add: BootpVendorProcess_def option_bytes_def take_option_def Let_def)
qed

text \<open>Any datagram that passes the tests of the IP layer is taken for the answer to a RARP request.\<close>

lemma rarp_accepts_datagram:
  "packetHandler t = Rarp_handler \<Longrightarrow> environment t ''autoload'' = Some ''n'' \<Longrightarrow>
    handle_packet drv (pkt, dest, src, len) t = Some (t\<lparr>NetState := NETLOOP_SUCCESS\<rparr>)"
  by (simp add: handle_packet_def RarpHandler_def autoload_def)

end
