(* ===== verification/Rtc.thy ===== *)
theory Rtc
  imports Vsprintf Eeprom "HOL-Library.Signed_Division"
begin

text \<open>
  The clock: include/bcd.h, drivers/rtc/date.c (the calendar), drivers/rtc/m41t62.c (the chip of the board, behind
  the I2C bus, which is an argument as in \<open>Eeprom\<close>) and common/cmd_date.c (the command \<open>date\<close>).
  The fields of \<open>struct rtc_time\<close> are integers; no computation on them comes near the limits of
  \<open>int\<close>. Division of signed numbers rounds towards zero (\<open>sdiv\<close>, \<open>smod\<close>). Reading outside an array is \<open>None\<close>.
\<close>

section \<open>Binary coded decimals\<close>

definition bcd2bin :: "u8 \<Rightarrow> u32" where
  "bcd2bin val = ucast (val AND 0x0f) + ucast (drop_bit 4 val) * 10"

definition bin2bcd :: "u32 \<Rightarrow> u8" where
  "bin2bcd val = ucast (push_bit 4 (val div 10) OR (val mod 10))"

section \<open>The calendar\<close>

record rtc_time =
  tm_sec :: int
  tm_min :: int
  tm_hour :: int
  tm_mday :: int
  tm_mon :: int
  tm_year :: int
  tm_wday :: int
  tm_yday :: int
  tm_isdst :: int

abbreviation (input) "FEBRUARY \<equiv> (2 :: nat)"
abbreviation (input) "STARTOFTIME \<equiv> (1970 :: int)"
abbreviation (input) "SECDAY \<equiv> (86400 :: int)"

definition leapyear :: "int \<Rightarrow> bool" where
  "leapyear year \<longleftrightarrow> year smod 4 = 0"

definition days_in_year :: "int \<Rightarrow> int" where
  "days_in_year a = (if leapyear a then 366 else 365)"

definition month_days :: "int list" where
  "month_days = [31, 28, 31, 30, 31, 30, 31, 31, 30, 31, 30, 31]"

definition MonthOffset :: "int list" where
  "MonthOffset = [0, 31, 59, 90, 120, 151, 181, 212, 243, 273, 304, 334]"

definition GregorianDay :: "rtc_time \<Rightarrow> rtc_time option" where
  "GregorianDay tm = do {
     let lastYear = tm_year tm - 1;
     let leapsToDate = lastYear sdiv 4 - lastYear sdiv 100 + lastYear sdiv 400;
     let day = (if tm_year tm smod 4 = 0 \<and> (tm_year tm smod 100 \<noteq> 0 \<or> tm_year tm smod 400 = 0) \<and> tm_mon tm > 2 then 1 else 0);
     offset \<leftarrow> (if tm_mon tm < 1 then None else rd MonthOffset (nat (tm_mon tm - 1)));
     let day = day + (lastYear * 365 + leapsToDate + offset + tm_mday tm);
     Some (tm\<lparr>tm_wday := day smod 7\<rparr>)
   }"

text \<open>The loops of \<open>to_tm\<close> over the years and over the months; the index counts from 0.\<close>

function years_loop :: "int \<Rightarrow> int \<Rightarrow> int \<times> int" where
  "years_loop day i = (if day \<ge> days_in_year i then years_loop (day - days_in_year i) (i + 1) else (day, i))"
  by pat_completeness auto
termination
  by (relation "measure (\<lambda>(day, i). nat day)") (auto simp: days_in_year_def split: if_splits)

declare years_loop.simps [simp del]

function months_loop :: "int list \<Rightarrow> int \<Rightarrow> nat \<Rightarrow> (int \<times> nat) option" where
  "months_loop ms day i = do {
     d \<leftarrow> rd ms i;
     if day \<ge> d then months_loop ms (day - d) (i + 1) else Some (day, i)
   }"
  by pat_completeness auto
termination
  by (relation "measure (\<lambda>(ms, day, i). length ms - i)") (auto simp: rd_def split: if_splits)

declare months_loop.simps [simp del]

definition to_tm :: "int \<Rightarrow> rtc_time \<Rightarrow> rtc_time option" where
  "to_tm tim tm = do {
     let day = tim sdiv SECDAY;
     let hms = tim smod SECDAY;
     let tm = tm\<lparr>tm_hour := hms sdiv 3600, tm_min := (hms smod 3600) sdiv 60, tm_sec := (hms smod 3600) smod 60\<rparr>;
     let (day, year) = years_loop day STARTOFTIME;
     let ms = (if leapyear year then month_days[FEBRUARY - 1 := 29] else month_days);
     (day, i) \<leftarrow> months_loop ms day 0;
     GregorianDay (tm\<lparr>tm_year := year, tm_mon := int i + 1, tm_mday := day + 1\<rparr>)
   }"

definition mktime :: "u32 \<Rightarrow> u32 \<Rightarrow> u32 \<Rightarrow> u32 \<Rightarrow> u32 \<Rightarrow> u32 \<Rightarrow> u32" where
  "mktime year mon day hour minute sec =
     (let (mon, year) = (if 0 \<ge> sint (mon - 2) then (mon - 2 + 12, year - 1) else (mon - 2, year))
      in ((((year div 4 - year div 100 + year div 400 + 367 * mon div 12 + day) + year * 365 - 719499) * 24 + hour) * 60 + minute) * 60 + sec)"

section \<open>The chip\<close>

abbreviation (input) "CONFIG_SYS_I2C_RTC_ADDR \<equiv> (0x68 :: u8)"
abbreviation (input) "M41T62_DATETIME_REG_SIZE \<equiv> (8 :: u32)"

definition rtc_get :: "'b i2c_reader \<Rightarrow> rtc_time \<Rightarrow> 'b \<Rightarrow> (int \<times> rtc_time \<times> 'b) option" where
  "rtc_get i2c_read tm bus = do {
     let (rc, buf, bus) = i2c_read CONFIG_SYS_I2C_RTC_ADDR 0 1 M41T62_DATETIME_REG_SIZE bus;
     sec \<leftarrow> rd buf 1;
     minute \<leftarrow> rd buf 2;
     hour \<leftarrow> rd buf 3;
     day \<leftarrow> rd buf 5;
     wday \<leftarrow> rd buf 4;
     mon \<leftarrow> rd buf 6;
     year \<leftarrow> rd buf 7;
     Some (0, tm\<lparr>tm_sec := int (unat (bcd2bin (sec AND 0x7f))), tm_min := int (unat (bcd2bin (minute AND 0x7f))),
        tm_hour := int (unat (bcd2bin (hour AND 0x3f))), tm_mday := int (unat (bcd2bin (day AND 0x3f))),
        tm_wday := int (unat (wday AND 0x07)), tm_mon := int (unat (bcd2bin (mon AND 0x1f))),
        tm_year := int (unat (bcd2bin year)) + 100 + 1900\<rparr>, bus)
   }"

text \<open>The registers with the new time merged into the old contents.\<close>

definition rtc_merge :: "rtc_time \<Rightarrow> u8 list \<Rightarrow> u8 list option" where
  "rtc_merge tm buf = do {
     sec \<leftarrow> rd buf 1;
     minute \<leftarrow> rd buf 2;
     hour \<leftarrow> rd buf 3;
     wday \<leftarrow> rd buf 4;
     day \<leftarrow> rd buf 5;
     mon \<leftarrow> rd buf 6;
     Some [0, bin2bcd (of_int (tm_sec tm)) OR (sec AND NOT 0x7f), bin2bcd (of_int (tm_min tm)) OR (minute AND NOT 0x7f),
       bin2bcd (of_int (tm_hour tm)) OR (hour AND NOT 0x3f), (of_int (tm_wday tm) AND 0x07) OR (wday AND NOT 0x07),
       bin2bcd (of_int (tm_mday tm)) OR (day AND NOT 0x3f), bin2bcd (of_int (tm_mon tm)) OR (mon AND NOT 0x1f),
       bin2bcd (of_int (tm_year tm smod 100))]
   }"

text \<open>\<open>rtc_set\<close>, with what it prints.\<close>

definition rtc_set :: "'b i2c_reader \<Rightarrow> 'b i2c_writer \<Rightarrow> rtc_time \<Rightarrow> 'b \<Rightarrow> (int \<times> string \<times> 'b) option" where
  "rtc_set i2c_read i2c_write tm bus = do {
     let (rc, buf, bus) = i2c_read CONFIG_SYS_I2C_RTC_ADDR 0 1 M41T62_DATETIME_REG_SIZE bus;
     buf \<leftarrow> rtc_merge tm buf;
     let (rc, bus) = i2c_write CONFIG_SYS_I2C_RTC_ADDR 0 1 buf bus;
     Some (if rc \<noteq> 0 then (-1, ''I2C write failed in rtc_set()'' @ [CHR 0x0a], bus) else (0, [], bus))
   }"

section \<open>The command\<close>

definition cnvrt2 :: "string \<Rightarrow> int option" where
  "cnvrt2 str =
     (if byte_of (peek str 0) < byte_of CHR ''0'' \<or> byte_of (peek str 0) > byte_of CHR ''9'' then None
      else if byte_of (peek str 1) < byte_of CHR ''0'' \<or> byte_of (peek str 1) > byte_of CHR ''9'' then None
      else Some (10 * int (unat (byte_of (peek str 0) - byte_of CHR ''0'')) + int (unat (byte_of (peek str 1) - byte_of CHR ''0''))))"

text \<open>The seconds behind a full stop: the string in front of it, and \<open>tm\<close> with the seconds.\<close>

definition date_seconds :: "string \<Rightarrow> rtc_time \<Rightarrow> (string \<times> rtc_time) option" where
  "date_seconds datestr tm =
     (if CHR ''.'' \<in> set datestr then
        let d = takeWhile (\<lambda>c. c \<noteq> CHR ''.'') datestr; ptr = drop (length d + 1) datestr
        in if length ptr \<noteq> 2 then None
           else (case cnvrt2 ptr of None \<Rightarrow> None | Some sec \<Rightarrow> Some (d, tm\<lparr>tm_sec := sec\<rparr>))
      else Some (datestr, tm\<lparr>tm_sec := 0\<rparr>))"

definition date_year :: "string \<Rightarrow> rtc_time \<Rightarrow> rtc_time option" where
  "date_year datestr tm =
     (if length datestr = 12 then
        (case (cnvrt2 (drop 8 datestr), cnvrt2 (drop 10 datestr)) of
           (Some century, Some year) \<Rightarrow> Some (tm\<lparr>tm_year := 100 * century + year\<rparr>)
         | _ \<Rightarrow> None)
      else if length datestr = 10 then
        (case cnvrt2 (drop 8 datestr) of
           Some year \<Rightarrow> Some (tm\<lparr>tm_year := 100 * (tm_year tm sdiv 100) + year\<rparr>)
         | None \<Rightarrow> None)
      else Some tm)"

text \<open>A field of two digits with an upper bound.\<close>

definition date_field :: "string \<Rightarrow> int \<Rightarrow> int option" where
  "date_field str hi = (case cnvrt2 str of None \<Rightarrow> None | Some val \<Rightarrow> if val > hi then None else Some val)"

text \<open>\<open>mk_date\<close>; the outer option is undefined behaviour, the inner \<open>None\<close> the result -1, which leaves a time that no
  caller looks at.\<close>

definition mk_date :: "string \<Rightarrow> rtc_time \<Rightarrow> rtc_time option option" where
  "mk_date datestr tm =
     (case date_seconds datestr tm of None \<Rightarrow> Some None
      | Some (datestr, tm) \<Rightarrow>
     (case date_year datestr tm of None \<Rightarrow> Some None
      | Some tm \<Rightarrow>
          if length datestr \<in> {8, 10, 12} then
            (case date_field datestr 12 of None \<Rightarrow> Some None
             | Some mon \<Rightarrow>
            (case date_field (drop 2 datestr) (if mon = 2 then 29 else 31) of None \<Rightarrow> Some None
             | Some mday \<Rightarrow>
            (case date_field (drop 4 datestr) 23 of None \<Rightarrow> Some None
             | Some hour \<Rightarrow>
            (case date_field (drop 6 datestr) 59 of None \<Rightarrow> Some None
             | Some minute \<Rightarrow> map_option Some (GregorianDay (tm\<lparr>tm_mon := mon, tm_mday := mday, tm_hour := hour, tm_min := minute\<rparr>))))))
          else Some None))"

definition weekdays :: "string list" where
  "weekdays = [''Sun'', ''Mon'', ''Tues'', ''Wednes'', ''Thurs'', ''Fri'', ''Satur'']"

definition show_date :: "rtc_time \<Rightarrow> string option" where
  "show_date tm = map_option fst (sprintf (\<lambda>_. 0) (''Date: %4d-%02d-%02d (%sday)    Time: %2d:%02d:%02d'' @ [CHR 0x0a])
     [VInt (of_int (tm_year tm)), VInt (of_int (tm_mon tm)), VInt (of_int (tm_mday tm)),
      VStr (Some (if tm_wday tm < 0 \<or> tm_wday tm > 6 then ''unknown '' else weekdays ! nat (tm_wday tm))),
      VInt (of_int (tm_hour tm)), VInt (of_int (tm_min tm)), VInt (of_int (tm_sec tm))])"

text \<open>The end of \<open>do_date\<close>: read the clock and print it.\<close>

definition date_print :: "'b i2c_reader \<Rightarrow> rtc_time \<Rightarrow> string \<Rightarrow> 'b \<Rightarrow> (int \<times> string \<times> 'b) option" where
  "date_print i2c_read tm out bus = do {
     (rcode, tm, bus) \<leftarrow> rtc_get i2c_read tm bus;
     if rcode \<noteq> 0 then Some (rcode, out @ ''## Get date failed'' @ [CHR 0x0a], bus)
     else do { s \<leftarrow> show_date tm; Some (rcode, out @ s, bus) }
   }"

text \<open>\<open>tm\<close> is the uninitialised variable on the stack, \<open>usage\<close> what \<open>cmd_usage\<close> prints.\<close>

definition do_date :: "string \<Rightarrow> 'b i2c_reader \<Rightarrow> 'b i2c_writer \<Rightarrow> string list \<Rightarrow> rtc_time \<Rightarrow> 'b \<Rightarrow> (int \<times> string \<times> 'b) option" where
  "do_date usage i2c_read i2c_write argv tm bus =
     (case argv of
        [_] \<Rightarrow> date_print i2c_read tm [] bus
      | [_, a] \<Rightarrow>
          if a = ''reset'' then date_print i2c_read tm (''Reset RTC...'' @ [CHR 0x0a]) bus
          else do {
            (rcode, tm, bus) \<leftarrow> rtc_get i2c_read tm bus;
            if rcode \<noteq> 0 then date_print i2c_read tm (''## Get date failed'' @ [CHR 0x0a]) bus
            else do {
              r \<leftarrow> mk_date a tm;
              case r of
                None \<Rightarrow> Some (rcode, ''## Bad date format'' @ [CHR 0x0a], bus)
              | Some tm \<Rightarrow> do {
                  (rcode, out, bus) \<leftarrow> rtc_set i2c_read i2c_write tm bus;
                  date_print i2c_read tm (if rcode \<noteq> 0 then out @ ''## Set date failed'' @ [CHR 0x0a] else out) bus
                }
            }
          }
      | _ \<Rightarrow> Some (1, usage, bus))"

end
