(* ===== verification/RtcSpec.thy ===== *)
theory RtcSpec
  imports Rtc VsprintfSpec
begin

text \<open>
  The calendar of the clock against the number of days since the first of January 1970, and the command \<open>date\<close>
  against the time the chip holds afterwards.
\<close>

section \<open>Days since 1970\<close>

definition months :: "int \<Rightarrow> int list" where
  "months y = (if y mod 4 = 0 then month_days[1 := 29] else month_days)"

definition year_start :: "int \<Rightarrow> int" where
  "year_start y = 365 * (y - 1970) + ((y - 1) div 4 - 492)"

definition month_start :: "int \<Rightarrow> int \<Rightarrow> int" where
  "month_start y m = year_start y + sum_list (take (nat (m - 1)) (months y))"

lemma sdiv_smod_pos: "0 \<le> (a :: int) \<Longrightarrow> 0 < b \<Longrightarrow> a sdiv b = a div b" "0 \<le> (a :: int) \<Longrightarrow> 0 < b \<Longrightarrow> a smod b = a mod b"
  by (cases "a = 0"; simp add: signed_divide_int_def signed_modulo_int_def)+

lemma leapyear_mod: "0 \<le> y \<Longrightarrow> leapyear y \<longleftrightarrow> y mod 4 = 0"
  by (simp add: leapyear_def sdiv_smod_pos)

lemma year_start_Suc: "0 \<le> y \<Longrightarrow> year_start (y + 1) = year_start y + days_in_year y"
  by (simp add: year_start_def days_in_year_def leapyear_mod) presburger

lemma years_loop_spec:
  assumes "years_loop day i = (d, y)" "0 \<le> day" "0 \<le> i"
  shows "0 \<le> d" "d < days_in_year y" "i \<le> y" "year_start y + d = year_start i + day"
  using assms
proof (induction day i arbitrary: d y rule: years_loop.induct)
  case (1 day i)
  {
    case 1
    show ?case using 1 "1.IH" by (subst (asm) years_loop.simps) (auto split: if_splits)
  next
    case 2
    show ?case using 2 "1.IH" by (subst (asm) years_loop.simps) (auto split: if_splits)
  next
    case 3
    show ?case using 3 "1.IH" by (subst (asm) years_loop.simps) (fastforce split: if_splits)
  next
    case 4
    show ?case using 4 "1.IH"(4) year_start_Suc [of i] by (subst (asm) years_loop.simps) (fastforce split: if_splits)
  }
qed

lemma months_loop_spec:
  assumes "0 \<le> day" "day < sum_list (drop i ms)" "i < length ms"
  shows "\<exists>d j. months_loop ms day i = Some (d, j) \<and> j < length ms \<and> 0 \<le> d \<and> d < ms ! j \<and> sum_list (take j ms) + d = sum_list (take i ms) + day"
  using assms
proof (induction ms day i rule: months_loop.induct)
  case (1 ms day i)
  have r: "rd ms i = Some (ms ! i)" using 1(4) by simp
  have s: "sum_list (drop i ms) = ms ! i + sum_list (drop (Suc i) ms)" using 1(4) by (metis Cons_nth_drop_Suc sum_list.Cons)
  show ?case
  proof (cases "day \<ge> ms ! i")
    case True
    then have "0 < sum_list (drop (Suc i) ms)" using 1(3) s by linarith
    then have "Suc i < length ms" by (metis drop_all leI less_irrefl sum_list.Nil)
    then show ?thesis using 1(1) [OF r True] 1(3) True s r 1(4) by (subst months_loop.simps) (simp add: take_Suc_conv_app_nth)
  next
    case False
    then show ?thesis using 1(2,4) r by (subst months_loop.simps) simp
  qed
qed

text \<open>The base of \<open>mktime\<close> as a number, and the day of the week, for every month of the years in question.\<close>

definition day_base :: "int \<Rightarrow> int \<Rightarrow> int" where
  "day_base year mon = (let (mon, year) = (if mon \<le> 2 then (mon + 10, year - 1) else (mon - 2, year))
     in year div 4 - year div 100 + year div 400 + 367 * mon div 12 + year * 365 - 719499)"

lemma word_div_small: "0 \<le> a \<Longrightarrow> a < 2 ^ 32 \<Longrightarrow> 0 \<le> b \<Longrightarrow> b < 2 ^ 32 \<Longrightarrow> (of_int a :: u32) div of_int b = of_int (a div b)"
  by (simp add: word_div_def uint_word_of_int_eq take_bit_int_eq_self)

lemma mktime_eq:
  assumes "1 \<le> y" "y < 10000" "1 \<le> m" "m \<le> 12"
  shows "mktime (of_int y) (of_int m) d h mi s = (((of_int (day_base y m) + d) * 24 + h) * 60 + mi) * 60 + s"
proof -
  have p: "(of_int y :: u32) div 4 - of_int y div 100 + of_int y div 400 + 367 * of_int m div 12 = of_int (y div 4 - y div 100 + y div 400 + 367 * m div 12)"
    if "0 \<le> y" "y < 10000" "1 \<le> m" "m \<le> 12" for y m
    using that word_div_small [of y 4] word_div_small [of y 100] word_div_small [of y 400] word_div_small [of "367 * m" 12] by simp
  have c: "0 \<ge> sint (of_int m - 2 :: u32) \<longleftrightarrow> m \<le> 2"
  proof -
    have "sint (of_int (m - 2) :: u32) = m - 2" using assms(3,4)
      by (simp only: sint_sbintrunc' len_bit0 len_num1) (simp add: signed_take_bit_int_eq_self)
    then show ?thesis by simp
  qed
  show ?thesis
  proof (cases "m \<le> 2")
    case True
    define A where "A = (y - 1) div 4 - (y - 1) div 100 + (y - 1) div 400 + 367 * (m + 10) div 12"
    have e: "of_int m - 2 + 12 = (of_int (m + 10) :: u32)" "of_int y - 1 = (of_int (y - 1) :: u32)" by simp_all
    have mk: "mktime (of_int y) (of_int m) d h mi s = (((of_int A + d + of_int (y - 1) * 365 - 719499) * 24 + h) * 60 + mi) * 60 + s"
      unfolding A_def using p [of "y - 1" "m + 10"] True assms by (simp only: mktime_def Let_def c if_True case_prod_conv e)
    have db: "day_base y m = A + (y - 1) * 365 - 719499" using True by (simp add: day_base_def A_def)
    show ?thesis unfolding mk db by (simp add: algebra_simps)
  next
    case False
    define A where "A = y div 4 - y div 100 + y div 400 + 367 * (m - 2) div 12"
    have e: "of_int m - 2 = (of_int (m - 2) :: u32)" by simp
    have c': "(0 \<ge> sint (of_int (m - 2) :: u32)) = False" using c False unfolding e by simp
    have mk: "mktime (of_int y) (of_int m) d h mi s = (((of_int A + d + of_int y * 365 - 719499) * 24 + h) * 60 + mi) * 60 + s"
      unfolding A_def using p [of y "m - 2"] c' False assms by (simp only: mktime_def Let_def if_False case_prod_conv e)
    have db: "day_base y m = A + y * 365 - 719499" using False by (simp add: day_base_def A_def)
    show ?thesis unfolding mk db by (simp add: algebra_simps)
  qed
qed

definition week_base :: "int \<Rightarrow> int \<Rightarrow> int" where
  "week_base y m = (y - 1) * 365 + ((y - 1) div 4 - (y - 1) div 100 + (y - 1) div 400) + MonthOffset ! nat (m - 1) +
     (if y mod 4 = 0 \<and> (y mod 100 \<noteq> 0 \<or> y mod 400 = 0) \<and> m > 2 then 1 else 0)"

text \<open>The rule of the centuries makes no difference between 1900 and 2100.\<close>

lemma centuries: "1901 \<le> y \<Longrightarrow> y \<le> 2099 \<Longrightarrow> y div 100 - y div 400 = (15 :: int)"
proof -
  assume y: "1901 \<le> y" "y \<le> 2099"
  show ?thesis
  proof (cases "y < 2000")
    case True
    then have "y div 100 = 19" "y div 400 = 4" using y by (simp_all add: div_pos_geq)
    then show ?thesis by simp
  next
    case False
    then have "y div 100 = 20" "y div 400 = 5" using y by (simp_all add: div_pos_geq)
    then show ?thesis by simp
  qed
qed

lemma leap_100: "1901 \<le> y \<Longrightarrow> y \<le> 2099 \<Longrightarrow> y mod 4 = 0 \<Longrightarrow> y mod 100 \<noteq> 0 \<or> y mod 400 = (0 :: int)"
proof -
  assume y: "1901 \<le> y" "y \<le> 2099"
  have "y = 2000" if "y mod 100 = 0"
  proof -
    have "y = 100 * (y div 100)" using that mult_div_mod_eq [of 100 y] by simp
    moreover have "y div 100 = 19 \<or> y div 100 = 20" using y by presburger
    ultimately show ?thesis using y(1) by linarith
  qed
  then show ?thesis by (cases "y mod 100 = 0") simp_all
qed

lemma month_cases:
  assumes "1 \<le> m" "m \<le> (12 :: int)"
  obtains "m = 1" | "m = 2" | "m = 3" | "m = 4" | "m = 5" | "m = 6" | "m = 7" | "m = 8" | "m = 9" | "m = 10" | "m = 11" | "m = 12"
proof -
  have "m = 1 \<or> m = 2 \<or> m = 3 \<or> m = 4 \<or> m = 5 \<or> m = 6 \<or> m = 7 \<or> m = 8 \<or> m = 9 \<or> m = 10 \<or> m = 11 \<or> m = 12" using assms by arith
  then show thesis using that by blast
qed

lemma div_4_step: "y div 4 = (y - 1) div 4 + (if y mod 4 = 0 then 1 else 0)" for y :: int
  by presburger

lemma day_base_start:
  assumes "1970 \<le> y" "y \<le> 2099" "1 \<le> m" "m \<le> 12"
  shows "day_base y m = month_start y m - 1"
proof -
  have c: "y div 100 = y div 400 + 15" "(y - 1) div 100 = (y - 1) div 400 + 15" using centuries [of y] centuries [of "y - 1"] assms by simp_all
  show ?thesis using assms(3,4)
    by (cases m rule: month_cases) (simp_all add: day_base_def month_start_def months_def month_days_def year_start_def c div_4_step [of y])
qed

lemma week_base_start:
  assumes "1970 \<le> y" "y \<le> 2099" "1 \<le> m" "m \<le> 12"
  shows "week_base y m = month_start y m + 719162"
proof -
  have c: "(y - 1) div 100 = (y - 1) div 400 + 15" using centuries [of "y - 1"] assms by simp
  have l: "y mod 4 = 0 \<and> (y mod 100 \<noteq> 0 \<or> y mod 400 = 0) \<and> m > 2 \<longleftrightarrow> y mod 4 = 0 \<and> m > 2" using leap_100 [of y] assms by auto
  show ?thesis using assms(3,4) unfolding week_base_def l
    by (cases m rule: month_cases) (simp_all add: month_start_def months_def month_days_def year_start_def MonthOffset_def c)
qed

section \<open>Times and dates\<close>

definition valid_tm :: "rtc_time \<Rightarrow> bool" where
  "valid_tm tm \<longleftrightarrow> 0 \<le> tm_sec tm \<and> tm_sec tm < 60 \<and> 0 \<le> tm_min tm \<and> tm_min tm < 60 \<and> 0 \<le> tm_hour tm \<and> tm_hour tm < 24 \<and>
     1 \<le> tm_mon tm \<and> tm_mon tm \<le> 12 \<and> 1 \<le> tm_mday tm \<and> tm_mday tm \<le> months (tm_year tm) ! nat (tm_mon tm - 1)"

text \<open>The day of the week, 0 for Sunday; the first of January 1970 was a Thursday.\<close>

definition weekday :: "int \<Rightarrow> int \<Rightarrow> int \<Rightarrow> int" where
  "weekday y m d = (month_start y m + (d - 1) + 4) mod 7"

lemma GregorianDay_spec:
  assumes "1970 \<le> tm_year tm" "tm_year tm \<le> 2099" "1 \<le> tm_mon tm" "tm_mon tm \<le> 12" "0 \<le> tm_mday tm"
  shows "GregorianDay tm = Some (tm\<lparr>tm_wday := weekday (tm_year tm) (tm_mon tm) (tm_mday tm)\<rparr>)"
proof -
  let ?y = "tm_year tm" and ?m = "tm_mon tm" and ?d = "tm_mday tm"
  have s: "(?y - 1) sdiv 4 = (?y - 1) div 4" "(?y - 1) sdiv 100 = (?y - 1) div 100" "(?y - 1) sdiv 400 = (?y - 1) div 400"
    "?y smod 4 = ?y mod 4" "?y smod 100 = ?y mod 100" "?y smod 400 = ?y mod 400" using assms(1) by (simp_all add: sdiv_smod_pos)
  have o: "(if ?m < 1 then None else rd MonthOffset (nat (?m - 1))) = Some (MonthOffset ! nat (?m - 1))"
    using assms(3,4) by (simp add: MonthOffset_def)
  have w: "0 \<le> week_base ?y ?m + ?d" "(week_base ?y ?m + ?d) mod 7 = weekday ?y ?m ?d"
  proof -
    have "0 \<le> sum_list (take (nat (?m - 1)) (months ?y))" by (intro sum_list_nonneg) (auto simp: months_def month_days_def dest!: in_set_takeD split: if_splits)
    moreover have "0 \<le> year_start ?y" using assms(1) by (simp add: year_start_def)
    ultimately show "0 \<le> week_base ?y ?m + ?d" using week_base_start [OF assms(1-4)] assms(5) by (simp add: month_start_def)
    have "week_base ?y ?m + ?d = (month_start ?y ?m + (?d - 1) + 4) + 102737 * 7" using week_base_start [OF assms(1-4)] by simp
    then show "(week_base ?y ?m + ?d) mod 7 = weekday ?y ?m ?d" unfolding weekday_def by (simp only: mod_mult_self1)
  qed
  have "GregorianDay tm = Some (tm\<lparr>tm_wday := (week_base ?y ?m + ?d) smod 7\<rparr>)"
    unfolding GregorianDay_def s o Let_def by (simp add: week_base_def algebra_simps)
  then show ?thesis using w by (simp add: sdiv_smod_pos)
qed

lemma months_facts: "length (months y) = 12" "sum_list (months y) = (if y mod 4 = 0 then 366 else 365)"
  by (simp_all add: months_def month_days_def)

lemma to_tm_spec:
  assumes "0 \<le> tim" "tim < 2 ^ 31"
  shows "\<exists>tm'. to_tm tim tm = Some tm' \<and> valid_tm tm' \<and> 1970 \<le> tm_year tm' \<and> tm_year tm' \<le> 2038 \<and>
    tm_wday tm' = weekday (tm_year tm') (tm_mon tm') (tm_mday tm') \<and>
    month_start (tm_year tm') (tm_mon tm') + (tm_mday tm' - 1) = tim div 86400 \<and>
    (tm_hour tm' * 60 + tm_min tm') * 60 + tm_sec tm' = tim mod 86400"
proof -
  define h where "h = tim mod 86400"
  have h: "0 \<le> h" "h < 86400" "h smod 3600 = h mod 3600" by (simp_all add: h_def sdiv_smod_pos)
  obtain d y where y: "years_loop (tim div 86400) 1970 = (d, y)" by fastforce
  note ys = years_loop_spec [OF y]
  have d0: "0 \<le> tim div 86400" "tim div 86400 \<le> 24855" using assms by auto
  have b: "0 \<le> d" "d < days_in_year y" "1970 \<le> y" "year_start y + d = tim div 86400" using ys d0(1) by (simp_all add: year_start_def)
  then have "y \<le> 2038" using d0(2) by (simp add: year_start_def) 
  have ms: "months y = (if leapyear y then month_days[Suc 0 := 29] else month_days)" using b(3) by (simp add: months_def leapyear_mod)
  have "d < sum_list (drop 0 (months y))" using b(2,3) by (simp add: months_facts days_in_year_def leapyear_mod)
  from months_loop_spec [OF b(1) this]
  obtain e j where e: "months_loop (months y) d 0 = Some (e, j)" "j < 12" "0 \<le> e" "e < months y ! j" "sum_list (take j (months y)) + e = d"
    by (auto simp: months_facts)
  let ?tm = "tm\<lparr>tm_hour := h div 3600, tm_min := (h mod 3600) div 60, tm_sec := (h mod 3600) mod 60, tm_year := y, tm_mon := int j + 1, tm_mday := e + 1\<rparr>"
  have "to_tm tim tm = GregorianDay ?tm"
    using y e(1) assms(1) h unfolding to_tm_def ms
    by (cases "leapyear y") (simp_all add: sdiv_smod_pos h_def [symmetric] Let_def)
  also have "\<dots> = Some (?tm\<lparr>tm_wday := weekday y (int j + 1) (e + 1)\<rparr>)"
    using GregorianDay_spec [of ?tm] b(3) \<open>y \<le> 2038\<close> e(2,3) by simp
  finally have t: "to_tm tim tm = Some (?tm\<lparr>tm_wday := weekday y (int j + 1) (e + 1)\<rparr>)" .
  define g where "g = h mod 3600"
  have g: "0 \<le> g" "g < 3600" "0 \<le> h div 3600" "h div 3600 * 3600 + g = h" using h(1) by (simp_all add: g_def pos_imp_zdiv_nonneg_iff)
  have i: "0 \<le> g mod 60" "g mod 60 < 60" "0 \<le> g div 60" "g div 60 * 60 + g mod 60 = g" using g(1) by (simp_all add: pos_imp_zdiv_nonneg_iff)
  have lin: "(a * 60 + b) * 60 + c = k" if "a * 3600 + l = k" "b * 60 + c = l" for a b c k l :: int using that by simp
  have q: "h div 3600 < 24" "g div 60 < 60" using g(2) h(2) by simp_all
  have q3: "(h div 3600 * 60 + g div 60) * 60 + g mod 60 = h" using g(4) i(4) by (rule lin)
  have "valid_tm (?tm\<lparr>tm_wday := weekday y (int j + 1) (e + 1)\<rparr>)" using e(2-4) q g i by (simp add: valid_tm_def g_def [symmetric])
  moreover have "month_start y (int j + 1) + e = tim div 86400" using e(5) b(4) by (simp add: month_start_def)
  ultimately show ?thesis using t b(3) \<open>y \<le> 2038\<close> q3 by (intro exI [of _ "?tm\<lparr>tm_wday := weekday y (int j + 1) (e + 1)\<rparr>"]) (simp add: h_def [symmetric] g_def [symmetric])
qed

text \<open>C26: \<open>to_tm\<close> and \<open>mktime\<close> are inverse to each other. For every time a signed \<open>time_t\<close> can hold after 1970,
  \<open>to_tm\<close> ends, gives a valid date with the right day of the week, and \<open>mktime\<close>, computed by Gauss's
  formula in unsigned arithmetic that wraps around, gives back the same number of seconds.\<close>

theorem mktime_to_tm:
  assumes "0 \<le> tim" "tim < 2 ^ 31"
  shows "\<exists>tm'. to_tm tim tm = Some tm' \<and> valid_tm tm' \<and> tm_wday tm' = (tim div 86400 + 4) mod 7 \<and>
    mktime (of_int (tm_year tm')) (of_int (tm_mon tm')) (of_int (tm_mday tm')) (of_int (tm_hour tm')) (of_int (tm_min tm')) (of_int (tm_sec tm')) = of_int tim"
proof -
  obtain t where t: "to_tm tim tm = Some t" "valid_tm t" "1970 \<le> tm_year t" "tm_year t \<le> 2038"
      "tm_wday t = weekday (tm_year t) (tm_mon t) (tm_mday t)"
      "month_start (tm_year t) (tm_mon t) + (tm_mday t - 1) = tim div 86400"
      "(tm_hour t * 60 + tm_min t) * 60 + tm_sec t = tim mod 86400"
    using to_tm_spec [OF assms, of tm] by (elim exE conjE) (rule that)
  have m: "1 \<le> tm_mon t" "tm_mon t \<le> 12" using t(2) by (simp_all add: valid_tm_def)
  have "mktime (of_int (tm_year t)) (of_int (tm_mon t)) (of_int (tm_mday t)) (of_int (tm_hour t)) (of_int (tm_min t)) (of_int (tm_sec t)) =
      of_int ((month_start (tm_year t) (tm_mon t) + (tm_mday t - 1)) * 86400 + ((tm_hour t * 60 + tm_min t) * 60 + tm_sec t))"
    using t(3,4) m by (simp add: mktime_eq day_base_start)
  also have "\<dots> = of_int tim" unfolding t(6,7) by (simp only: div_mult_mod_eq)
  finally show ?thesis using t(1,2,5,6) by (intro exI [of _ t]) (simp add: weekday_def)
qed

definition no_time :: rtc_time where
  "no_time = \<lparr>tm_sec = 0, tm_min = 0, tm_hour = 0, tm_mday = 0, tm_mon = 0, tm_year = 0, tm_wday = 0, tm_yday = 0, tm_isdst = 0\<rparr>"

theorem mktime_to_tm_witness:
  "\<exists>tm'. to_tm 1700000000 no_time = Some tm' \<and> tm_wday tm' = 2"
  using mktime_to_tm [of 1700000000 no_time] by force

section \<open>The chip\<close>

text \<open>What the clock chip promises: its eight registers are read and written in one transfer, and hold what was
  written while a command runs.\<close>

definition clock_chip :: "('b \<Rightarrow> u8 list) \<Rightarrow> 'b i2c_reader \<Rightarrow> 'b i2c_writer \<Rightarrow> bool" where
  "clock_chip regs r w \<longleftrightarrow> (\<forall>bus. length (regs bus) = 8 \<and> r 0x68 0 1 8 bus = (0, regs bus, bus)) \<and>
     (\<forall>bus bs. length bs = 8 \<longrightarrow> (\<exists>bus'. w 0x68 0 1 bs bus = (0, bus') \<and> regs bus' = bs))"

lemma merge_mask: "((a :: 'a::len word) OR (x AND NOT m)) AND m = a AND m" "(x AND NOT m) AND NOT m = x AND NOT m"
  by (rule bit_word_eqI; auto simp: bit_simps)+

lemma keep_mask: "a AND m = a \<Longrightarrow> ((a :: 'a::len word) OR (x AND NOT m)) AND NOT m = x AND NOT m"
proof (rule bit_word_eqI)
  fix n
  assume "a AND m = a" "n < LENGTH('a)"
  then show "bit ((a OR (x AND NOT m)) AND NOT m) n = bit (x AND NOT m) n" by (metis bit_and_iff bit_not_iff bit_or_iff)
qed

lemma bcd_table: "list_all (\<lambda>v. bcd2bin (bin2bcd (of_int v)) = of_int v \<and> (v < 80 \<longrightarrow> bin2bcd (of_int v) AND 0x7f = bin2bcd (of_int v)) \<and>
    (v < 40 \<longrightarrow> bin2bcd (of_int v) AND 0x3f = bin2bcd (of_int v)) \<and> (v < 20 \<longrightarrow> bin2bcd (of_int v) AND 0x1f = bin2bcd (of_int v))) [0..99]"
  by code_simp

lemma bcd_roundtrip:
  assumes "0 \<le> v" "v < 100"
  shows "int (unat (bcd2bin (bin2bcd (of_int v)))) = v" "v < 80 \<Longrightarrow> bin2bcd (of_int v) AND 0x7f = bin2bcd (of_int v)"
    "v < 40 \<Longrightarrow> bin2bcd (of_int v) AND 0x3f = bin2bcd (of_int v)" "v < 20 \<Longrightarrow> bin2bcd (of_int v) AND 0x1f = bin2bcd (of_int v)"
  using bcd_table assms by (auto simp: list_all_iff uint_word_of_int_eq take_bit_int_eq_self)

lemma bcd_field:
  assumes "0 \<le> v"
  shows "v < 80 \<Longrightarrow> int (unat (bcd2bin ((bin2bcd (of_int v) OR (x AND NOT 0x7f)) AND 0x7f))) = v"
    "v < 40 \<Longrightarrow> int (unat (bcd2bin ((bin2bcd (of_int v) OR (x AND NOT 0x3f)) AND 0x3f))) = v"
    "v < 20 \<Longrightarrow> int (unat (bcd2bin ((bin2bcd (of_int v) OR (x AND NOT 0x1f)) AND 0x1f))) = v"
  unfolding merge_mask using assms bcd_roundtrip [of v] by simp_all

lemma bcd_flags:
  assumes "0 \<le> v"
  shows "v < 80 \<Longrightarrow> (bin2bcd (of_int v) OR (x AND NOT 0x7f)) AND NOT 0x7f = x AND NOT 0x7f"
    "v < 40 \<Longrightarrow> (bin2bcd (of_int v) OR (x AND NOT 0x3f)) AND NOT 0x3f = x AND NOT 0x3f"
    "v < 20 \<Longrightarrow> (bin2bcd (of_int v) OR (x AND NOT 0x1f)) AND NOT 0x1f = x AND NOT 0x1f"
  using assms bcd_roundtrip [of v] by (intro keep_mask; simp)+

lemma year_split: "2000 \<le> y \<Longrightarrow> y < 2100 \<Longrightarrow> y div 100 = 20 \<and> y mod 100 + 2000 = (y :: int)"
proof -
  assume y: "2000 \<le> y" "y < 2100"
  then have "y div 100 = 20" by (simp add: div_pos_geq)
  then show ?thesis using mult_div_mod_eq [of 100 y] by simp
qed

text \<open>A time the chip can hold.\<close>

definition chip_tm :: "rtc_time \<Rightarrow> bool" where
  "chip_tm tm \<longleftrightarrow> 0 \<le> tm_sec tm \<and> tm_sec tm < 80 \<and> 0 \<le> tm_min tm \<and> tm_min tm < 80 \<and> 0 \<le> tm_hour tm \<and> tm_hour tm < 40 \<and>
     0 \<le> tm_mday tm \<and> tm_mday tm < 40 \<and> 0 \<le> tm_mon tm \<and> tm_mon tm < 20 \<and> 2000 \<le> tm_year tm \<and> tm_year tm < 2100 \<and> 0 \<le> tm_wday tm \<and> tm_wday tm < 7"

definition same_time :: "rtc_time \<Rightarrow> rtc_time \<Rightarrow> bool" where
  "same_time t u \<longleftrightarrow> tm_sec t = tm_sec u \<and> tm_min t = tm_min u \<and> tm_hour t = tm_hour u \<and> tm_mday t = tm_mday u \<and> tm_mon t = tm_mon u \<and>
     tm_year t = tm_year u \<and> tm_wday t = tm_wday u"

text \<open>The bits of the registers that are not part of the time.\<close>

definition flag_bits :: "u8 list \<Rightarrow> u8 list" where
  "flag_bits rs = map (\<lambda>(m, r). r AND NOT m) (zip [0x7f, 0x7f, 0x3f, 0x07, 0x3f, 0x1f] (tl rs))"

lemma rtc_set_get:
  assumes "clock_chip regs r w" "chip_tm tm"
  shows "\<exists>bus'. rtc_set r w tm bus = Some (0, [], bus') \<and> (\<forall>tm0. \<exists>tm'. rtc_get r tm0 bus' = Some (0, tm', bus') \<and> same_time tm' tm) \<and>
    flag_bits (regs bus') = flag_bits (regs bus)"
proof -
  have c: "length (regs b) = 8" "r 0x68 0 1 8 b = (0, regs b, b)" for b using assms(1) by (simp_all add: clock_chip_def)
  obtain r0 r1 r2 r3 r4 r5 r6 r7 where rs: "regs bus = [r0, r1, r2, r3, r4, r5, r6, r7]"
    using c(1) [of bus] by (auto simp: numeral_eq_Suc length_Suc_conv)
  define new where "new = [0, bin2bcd (of_int (tm_sec tm)) OR (r1 AND NOT 0x7f), bin2bcd (of_int (tm_min tm)) OR (r2 AND NOT 0x7f),
       bin2bcd (of_int (tm_hour tm)) OR (r3 AND NOT 0x3f), (of_int (tm_wday tm) AND 0x07) OR (r4 AND NOT 0x07),
       bin2bcd (of_int (tm_mday tm)) OR (r5 AND NOT 0x3f), bin2bcd (of_int (tm_mon tm)) OR (r6 AND NOT 0x1f),
       bin2bcd (of_int (tm_year tm smod 100))]"
  have m: "rtc_merge tm (regs bus) = Some new" by (simp add: rtc_merge_def rs new_def)
  have "length new = 8" by (simp add: new_def)
  then obtain bus' where b: "w 0x68 0 1 new bus = (0, bus')" "regs bus' = new" using assms(1) unfolding clock_chip_def by blast
  have s: "rtc_set r w tm bus = Some (0, [], bus')" unfolding rtc_set_def c(2) Let_def case_prod_conv using b(1) m by simp
  have y: "0 \<le> tm_year tm smod 100" "tm_year tm smod 100 < 100" "tm_year tm smod 100 + 2000 = tm_year tm"
    using assms(2) year_split [of "tm_year tm"] by (simp_all add: chip_tm_def sdiv_smod_pos)
  have "list_all (\<lambda>v. int (unat ((of_int v :: u8) AND 0x07)) = v) [0..6]" by code_simp
  then have wd: "int (unat ((of_int (tm_wday tm) :: u8) AND 0x07)) = tm_wday tm" using assms(2) by (simp add: list_all_iff chip_tm_def)
  have wf: "((of_int (tm_wday tm) AND 0x07) OR (r4 AND NOT 0x07)) AND NOT 0x07 = r4 AND NOT (0x07 :: u8)" by (rule keep_mask) (simp add: and.assoc)
  have wk: "((of_int (tm_wday tm) AND 0x07) OR (r4 AND NOT 0x07)) AND 0x07 = (of_int (tm_wday tm) :: u8) AND 0x07"
    unfolding merge_mask by (simp add: and.assoc)
  have g: "\<exists>tm'. rtc_get r tm0 bus' = Some (0, tm', bus') \<and> same_time tm' tm" for tm0
    using assms(2) y wd wk unfolding rtc_get_def c(2) b(2)
    by (simp add: new_def chip_tm_def same_time_def bcd_field [simplified] bcd_roundtrip(1) [simplified])
  have "flag_bits new = flag_bits (regs bus)"
    using assms(2) unfolding flag_bits_def new_def rs by (simp add: chip_tm_def bcd_flags [simplified] wf [simplified])
  then show ?thesis using s g b(2) by auto
qed

section \<open>The command\<close>

definition two_digits :: "int \<Rightarrow> string" where
  "two_digits n = [char_of_byte (0x30 + of_int (n div 10)), char_of_byte (0x30 + of_int (n mod 10))]"

text \<open>The argument \<open>MMDDhhmmCCYY.ss\<close> for a time.\<close>

definition date_text :: "rtc_time \<Rightarrow> string" where
  "date_text tm = two_digits (tm_mon tm) @ two_digits (tm_mday tm) @ two_digits (tm_hour tm) @ two_digits (tm_min tm) @
     two_digits (tm_year tm div 100) @ two_digits (tm_year tm mod 100) @ ''.'' @ two_digits (tm_sec tm)"

lemma digits_table:
  "list_all (\<lambda>k. \<not> (0x30 + of_int k :: u8) < 0x30 \<and> \<not> 0x39 < (0x30 + of_int k :: u8) \<and> unat (of_int k :: u8) = nat k \<and> (0x30 + of_int k :: u8) \<noteq> 0x2e) [0..9]"
  by code_simp

lemma cnvrt2_digits:
  assumes "0 \<le> n" "n < 100"
  shows "cnvrt2 (two_digits n @ s) = Some n" "CHR ''.'' \<notin> set (two_digits n)"
proof -
  have d: "n div 10 \<in> set [0..9]" "n mod 10 \<in> set [0..9]" using assms by auto
  have b: "byte_of CHR ''0'' = 0x30" "byte_of CHR ''9'' = 0x39" "byte_of CHR ''.'' = 0x2e" by (simp_all add: byte_of_def)
  have k: "\<not> (0x30 + of_int k :: u8) < 0x30" "\<not> 0x39 < (0x30 + of_int k :: u8)" "unat (of_int k :: u8) = nat k" "(0x30 + of_int k :: u8) \<noteq> 0x2e"
    if "k \<in> set [0..9]" for k using digits_table that by (auto simp: list_all_iff)
  have "10 * (n div 10) + n mod 10 = n" by (rule mult_div_mod_eq)
  then show "cnvrt2 (two_digits n @ s) = Some n"
    using k [OF d(1)] k [OF d(2)] d by (simp add: cnvrt2_def two_digits_def b)
  have "char_of_byte (0x30 + of_int k) \<noteq> CHR ''.''" if "k \<in> set [0..9]" for k
    using k(4) [OF that] b(3) byte_of_char_of [of "0x30 + of_int k"] by metis
  then show "CHR ''.'' \<notin> set (two_digits n)" using d by (auto simp: two_digits_def dest: sym)
qed

lemma two_digits_drop [simp]:
  "length (two_digits a) = 2" "drop 2 (two_digits a @ s) = s" "drop 4 (two_digits a @ two_digits b @ s) = s"
  "drop 6 (two_digits a @ two_digits b @ two_digits c @ s) = s" "drop 8 (two_digits a @ two_digits b @ two_digits c @ two_digits d @ s) = s"
  "drop 10 (two_digits a @ two_digits b @ two_digits c @ two_digits d @ two_digits e @ s) = s"
  by (simp_all add: two_digits_def)

lemma date_seconds_text:
  assumes "CHR ''.'' \<notin> set d" "0 \<le> s" "s < 100"
  shows "date_seconds (d @ CHR ''.'' # two_digits s) tm = Some (d, tm\<lparr>tm_sec := s\<rparr>)"
proof -
  have "takeWhile (\<lambda>c. c \<noteq> CHR ''.'') (d @ CHR ''.'' # two_digits s) = d" using assms(1) by (subst takeWhile_append2) auto
  moreover have "cnvrt2 (two_digits s) = Some s" using cnvrt2_digits(1) [OF assms(2,3), of "[]"] by simp
  ultimately show ?thesis by (simp add: date_seconds_def)
qed

lemma months_bounds: "1 \<le> m \<Longrightarrow> m \<le> 12 \<Longrightarrow> months y ! nat (m - 1) \<le> (if m = 2 then 29 else 31)"
  by (cases m rule: month_cases) (simp_all add: months_def month_days_def)

lemma mk_date_text:
  assumes "valid_tm tm" "2000 \<le> tm_year tm" "tm_year tm < 2100"
  shows "\<exists>tm'. mk_date (date_text tm) tm0 = Some (Some tm') \<and> same_time tm' (tm\<lparr>tm_wday := weekday (tm_year tm) (tm_mon tm) (tm_mday tm)\<rparr>)"
proof -
  define y where "y = tm_year tm mod 100"
  define d where "d = two_digits (tm_mon tm) @ two_digits (tm_mday tm) @ two_digits (tm_hour tm) @ two_digits (tm_min tm) @ two_digits 20 @ two_digits y"
  have b: "0 \<le> tm_sec tm" "tm_sec tm < 100" "0 \<le> tm_min tm" "tm_min tm \<le> 59" "0 \<le> tm_hour tm" "tm_hour tm \<le> 23" "1 \<le> tm_mon tm" "tm_mon tm \<le> 12"
    "1 \<le> tm_mday tm" "tm_mday tm \<le> (if tm_mon tm = 2 then 29 else 31)"
    using assms(1) months_bounds [of "tm_mon tm" "tm_year tm"] by (auto simp: valid_tm_def)
  then have md: "tm_mday tm < 100" by (simp split: if_splits)
  have y: "0 \<le> y" "y < 100" "tm_year tm div 100 = 20" "y + 2000 = tm_year tm" using year_split [OF assms(2,3)] by (simp_all add: y_def)
  have "CHR ''.'' \<notin> set d" using b md y unfolding d_def by (simp add: cnvrt2_digits)
  moreover have "date_text tm = d @ CHR ''.'' # two_digits (tm_sec tm)" by (simp add: date_text_def d_def y(3) y_def)
  ultimately have s: "date_seconds (date_text tm) tm0 = Some (d, tm0\<lparr>tm_sec := tm_sec tm\<rparr>)" using date_seconds_text b(1,2) by simp
  have l: "length d = 12" by (simp add: d_def)
  have c: "cnvrt2 (two_digits y) = Some y" using cnvrt2_digits(1) [OF y(1,2), of "[]"] by simp
  have yr: "date_year d t = Some (t\<lparr>tm_year := tm_year tm\<rparr>)" for t
    unfolding date_year_def l unfolding d_def using y(4) by (simp add: cnvrt2_digits c)
  have f: "date_field (two_digits v @ r) hi = Some v" if "0 \<le> v" "v < 100" "v \<le> hi" for v r hi
    using that by (simp add: date_field_def cnvrt2_digits)
  have fs: "date_field d 12 = Some (tm_mon tm)" "date_field (drop 2 d) (if tm_mon tm = 2 then 29 else 31) = Some (tm_mday tm)"
    "date_field (drop 4 d) 23 = Some (tm_hour tm)" "date_field (drop 6 d) 59 = Some (tm_min tm)"
    using b md by (simp_all add: d_def f)
  let ?t = "tm0\<lparr>tm_sec := tm_sec tm, tm_year := tm_year tm, tm_mon := tm_mon tm, tm_mday := tm_mday tm, tm_hour := tm_hour tm, tm_min := tm_min tm\<rparr>"
  have "mk_date (date_text tm) tm0 = map_option Some (GregorianDay ?t)"
    unfolding mk_date_def s using fs l by (simp add: yr)
  also have "GregorianDay ?t = Some (?t\<lparr>tm_wday := weekday (tm_year tm) (tm_mon tm) (tm_mday tm)\<rparr>)"
    using GregorianDay_spec [of ?t] assms(2,3) b by simp
  finally show ?thesis by (simp add: same_time_def)
qed

lemma show_date_total: "\<exists>s. show_date tm = Some s"
  by (simp add: show_date_def sprintf_def conv_simps flag_set_def)

lemma show_date_same: "same_time t u \<Longrightarrow> show_date t = show_date u"
  unfolding show_date_def same_time_def by (elim conjE) (simp only:)

text \<open>C27: \<open>date MMDDhhmmCCYY.ss\<close> sets the clock. For every valid time of this century, whatever the clock and the
  variable on the stack held before, the command returns 0 and the clock then shows that time, with the
  right day of the week; the control bits that share registers with the time are unchanged.\<close>

theorem date_sets_clock:
  assumes "clock_chip regs r w" "valid_tm tm" "2000 \<le> tm_year tm" "tm_year tm < 2100"
  shows "\<exists>out bus' tm'. do_date usage r w [cmd, date_text tm] tm0 bus = Some (0, out, bus') \<and> rtc_get r no_time bus' = Some (0, tm', bus') \<and>
    show_date tm' = Some out \<and> same_time tm' (tm\<lparr>tm_wday := weekday (tm_year tm) (tm_mon tm) (tm_mday tm)\<rparr>) \<and> flag_bits (regs bus') = flag_bits (regs bus)"
proof -
  let ?tm = "tm\<lparr>tm_wday := weekday (tm_year tm) (tm_mon tm) (tm_mday tm)\<rparr>"
  have c: "length (regs b) = 8" "r 0x68 0 1 8 b = (0, regs b, b)" for b using assms(1) by (simp_all add: clock_chip_def)
  obtain t1 where t1: "rtc_get r tm0 bus = Some (0, t1, bus)" unfolding rtc_get_def c(2) by (simp add: c(1))
  obtain t2 where t2: "mk_date (date_text tm) t1 = Some (Some t2)" "same_time t2 ?tm" using mk_date_text [OF assms(2-4), of t1] by blast
  have "months (tm_year tm) ! nat (tm_mon tm - 1) \<le> 31" "tm_mon tm \<le> 12" using assms(2) months_bounds [of "tm_mon tm" "tm_year tm"] by (auto simp: valid_tm_def split: if_splits)
  then have ch: "chip_tm t2" using t2(2) assms(2-4) by (simp add: chip_tm_def same_time_def valid_tm_def weekday_def)
  obtain bus' where b: "rtc_set r w t2 bus = Some (0, [], bus')" "\<And>tm0. \<exists>tm'. rtc_get r tm0 bus' = Some (0, tm', bus') \<and> same_time tm' t2"
      "flag_bits (regs bus') = flag_bits (regs bus)" using rtc_set_get [OF assms(1) ch, of bus] by blast
  obtain t3 where t3: "rtc_get r t2 bus' = Some (0, t3, bus')" "same_time t3 t2" using b(2) by blast
  obtain t4 where t4: "rtc_get r no_time bus' = Some (0, t4, bus')" "same_time t4 t2" using b(2) by blast
  obtain out where out: "show_date t3 = Some out" using show_date_total by blast
  have "show_date t4 = Some out" using out show_date_same [OF t3(2)] show_date_same [OF t4(2)] by simp
  moreover have "date_text tm \<noteq> ''reset''" by (simp add: date_text_def two_digits_def)
  then have "do_date usage r w [cmd, date_text tm] tm0 bus = Some (0, out, bus')"
    using t1 t2(1) b(1) t3(1) out by (simp add: do_date_def date_print_def)
  moreover have "same_time t4 ?tm" using t4(2) t2(2) by (simp add: same_time_def)
  ultimately show ?thesis using t4(1) b(3) by blast
qed

definition chip_write :: "u8 list i2c_writer" where
  "chip_write chip addr alen bs bus = (0, bs)"

text \<open>A chip of eight registers, padded where a state has fewer.\<close>

definition chip_regs :: "u8 list \<Rightarrow> u8 list" where
  "chip_regs bus = take 8 (bus @ replicate 8 0)"

lemma sample_chip: "clock_chip chip_regs (\<lambda>c a l n bus. (0, chip_regs bus, bus)) chip_write"
  by (auto simp: clock_chip_def chip_regs_def chip_write_def min_def)

definition new_year :: rtc_time where
  "new_year = no_time\<lparr>tm_mday := 29, tm_mon := 2, tm_year := 2024, tm_hour := 12\<rparr>"

theorem date_sets_clock_witness:
  "\<exists>out bus' tm'. do_date [] (\<lambda>c a l n bus. (0, chip_regs bus, bus)) chip_write [''date'', ''022912002024.00''] no_time [] = Some (0, out, bus') \<and>
    rtc_get (\<lambda>c a l n bus. (0, chip_regs bus, bus)) no_time bus' = Some (0, tm', bus') \<and> tm_wday tm' = 4"
proof -
  have v: "valid_tm new_year" "2000 \<le> tm_year new_year" "tm_year new_year < 2100" by code_simp+
  have "date_text new_year = ''022912002024.00''" "weekday 2024 2 29 = 4" by code_simp+
  then show ?thesis using date_sets_clock [OF sample_chip v, of "[]" "''date''" no_time "[]"] by (auto simp: same_time_def new_year_def no_time_def)
qed

section \<open>Behaviour to know about\<close>

text \<open>Seconds are not checked: from 80 on they set the bit that stops the clock.\<close>

lemma seconds_stop_clock:
  "map_option (\<lambda>t. map_option tm_sec t) (mk_date ''010112002024.85'' no_time) = Some (Some 85)"
  "map_option (\<lambda>rs. rs ! 1 AND 0x80) (rtc_merge (no_time\<lparr>tm_sec := 85\<rparr>) (replicate 8 0)) = Some 0x80"
  by code_simp+

text \<open>Month 0 is accepted and the table of offsets is read in front of its start.\<close>

lemma month_zero_reads_outside: "mk_date ''000112002024'' no_time = None"
  by code_simp

text \<open>A date that is rejected leaves the command with the result 0.\<close>

lemma bad_date_succeeds:
  assumes "clock_chip regs r w"
  shows "do_date usage r w [cmd, ''13011200''] tm0 bus = Some (0, ''## Bad date format'' @ [CHR 0x0a], bus)"
proof -
  have c: "length (regs b) = 8" "r 0x68 0 1 8 b = (0, regs b, b)" for b using assms by (simp_all add: clock_chip_def)
  have "mk_date ''13011200'' t = Some None" for t
  proof -
    have "cnvrt2 ''13011200'' = Some 13" by code_simp
    then show ?thesis by (simp add: mk_date_def date_seconds_def date_year_def date_field_def)
  qed
  moreover obtain t1 where "rtc_get r tm0 bus = Some (0, t1, bus)" unfolding rtc_get_def c(2) by (simp add: c(1))
  ultimately show ?thesis by (simp add: do_date_def)
qed

text \<open>The chip holds two digits of the year, and every century is read as this one.\<close>

lemma century_lost:
  "map_option (\<lambda>rs. rs ! 7) (rtc_merge (no_time\<lparr>tm_year := 1999\<rparr>) (replicate 8 0)) = map_option (\<lambda>rs. rs ! 7) (rtc_merge (no_time\<lparr>tm_year := 2099\<rparr>) (replicate 8 0))"
  by code_simp

end
