(* ===== verification/Disk.thy ===== *)
theory Disk
  imports VsprintfSpec
begin

text \<open>
  Block devices and partitions, include/part.h. A device is a record with the fields of \<open>block_dev_desc_t\<close> that the
  partition code uses. Its driver is the function \<open>block_read\<close>, a field that the partition code calls: it takes the first
  block, the number of blocks and the contents of the buffer, and returns the number of blocks read and the new contents.
  Buffers are lists of bytes; an access outside of one is \<open>None\<close>.
\<close>

record block_dev_desc =
  dd_if_type :: u32
  dd_dev :: u32
  dd_part_type :: u8
  dd_target :: u8
  dd_lun :: u8
  dd_type :: u8
  dd_removable :: u8
  dd_lba48 :: u8
  dd_lba :: u32
  dd_blksz :: u32
  dd_vendor :: string
  dd_product :: string
  dd_revision :: string
  block_read :: "u32 \<Rightarrow> u32 \<Rightarrow> u8 list \<Rightarrow> u32 \<times> u8 list"

abbreviation (input) "IF_TYPE_UNKNOWN \<equiv> (0 :: u32)"
abbreviation (input) "IF_TYPE_IDE \<equiv> (1 :: u32)"
abbreviation (input) "IF_TYPE_SCSI \<equiv> (2 :: u32)"
abbreviation (input) "IF_TYPE_ATAPI \<equiv> (3 :: u32)"
abbreviation (input) "IF_TYPE_USB \<equiv> (4 :: u32)"
abbreviation (input) "IF_TYPE_DOC \<equiv> (5 :: u32)"
abbreviation (input) "IF_TYPE_MMC \<equiv> (6 :: u32)"
abbreviation (input) "IF_TYPE_SD \<equiv> (7 :: u32)"
abbreviation (input) "IF_TYPE_SATA \<equiv> (8 :: u32)"

abbreviation (input) "PART_TYPE_UNKNOWN \<equiv> (0 :: u8)"
abbreviation (input) "PART_TYPE_DOS \<equiv> (2 :: u8)"
abbreviation (input) "PART_TYPE_ISO \<equiv> (3 :: u8)"
abbreviation (input) "PART_TYPE_AMIGA \<equiv> (4 :: u8)"

text \<open>The name and the type are the characters in front of the terminating NUL.\<close>

record disk_partition =
  pi_start :: u32
  pi_size :: u32
  pi_blksz :: u32
  pi_name :: string
  pi_type :: string

section \<open>Text and bytes\<close>

abbreviation (input) nl :: string where "nl \<equiv> [CHR 0x0a]"
abbreviation (input) tab :: string where "tab \<equiv> [CHR 0x09]"

text \<open>What \<open>printf\<close> prints; none of the formats refers to memory.\<close>

definition printf :: "string \<Rightarrow> vararg list \<Rightarrow> string option" where
  "printf fmt args = map_option fst (sprintf (\<lambda>_. 0) fmt args)"

text \<open>The characters at the start of a byte list up to its NUL, as \<open>%s\<close> prints them; the big-endian longword at an
  offset; \<open>n\<close> bytes at an offset.\<close>

definition text_of :: "u8 list \<Rightarrow> string" where
  "text_of bs = map char_of_byte (takeWhile (\<lambda>b. b \<noteq> 0) bs)"

definition get32 :: "u8 list \<Rightarrow> nat \<Rightarrow> u32 option" where
  "get32 buf i = do { a \<leftarrow> rd buf i; b \<leftarrow> rd buf (i + 1); c \<leftarrow> rd buf (i + 2); d \<leftarrow> rd buf (i + 3); Some (load_be32 a b c d) }"

definition bytes_at :: "u8 list \<Rightarrow> nat \<Rightarrow> nat \<Rightarrow> u8 list option" where
  "bytes_at buf i n = (if i + n \<le> length buf then Some (take n (drop i buf)) else None)"

text \<open>\<open>le32_to_int\<close> of part_dos.c and part_iso.c: four bytes, the lowest first. The sum of the shifted bytes is
  taken modulo \<open>2 ^ 32\<close>.\<close>

definition le32_to_int :: "u8 list \<Rightarrow> u32 option" where
  "le32_to_int le32 = do {
     a \<leftarrow> rd le32 3; b \<leftarrow> rd le32 2; c \<leftarrow> rd le32 1; d \<leftarrow> rd le32 0;
     Some (push_bit 24 (ucast a) + push_bit 16 (ucast b) + push_bit 8 (ucast c) + ucast d)
   }"

text \<open>The name of a partition, as both part_dos.c and part_iso.c build it.\<close>

definition part_name :: "block_dev_desc \<Rightarrow> int \<Rightarrow> string option" where
  "part_name dev part_num =
     (let args = [VInt (97 + dd_dev dev), VInt (of_int part_num)] in
      if dd_if_type dev = IF_TYPE_IDE \<or> dd_if_type dev = IF_TYPE_SATA \<or> dd_if_type dev = IF_TYPE_ATAPI then printf ''hd%c%d'' args
      else if dd_if_type dev = IF_TYPE_SCSI then printf ''sd%c%d'' args
      else if dd_if_type dev = IF_TYPE_USB then printf ''usbd%c%d'' args
      else if dd_if_type dev = IF_TYPE_DOC then printf ''docd%c%d'' args
      else printf ''xx%c%d'' args)"

section \<open>Devices with known contents\<close>

text \<open>The number that bytes stand for, the lowest first.\<close>

fun le_value :: "u8 list \<Rightarrow> nat" where
  "le_value [] = 0"
| "le_value (b # bs) = unat b + 256 * le_value bs"

text \<open>Block \<open>s\<close> of the device can be read and holds the bytes \<open>blk\<close>.\<close>

definition block_is :: "block_dev_desc \<Rightarrow> u32 \<Rightarrow> u8 list \<Rightarrow> bool" where
  "block_is dev s blk \<longleftrightarrow> (\<forall>buf. length blk \<le> length buf \<longrightarrow> block_read dev s 1 buf = (1, blk @ drop (length blk) buf))"

lemma block_isD: "block_is dev s blk \<Longrightarrow> length blk \<le> length buf \<Longrightarrow> block_read dev s 1 buf = (1, blk @ drop (length blk) buf)"
  by (simp add: block_is_def)

text \<open>A device whose blocks are given by a function; used for examples.\<close>

definition make_dev :: "(u32 \<Rightarrow> u8 list) \<Rightarrow> block_dev_desc" where
  "make_dev blk = \<lparr>dd_if_type = 8, dd_dev = 0, dd_part_type = 0, dd_target = 0, dd_lun = 0, dd_type = 0, dd_removable = 0, dd_lba48 = 0,
     dd_lba = 10000, dd_blksz = 512, dd_vendor = [], dd_product = [], dd_revision = [],
     block_read = (\<lambda>s n buf. (1, blk s @ drop (length (blk s)) buf))\<rparr>"

lemma make_dev_block: "block_is (make_dev blk) s (blk s)"
  by (simp add: block_is_def make_dev_def)

lemma rd_append_left: "rd xs i = Some v \<Longrightarrow> rd (xs @ ys) i = Some v"
  by (auto simp: rd_def nth_append split: if_splits)

lemma get32_append: "get32 xs i = Some v \<Longrightarrow> get32 (xs @ ys) i = Some v"
  by (auto simp: get32_def bind_eq_Some_conv rd_append_left)

lemma bytes_at_append: "bytes_at xs i n = Some bs \<Longrightarrow> bytes_at (xs @ ys) i n = Some bs"
  by (auto simp: bytes_at_def split: if_splits)

lemma get32_Some: "i + 4 \<le> length xs \<Longrightarrow> \<exists>w. get32 xs i = Some w"
  by (simp add: get32_def)

lemma le32_value: "length bs = 4 \<Longrightarrow> le32_to_int bs = Some (of_nat (le_value bs))"
proof -
  assume "length bs = 4"
  then obtain a b c d where "bs = [a, b, c, d]" by (auto simp: length_Suc_conv numeral_eq_Suc)
  moreover have "push_bit 24 (ucast d) + push_bit 16 (ucast c) + push_bit 8 (ucast b) + ucast a = (of_nat (le_value [a, b, c, d]) :: u32)"
    by (simp add: push_bit_eq_mult algebra_simps)
  ultimately show ?thesis by (simp add: le32_to_int_def rd_def)
qed

lemma part_name_total: "\<exists>nm. part_name dev n = Some nm"
  by (simp add: part_name_def printf_def sprintf_def conv_simps flag_set_def conv_char_def Let_def)

end
