(* ===== verification/PartDos.thy ===== *)
theory PartDos
  imports Disk
begin

text \<open>
  disk/part_dos.c: the partition table of a PC, four primary entries in block 0 and a chain of tables for the logical
  partitions. \<open>stk\<close> stands for the uninitialised buffer on the stack. Sector numbers are machine words, \<open>None\<close> is an access
  outside a buffer or a recursion that never ends; what is printed is part of the result.
\<close>

section \<open>The table\<close>

record dos_partition =
  boot_ind :: u8
  dp_head :: u8
  dp_sector :: u8
  dp_cyl :: u8
  sys_ind :: u8
  end_head :: u8
  end_sector :: u8
  end_cyl :: u8
  start4 :: "u8 list"
  size4 :: "u8 list"

abbreviation (input) "DOS_PART_TBL_OFFSET \<equiv> (0x1be :: nat)"
abbreviation (input) "DOS_PART_MAGIC_OFFSET \<equiv> (0x1fe :: nat)"
abbreviation (input) "DOS_PBR_FSTYPE_OFFSET \<equiv> (0x36 :: nat)"
abbreviation (input) "DOS_PBR_MEDIA_TYPE_OFFSET \<equiv> (0x15 :: nat)"
abbreviation (input) "DOS_MBR \<equiv> (0 :: int)"
abbreviation (input) "DOS_PBR \<equiv> (1 :: int)"

definition is_extended :: "u8 \<Rightarrow> bool" where
  "is_extended p \<longleftrightarrow> p = 0x5 \<or> p = 0xf \<or> p = 0x85"

text \<open>The entry \<open>i\<close> of the table in a buffer, and the four entries the loops run over.\<close>

definition dos_entry :: "u8 list \<Rightarrow> nat \<Rightarrow> dos_partition option" where
  "dos_entry buffer i = do {
     e \<leftarrow> bytes_at buffer (DOS_PART_TBL_OFFSET + 16 * i) 16;
     Some \<lparr>boot_ind = e ! 0, dp_head = e ! 1, dp_sector = e ! 2, dp_cyl = e ! 3, sys_ind = e ! 4, end_head = e ! 5,
       end_sector = e ! 6, end_cyl = e ! 7, start4 = take 4 (drop 8 e), size4 = take 4 (drop 12 e)\<rparr>
   }"

definition dos_entries :: "u8 list \<Rightarrow> dos_partition list option" where
  "dos_entries buffer = do {
     a \<leftarrow> dos_entry buffer 0; b \<leftarrow> dos_entry buffer 1; c \<leftarrow> dos_entry buffer 2; d \<leftarrow> dos_entry buffer 3;
     Some [a, b, c, d]
   }"

definition test_block_type :: "u8 list \<Rightarrow> int option" where
  "test_block_type buffer = do {
     m0 \<leftarrow> rd buffer (DOS_PART_MAGIC_OFFSET + 0);
     m1 \<leftarrow> rd buffer (DOS_PART_MAGIC_OFFSET + 1);
     if m0 \<noteq> 0x55 \<or> m1 \<noteq> 0xaa then Some (-1)
     else do {
       fs \<leftarrow> bytes_at buffer DOS_PBR_FSTYPE_OFFSET 3;
       Some (if fs = map byte_of ''FAT'' then DOS_PBR else DOS_MBR)
     }
   }"

definition test_part_dos :: "block_dev_desc \<Rightarrow> u8 list \<Rightarrow> int option" where
  "test_part_dos dev stk = do {
     let (n, buffer) = block_read dev 0 1 stk;
     if n \<noteq> 1 then Some (-1)
     else do {
       m0 \<leftarrow> rd buffer (DOS_PART_MAGIC_OFFSET + 0);
       m1 \<leftarrow> rd buffer (DOS_PART_MAGIC_OFFSET + 1);
       Some (if m0 \<noteq> 0x55 \<or> m1 \<noteq> 0xaa then -1 else 0)
     }
   }"

section \<open>Looking up a partition\<close>

definition part_counted :: "u32 \<Rightarrow> dos_partition \<Rightarrow> bool" where
  "part_counted ext_part_sector pt \<longleftrightarrow> ext_part_sector = 0 \<or> (sys_ind pt \<noteq> 0 \<and> \<not> is_extended (sys_ind pt))"

definition fill_info :: "block_dev_desc \<Rightarrow> u32 \<Rightarrow> int \<Rightarrow> dos_partition \<Rightarrow> disk_partition \<Rightarrow> disk_partition option" where
  "fill_info dev ext_part_sector part_num pt info = do {
     start \<leftarrow> le32_to_int (start4 pt);
     sz \<leftarrow> le32_to_int (size4 pt);
     nm \<leftarrow> part_name dev part_num;
     Some (info\<lparr>pi_blksz := 512, pi_start := ext_part_sector + start, pi_size := sz, pi_name := nm, pi_type := ''U-Boot''\<rparr>)
   }"

text \<open>The first loop over the entries: the partition, or the number reached.\<close>

fun find_entry :: "block_dev_desc \<Rightarrow> u32 \<Rightarrow> int \<Rightarrow> disk_partition \<Rightarrow> int \<Rightarrow> dos_partition list \<Rightarrow> (disk_partition + int) option" where
  "find_entry dev ext_part_sector which_part info part_num [] = Some (Inr part_num)"
| "find_entry dev ext_part_sector which_part info part_num (pt # pts) =
     (if boot_ind pt AND NOT 0x80 = 0 \<and> sys_ind pt \<noteq> 0 \<and> part_num = which_part \<and> \<not> is_extended (sys_ind pt)
      then map_option Inl (fill_info dev ext_part_sector part_num pt info)
      else find_entry dev ext_part_sector which_part info (if part_counted ext_part_sector pt then part_num + 1 else part_num) pts)"

definition bad_signature :: "u8 \<Rightarrow> u8 \<Rightarrow> string option" where
  "bad_signature m0 m1 = printf (''bad MBR sector signature 0x%02x%02x'' @ nl) [VInt (ucast m0), VInt (ucast m1)]"

definition cant_read :: "block_dev_desc \<Rightarrow> u32 \<Rightarrow> string option" where
  "cant_read dev sector = printf (''** Can't read partition table on %d:%d **'' @ nl) [VInt (dd_dev dev), VInt sector]"

partial_function (option) get_partition_info_extended ::
  "block_dev_desc \<Rightarrow> u8 list \<Rightarrow> u32 \<Rightarrow> u32 \<Rightarrow> int \<Rightarrow> int \<Rightarrow> disk_partition \<Rightarrow> (int \<times> disk_partition \<times> string) option" where
  "get_partition_info_extended dev stk ext_part_sector relative part_num which_part info =
     (let (n, buffer) = block_read dev ext_part_sector 1 stk in
      if n \<noteq> 1 then do { out \<leftarrow> cant_read dev ext_part_sector; Some (-1, info, out) }
      else do {
        m0 \<leftarrow> rd buffer DOS_PART_MAGIC_OFFSET;
        m1 \<leftarrow> rd buffer (DOS_PART_MAGIC_OFFSET + 1);
        if m0 \<noteq> 0x55 \<or> m1 \<noteq> 0xaa then do { out \<leftarrow> bad_signature m0 m1; Some (-1, info, out) }
        else do {
          pts \<leftarrow> dos_entries buffer;
          r \<leftarrow> find_entry dev ext_part_sector which_part info part_num pts;
          case r of
            Inl info \<Rightarrow> Some (0, info, [])
          | Inr part_num \<Rightarrow>
              (case find (\<lambda>pt. is_extended (sys_ind pt)) pts of
                 None \<Rightarrow> Some (-1, info, [])
               | Some pt \<Rightarrow> do {
                   start \<leftarrow> le32_to_int (start4 pt);
                   let lba_start = start + relative;
                   get_partition_info_extended dev stk lba_start (if ext_part_sector = 0 then lba_start else relative) part_num which_part info
                 })
        }
      })"

definition get_partition_info_dos :: "block_dev_desc \<Rightarrow> u8 list \<Rightarrow> int \<Rightarrow> disk_partition \<Rightarrow> (int \<times> disk_partition \<times> string) option" where
  "get_partition_info_dos dev stk part info = get_partition_info_extended dev stk 0 0 1 part info"

section \<open>Printing the table\<close>

definition print_one_part :: "dos_partition \<Rightarrow> u32 \<Rightarrow> int \<Rightarrow> string option" where
  "print_one_part p ext_part_sector part_num = do {
     start \<leftarrow> le32_to_int (start4 p);
     lba_size \<leftarrow> le32_to_int (size4 p);
     printf (''%5d'' @ tab @ tab @ ''%10d'' @ tab @ ''%10d'' @ tab @ ''%2x%s'' @ nl)
       [VInt (of_int part_num), VInt (ext_part_sector + start), VInt lba_size, VInt (ucast (sys_ind p)),
        VStr (Some (if is_extended (sys_ind p) then '' Extd'' else []))]
   }"

fun print_entries :: "u32 \<Rightarrow> int \<Rightarrow> dos_partition list \<Rightarrow> (string \<times> int) option" where
  "print_entries ext_part_sector part_num [] = Some ([], part_num)"
| "print_entries ext_part_sector part_num (pt # pts) = do {
     line \<leftarrow> (if sys_ind pt \<noteq> 0 \<and> (ext_part_sector = 0 \<or> \<not> is_extended (sys_ind pt))
              then print_one_part pt ext_part_sector part_num else Some []);
     (out, n) \<leftarrow> print_entries ext_part_sector (if part_counted ext_part_sector pt then part_num + 1 else part_num) pts;
     Some (line @ out, n)
   }"

text \<open>The second loop over the entries: the tables to print next, with the arguments of the recursive calls.\<close>

fun extended_calls :: "u32 \<Rightarrow> u32 \<Rightarrow> int \<Rightarrow> dos_partition list \<Rightarrow> (u32 \<times> u32 \<times> int) list option" where
  "extended_calls ext_part_sector relative part_num [] = Some []"
| "extended_calls ext_part_sector relative part_num (pt # pts) = do {
     rest \<leftarrow> extended_calls ext_part_sector relative part_num pts;
     if is_extended (sys_ind pt) then do {
       start \<leftarrow> le32_to_int (start4 pt);
       let lba_start = start + relative;
       Some ((lba_start, if ext_part_sector = 0 then lba_start else relative, part_num) # rest)
     } else Some rest
   }"

text \<open>One call of \<open>print_partition_extended\<close>: what it prints itself, and the calls it makes.\<close>

definition print_table :: "block_dev_desc \<Rightarrow> u8 list \<Rightarrow> u32 \<times> u32 \<times> int \<Rightarrow> (string \<times> (u32 \<times> u32 \<times> int) list) option" where
  "print_table dev stk call = (case call of (ext_part_sector, relative, part_num) \<Rightarrow>
     (let (n, buffer) = block_read dev ext_part_sector 1 stk in
      if n \<noteq> 1 then do { out \<leftarrow> cant_read dev ext_part_sector; Some (out, []) }
      else do {
        i \<leftarrow> test_block_type buffer;
        if i = -1 then do {
          m0 \<leftarrow> rd buffer DOS_PART_MAGIC_OFFSET;
          m1 \<leftarrow> rd buffer (DOS_PART_MAGIC_OFFSET + 1);
          out \<leftarrow> bad_signature m0 m1;
          Some (out, [])
        }
        else if i = DOS_PBR then do {
          media \<leftarrow> rd buffer DOS_PBR_MEDIA_TYPE_OFFSET;
          out \<leftarrow> printf (''    1'' @ tab @ tab @ ''         0'' @ tab @ ''%10ld'' @ tab @ ''%2x'' @ nl) [VInt (dd_lba dev), VInt (ucast media)];
          Some (out, [])
        }
        else do {
          pts \<leftarrow> dos_entries buffer;
          (out, part_num) \<leftarrow> print_entries ext_part_sector part_num pts;
          calls \<leftarrow> extended_calls ext_part_sector relative part_num pts;
          Some (out, calls)
        }
      }))"

text \<open>The recursion of \<open>print_partition_extended\<close>, with the calls that are still to be made as a stack.\<close>

partial_function (option) print_partition_extended :: "block_dev_desc \<Rightarrow> u8 list \<Rightarrow> (u32 \<times> u32 \<times> int) list \<Rightarrow> string \<Rightarrow> string option" where
  "print_partition_extended dev stk calls out =
     (case calls of
        [] \<Rightarrow> Some out
      | call # calls \<Rightarrow> do {
          (text, more) \<leftarrow> print_table dev stk call;
          print_partition_extended dev stk (more @ calls) (out @ text)
        })"

definition print_part_dos :: "block_dev_desc \<Rightarrow> u8 list \<Rightarrow> string option" where
  "print_part_dos dev stk =
     print_partition_extended dev stk [(0, 0, 1)] (''Partition     Start Sector     Num Sectors     Type'' @ nl)"

end
