(* ===== verification/PartDosSpec.thy ===== *)
theory PartDosSpec
  imports PartDos
begin

text \<open>
  What \<open>get_partition_info_dos\<close> finds on a disk: the reference is the list of the partitions of the disk, the primary
  entries followed by the logical partitions in the order of their tables.
\<close>

section \<open>Disks\<close>

text \<open>Block \<open>s\<close> is a table with the four entries \<open>pts\<close>.\<close>

definition table_at :: "block_dev_desc \<Rightarrow> u32 \<Rightarrow> dos_partition list \<Rightarrow> bool" where
  "table_at dev s pts \<longleftrightarrow>
     (\<exists>blk. length blk = 512 \<and> blk ! 0x1fe = 0x55 \<and> blk ! 0x1ff = 0xaa \<and> dos_entries blk = Some pts \<and> block_is dev s blk)"

abbreviation first_sector :: "dos_partition \<Rightarrow> u32" where
  "first_sector pt \<equiv> of_nat (le_value (start4 pt))"

abbreviation link :: "dos_partition list \<Rightarrow> dos_partition option" where
  "link pts \<equiv> find (\<lambda>pt. is_extended (sys_ind pt)) pts"

text \<open>The chain of tables that starts in sector \<open>s\<close>; the links are relative to the extended partition at \<open>base\<close>.\<close>

fun logical_chain :: "block_dev_desc \<Rightarrow> u32 \<Rightarrow> u32 \<Rightarrow> (u32 \<times> dos_partition list) list \<Rightarrow> bool" where
  "logical_chain dev base s [] = False"
| "logical_chain dev base s ((s', pts) # chain) \<longleftrightarrow>
     s' = s \<and> s \<noteq> 0 \<and> table_at dev s pts \<and>
     (case link pts of None \<Rightarrow> chain = [] | Some pt \<Rightarrow> logical_chain dev base (first_sector pt + base) chain)"

definition dos_disk :: "block_dev_desc \<Rightarrow> dos_partition list \<Rightarrow> (u32 \<times> dos_partition list) list \<Rightarrow> bool" where
  "dos_disk dev prim chain \<longleftrightarrow> table_at dev 0 prim \<and>
     (case link prim of None \<Rightarrow> chain = [] | Some pt \<Rightarrow> logical_chain dev (first_sector pt) (first_sector pt) chain)"

definition data_entry :: "dos_partition \<Rightarrow> bool" where
  "data_entry pt \<longleftrightarrow> sys_ind pt \<noteq> 0 \<and> \<not> is_extended (sys_ind pt)"

definition usable :: "dos_partition \<Rightarrow> bool" where
  "usable pt \<longleftrightarrow> data_entry pt \<and> boot_ind pt AND NOT 0x80 = 0"

text \<open>The partitions of the disk, each with the sector its start is relative to; partition \<open>n\<close> is element \<open>n - 1\<close>.\<close>

definition logicals :: "(u32 \<times> dos_partition list) list \<Rightarrow> (u32 \<times> dos_partition) list" where
  "logicals chain = concat (map (\<lambda>(s, pts). map (Pair s) (filter data_entry pts)) chain)"

definition dos_table :: "dos_partition list \<Rightarrow> (u32 \<times> dos_partition list) list \<Rightarrow> (u32 \<times> dos_partition) list" where
  "dos_table prim chain = map (Pair 0) prim @ logicals chain"

text \<open>The description of an entry, and the answer to a request for the element \<open>k\<close> of a list of partitions.\<close>

definition entry_info :: "block_dev_desc \<Rightarrow> int \<Rightarrow> disk_partition \<Rightarrow> u32 \<times> dos_partition \<Rightarrow> disk_partition" where
  "entry_info dev part info e = info\<lparr>pi_blksz := 512, pi_start := fst e + first_sector (snd e),
     pi_size := of_nat (le_value (size4 (snd e))), pi_name := the (part_name dev part), pi_type := ''U-Boot''\<rparr>"

definition answer :: "block_dev_desc \<Rightarrow> int \<Rightarrow> disk_partition \<Rightarrow> (u32 \<times> dos_partition) list \<Rightarrow> int \<Rightarrow> disk_partition option" where
  "answer dev part info table k =
     (if 0 \<le> k \<and> k < int (length table) \<and> usable (snd (table ! nat k)) then Some (entry_info dev part info (table ! nat k)) else None)"

section \<open>Reading entries\<close>

definition entry_ok :: "dos_partition \<Rightarrow> bool" where
  "entry_ok pt \<longleftrightarrow> length (start4 pt) = 4 \<and> length (size4 pt) = 4"

lemma dos_entry_ok: "dos_entry buf i = Some pt \<Longrightarrow> entry_ok pt"
  by (auto simp: dos_entry_def bytes_at_def entry_ok_def split: if_splits)

lemma dos_entries_ok: "dos_entries buf = Some pts \<Longrightarrow> length pts = 4 \<and> list_all entry_ok pts"
  by (auto simp: dos_entries_def bind_eq_Some_conv dos_entry_ok)

lemma dos_entries_append: "dos_entries blk = Some pts \<Longrightarrow> dos_entries (blk @ rest) = Some pts"
  by (auto simp: dos_entries_def dos_entry_def bytes_at_def bind_eq_Some_conv split: if_splits)

lemma fill_info_ok: "entry_ok pt \<Longrightarrow> fill_info dev s n pt info = Some (entry_info dev n info (s, pt))"
  using part_name_total [of dev n] by (auto simp: fill_info_def entry_ok_def le32_value entry_info_def)

lemma part_counted_data: "s \<noteq> 0 \<Longrightarrow> part_counted s = data_entry"
  by (rule ext) (simp add: part_counted_def data_entry_def)

lemma part_counted_0: "part_counted 0 pt"
  by (simp add: part_counted_def)

lemma logicals_Nil: "logicals [] = []"
  by (simp add: logicals_def)

lemma answer_Nil [simp]: "answer dev part info [] k = None"
  unfolding answer_def by (rule if_not_P) simp

lemma answer_negative: "k < 0 \<Longrightarrow> answer dev part info table k = None"
  by (simp add: answer_def)

lemma answer_Cons:
  "answer dev part info (x # xs) k =
     (if k = 0 then if usable (snd x) then Some (entry_info dev part info x) else None else answer dev part info xs (k - 1))"
proof (cases "k \<le> 0")
  case False
  then have "nat k = Suc (nat (k - 1))" by simp
  with False show ?thesis by (auto simp: answer_def)
qed (auto simp: answer_def)

text \<open>The loop over the four entries finds the partition among those it counts.\<close>

lemma find_entry_spec:
  assumes "list_all entry_ok pts"
  shows "find_entry dev s part info n pts =
    (case answer dev part info (map (Pair s) (filter (part_counted s) pts)) (part - n) of
       Some info' \<Rightarrow> Some (Inl info')
     | None \<Rightarrow> Some (Inr (n + int (length (filter (part_counted s) pts)))))"
  using assms
proof (induction pts arbitrary: n)
  case (Cons pt pts)
  then have IH: "find_entry dev s part info m pts = (case answer dev part info (map (Pair s) (filter (part_counted s) pts)) (part - m) of
       Some info' \<Rightarrow> Some (Inl info') | None \<Rightarrow> Some (Inr (m + int (length (filter (part_counted s) pts)))))" for m
    by simp
  have u: "usable pt \<Longrightarrow> part_counted s pt" by (simp add: usable_def data_entry_def part_counted_def)
  have step: "find_entry dev s part info n (pt # pts) =
      (if usable pt \<and> n = part then Some (Inl (entry_info dev part info (s, pt)))
       else find_entry dev s part info (if part_counted s pt then n + 1 else n) pts)"
    using fill_info_ok [of pt dev s n info] Cons.prems by (auto simp: usable_def data_entry_def)
  show ?case unfolding step IH using u
    by (cases "part = n") (auto simp: answer_Cons [of _ _ _ "(s, pt)"] answer_negative diff_diff_eq split: option.splits)
qed simp

lemma answer_append:
  "answer dev part info (xs @ ys) k =
     (case answer dev part info xs k of Some i \<Rightarrow> Some i | None \<Rightarrow> answer dev part info ys (k - int (length xs)))"
proof (induction xs arbitrary: k)
  case (Cons x xs)
  then show ?case by (auto simp: answer_Cons [of _ _ _ x] answer_negative diff_diff_eq split: option.splits)
qed simp

section \<open>Following the chain\<close>

lemma table_read:
  assumes "table_at dev s pts" "512 \<le> length stk"
  shows "\<exists>buf. block_read dev s 1 stk = (1, buf) \<and> rd buf 0x1fe = Some 0x55 \<and> rd buf 0x1ff = Some 0xaa \<and> dos_entries buf = Some pts \<and> list_all entry_ok pts"
proof -
  obtain blk where b: "length blk = 512" "blk ! 0x1fe = 0x55" "blk ! 0x1ff = 0xaa" "dos_entries blk = Some pts" "block_is dev s blk"
    using assms(1) by (auto simp: table_at_def)
  let ?buf = "blk @ drop 512 stk"
  have "block_read dev s 1 stk = (1, ?buf)" using block_isD [OF b(5), of stk] assms(2) b(1) by simp
  moreover have "rd ?buf 0x1fe = Some 0x55" "rd ?buf 0x1ff = Some 0xaa" using b by (simp_all add: rd_def nth_append)
  moreover have "dos_entries ?buf = Some pts" by (rule dos_entries_append [OF b(4)])
  moreover have "list_all entry_ok pts" using dos_entries_ok [OF b(4)] by simp
  ultimately show ?thesis by blast
qed

text \<open>One table: the partition is found in it, or the search goes on at its link.\<close>

lemma extended_step:
  assumes t: "table_at dev s pts" and stk: "512 \<le> length stk"
  shows "get_partition_info_extended dev stk s base n part info =
    (case answer dev part info (map (Pair s) (filter (part_counted s) pts)) (part - n) of
       Some info' \<Rightarrow> Some (0, info', [])
     | None \<Rightarrow> (case link pts of
         None \<Rightarrow> Some (-1, info, [])
       | Some pt \<Rightarrow> let nxt = first_sector pt + base
           in get_partition_info_extended dev stk nxt (if s = 0 then nxt else base) (n + int (length (filter (part_counted s) pts))) part info))"
proof -
  obtain buf where b: "block_read dev s 1 stk = (1, buf)" "rd buf 0x1fe = Some 0x55" "rd buf 0x1ff = Some 0xaa"
      "dos_entries buf = Some pts" "list_all entry_ok pts" using table_read [OF assms] by blast
  have "link pts = Some pt \<Longrightarrow> le32_to_int (start4 pt) = Some (first_sector pt)" for pt
    using b(5) by (auto simp: find_Some_iff list_all_length entry_ok_def intro!: le32_value)
  then show ?thesis
    by (subst get_partition_info_extended.simps) (auto simp: b(1-4) find_entry_spec [OF b(5)] Let_def split: option.splits)
qed

lemma chain_spec:
  assumes "logical_chain dev base s chain" "512 \<le> length stk"
  shows "get_partition_info_extended dev stk s base n part info =
    Some (case answer dev part info (logicals chain) (part - n) of Some info' \<Rightarrow> (0, info', []) | None \<Rightarrow> (-1, info, []))"
  using assms(1)
proof (induction chain arbitrary: s n)
  case (Cons c chain)
  obtain pts where c: "c = (s, pts)" "s \<noteq> 0" "table_at dev s pts"
      "case link pts of None \<Rightarrow> chain = [] | Some pt \<Rightarrow> logical_chain dev base (first_sector pt + base) chain"
    using Cons.prems by (cases c) auto
  have lg: "logicals ((s, pts) # chain) = map (Pair s) (filter data_entry pts) @ logicals chain" by (simp add: logicals_def)
  have "get_partition_info_extended dev stk (first_sector pt + base) base m part info =
      Some (case answer dev part info (logicals chain) (part - m) of Some info' \<Rightarrow> (0, info', []) | None \<Rightarrow> (-1, info, []))"
    if "link pts = Some pt" for pt m using Cons.IH c(4) that by simp
  with c(4) show ?case
    by (auto simp: extended_step [OF c(3) assms(2)] c(2) part_counted_data c(1) lg answer_append Let_def algebra_simps logicals_Nil split: option.splits)
qed simp

text \<open>C23: \<open>get_partition_info_dos\<close> finds the partitions of a disk. For every partition number the search ends; the numbers
  1 to 4 are the primary entries and the following ones the logical partitions, in the order of the chain of tables. The
  result is the start, relative to the table of the entry, and the size, or -1 when there is no such partition, when its
  entry is empty, when it is an extended partition, or when its activity flag is invalid. Nothing is printed.\<close>

theorem dos_partition_found:
  assumes "dos_disk dev prim chain" "512 \<le> length stk"
  shows "get_partition_info_dos dev stk part info =
    Some (case answer dev part info (dos_table prim chain) (part - 1) of Some info' \<Rightarrow> (0, info', []) | None \<Rightarrow> (-1, info, []))"
proof -
  have t: "table_at dev 0 prim" "case link prim of None \<Rightarrow> chain = [] | Some pt \<Rightarrow> logical_chain dev (first_sector pt) (first_sector pt) chain"
    using assms(1) by (simp_all add: dos_disk_def)
  have f: "filter (part_counted 0) prim = prim" by (simp add: part_counted_0)
  show ?thesis
    using t(2) chain_spec [OF _ assms(2)]
    by (auto simp: get_partition_info_dos_def extended_step [OF t(1) assms(2)] f dos_table_def answer_append Let_def algebra_simps logicals_Nil split: option.splits)
qed

section \<open>An example\<close>

text \<open>The bytes of an entry and of a table; decoding gives back the entries.\<close>

definition entry_bytes :: "dos_partition \<Rightarrow> u8 list" where
  "entry_bytes pt = [boot_ind pt, dp_head pt, dp_sector pt, dp_cyl pt, sys_ind pt, end_head pt, end_sector pt, end_cyl pt] @ start4 pt @ size4 pt"

definition dos_block :: "dos_partition list \<Rightarrow> u8 list" where
  "dos_block pts = replicate 0x1be 0 @ concat (map entry_bytes pts) @ [0x55, 0xaa]"

lemma entry_bytes_length: "entry_ok pt \<Longrightarrow> length (entry_bytes pt) = 16"
  by (simp add: entry_bytes_def entry_ok_def)

lemma dos_entry_at:
  assumes "length pre = 0x1be + 16 * i" "entry_ok pt"
  shows "dos_entry (pre @ entry_bytes pt @ post) i = Some pt"
proof -
  have "bytes_at (pre @ entry_bytes pt @ post) (0x1be + 16 * i) 16 = Some (entry_bytes pt)"
    using assms by (simp add: bytes_at_def entry_bytes_length)
  then show ?thesis using assms(2) by (simp add: dos_entry_def entry_bytes_def entry_ok_def nth_append)
qed

lemma dos_entries_block:
  assumes "length pts = 4" "list_all entry_ok pts"
  shows "dos_entries (dos_block pts) = Some pts"
proof -
  obtain a b c d where p: "pts = [a, b, c, d]" using assms(1) by (auto simp: length_Suc_conv eval_nat_numeral)
  then have ok: "entry_ok a" "entry_ok b" "entry_ok c" "entry_ok d" using assms(2) by simp_all
  let ?z = "replicate 0x1be 0 :: u8 list"
  have "dos_entry (dos_block pts) 0 = Some a"
    using dos_entry_at [of ?z 0 a] ok by (simp add: p dos_block_def)
  moreover have "dos_entry (dos_block pts) 1 = Some b"
    using dos_entry_at [of "?z @ entry_bytes a" 1 b] ok by (simp add: p dos_block_def entry_bytes_length)
  moreover have "dos_entry (dos_block pts) 2 = Some c"
    using dos_entry_at [of "?z @ entry_bytes a @ entry_bytes b" 2 c] ok by (simp add: p dos_block_def entry_bytes_length)
  moreover have "dos_entry (dos_block pts) 3 = Some d"
    using dos_entry_at [of "?z @ entry_bytes a @ entry_bytes b @ entry_bytes c" 3 d] ok by (simp add: p dos_block_def entry_bytes_length)
  ultimately show ?thesis by (simp add: dos_entries_def p)
qed

lemma dos_block_sizes:
  assumes "length pts = 4" "list_all entry_ok pts"
  shows "length (dos_block pts) = 512" "dos_block pts ! 0x1fe = 0x55" "dos_block pts ! 0x1ff = 0xaa"
proof -
  have l: "length (concat (map entry_bytes pts)) = 64"
  proof -
    obtain a b c d where "pts = [a, b, c, d]" using assms(1) by (auto simp: length_Suc_conv eval_nat_numeral)
    then show ?thesis using assms(2) by (simp add: entry_bytes_length)
  qed
  then show "length (dos_block pts) = 512" "dos_block pts ! 0x1fe = 0x55" "dos_block pts ! 0x1ff = 0xaa"
    by (simp_all add: dos_block_def nth_append)
qed

lemma table_at_block:
  "length pts = 4 \<Longrightarrow> list_all entry_ok pts \<Longrightarrow> block_is dev s (dos_block pts) \<Longrightarrow> table_at dev s pts"
  unfolding table_at_def by (intro exI [of _ "dos_block pts"]) (simp add: dos_block_sizes dos_entries_block)

definition make_entry :: "u8 \<Rightarrow> u8 list \<Rightarrow> u8 list \<Rightarrow> dos_partition" where
  "make_entry t start len = \<lparr>boot_ind = 0, dp_head = 0, dp_sector = 0, dp_cyl = 0, sys_ind = t, end_head = 0, end_sector = 0, end_cyl = 0,
     start4 = start, size4 = len\<rparr>"

definition example_disk :: "u32 \<Rightarrow> dos_partition list" where
  "example_disk s = (let none = make_entry 0 [0, 0, 0, 0] [0, 0, 0, 0] in
     if s = 0 then [make_entry 0x76 [63, 0, 0, 0] [232, 3, 0, 0], make_entry 0x05 [208, 7, 0, 0] [208, 7, 0, 0], none, none]
     else if s = 2000 then [make_entry 0x83 [1, 0, 0, 0] [244, 1, 0, 0], make_entry 0x05 [232, 3, 0, 0] [232, 3, 0, 0], none, none]
     else [make_entry 0x83 [1, 0, 0, 0] [188, 2, 0, 0], none, none, none])"

lemma example_table: "table_at (make_dev (\<lambda>s. dos_block (example_disk s))) s (example_disk s)"
  by (rule table_at_block [OF _ _ make_dev_block]) (simp_all add: example_disk_def make_entry_def entry_ok_def Let_def)

theorem dos_partition_found_witness:
  "let dev = make_dev (\<lambda>s. dos_block (example_disk s)) in
   \<exists>info'. get_partition_info_dos dev (replicate 2048 0) 6 \<lparr>pi_start = 0, pi_size = 0, pi_blksz = 0, pi_name = [], pi_type = []\<rparr> = Some (0, info', []) \<and>
     pi_start info' = 3001 \<and> pi_size info' = 700"
proof -
  let ?dev = "make_dev (\<lambda>s. dos_block (example_disk s))" and ?info = "\<lparr>pi_start = 0, pi_size = 0, pi_blksz = 0, pi_name = [], pi_type = []\<rparr>"
  let ?chain = "[(2000, example_disk 2000), (3000, example_disk 3000)]"
  have d: "dos_disk ?dev (example_disk 0) ?chain"
    using example_table [of 0] example_table [of 2000] example_table [of 3000]
    by (simp add: dos_disk_def example_disk_def make_entry_def is_extended_def Let_def)
  have k: "dos_table (example_disk 0) ?chain ! 5 = (3000, make_entry 0x83 [1, 0, 0, 0] [188, 2, 0, 0])" "length (dos_table (example_disk 0) ?chain) = 6"
    by (simp_all add: dos_table_def logicals_def data_entry_def example_disk_def make_entry_def is_extended_def Let_def)
  have "answer ?dev 6 ?info (dos_table (example_disk 0) ?chain) 5 = Some (entry_info ?dev 6 ?info (3000, make_entry 0x83 [1, 0, 0, 0] [188, 2, 0, 0]))"
    by (simp add: answer_def k usable_def data_entry_def is_extended_def) (simp add: make_entry_def)
  then have "get_partition_info_dos ?dev (replicate 2048 0) 6 ?info = Some (0, entry_info ?dev 6 ?info (3000, make_entry 0x83 [1, 0, 0, 0] [188, 2, 0, 0]), [])"
    using dos_partition_found [OF d, of "replicate 2048 0" 6 ?info] by simp
  then show ?thesis by (simp add: Let_def entry_info_def make_entry_def)
qed

section \<open>Cyclic chains\<close>

text \<open>A table of logical partitions whose link leads back to itself is followed for ever: there is no bound on the
  recursion.\<close>

lemma dos_cycle_diverges:
  assumes "table_at dev s pts" "s \<noteq> 0" "link pts = Some pt" "first_sector pt + base = s" "part < n" "512 \<le> length stk"
  shows "get_partition_info_extended dev stk s base n part info = None"
proof (rule ccontr)
  assume "get_partition_info_extended dev stk s base n part info \<noteq> None"
  then obtain y where "get_partition_info_extended dev stk s base n part info = Some y" by blast
  then have "\<not> (table_at dev s pts \<and> s \<noteq> 0 \<and> first_sector pt + base = s \<and> part < n \<and> 512 \<le> length stk)"
  proof (rule get_partition_info_extended.raw_induct [rotated], goal_cases)
    case (1 f dev stk s base n part info y)
    show ?case
    proof
      assume a: "table_at dev s pts \<and> s \<noteq> 0 \<and> first_sector pt + base = s \<and> part < n \<and> 512 \<le> length stk"
      then obtain buf where b: "block_read dev s 1 stk = (1, buf)" "rd buf 0x1fe = Some 0x55" "rd buf 0x1ff = Some 0xaa"
          "dos_entries buf = Some pts" "list_all entry_ok pts" using table_read by blast
      have l: "le32_to_int (start4 pt) = Some (first_sector pt)"
        using b(5) assms(3) by (auto simp: find_Some_iff list_all_length entry_ok_def intro!: le32_value)
      have f: "f dev stk s base (n + int (length (filter (part_counted s) pts))) part info = Some y"
        using 1(2) a l assms(3) by (simp add: b(1-4) find_entry_spec [OF b(5)] answer_negative Let_def)
      have "part < n + int (length (filter (part_counted s) pts))" using a by linarith
      with 1(1) [OF f] a show False by blast
    qed
  qed
  with assms show False by simp
qed

end
