(* ===== verification/PartAmiga.thy ===== *)
theory PartAmiga
  imports Disk Strtoul
begin

text \<open>
  disk/part_amiga.c and part_amiga.h: the rigid disk block of an Amiga disk and its list of partition blocks. The static
  variables of the file (the block buffer, the copies of the rigid disk block and of the boot block) are the state. \<open>None\<close>
  is an access outside a buffer or a loop that never ends. \<open>getenv\<close> is the lookup of environment variables.
\<close>

record amiga =
  block_buffer :: "u8 list"
  rdb :: "u8 list"
  bootcode :: "u8 list"

text \<open>The offsets of the fields of \<open>struct rigid_disk_block\<close>, \<open>partition_block\<close> and \<open>amiga_part_geometry\<close>.\<close>

abbreviation (input) "blk_id \<equiv> (0 :: nat)"
abbreviation (input) "blk_summed_longs \<equiv> (4 :: nat)"
abbreviation (input) "rdb_block_bytes \<equiv> (16 :: nat)"
abbreviation (input) "rdb_partition_list \<equiv> (28 :: nat)"
abbreviation (input) "rdb_cylinders \<equiv> (64 :: nat)"
abbreviation (input) "rdb_sectors \<equiv> (68 :: nat)"
abbreviation (input) "rdb_heads \<equiv> (72 :: nat)"
abbreviation (input) "part_next \<equiv> (16 :: nat)"
abbreviation (input) "part_drive_name \<equiv> (36 :: nat)"
abbreviation (input) "part_environment \<equiv> (128 :: nat)"
abbreviation (input) "sizeof_rigid_disk_block \<equiv> (256 :: nat)"
abbreviation (input) "sizeof_bootcode_block \<equiv> (512 :: nat)"

abbreviation (input) "AMIGA_ID_RDISK \<equiv> (0x5244534B :: u32)"
abbreviation (input) "AMIGA_ID_PART \<equiv> (0x50415254 :: u32)"
abbreviation (input) "AMIGA_ID_BOOT \<equiv> (0x424f4f54 :: u32)"
abbreviation (input) "AMIGA_BLOCK_LIMIT \<equiv> (16 :: int)"

record amiga_part_geometry =
  surfaces :: u32
  block_per_track :: u32
  low_cyl :: u32
  high_cyl :: u32
  boot_priority :: u32
  dos_type :: u32

text \<open>The fields of the geometry that the code uses.\<close>

definition geometry :: "u8 list \<Rightarrow> amiga_part_geometry option" where
  "geometry p = do {
     sf \<leftarrow> get32 p (part_environment + 12);
     bpt \<leftarrow> get32 p (part_environment + 20);
     lo \<leftarrow> get32 p (part_environment + 36);
     hi \<leftarrow> get32 p (part_environment + 40);
     pri \<leftarrow> get32 p (part_environment + 60);
     dt \<leftarrow> get32 p (part_environment + 64);
     Some \<lparr>surfaces = sf, block_per_track = bpt, low_cyl = lo, high_cyl = hi, boot_priority = pri, dos_type = dt\<rparr>
   }"

definition geo_start :: "amiga_part_geometry \<Rightarrow> u32" where
  "geo_start g = low_cyl g * block_per_track g * surfaces g"

definition geo_size :: "amiga_part_geometry \<Rightarrow> u32" where
  "geo_size g = (high_cyl g - low_cyl g + 1) * block_per_track g * surfaces g - 1"

section \<open>Strings and sums\<close>

text \<open>\<open>bcpl_strcpy\<close> into an array of \<open>room\<close> characters: the characters in front of the first NUL that is stored.\<close>

definition bcpl_strcpy :: "nat \<Rightarrow> u8 list \<Rightarrow> string option" where
  "bcpl_strcpy room from = do {
     len \<leftarrow> rd from 0;
     bytes \<leftarrow> bytes_at from 1 (unat len);
     if unat len < room then Some (text_of bytes) else None
   }"

definition bstr_print :: "u8 list \<Rightarrow> string option" where
  "bstr_print from = do {
     len \<leftarrow> rd from 0;
     bytes \<leftarrow> bytes_at from 1 (unat len);
     printf ''%-10s'' [VStr (Some (text_of bytes))]
   }"

text \<open>The loop of \<open>sum_block\<close> over the first \<open>n\<close> longwords.\<close>

fun sum_longs :: "u8 list \<Rightarrow> nat \<Rightarrow> u32 \<Rightarrow> u32 option" where
  "sum_longs block 0 s = Some s"
| "sum_longs (a # b # c # d # block) (Suc n) s = sum_longs block n (s + load_be32 a b c d)"
| "sum_longs _ (Suc n) s = None"

definition sum_block :: "u8 list \<Rightarrow> int option" where
  "sum_block header = do {
     n \<leftarrow> get32 header blk_summed_longs;
     s \<leftarrow> sum_longs header (unat n) 0;
     Some (if s \<noteq> 0 then 1 else 0)
   }"

text \<open>The five characters of a disk type, stored in \<open>info->type\<close> or printed.\<close>

definition disk_type_chars :: "u32 \<Rightarrow> u8 list" where
  "disk_type_chars t = [ucast (drop_bit 24 (t AND 0xFF000000)), ucast (drop_bit 16 (t AND 0x00FF0000)), ucast (drop_bit 8 (t AND 0x0000FF00)),
     0x5c, ucast ((t AND 0x000000FF) + 0x30)]"

definition print_disk_type :: "u32 \<Rightarrow> string option" where
  "print_disk_type t = printf ''%s'' [VStr (Some (text_of (disk_type_chars t)))]"

definition print_part_info :: "u8 list \<Rightarrow> string option" where
  "print_part_info p = do {
     nm \<leftarrow> bstr_print (drop part_drive_name p);
     g \<leftarrow> geometry p;
     blocks \<leftarrow> printf (''%6d'' @ tab @ ''%6d'' @ tab) [VInt (geo_start g), VInt (geo_size g)];
     t \<leftarrow> print_disk_type (dos_type g);
     pri \<leftarrow> printf (tab @ ''%5d'' @ nl) [VInt (boot_priority g)];
     Some (nm @ blocks @ t @ pri)
   }"

section \<open>Finding blocks\<close>

definition scan_limit :: "(string \<Rightarrow> string option) \<Rightarrow> int" where
  "scan_limit getenv = (case getenv ''amiga_scanlimit'' of Some s \<Rightarrow> sint (fst (simple_strtoul s 10)) | None \<Rightarrow> AMIGA_BLOCK_LIMIT)"

text \<open>The loop of \<open>get_rdisk\<close> and \<open>get_bootcode\<close>: the first block below the limit with the given identification
  and a good sum.\<close>

function scan_blocks :: "block_dev_desc \<Rightarrow> u32 \<Rightarrow> int \<Rightarrow> int \<Rightarrow> u8 list \<Rightarrow> (bool \<times> u8 list) option" where
  "scan_blocks dev ident limit i buf =
     (if i < limit then
        let (res, buf) = block_read dev (of_int i) 1 buf in
        if res = 1 then do {
          w \<leftarrow> get32 buf blk_id;
          if w = ident then do {
            s \<leftarrow> sum_block buf;
            if s = 0 then Some (True, buf) else scan_blocks dev ident limit (i + 1) buf
          } else scan_blocks dev ident limit (i + 1) buf
        } else scan_blocks dev ident limit (i + 1) buf
      else Some (False, buf))"
  by pat_completeness auto
termination
  by (relation "measure (\<lambda>(dev, ident, limit, i, buf). nat (limit - i))") auto

declare scan_blocks.simps [simp del]

text \<open>\<open>get_rdisk\<close> and \<open>get_bootcode\<close>: whether the block was found, and the state with the copy of it.\<close>

definition get_rdisk :: "(string \<Rightarrow> string option) \<Rightarrow> block_dev_desc \<Rightarrow> amiga \<Rightarrow> (bool \<times> amiga) option" where
  "get_rdisk getenv dev st = do {
     (found, buf) \<leftarrow> scan_blocks dev AMIGA_ID_RDISK (scan_limit getenv) 0 (block_buffer st);
     if found then do {
       blk \<leftarrow> bytes_at buf 0 sizeof_rigid_disk_block;
       Some (True, st\<lparr>block_buffer := buf, rdb := blk\<rparr>)
     } else Some (False, st\<lparr>block_buffer := buf\<rparr>)
   }"

definition get_bootcode :: "(string \<Rightarrow> string option) \<Rightarrow> block_dev_desc \<Rightarrow> amiga \<Rightarrow> (bool \<times> amiga) option" where
  "get_bootcode getenv dev st = do {
     (found, buf) \<leftarrow> scan_blocks dev AMIGA_ID_BOOT (scan_limit getenv) 0 (block_buffer st);
     if found then do {
       blk \<leftarrow> bytes_at buf 0 sizeof_bootcode_block;
       Some (True, st\<lparr>block_buffer := buf, bootcode := blk\<rparr>)
     } else Some (False, st\<lparr>block_buffer := buf\<rparr>)
   }"

definition test_part_amiga :: "(string \<Rightarrow> string option) \<Rightarrow> block_dev_desc \<Rightarrow> amiga \<Rightarrow> (int \<times> amiga) option" where
  "test_part_amiga getenv dev st = do {
     (found, st) \<leftarrow> get_rdisk getenv dev st;
     if found then do {
       (boot, st) \<leftarrow> get_bootcode getenv dev st;
       Some (0, st)
     } else Some (-1, st)
   }"

section \<open>Looking up a partition\<close>

abbreviation (input) "END_OF_LIST \<equiv> (0xFFFFFFFF :: u32)"

text \<open>The loop of \<open>find_partition\<close>: the block reached and the buffer. A partition block with a wrong sum is read
  again and again.\<close>

partial_function (option) find_loop :: "block_dev_desc \<Rightarrow> u32 \<Rightarrow> int \<Rightarrow> u8 list \<Rightarrow> (u32 \<times> u8 list) option" where
  "find_loop dev block partnum buf =
     (if block \<noteq> END_OF_LIST then
        let (res, buf) = block_read dev block 1 buf in
        if res = 1 then do {
          w \<leftarrow> get32 buf blk_id;
          if w = AMIGA_ID_PART then do {
            s \<leftarrow> sum_block buf;
            if s = 0 then
              if partnum = 0 then Some (block, buf)
              else do { nxt \<leftarrow> get32 buf part_next; find_loop dev nxt (partnum - 1) buf }
            else find_loop dev block partnum buf
          } else Some (END_OF_LIST, buf)
        } else Some (END_OF_LIST, buf)
      else Some (block, buf))"

definition find_partition :: "(string \<Rightarrow> string option) \<Rightarrow> block_dev_desc \<Rightarrow> int \<Rightarrow> amiga \<Rightarrow> (bool \<times> amiga) option" where
  "find_partition getenv dev partnum st = do {
     (found, st) \<leftarrow> get_rdisk getenv dev st;
     if \<not> found then Some (False, st)
     else do {
       block \<leftarrow> get32 (rdb st) rdb_partition_list;
       (block, buf) \<leftarrow> find_loop dev block partnum (block_buffer st);
       Some (block \<noteq> END_OF_LIST, st\<lparr>block_buffer := buf\<rparr>)
     }
   }"

definition get_partition_info_amiga ::
  "(string \<Rightarrow> string option) \<Rightarrow> block_dev_desc \<Rightarrow> int \<Rightarrow> disk_partition \<Rightarrow> amiga \<Rightarrow> (int \<times> disk_partition \<times> amiga) option" where
  "get_partition_info_amiga getenv dev part info st = do {
     (found, st) \<leftarrow> find_partition getenv dev (part - 1) st;
     if \<not> found then Some (-1, info, st)
     else do {
       let p = block_buffer st;
       g \<leftarrow> geometry p;
       bytes \<leftarrow> get32 (rdb st) rdb_block_bytes;
       nm \<leftarrow> bcpl_strcpy 32 (drop part_drive_name p);
       Some (0, info\<lparr>pi_start := geo_start g, pi_size := geo_size g, pi_blksz := bytes, pi_name := nm,
         pi_type := text_of (disk_type_chars (dos_type g))\<rparr>, st)
     }
   }"

section \<open>Printing the list\<close>

partial_function (option) print_loop :: "block_dev_desc \<Rightarrow> u32 \<Rightarrow> int \<Rightarrow> string \<Rightarrow> u8 list \<Rightarrow> (string \<times> u8 list) option" where
  "print_loop dev block i out buf =
     (if block \<noteq> END_OF_LIST then
        let (res, buf) = block_read dev block 1 buf in
        if res = 1 then do {
          w \<leftarrow> get32 buf blk_id;
          if w = AMIGA_ID_PART then do {
            s \<leftarrow> sum_block buf;
            if s = 0 then do {
              nr \<leftarrow> printf ''%-4d '' [VInt (of_int i)];
              line \<leftarrow> print_part_info buf;
              nxt \<leftarrow> get32 buf part_next;
              print_loop dev nxt (i + 1) (out @ nr @ line) buf
            }
            else print_loop dev block i out buf
          } else Some (out, buf)
        } else Some (out, buf)
      else Some (out, buf))"

definition print_part_amiga :: "(string \<Rightarrow> string option) \<Rightarrow> block_dev_desc \<Rightarrow> amiga \<Rightarrow> (string \<times> amiga) option" where
  "print_part_amiga getenv dev st = do {
     (found, st) \<leftarrow> get_rdisk getenv dev st;
     if \<not> found then Some ([], st)
     else do {
       block \<leftarrow> get32 (rdb st) rdb_partition_list;
       bytes \<leftarrow> get32 (rdb st) rdb_block_bytes;
       cyl \<leftarrow> get32 (rdb st) rdb_cylinders;
       sec \<leftarrow> get32 (rdb st) rdb_sectors;
       hd \<leftarrow> get32 (rdb st) rdb_heads;
       summary \<leftarrow> printf (''Summary:  DiskBlockSize: %d'' @ nl @ ''          Cylinders    : %d'' @ nl @
         ''          Sectors/Track: %d'' @ nl @ ''          Heads        : %d'' @ nl @ nl) [VInt bytes, VInt cyl, VInt sec, VInt hd];
       (out, buf) \<leftarrow> print_loop dev block 1 (summary @ ''                 First   Num. '' @ nl @
         ''Nr.  Part. Name  Block   Block  Type        Boot Priority'' @ nl) (block_buffer st);
       (boot, st) \<leftarrow> get_bootcode getenv dev (st\<lparr>block_buffer := buf\<rparr>);
       Some (if boot then out @ ''Disk is bootable'' @ nl else out, st)
     }
   }"

end
