(* ===== verification/PartAmigaSpec.thy ===== *)
theory PartAmigaSpec
  imports PartAmiga
begin

text \<open>
  What \<open>get_partition_info_amiga\<close> finds on a disk with a rigid disk block and a list of partition blocks, and how it
  behaves on damaged lists.
\<close>

section \<open>Disks\<close>

text \<open>A block of 512 bytes with the identification \<open>ident\<close> and a good sum.\<close>

definition good_block :: "u32 \<Rightarrow> u8 list \<Rightarrow> bool" where
  "good_block ident blk \<longleftrightarrow> length blk = 512 \<and> get32 blk 0 = Some ident \<and> sum_block blk = Some 0"

text \<open>Whatever a read of block \<open>j\<close> gives, it is not taken for a block with the identification \<open>ident\<close>.\<close>

definition skipped :: "block_dev_desc \<Rightarrow> u32 \<Rightarrow> u32 \<Rightarrow> bool" where
  "skipped dev ident j \<longleftrightarrow> (\<forall>buf. length buf = 2048 \<longrightarrow>
     (\<exists>r buf'. block_read dev j 1 buf = (r, buf') \<and> length buf' = 2048 \<and>
        (r = 1 \<longrightarrow> get32 buf' 0 \<noteq> Some ident \<or> sum_block buf' = Some 1)))"

text \<open>A partition block: the name fits into 31 characters, and the cylinders are a range of blocks of the disk.\<close>

definition part_block :: "u8 list \<Rightarrow> bool" where
  "part_block blk \<longleftrightarrow> good_block AMIGA_ID_PART blk \<and> blk ! 36 < 32 \<and>
     (\<exists>g. geometry blk = Some g \<and> low_cyl g \<le> high_cyl g \<and> 0 < unat (block_per_track g) * unat (surfaces g) \<and>
        (unat (high_cyl g) + 1) * (unat (block_per_track g) * unat (surfaces g)) < 2 ^ 32)"

fun part_chain :: "block_dev_desc \<Rightarrow> u32 \<Rightarrow> (u32 \<times> u8 list) list \<Rightarrow> bool" where
  "part_chain dev s [] \<longleftrightarrow> s = END_OF_LIST"
| "part_chain dev s ((s', blk) # chain) \<longleftrightarrow>
     s' = s \<and> s \<noteq> END_OF_LIST \<and> block_is dev s blk \<and> part_block blk \<and> (\<exists>nxt. get32 blk 16 = Some nxt \<and> part_chain dev nxt chain)"

definition amiga_disk :: "(string \<Rightarrow> string option) \<Rightarrow> block_dev_desc \<Rightarrow> u8 list \<Rightarrow> (u32 \<times> u8 list) list \<Rightarrow> bool" where
  "amiga_disk getenv dev rblk chain \<longleftrightarrow>
     (\<exists>i. 0 \<le> i \<and> i < scan_limit getenv \<and> block_is dev (of_int i) rblk \<and> good_block AMIGA_ID_RDISK rblk \<and>
        (\<forall>j. 0 \<le> j \<and> j < i \<longrightarrow> skipped dev AMIGA_ID_RDISK (of_int j))) \<and>
     (\<exists>s. get32 rblk 28 = Some s \<and> part_chain dev s chain)"

text \<open>What the description of a partition says about its block: the range of blocks, where the size is one less than the
  number of blocks, the block size of the disk, the name and the type.\<close>

definition describes :: "u8 list \<Rightarrow> u8 list \<Rightarrow> disk_partition \<Rightarrow> bool" where
  "describes rblk blk info \<longleftrightarrow>
     (\<exists>g. geometry blk = Some g \<and>
        unat (pi_start info) = unat (low_cyl g) * (unat (block_per_track g) * unat (surfaces g)) \<and>
        unat (pi_start info) + unat (pi_size info) + 1 = (unat (high_cyl g) + 1) * (unat (block_per_track g) * unat (surfaces g)) \<and>
        get32 rblk 16 = Some (pi_blksz info) \<and>
        pi_name info = text_of (take (unat (blk ! 36)) (drop 37 blk)) \<and>
        pi_type info = text_of (disk_type_chars (dos_type g)))"

section \<open>Reading blocks\<close>

lemma sum_longs_append: "sum_longs xs n s = Some r \<Longrightarrow> sum_longs (xs @ ys) n s = Some r"
  by (induction xs n s rule: sum_longs.induct) auto

lemma sum_block_append: "sum_block xs = Some r \<Longrightarrow> sum_block (xs @ ys) = Some r"
  by (auto simp: sum_block_def bind_eq_Some_conv get32_append sum_longs_append)

lemma geometry_append: "geometry xs = Some g \<Longrightarrow> geometry (xs @ ys) = Some g"
  by (auto simp: geometry_def bind_eq_Some_conv get32_append)

text \<open>Reading a block of known contents into the buffer.\<close>

lemma block_into_buffer:
  assumes "block_is dev s blk" "length blk = 512" "length buf = 2048"
  shows "\<exists>rest. block_read dev s 1 buf = (1, blk @ rest) \<and> length (blk @ rest) = 2048"
  using block_isD [OF assms(1), of buf] assms(2,3) by (intro exI [of _ "drop 512 buf"]) simp

lemma scan_skips:
  assumes "\<forall>j. i \<le> j \<and> j < k \<longrightarrow> skipped dev ident (of_int j)" "i \<le> k" "k \<le> limit" "length buf = 2048"
  shows "\<exists>buf'. length buf' = 2048 \<and> scan_blocks dev ident limit i buf = scan_blocks dev ident limit k buf'"
  using assms
proof (induction "nat (k - i)" arbitrary: i buf)
  case (Suc n)
  then have "i < k" by simp
  then have "skipped dev ident (of_int i)" using Suc.prems(1) by simp
  then obtain r buf' where b: "block_read dev (of_int i) 1 buf = (r, buf')" "length buf' = 2048"
      "r = 1 \<longrightarrow> get32 buf' 0 \<noteq> Some ident \<or> sum_block buf' = Some 1"
    using Suc.prems(4) unfolding skipped_def by blast
  obtain w where w: "get32 buf' 0 = Some w" using get32_Some [of 0 buf'] b(2) by auto
  have "scan_blocks dev ident limit i buf = scan_blocks dev ident limit (i + 1) buf'"
    using \<open>i < k\<close> Suc.prems(3) b w by (subst scan_blocks.simps) auto
  moreover have "\<exists>buf''. length buf'' = 2048 \<and> scan_blocks dev ident limit (i + 1) buf' = scan_blocks dev ident limit k buf''"
    using Suc.prems Suc.hyps(2) \<open>i < k\<close> b(2) by (intro Suc.hyps(1)) auto
  ultimately show ?case by simp
qed auto

lemma scan_finds:
  assumes "0 \<le> i" "i < limit" "block_is dev (of_int i) blk" "good_block ident blk"
    and "\<forall>j. 0 \<le> j \<and> j < i \<longrightarrow> skipped dev ident (of_int j)" "length buf = 2048"
  shows "\<exists>rest. scan_blocks dev ident limit 0 buf = Some (True, blk @ rest) \<and> length (blk @ rest) = 2048"
proof -
  obtain buf' where b: "length buf' = 2048" "scan_blocks dev ident limit 0 buf = scan_blocks dev ident limit i buf'"
    using scan_skips [of 0 i dev ident limit buf] assms by auto
  have g: "length blk = 512" "get32 blk 0 = Some ident" "sum_block blk = Some 0" using assms(4) by (simp_all add: good_block_def)
  obtain rest where r: "block_read dev (of_int i) 1 buf' = (1, blk @ rest)" "length (blk @ rest) = 2048"
    using block_into_buffer [OF assms(3) g(1) b(1)] by blast
  have "scan_blocks dev ident limit i buf' = Some (True, blk @ rest)"
    using assms(2) g r(1) by (subst scan_blocks.simps) (simp add: get32_append sum_block_append)
  then show ?thesis using b(2) r(2) by auto
qed

text \<open>A scan over blocks that are skipped or good ends, found or not.\<close>

definition scannable :: "block_dev_desc \<Rightarrow> u32 \<Rightarrow> u32 \<Rightarrow> bool" where
  "scannable dev ident j \<longleftrightarrow> skipped dev ident j \<or> (\<exists>blk. block_is dev j blk \<and> good_block ident blk)"

lemma scan_ends:
  assumes "\<forall>j. i \<le> j \<and> j < limit \<longrightarrow> scannable dev ident (of_int j)" "length buf = 2048"
  shows "\<exists>found buf'. scan_blocks dev ident limit i buf = Some (found, buf') \<and> length buf' = 2048"
  using assms
proof (induction "nat (limit - i)" arbitrary: i buf)
  case (Suc n)
  then have "i < limit" by simp
  then consider (skip) "skipped dev ident (of_int i)" | (good) blk where "block_is dev (of_int i) blk" "good_block ident blk"
    using Suc.prems(1) unfolding scannable_def by blast
  then show ?case
  proof cases
    case skip
    then obtain r buf' where b: "block_read dev (of_int i) 1 buf = (r, buf')" "length buf' = 2048"
        "r = 1 \<longrightarrow> get32 buf' 0 \<noteq> Some ident \<or> sum_block buf' = Some 1"
      using Suc.prems(2) unfolding skipped_def by blast
    obtain w where w: "get32 buf' 0 = Some w" using get32_Some [of 0 buf'] b(2) by auto
    have "scan_blocks dev ident limit i buf = scan_blocks dev ident limit (i + 1) buf'"
      using \<open>i < limit\<close> b w by (subst scan_blocks.simps) auto
    moreover have "\<exists>found buf''. scan_blocks dev ident limit (i + 1) buf' = Some (found, buf'') \<and> length buf'' = 2048"
      using Suc.prems Suc.hyps(2) b(2) by (intro Suc.hyps(1)) auto
    ultimately show ?thesis by simp
  next
    case good
    then have g: "length blk = 512" "get32 blk 0 = Some ident" "sum_block blk = Some 0" by (simp_all add: good_block_def)
    obtain rest where r: "block_read dev (of_int i) 1 buf = (1, blk @ rest)" "length (blk @ rest) = 2048"
      using block_into_buffer [OF good(1) g(1) Suc.prems(2)] by blast
    then have "scan_blocks dev ident limit i buf = Some (True, blk @ rest)"
      using \<open>i < limit\<close> g by (subst scan_blocks.simps) (simp add: get32_append sum_block_append)
    then show ?thesis using r(2) by blast
  qed
next
  case 0
  then have "scan_blocks dev ident limit i buf = Some (False, buf)" by (subst scan_blocks.simps) simp
  then show ?case using 0 by blast
qed

text \<open>The loop over the partition blocks.\<close>

lemma find_loop_chain:
  assumes "part_chain dev s chain" "length buf = 2048"
  shows "\<exists>b buf'. find_loop dev s n buf = Some (b, buf') \<and> length buf' = 2048 \<and>
    (if 0 \<le> n \<and> n < int (length chain) then b \<noteq> END_OF_LIST \<and> (\<exists>rest. buf' = snd (chain ! nat n) @ rest) else b = END_OF_LIST)"
  using assms
proof (induction chain arbitrary: s n buf)
  case Nil
  then show ?case by (subst find_loop.simps) simp
next
  case (Cons c chain)
  then obtain blk nxt where c: "c = (s, blk)" "s \<noteq> END_OF_LIST" "block_is dev s blk" "part_block blk" "get32 blk 16 = Some nxt" "part_chain dev nxt chain"
    by (cases c) auto
  have g: "length blk = 512" "get32 blk 0 = Some AMIGA_ID_PART" "sum_block blk = Some 0" using c(4) by (simp_all add: part_block_def good_block_def)
  obtain rest where r: "block_read dev s 1 buf = (1, blk @ rest)" "length (blk @ rest) = 2048"
    using block_into_buffer [OF c(3) g(1) Cons.prems(2)] by blast
  have step: "find_loop dev s n buf = (if n = 0 then Some (s, blk @ rest) else find_loop dev nxt (n - 1) (blk @ rest))"
    using c(2,5) g r(1) by (subst find_loop.simps) (simp add: get32_append sum_block_append)
  show ?case
  proof (cases "n = 0")
    case True
    then show ?thesis using step c(1,2) r(2) by simp
  next
    case False
    have "0 \<le> n - 1 \<and> n - 1 < int (length chain) \<longleftrightarrow> 0 \<le> n \<and> n < int (length (c # chain))" using False by auto
    moreover have "0 \<le> n - 1 \<Longrightarrow> (c # chain) ! nat n = chain ! nat (n - 1)" by (simp add: nth_Cons' nat_diff_distrib')
    ultimately show ?thesis using Cons.IH [OF c(6) r(2), of "n - 1"] False step by auto
  qed
qed

section \<open>The description\<close>

lemma unat_add_1: "0 < unat ((x :: u32) + 1) \<Longrightarrow> unat (x + 1) = unat x + 1"
  using unat_pred [of "x + 1"] by simp

lemma geo_blocks:
  assumes "low_cyl g \<le> high_cyl g" "0 < unat (block_per_track g) * unat (surfaces g)"
    and "(unat (high_cyl g) + 1) * (unat (block_per_track g) * unat (surfaces g)) < 2 ^ 32"
  shows "unat (geo_start g) = unat (low_cyl g) * (unat (block_per_track g) * unat (surfaces g))"
    and "unat (geo_start g) + unat (geo_size g) + 1 = (unat (high_cyl g) + 1) * (unat (block_per_track g) * unat (surfaces g))"
proof -
  let ?l = "unat (low_cyl g)" and ?h = "unat (high_cyl g)" and ?c = "unat (block_per_track g) * unat (surfaces g)"
  have lh: "?l \<le> ?h" using assms(1) by (simp add: word_le_nat_alt)
  have m: "x * ?c < 2 ^ 32" if "x \<le> ?h + 1" for x
    using mult_le_mono1 [OF that, of ?c] assms(3) by simp
  have p: "unat (x * block_per_track g * surfaces g) = unat x * ?c" if "unat x \<le> ?h + 1" for x :: u32
    using m [OF that] by (simp add: unat_word_ariths mult.assoc mod_mult_right_eq mod_mult_left_eq)
  show s: "unat (geo_start g) = ?l * ?c" unfolding geo_start_def using lh by (intro p) simp
  have d: "unat (high_cyl g - low_cyl g + 1) = ?h - ?l + 1"
  proof -
    have "(?h + 1) * 1 \<le> (?h + 1) * ?c" using assms(2) by (intro mult_le_mono2) simp
    from le_less_trans [OF this assms(3)] have "?h + 1 < 2 ^ 32" by simp
    then show ?thesis using unat_sub_le [OF assms(1)] by (simp add: unat_add_nowrap)
  qed
  have "unat (geo_size g + 1) = (?h - ?l + 1) * ?c" unfolding geo_size_def using p [of "high_cyl g - low_cyl g + 1"] d lh by simp
  moreover have "0 < (?h - ?l + 1) * ?c" using assms(2) by simp
  ultimately have "unat (geo_size g) + 1 = (?h - ?l + 1) * ?c"
    using unat_add_1 [of "geo_size g"] by (simp only:)
  moreover have e: "?l + (?h - ?l + 1) = ?h + 1" using lh by simp
  have "?l * ?c + (?h - ?l + 1) * ?c = (?h + 1) * ?c" by (simp only: add_mult_distrib [symmetric] e)
  ultimately show "unat (geo_start g) + unat (geo_size g) + 1 = (?h + 1) * ?c" using s by simp
qed

lemma drive_name:
  assumes "length blk = 512" "blk ! 36 < 32"
  shows "bcpl_strcpy 32 (drop 36 (blk @ rest)) = Some (text_of (take (unat (blk ! 36)) (drop 37 blk)))"
proof -
  have "unat (blk ! 36) < 32" using assms(2) by (simp add: word_less_nat_alt)
  then show ?thesis using assms(1) by (simp add: bcpl_strcpy_def rd_def bytes_at_def nth_append)
qed

text \<open>When the rigid disk block lies within the scan limit behind blocks that do not look like one, and its list of partition
  blocks is intact, the lookup ends for every number: partition \<open>n\<close> is the \<open>n\<close>-th block of the list, and any other number
  gives -1 and leaves the description alone.\<close>

lemma amiga_lookup:
  assumes "amiga_disk getenv dev rblk chain" "length (block_buffer st) = 2048"
  shows "\<exists>info' st'. get_partition_info_amiga getenv dev part info st =
      Some (if 1 \<le> part \<and> part \<le> int (length chain) then 0 else -1, info', st') \<and>
    (if 1 \<le> part \<and> part \<le> int (length chain) then describes rblk (snd (chain ! nat (part - 1))) info' else info' = info)"
proof -
  obtain i s where d: "0 \<le> i" "i < scan_limit getenv" "block_is dev (of_int i) rblk" "good_block AMIGA_ID_RDISK rblk"
      "\<forall>j. 0 \<le> j \<and> j < i \<longrightarrow> skipped dev AMIGA_ID_RDISK (of_int j)" "get32 rblk 28 = Some s" "part_chain dev s chain"
    using assms(1) by (auto simp: amiga_disk_def)
  have len: "length rblk = 512" using d(4) by (simp add: good_block_def)
  obtain rest where r: "scan_blocks dev AMIGA_ID_RDISK (scan_limit getenv) 0 (block_buffer st) = Some (True, rblk @ rest)" "length (rblk @ rest) = 2048"
    using scan_finds [OF d(1-5) assms(2)] by blast
  let ?rdb = "take 256 rblk"
  have t: "get32 ?rdb 28 = Some s" "\<exists>b. get32 rblk 16 = Some b \<and> get32 ?rdb 16 = Some b"
    using d(6) len by (simp_all add: get32_def)
  then obtain b where b: "get32 rblk 16 = Some b" "get32 ?rdb 16 = Some b" by blast
  let ?st1 = "st\<lparr>block_buffer := rblk @ rest, rdb := ?rdb\<rparr>"
  have g: "get_rdisk getenv dev st = Some (True, ?st1)" using r(1) len by (simp add: get_rdisk_def bytes_at_def)
  obtain blk' buf' where f: "find_loop dev s (part - 1) (rblk @ rest) = Some (blk', buf')" "length buf' = 2048"
      "if 0 \<le> part - 1 \<and> part - 1 < int (length chain) then blk' \<noteq> END_OF_LIST \<and> (\<exists>rest. buf' = snd (chain ! nat (part - 1)) @ rest) else blk' = END_OF_LIST"
    using find_loop_chain [OF d(7) r(2), of "part - 1"] by blast
  have fp: "find_partition getenv dev (part - 1) st = Some (blk' \<noteq> END_OF_LIST, ?st1\<lparr>block_buffer := buf'\<rparr>)"
    using g t(1) f(1) by (simp add: find_partition_def)
  show ?thesis
  proof (cases "1 \<le> part \<and> part \<le> int (length chain)")
    case True
    then obtain rest' where e: "blk' \<noteq> END_OF_LIST" "buf' = snd (chain ! nat (part - 1)) @ rest'" using f(3) by auto
    let ?blk = "snd (chain ! nat (part - 1))"
    have "part_block (snd x)" if "x \<in> set chain" for x using d(7) that by (induction chain arbitrary: s) auto
    moreover have "chain ! nat (part - 1) \<in> set chain" using True by (intro nth_mem) linarith
    ultimately have pb: "part_block ?blk" by blast
    obtain gm where gm: "geometry ?blk = Some gm" "low_cyl gm \<le> high_cyl gm" "0 < unat (block_per_track gm) * unat (surfaces gm)"
        "(unat (high_cyl gm) + 1) * (unat (block_per_track gm) * unat (surfaces gm)) < 2 ^ 32" using pb by (auto simp: part_block_def)
    have nm: "bcpl_strcpy 32 (drop 36 buf') = Some (text_of (take (unat (?blk ! 36)) (drop 37 ?blk)))"
      using pb unfolding e(2) by (intro drive_name) (simp_all add: part_block_def good_block_def)
    have "get_partition_info_amiga getenv dev part info st = Some (0, info\<lparr>pi_start := geo_start gm, pi_size := geo_size gm, pi_blksz := b,
        pi_name := text_of (take (unat (?blk ! 36)) (drop 37 ?blk)), pi_type := text_of (disk_type_chars (dos_type gm))\<rparr>, ?st1\<lparr>block_buffer := buf'\<rparr>)"
      using fp e b(2) nm geometry_append [OF gm(1), of rest'] by (simp add: get_partition_info_amiga_def)
    then show ?thesis using True gm(1) geo_blocks [OF gm(2-4)] b(1) by (auto simp: describes_def)
  next
    case False
    then show ?thesis using fp f(3) by (auto simp: get_partition_info_amiga_def)
  qed
qed

section \<open>An example\<close>

text \<open>Blocks written as longwords.\<close>

definition block_of :: "u32 list \<Rightarrow> u8 list" where
  "block_of ws = concat (map store_be32 ws)"

lemma length_block_of: "length (block_of ws) = 4 * length ws"
  by (induction ws) (simp_all add: block_of_def store_be32_def)

lemma block_of_Cons: "block_of (w # ws) = store_be32 w @ block_of ws"
  by (simp add: block_of_def)

lemma get32_store: "get32 (store_be32 w @ bs) 0 = Some w"
  using load_be32_store_be32 [of w] by (simp add: get32_def store_be32_def)

lemma get32_block_of: "i < length ws \<Longrightarrow> get32 (block_of ws) (4 * i) = Some (ws ! i)"
proof (induction ws arbitrary: i)
  case (Cons w ws)
  show ?case
  proof (cases i)
    case 0
    then show ?thesis by (simp add: block_of_Cons get32_store)
  next
    case (Suc j)
    have "get32 (store_be32 w @ block_of ws) (4 * i) = get32 (block_of ws) (4 * j)"
      unfolding Suc by (simp add: get32_def rd_def store_be32_def add.commute [of 3])
    then show ?thesis using Cons Suc by (simp add: block_of_Cons)
  qed
qed simp

lemma sum_longs_block_of: "n \<le> length ws \<Longrightarrow> sum_longs (block_of ws) n s = Some (s + sum_list (take n ws))"
proof (induction ws arbitrary: n s)
  case (Cons w ws)
  have "sum_longs (block_of (w # ws)) (Suc m) s = sum_longs (block_of ws) m (s + w)" for m
    using load_be32_store_be32 [of w] by (simp add: block_of_Cons store_be32_def)
  then show ?case using Cons by (cases n) (simp_all add: add.assoc)
qed (simp add: block_of_def)

lemma good_block_of:
  assumes "length ws = 128" "ws ! 0 = ident" "unat (ws ! 1) \<le> 128" "sum_list (take (unat (ws ! 1)) ws) = 0"
  shows "good_block ident (block_of ws)"
  using assms get32_block_of [of 0 ws] get32_block_of [of 1 ws]
  by (simp add: good_block_def length_block_of sum_block_def sum_longs_block_of)

definition longs :: "(nat \<times> u32) list \<Rightarrow> u32 list" where
  "longs kvs = map (\<lambda>i. case map_of kvs i of Some v \<Rightarrow> v | None \<Rightarrow> 0) [0..<128]"

definition example_rdb :: "u32 list" where
  "example_rdb = longs [(0, 0x5244534B), (1, 64), (2, - (0x5244534B + 64 + 512 + 2)), (4, 512), (7, 2)]"

definition example_part :: "u32 list" where
  "example_part = longs [(0, 0x50415254), (1, 64), (2, - (0x50415254 + 64 + 0xFFFFFFFF + 0x03444830 + 2 + 8 + 2 + 9 + 0x444f5303)),
     (4, 0xFFFFFFFF), (9, 0x03444830), (35, 2), (37, 8), (41, 2), (42, 9), (48, 0x444f5303)]"

definition example_amiga :: "u32 \<Rightarrow> u8 list" where
  "example_amiga s = block_of (if s = 1 then example_rdb else if s = 2 then example_part else longs [])"

lemma length_longs [simp]: "length (longs kvs) = 128"
  by (simp add: longs_def)

lemma longs_nth: "i < 128 \<Longrightarrow> longs kvs ! i = (case map_of kvs i of Some v \<Rightarrow> v | None \<Rightarrow> 0)"
  by (simp add: longs_def)

lemma example_sums: "sum_list (take 64 example_rdb) = 0" "sum_list (take 64 example_part) = 0"
  by code_simp+

lemma example_rdb_good: "good_block 0x5244534B (block_of example_rdb)"
  by (rule good_block_of) (use example_sums in \<open>simp_all add: example_rdb_def longs_nth\<close>)

lemma example_part_good: "good_block 0x50415254 (block_of example_part)"
  by (rule good_block_of) (use example_sums in \<open>simp_all add: example_part_def longs_nth\<close>)

lemma example_geometry:
  "geometry (block_of example_part) = Some \<lparr>surfaces = 2, block_per_track = 8, low_cyl = 2, high_cyl = 9, boot_priority = 0, dos_type = 0x444f5303\<rparr>"
  using get32_block_of [of 35 example_part] get32_block_of [of 37 example_part] get32_block_of [of 41 example_part]
    get32_block_of [of 42 example_part] get32_block_of [of 47 example_part] get32_block_of [of 48 example_part]
  by (simp add: geometry_def example_part_def longs_nth)

lemma example_name: "take 4 (drop 36 (block_of example_part)) = [3, 0x44, 0x48, 0x30]"
proof -
  have "drop (4 * n) (block_of ws) = block_of (drop n ws)" for n ws
  proof (induction ws arbitrary: n)
    case (Cons w ws)
    have "length (store_be32 w) = 4" by (simp add: store_be32_def)
    with Cons show ?case by (cases n) (simp_all add: block_of_Cons)
  qed (simp add: block_of_def)
  from this [of 9] have "drop 36 (block_of example_part) = block_of (drop 9 example_part)" by simp
  also have "drop 9 example_part = 0x03444830 # drop 10 example_part"
    by (simp add: Cons_nth_drop_Suc [symmetric] example_part_def longs_nth)
  finally show ?thesis by (simp add: block_of_Cons store_be32_def)
qed

lemma example_amiga_disk:
  "amiga_disk (\<lambda>_. None) (make_dev example_amiga) (block_of example_rdb) [(2, block_of example_part)]"
proof -
  have b: "block_is (make_dev example_amiga) s (example_amiga s)" for s by (rule make_dev_block)
  have "skipped (make_dev example_amiga) 0x5244534B (of_int j)" if "0 \<le> j" "j < 1" for j
    using that get32_block_of [of 0 "longs []"] get32_append [of "block_of (longs [])" 0 0]
    by (cases "j = 0") (auto simp: skipped_def make_dev_def example_amiga_def length_block_of longs_nth)
  moreover have "scan_limit (\<lambda>_. None) = 16" by (simp add: scan_limit_def)
  moreover have "get32 (block_of example_rdb) 28 = Some 2" "get32 (block_of example_part) 16 = Some 0xFFFFFFFF"
    using get32_block_of [of 7 example_rdb] get32_block_of [of 4 example_part] by (simp_all add: example_rdb_def example_part_def longs_nth)
  moreover have "block_of example_part ! 36 = 3"
    using arg_cong [OF example_name, of "\<lambda>l. l ! 0"] by (simp add: length_block_of example_part_def)
  then have "part_block (block_of example_part)" using example_part_good by (simp add: part_block_def example_geometry)
  ultimately show ?thesis
    using example_rdb_good b [of 1] b [of 2]
    by (auto simp: amiga_disk_def example_amiga_def intro!: exI [of _ "1 :: int"])
qed

lemma example_drive_name: "text_of (take (unat (block_of example_part ! 36)) (drop 37 (block_of example_part))) = ''DH0''"
proof -
  have "drop 37 (block_of example_part) = tl (drop 36 (block_of example_part))" by (simp add: tl_drop flip: drop_Suc)
  then have "take 3 (drop 37 (block_of example_part)) = [0x44, 0x48, 0x30]"
    using arg_cong [OF example_name, of tl] by (simp add: tl_take)
  moreover have "block_of example_part ! 36 = 3"
    using arg_cong [OF example_name, of "\<lambda>l. l ! 0"] by (simp add: length_block_of example_part_def)
  ultimately show ?thesis
    by (simp add: text_of_def char_of_byte_def) code_simp
qed

section \<open>Damaged lists\<close>

text \<open>A partition block with a wrong sum is read again and again: the search never ends.\<close>

lemma bad_sum_diverges:
  assumes "block_is dev s blk" "length blk = 512" "get32 blk 0 = Some AMIGA_ID_PART" "sum_block blk = Some 1" "s \<noteq> END_OF_LIST" "length buf = 2048"
  shows "find_loop dev s n buf = None"
proof (rule ccontr)
  assume "find_loop dev s n buf \<noteq> None"
  then obtain y where "find_loop dev s n buf = Some y" by blast
  then have "\<not> (block_is dev s blk \<and> s \<noteq> END_OF_LIST \<and> length buf = 2048)"
  proof (rule find_loop.raw_induct [rotated], goal_cases)
    case (1 f dev s n buf y)
    show ?case
    proof
      assume a: "block_is dev s blk \<and> s \<noteq> END_OF_LIST \<and> length buf = 2048"
      then obtain rest where r: "block_read dev s 1 buf = (1, blk @ rest)" "length (blk @ rest) = 2048"
        using block_into_buffer assms(2) by blast
      have "f dev s n (blk @ rest) = Some y" using 1(2) a assms(3,4) by (simp add: r(1) get32_append sum_block_append)
      from 1(1) [OF this] a r(2) show False by blast
    qed
  qed
  with assms show False by blast
qed

end
