(* ===== verification/PartIso.thy ===== *)
theory PartIso
  imports Disk
begin

text \<open>
  disk/part_iso.c: the boot images of a CD (El Torito). The static buffer \<open>tmpbuf\<close> is passed as the last argument and
  returned; what is printed is part of the result. \<open>None\<close> is an access outside the buffer.
\<close>

abbreviation (input) "PVD_OFFSET \<equiv> (0x10 :: u32)"

text \<open>The offsets of the fields of \<open>iso_pri_rec_t\<close>, \<open>iso_boot_rec_t\<close>, \<open>iso_val_entry_t\<close> and \<open>iso_init_def_entry_t\<close>.\<close>

abbreviation (input) "iso_desctype \<equiv> (0 :: nat)"
abbreviation (input) "iso_stand_ident \<equiv> (1 :: nat)"
abbreviation (input) "iso_ident_str \<equiv> (7 :: nat)"
abbreviation (input) "iso_pointer \<equiv> (71 :: nat)"
abbreviation (input) "iso_secsize_BE \<equiv> (130 :: nat)"
abbreviation (input) "iso_firstsek_LEpathtab1_LE \<equiv> (140 :: nat)"
abbreviation (input) "iso_key \<equiv> (30 :: nat)"
abbreviation (input) "ide_boot_ind \<equiv> (0 :: nat)"
abbreviation (input) "ide_boot_media \<equiv> (1 :: nat)"
abbreviation (input) "ide_sec_cnt \<equiv> (6 :: nat)"
abbreviation (input) "ide_rel_block_addr \<equiv> (8 :: nat)"

type_synonym iso_result = "int \<times> disk_partition \<times> string \<times> u8 list"

definition le16_to_int :: "u8 list \<Rightarrow> u16 option" where
  "le16_to_int le16 = do { a \<leftarrow> rd le16 1; b \<leftarrow> rd le16 0; Some (ucast (push_bit 8 (ucast a) + ucast b :: u32)) }"

definition get16_be :: "u8 list \<Rightarrow> nat \<Rightarrow> u16 option" where
  "get16_be buf i = do { a \<leftarrow> rd buf i; b \<leftarrow> rd buf (i + 1); Some (push_bit 8 (ucast a) OR ucast b) }"

text \<open>The string at an offset of the buffer, which \<open>%s\<close> prints; without a NUL the buffer is left.\<close>

definition c_text :: "u8 list \<Rightarrow> nat \<Rightarrow> string option" where
  "c_text buf i = (if 0 \<in> set (drop i buf) then Some (text_of (drop i buf)) else None)"

text \<open>A failure: -1 and a message if \<open>verb\<close> is set.\<close>

definition iso_fail :: "bool \<Rightarrow> string \<Rightarrow> vararg list \<Rightarrow> disk_partition \<Rightarrow> u8 list \<Rightarrow> iso_result option" where
  "iso_fail verb fmt args info buf =
     (if verb then do { out \<leftarrow> printf (fmt @ nl) args; Some (-1, info, out, buf) } else Some (-1, info, [], buf))"

section \<open>The volume descriptors\<close>

definition iso_lastsect :: "u32 \<Rightarrow> u32" where
  "iso_lastsect w = push_bit 24 (w AND 0x000000ff) + push_bit 8 (w AND 0x0000ff00) + drop_bit 8 (w AND 0x00ff0000) + drop_bit 24 (w AND 0xff000000)"

datatype descriptor_end = Unreadable | Terminator | Searched

text \<open>The loop over the descriptors. It ends at the boot record or at \<open>lastsect\<close>, and with an error at an unreadable block or
  at the terminator.\<close>

function find_boot_record :: "block_dev_desc \<Rightarrow> u32 \<Rightarrow> u32 \<Rightarrow> u8 list \<Rightarrow> (descriptor_end \<times> u8 list) option" where
  "find_boot_record dev lastsect i buf =
     (if i < lastsect then
        let (n, buf) = block_read dev i 1 buf in
        if n \<noteq> 1 then Some (Unreadable, buf)
        else do {
          t \<leftarrow> rd buf iso_desctype;
          if t = 0x00 then Some (Searched, buf)
          else if t = 0xff then Some (Terminator, buf)
          else find_boot_record dev lastsect (i + 1) buf
        }
      else Some (Searched, buf))"
  by pat_completeness auto
termination
  by (relation "measure (\<lambda>(dev, lastsect, i, buf). unat lastsect - unat i)") (auto intro: word_loop_measure)

declare find_boot_record.simps [simp del]

section \<open>The boot catalog\<close>

fun catalog_sum :: "u8 list \<Rightarrow> nat \<Rightarrow> nat \<Rightarrow> u16 \<Rightarrow> u16 option" where
  "catalog_sum buf i 0 chksum = Some chksum"
| "catalog_sum buf i (Suc n) chksum = do {
     h \<leftarrow> get16_be buf (2 * i);
     catalog_sum buf (i + 1) n (chksum + (push_bit 8 (h AND 0xff) + drop_bit 8 (h AND 0xff00)))
   }"

text \<open>The search for the entry with number \<open>part_num\<close>: its offset.\<close>

function find_boot_entry :: "u8 list \<Rightarrow> int \<Rightarrow> int \<Rightarrow> nat \<Rightarrow> nat option option" where
  "find_boot_entry buf part_num entry_num offset =
     (if offset < 2048 then do {
        b \<leftarrow> rd buf (offset + ide_boot_ind);
        if b = 0x88 \<or> b = 0x00 then
          if entry_num = part_num then Some (Some offset)
          else find_boot_entry buf part_num (entry_num + 1) (offset + 0x20)
        else if b = 0x90 \<or> b = 0x91 \<or> b = 0x44 then find_boot_entry buf part_num entry_num (offset + 0x20)
        else Some None
      } else Some None)"
  by pat_completeness auto
termination
  by (relation "measure (\<lambda>(buf, p, e, offset). 2048 - offset)") auto

declare find_boot_entry.simps [simp del]

definition boot_size :: "u8 list \<Rightarrow> nat \<Rightarrow> u32 option" where
  "boot_size buf offset = do {
     m \<leftarrow> rd buf (offset + ide_boot_media);
     if m = 0x00 then do { n \<leftarrow> le16_to_int (drop (offset + ide_sec_cnt) buf); Some (drop_bit 2 (ucast n)) }
     else Some (if m = 0x01 then drop_bit 2 2400 else if m = 0x02 then drop_bit 2 2880 else if m = 0x03 then drop_bit 2 5760
       else if m = 0x04 then drop_bit 2 2880 else 0)
   }"

text \<open>The part of \<open>get_partition_info_iso_verb\<close> behind the checks of the validation entry.\<close>

definition iso_entry :: "block_dev_desc \<Rightarrow> int \<Rightarrow> disk_partition \<Rightarrow> bool \<Rightarrow> u8 list \<Rightarrow> iso_result option" where
  "iso_entry dev part_num info verb buf = do {
     nm \<leftarrow> part_name dev part_num;
     let info = info\<lparr>pi_type := ''U-Boot'', pi_name := nm\<rparr>;
     let args = [VInt (of_int part_num), VInt (dd_dev dev)];
     r \<leftarrow> find_boot_entry buf part_num 0 0x20;
     case r of
       None \<Rightarrow> iso_fail verb ''** Partition %d not found on device %d **'' args info buf
     | Some offset \<Rightarrow> do {
         b \<leftarrow> rd buf (offset + ide_boot_ind);
         if b \<noteq> 0x88 then iso_fail verb ''** Partition %d is not bootable on device %d **'' args info buf
         else do {
           sz \<leftarrow> boot_size buf offset;
           newblkaddr \<leftarrow> le32_to_int (drop (offset + ide_rel_block_addr) buf);
           Some (0, info\<lparr>pi_size := sz, pi_start := newblkaddr\<rparr>, [], buf)
         }
       }
   }"

text \<open>The checks of the catalog, which has been read into the buffer.\<close>

definition iso_catalog :: "block_dev_desc \<Rightarrow> int \<Rightarrow> disk_partition \<Rightarrow> bool \<Rightarrow> u8 list \<Rightarrow> iso_result option" where
  "iso_catalog dev part_num info verb buf = do {
     let args = [VInt (dd_dev dev), VInt (of_int part_num)];
     chksum \<leftarrow> catalog_sum buf 0 0x10 0;
     if chksum \<noteq> 0 then iso_fail verb ''** Checksum Error in booting catalog validation entry on %d:%d **'' args info buf
     else do {
       k0 \<leftarrow> rd buf iso_key;
       k1 \<leftarrow> rd buf (iso_key + 1);
       if k0 \<noteq> 0x55 \<or> k1 \<noteq> 0xAA then iso_fail verb ''** Key 0x55 0xAA error on %d:%d **'' args info buf
       else iso_entry dev part_num info verb buf
     }
   }"

text \<open>The part behind the search for the boot record.\<close>

definition iso_boot_record :: "block_dev_desc \<Rightarrow> int \<Rightarrow> disk_partition \<Rightarrow> bool \<Rightarrow> u8 list \<Rightarrow> iso_result option" where
  "iso_boot_record dev part_num info verb buf = do {
     let args = [VInt (dd_dev dev), VInt (of_int part_num)];
     ident \<leftarrow> bytes_at buf iso_ident_str 23;
     if ident \<noteq> map byte_of ''EL TORITO SPECIFICATION'' then do {
       s \<leftarrow> (if verb then c_text buf iso_ident_str else Some []);
       iso_fail verb ''** Wrong El Torito ident: %s on %d:%d **'' (VStr (Some s) # args) info buf
     }
     else do {
       bootaddr \<leftarrow> le32_to_int (drop iso_pointer buf);
       let (n, buf) = block_read dev bootaddr 1 buf;
       if n \<noteq> 1 then iso_fail verb ''** Can't read Boot Entry at %lX on %d:%d **'' (VInt bootaddr # args) info buf
       else iso_catalog dev part_num info verb buf
     }
   }"

definition get_partition_info_iso_verb :: "block_dev_desc \<Rightarrow> int \<Rightarrow> disk_partition \<Rightarrow> bool \<Rightarrow> u8 list \<Rightarrow> iso_result option" where
  "get_partition_info_iso_verb dev part_num info verb tmpbuf = do {
     let args = [VInt (dd_dev dev), VInt (of_int part_num)];
     let (n, buf) = block_read dev PVD_OFFSET 1 tmpbuf;
     if n \<noteq> 1 then Some (-1, info, [], buf)
     else do {
       t \<leftarrow> rd buf iso_desctype;
       if t \<noteq> 0x01 then iso_fail verb ''** First descriptor is NOT a primary desc on %d:%d **'' args info buf
       else do {
         ident \<leftarrow> bytes_at buf iso_stand_ident 5;
         if ident \<noteq> map byte_of ''CD001'' then do {
           s \<leftarrow> (if verb then c_text buf iso_stand_ident else Some []);
           iso_fail verb ''** Wrong ISO Ident: %s on %d:%d **'' (VStr (Some s) # args) info buf
         }
         else do {
           w \<leftarrow> get32 buf iso_firstsek_LEpathtab1_LE;
           bs \<leftarrow> get16_be buf iso_secsize_BE;
           let info = info\<lparr>pi_blksz := ucast bs\<rparr>;
           (stop, buf) \<leftarrow> find_boot_record dev (iso_lastsect w) PVD_OFFSET buf;
           case stop of
             Unreadable \<Rightarrow> Some (-1, info, [], buf)
           | Terminator \<Rightarrow> iso_fail verb ''** No valid boot catalog found on %d:%d **'' args info buf
           | Searched \<Rightarrow> iso_boot_record dev part_num info verb buf
         }
       }
     }
   }"

definition get_partition_info_iso :: "block_dev_desc \<Rightarrow> int \<Rightarrow> disk_partition \<Rightarrow> u8 list \<Rightarrow> iso_result option" where
  "get_partition_info_iso dev part_num info tmpbuf = get_partition_info_iso_verb dev part_num info True tmpbuf"

text \<open>\<open>info\<close> is the uninitialised variable on the stack.\<close>

definition test_part_iso :: "block_dev_desc \<Rightarrow> disk_partition \<Rightarrow> u8 list \<Rightarrow> (int \<times> u8 list) option" where
  "test_part_iso dev info tmpbuf = do {
     (r, info, out, buf) \<leftarrow> get_partition_info_iso_verb dev 0 info False tmpbuf;
     Some (r, buf)
   }"

partial_function (option) print_iso_loop :: "block_dev_desc \<Rightarrow> int \<Rightarrow> disk_partition \<Rightarrow> string \<Rightarrow> u8 list \<Rightarrow> (string \<times> u8 list) option" where
  "print_iso_loop dev i info out buf = do {
     line \<leftarrow> printf ('' %2d %8ld %8ld %6ld %.32s'' @ nl)
       [VInt (of_int i), VInt (pi_start info), VInt (pi_size info), VInt (pi_blksz info), VStr (Some (pi_type info))];
     (r, info, _, buf) \<leftarrow> get_partition_info_iso_verb dev (i + 1) info False buf;
     if r \<noteq> -1 then print_iso_loop dev (i + 1) info (out @ line) buf else Some (out @ line, buf)
   }"

definition print_part_iso :: "block_dev_desc \<Rightarrow> disk_partition \<Rightarrow> u8 list \<Rightarrow> (string \<times> u8 list) option" where
  "print_part_iso dev info tmpbuf = do {
     (r, info, _, buf) \<leftarrow> get_partition_info_iso_verb dev 0 info False tmpbuf;
     if r = -1 then do { out \<leftarrow> printf (''** No boot partition found on device %d **'' @ nl) [VInt (dd_dev dev)]; Some (out, buf) }
     else print_iso_loop dev 0 info (''Part   Start     Sect x Size Type'' @ nl) buf
   }"

end
