(* ===== verification/PartIsoSpec.thy ===== *)
theory PartIsoSpec
  imports PartIso
begin

text \<open>
  What \<open>get_partition_info_iso\<close> finds on a bootable CD: the reference is the list of boot entries of its catalog.
\<close>

section \<open>Bootable CDs\<close>

definition is_boot_entry :: "u8 list \<Rightarrow> bool" where
  "is_boot_entry e \<longleftrightarrow> e ! 0 = 0x88 \<or> e ! 0 = 0x00"

definition is_header_entry :: "u8 list \<Rightarrow> bool" where
  "is_header_entry e \<longleftrightarrow> e ! 0 = 0x90 \<or> e ! 0 = 0x91 \<or> e ! 0 = 0x44"

text \<open>The boot entries of a catalog, up to the first entry of an unknown kind.\<close>

definition boot_entries :: "u8 list list \<Rightarrow> u8 list list" where
  "boot_entries es = filter is_boot_entry (takeWhile (\<lambda>e. is_boot_entry e \<or> is_header_entry e) es)"

text \<open>The catalog: a good validation entry and 63 further entries of 32 bytes.\<close>

definition catalog :: "u8 list \<Rightarrow> u8 list list \<Rightarrow> bool" where
  "catalog val es \<longleftrightarrow> length val = 32 \<and> length es = 63 \<and> list_all (\<lambda>e. length e = 32) es \<and>
     catalog_sum val 0 16 0 = Some 0 \<and> val ! 30 = 0x55 \<and> val ! 31 = 0xAA"

text \<open>The blocks of the CD: the volume descriptors from block 16 on, the boot record in block \<open>k\<close>, and the catalog.\<close>

definition boot_cd :: "block_dev_desc \<Rightarrow> u16 \<Rightarrow> u8 list \<Rightarrow> u8 list list \<Rightarrow> bool" where
  "boot_cd dev bsize val es \<longleftrightarrow>
     (\<exists>pvd w k brec. length pvd = 2048 \<and> pvd ! 0 = 1 \<and> take 5 (drop 1 pvd) = map byte_of ''CD001'' \<and> get32 pvd 140 = Some w \<and>
        get16_be pvd 130 = Some bsize \<and> block_is dev 16 pvd \<and> 16 < k \<and> k < iso_lastsect w \<and>
        (\<forall>i. 16 \<le> i \<and> i < k \<longrightarrow> (\<exists>blk. length blk = 2048 \<and> blk ! 0 \<noteq> 0 \<and> blk ! 0 \<noteq> 0xff \<and> block_is dev i blk)) \<and>
        length brec = 2048 \<and> brec ! 0 = 0 \<and> take 23 (drop 7 brec) = map byte_of ''EL TORITO SPECIFICATION'' \<and> block_is dev k brec \<and>
        block_is dev (of_nat (le_value (take 4 (drop 71 brec)))) (val @ concat es)) \<and> catalog val es"

text \<open>The size of a boot image in blocks of the CD.\<close>

definition image_blocks :: "u8 list \<Rightarrow> nat" where
  "image_blocks e = (let m = e ! 1 in
     if m = 0 then le_value (take 2 (drop 6 e)) div 4
     else if m = 1 then 600 else if m = 2 then 720 else if m = 3 then 1440 else if m = 4 then 720 else 0)"

section \<open>The search\<close>

lemma full_block: "block_is dev s blk \<Longrightarrow> length blk = 2048 \<Longrightarrow> length buf = 2048 \<Longrightarrow> block_read dev s 1 buf = (1, blk)"
  using block_isD [of dev s blk buf] by simp

lemma find_boot_record_reaches:
  assumes "\<forall>i. j \<le> i \<and> i < k \<longrightarrow> (\<exists>blk. length blk = 2048 \<and> blk ! 0 \<noteq> 0 \<and> blk ! 0 \<noteq> 0xff \<and> block_is dev i blk)"
    and "j \<le> k" "k < lim" "length brec = 2048" "brec ! 0 = 0" "block_is dev k brec" "length buf = 2048"
  shows "find_boot_record dev lim j buf = Some (Searched, brec)"
  using assms
proof (induction "unat k - unat j" arbitrary: j buf)
  case 0
  have "k \<le> j" using 0(1) by (simp add: word_le_nat_alt)
  then have "j = k" using 0(3) by (rule order.antisym [rotated])
  then show ?case using 0 full_block [OF 0(7,5,8)] by (subst find_boot_record.simps) simp
next
  case (Suc n)
  then have jk: "j < k" by (simp add: word_less_nat_alt)
  then obtain blk where b: "length blk = 2048" "blk ! 0 \<noteq> 0" "blk ! 0 \<noteq> 0xff" "block_is dev j blk" using Suc.prems(1) by blast
  have j1: "unat (j + 1) = unat j + 1" by (rule unat_incr [OF jk])
  have "find_boot_record dev lim (j + 1) blk = Some (Searched, brec)"
  proof (rule Suc.hyps(1))
    show "n = unat k - unat (j + 1)" using Suc.hyps(2) j1 by simp
    show "\<forall>i. j + 1 \<le> i \<and> i < k \<longrightarrow> (\<exists>blk. length blk = 2048 \<and> blk ! 0 \<noteq> 0 \<and> blk ! 0 \<noteq> 0xff \<and> block_is dev i blk)"
      using Suc.prems(1) j1 by (auto simp: word_le_nat_alt)
    show "j + 1 \<le> k" using jk j1 by (simp add: word_le_nat_alt word_less_nat_alt)
  qed (use Suc.prems b in auto)
  moreover have "j < lim" using jk Suc.prems(3) by simp
  ultimately show ?case using full_block [OF b(4,1) Suc.prems(7)] b by (subst find_boot_record.simps) simp
qed

lemma find_boot_entry_spec:
  assumes "length pre + 32 * length es = 2048" "list_all (\<lambda>e. length e = 32) es"
  shows "if 0 \<le> n - m \<and> n - m < int (length (boot_entries es))
    then \<exists>off. find_boot_entry (pre @ concat es) n m (length pre) = Some (Some off) \<and> off + 32 \<le> 2048 \<and>
      take 32 (drop off (pre @ concat es)) = boot_entries es ! nat (n - m)
    else find_boot_entry (pre @ concat es) n m (length pre) = Some None"
  using assms
proof (induction es arbitrary: pre m)
  case Nil
  then have "find_boot_entry pre n m (length pre) = Some None" by (subst find_boot_entry.simps) simp
  then show ?case by (simp add: boot_entries_def)
next
  case (Cons e es)
  let ?buf = "pre @ concat (e # es)"
  have e: "length e = 32" using Cons.prems by simp
  have len: "length pre < 2048" using Cons.prems by simp
  have b: "rd ?buf (length pre + 0) = Some (e ! 0)" using e by (simp add: rd_def nth_append)
  have eq: "(pre @ e) @ concat es = ?buf" "length (pre @ e) = length pre + 0x20" using e by simp_all
  have pr: "length (pre @ e) + 32 * length es = 2048" "list_all (\<lambda>e. length e = 32) es" using Cons.prems e by simp_all
  have IH: "if 0 \<le> n - m' \<and> n - m' < int (length (boot_entries es))
    then \<exists>off. find_boot_entry ?buf n m' (length pre + 0x20) = Some (Some off) \<and> off + 32 \<le> 2048 \<and> take 32 (drop off ?buf) = boot_entries es ! nat (n - m')
    else find_boot_entry ?buf n m' (length pre + 0x20) = Some None" for m'
    using Cons.IH [OF pr, of m'] unfolding eq .
  have step: "find_boot_entry ?buf n m (length pre) =
     (if is_boot_entry e then if m = n then Some (Some (length pre)) else find_boot_entry ?buf n (m + 1) (length pre + 0x20)
      else if is_header_entry e then find_boot_entry ?buf n m (length pre + 0x20) else Some None)"
    using len b by (subst find_boot_entry.simps) (simp add: is_boot_entry_def is_header_entry_def)
  consider (boot) "is_boot_entry e" | (header) "\<not> is_boot_entry e" "is_header_entry e" | (other) "\<not> is_boot_entry e" "\<not> is_header_entry e" by blast
  then show ?case
  proof cases
    case boot
    then have be: "boot_entries (e # es) = e # boot_entries es" by (simp add: boot_entries_def)
    show ?thesis
    proof (cases "m = n")
      case True
      have "take 32 (drop (length pre) ?buf) = e" using e by simp
      then show ?thesis using True boot be Cons.prems(1) step by simp
    next
      case False
      have "0 \<le> n - (m + 1) \<and> n - (m + 1) < int (length (boot_entries es)) \<longleftrightarrow> 0 \<le> n - m \<and> n - m < int (length (boot_entries (e # es)))"
        using False be by auto
      moreover have "0 \<le> n - (m + 1) \<Longrightarrow> boot_entries (e # es) ! nat (n - m) = boot_entries es ! nat (n - (m + 1))"
      proof -
        assume "0 \<le> n - (m + 1)"
        then have "nat (n - m) = Suc (nat (n - (m + 1)))" by simp
        then show ?thesis using be by simp
      qed
      ultimately show ?thesis using IH [of "m + 1"] False boot step by (auto split: if_splits)
    qed
  next
    case header
    then have "boot_entries (e # es) = boot_entries es" by (simp add: boot_entries_def)
    then show ?thesis using IH [of m] header step by (simp only: if_False if_True)
  next
    case other
    then have "boot_entries (e # es) = []" by (simp add: boot_entries_def)
    then show ?thesis using other step by simp
  qed
qed

section \<open>The description\<close>

lemma le16_value: "2 \<le> length bs \<Longrightarrow> le16_to_int bs = Some (of_nat (le_value (take 2 bs)))"
proof -
  assume "2 \<le> length bs"
  then obtain a b r where bs: "bs = a # b # r" by (cases bs; cases "tl bs") auto
  have "push_bit 8 (ucast b) + ucast a = (of_nat (le_value [a, b]) :: u32)" by (simp add: push_bit_eq_mult)
  moreover have "ucast (of_nat (le_value [a, b]) :: u32) = (of_nat (le_value [a, b]) :: u16)"
    using unsigned_less [where ?'a = nat, of a] unsigned_less [where ?'a = nat, of b] by (simp only: unsigned_of_nat) (simp add: take_bit_nat_eq_self)
  ultimately have v: "ucast (push_bit 8 (ucast b) + ucast a :: u32) = (of_nat (le_value [a, b]) :: u16)" by (simp only:)
  have "le16_to_int bs = Some (ucast (push_bit 8 (ucast b) + ucast a :: u32))" by (simp add: bs le16_to_int_def rd_def)
  also have "\<dots> = Some (of_nat (le_value (take 2 bs)))" unfolding v by (simp add: bs)
  finally show ?thesis .
qed

lemma le_value_2: "length bs = 2 \<Longrightarrow> le_value bs < 2 ^ 16"
  using unsigned_less [where ?'a = nat, of "bs ! 0"] unsigned_less [where ?'a = nat, of "bs ! 1"] by (cases bs; cases "tl bs") auto

lemma entry_byte: "take 32 (drop off buf) = e \<Longrightarrow> off + 32 \<le> length buf \<Longrightarrow> i < 32 \<Longrightarrow> rd buf (off + i) = Some (e ! i)"
  by (auto simp: rd_def)

lemma entry_range: "take 32 (drop off buf) = e \<Longrightarrow> n + i \<le> 32 \<Longrightarrow> take n (drop (off + i) buf) = take n (drop i e)"
  by (auto simp: drop_take add.commute)

lemma boot_size_value:
  assumes e: "take 32 (drop off buf) = e" "length e = 32"
  shows "boot_size buf off = Some (of_nat (image_blocks e))"
proof -
  have l: "off + 32 \<le> length buf" using assms by auto
  have m: "rd buf (off + 1) = Some (e ! 1)" by (rule entry_byte [OF e(1) l]) simp
  let ?n = "le_value (take 2 (drop 6 e))"
  have "take 2 (drop (off + 6) buf) = take 2 (drop 6 e)" by (rule entry_range [OF e(1)]) simp
  then have n: "le16_to_int (drop (off + 6) buf) = Some (of_nat ?n)" using le16_value [of "drop (off + 6) buf"] l by simp
  have "?n < 2 ^ 16" by (rule le_value_2) (simp add: e(2))
  then have "drop_bit 2 (ucast (of_nat ?n :: u16) :: u32) = of_nat (?n div 4)"
    by (intro word_unat_eq_iff [THEN iffD2]) (simp add: unat_drop_div unat_ucast_mod unat_of_nat take_bit_nat_def)
  then show ?thesis using m n by (auto simp: boot_size_def image_blocks_def Let_def drop_bit_eq_div)
qed

lemma le32_prefix: "4 \<le> length bs \<Longrightarrow> le32_to_int bs = Some (of_nat (le_value (take 4 bs)))"
  using le32_value [of "take 4 bs"] by (cases "bs = []") (simp_all add: le32_to_int_def rd_def)

lemma iso_fail_prints:
  "fmt = ''** Partition %d not found on device %d **'' \<or> fmt = ''** Partition %d is not bootable on device %d **'' \<Longrightarrow>
   \<exists>out. iso_fail True fmt [VInt a, VInt b] info buf = Some (-1, info, out, buf) \<and> out \<noteq> []"
  by (elim disjE) (simp_all add: iso_fail_def printf_def sprintf_def conv_simps flag_set_def)

lemma catalog_sum_append: "catalog_sum xs i n s = Some r \<Longrightarrow> catalog_sum (xs @ ys) i n s = Some r"
  by (induction n arbitrary: i s) (auto simp: get16_be_def bind_eq_Some_conv rd_append_left)

text \<open>C28: \<open>get_partition_info_iso\<close> finds the boot images of a CD. When the CD has a primary volume descriptor, a boot record in
  front of the path table and a catalog with a good validation entry, the search ends for every number \<open>n\<close>. If the \<open>n\<close>-th boot
  entry of the catalog exists and is bootable, the result is 0 with its first block, its size in blocks and the block size of the
  CD, and nothing is printed; otherwise it is -1, after a message.\<close>

theorem iso_boot_found:
  assumes "boot_cd dev bsize val es" "length tmpbuf = 2048"
  shows "if 0 \<le> n \<and> n < int (length (boot_entries es)) \<and> boot_entries es ! nat n ! 0 = 0x88
    then get_partition_info_iso dev n info tmpbuf = Some (0, info\<lparr>pi_blksz := ucast bsize, pi_type := ''U-Boot'',
        pi_name := the (part_name dev n), pi_size := of_nat (image_blocks (boot_entries es ! nat n)), pi_start := of_nat (le_value (take 4 (drop 8 (boot_entries es ! nat n))))\<rparr>, [], val @ concat es)
    else \<exists>info' out buf. get_partition_info_iso dev n info tmpbuf = Some (-1, info', out, buf) \<and> out \<noteq> []"
proof -
  obtain pvd w k brec where d: "length pvd = 2048" "pvd ! 0 = 1" "take 5 (drop 1 pvd) = map byte_of ''CD001''" "get32 pvd 140 = Some w"
      "get16_be pvd 130 = Some bsize" "block_is dev 16 pvd" "16 < k" "k < iso_lastsect w"
      "\<forall>i. 16 \<le> i \<and> i < k \<longrightarrow> (\<exists>blk. length blk = 2048 \<and> blk ! 0 \<noteq> 0 \<and> blk ! 0 \<noteq> 0xff \<and> block_is dev i blk)"
      "length brec = 2048" "brec ! 0 = 0" "take 23 (drop 7 brec) = map byte_of ''EL TORITO SPECIFICATION''" "block_is dev k brec"
      "block_is dev (of_nat (le_value (take 4 (drop 71 brec)))) (val @ concat es)"
    using assms(1) unfolding boot_cd_def by (elim conjE exE) (rule that)
  have c: "length val = 32" "length es = 63" "list_all (\<lambda>e. length e = 32) es" "catalog_sum val 0 16 0 = Some 0" "val ! 30 = 0x55" "val ! 31 = 0xAA"
    using assms(1) by (simp_all add: boot_cd_def catalog_def)
  let ?cat = "val @ concat es" and ?info = "info\<lparr>pi_blksz := ucast bsize\<rparr>"
  have "length (concat es) = 32 * length es" using c(3) by (induction es) auto
  then have l: "length ?cat = 2048" using c(1,2) by simp
  have s: "find_boot_record dev (iso_lastsect w) 16 pvd = Some (Searched, brec)"
    using find_boot_record_reaches [OF d(9) _ d(8) d(10,11,13) d(1)] d(7) by simp
  have p: "le32_to_int (drop 71 brec) = Some (of_nat (le_value (take 4 (drop 71 brec))))"
    using d(10) by (intro le32_prefix) simp
  have k: "rd ?cat 30 = Some 0x55" "rd ?cat 31 = Some 0xAA" "catalog_sum ?cat 0 16 0 = Some 0"
    using c by (simp_all add: rd_def nth_append catalog_sum_append)
  have t0: "rd pvd 0 = Some 1" using d(1,2) by (simp add: rd_def)
  have top: "get_partition_info_iso dev n info tmpbuf = iso_entry dev n ?info True ?cat"
    using full_block [OF d(6,1) assms(2)] d(1,3-5,10,12) t0 s p full_block [OF d(14) l d(10)] k
    by (simp add: get_partition_info_iso_def get_partition_info_iso_verb_def bytes_at_def iso_boot_record_def iso_catalog_def Let_def)
  obtain nm where nm: "part_name dev n = Some nm" using part_name_total by blast
  have f: "if 0 \<le> n - 0 \<and> n - 0 < int (length (boot_entries es))
    then \<exists>off. find_boot_entry ?cat n 0 (length val) = Some (Some off) \<and> off + 32 \<le> 2048 \<and> take 32 (drop off ?cat) = boot_entries es ! nat (n - 0)
    else find_boot_entry ?cat n 0 (length val) = Some None"
    by (rule find_boot_entry_spec) (use c in simp_all)
  show ?thesis
  proof (cases "0 \<le> n \<and> n < int (length (boot_entries es))")
    case True
    let ?e = "boot_entries es ! nat n"
    obtain off where o: "find_boot_entry ?cat n 0 0x20 = Some (Some off)" "off + 32 \<le> 2048" "take 32 (drop off ?cat) = ?e"
      using f True c(1) by auto
    have "length (take 32 (drop off ?cat)) = 32" unfolding length_take length_drop l using o(2) by simp
    then have le: "length ?e = 32" by (simp only: o(3))
    have b: "rd ?cat (off + 0) = Some (?e ! 0)" by (rule entry_byte [OF o(3)]) (use o(2) l in simp_all)
    have "take 4 (drop (off + 8) ?cat) = take 4 (drop 8 ?e)" by (rule entry_range [OF o(3)]) simp
    then have st: "le32_to_int (drop (off + 8) ?cat) = Some (of_nat (le_value (take 4 (drop 8 ?e))))"
      using le32_prefix [of "drop (off + 8) ?cat"] o(2) l by simp
    show ?thesis
    proof (cases "?e ! 0 = 0x88")
      case True
      then show ?thesis unfolding top using \<open>0 \<le> n \<and> n < _\<close> nm o(1) b boot_size_value [OF o(3) le] st by (simp add: iso_entry_def)
    next
      case False
      then show ?thesis unfolding top using nm o(1) b
        iso_fail_prints [of "''** Partition %d is not bootable on device %d **''" "of_int n" "dd_dev dev" "?info\<lparr>pi_type := ''U-Boot'', pi_name := nm\<rparr>" ?cat]
        by (auto simp: iso_entry_def)
    qed
  next
    case False
    then have "find_boot_entry ?cat n 0 0x20 = Some None" using f c(1) by auto
    then show ?thesis unfolding top using False nm
      iso_fail_prints [of "''** Partition %d not found on device %d **''" "of_int n" "dd_dev dev" "?info\<lparr>pi_type := ''U-Boot'', pi_name := nm\<rparr>" ?cat]
      by (auto simp: iso_entry_def)
  qed
qed

section \<open>An example\<close>

definition example_pvd :: "u8 list" where
  "example_pvd = [1] @ map byte_of ''CD001'' @ replicate 124 0 @ [8, 0] @ replicate 8 0 @ [19, 0, 0, 0] @ replicate 1904 0"

definition example_boot_record :: "u8 list" where
  "example_boot_record = [0] @ map byte_of ''CD001'' @ [1] @ map byte_of ''EL TORITO SPECIFICATION'' @ replicate 41 0 @ [18, 0, 0, 0] @ replicate 1973 0"

definition example_validation :: "u8 list" where
  "example_validation = [1] @ replicate 27 0 @ [0xAA, 0x55, 0x55, 0xAA]"

definition example_entries :: "u8 list list" where
  "example_entries = [[0x88, 0, 0, 0, 0, 0, 8, 0, 20, 0, 0, 0] @ replicate 20 0] @ replicate 62 (replicate 32 0xff)"

definition example_cd :: "u32 \<Rightarrow> u8 list" where
  "example_cd s = (if s = 16 then example_pvd else if s = 17 then example_boot_record else example_validation @ concat example_entries)"

lemma example_boot_cd: "boot_cd (make_dev example_cd) 2048 example_validation example_entries"
proof -
  have b: "block_is (make_dev example_cd) s (example_cd s)" for s by (rule make_dev_block)
  have p: "length example_pvd = 2048" "example_pvd ! 0 = 1" "take 5 (drop 1 example_pvd) = map byte_of ''CD001''"
      "get32 example_pvd 140 = Some 0x13000000" "get16_be example_pvd 130 = Some 2048"
    by (simp_all add: example_pvd_def get32_def get16_be_def rd_def nth_append load_be32_def)
  have r: "length example_boot_record = 2048" "example_boot_record ! 0 = 0" "take 23 (drop 7 example_boot_record) = map byte_of ''EL TORITO SPECIFICATION''"
      "le_value (take 4 (drop 71 example_boot_record)) = 18"
    by (simp_all add: example_boot_record_def)
  have c: "catalog example_validation example_entries"
    unfolding catalog_def by (intro conjI; code_simp)
  have one: "i = 16" if "16 \<le> i \<and> i < 17" for i :: u32
    using that by (simp add: word_le_nat_alt word_less_nat_alt word_unat_eq_iff)
  show ?thesis unfolding boot_cd_def
    using p r c b [of 16] b [of 17] b [of 18]
    by (intro conjI exI [of _ example_pvd] exI [of _ "0x13000000 :: u32"] exI [of _ "17 :: u32"] exI [of _ example_boot_record])
       (auto simp: example_cd_def iso_lastsect_def dest!: one)
qed

theorem iso_boot_found_witness:
  "\<exists>info'. get_partition_info_iso (make_dev example_cd) 0 \<lparr>pi_start = 0, pi_size = 0, pi_blksz = 0, pi_name = [], pi_type = []\<rparr> (replicate 2048 0) =
      Some (0, info', [], example_validation @ concat example_entries) \<and>
    pi_start info' = 20 \<and> pi_size info' = 2 \<and> pi_blksz info' = 2048"
proof -
  have e: "boot_entries example_entries = [[0x88, 0, 0, 0, 0, 0, 8, 0, 20, 0, 0, 0] @ replicate 20 0]"
    by code_simp
  show ?thesis
    using iso_boot_found [OF example_boot_cd, of "replicate 2048 0" 0 "\<lparr>pi_start = 0, pi_size = 0, pi_blksz = 0, pi_name = [], pi_type = []\<rparr>"]
    by (simp add: e image_blocks_def)
qed

text \<open>The number of blocks is rounded down: an image of five sectors of 512 bytes loses the last one.\<close>

lemma boot_image_cut: "boot_size ([0x88, 0, 0, 0, 0, 0, 5, 0, 20, 0, 0, 0] @ replicate 20 0) 0 = Some 1"
  by (simp add: boot_size_def le16_to_int_def rd_def)

end
