(* ===== verification/Part.thy ===== *)
theory Part
  imports PartDosSpec PartAmigaSpec PartIsoSpec MemString
begin

text \<open>
  disk/part.c: the block devices of the board by name, and the choice between the partition schemes configured for it
  (ISO, DOS, Amiga). The state of the schemes and the uninitialised variables on the stack are arguments.
\<close>

record part_state = amiga +
  iso_tmpbuf :: "u8 list"
  stk_buffer :: "u8 list"
  stk_info :: disk_partition

section \<open>Devices by name\<close>

text \<open>The drivers of this board. \<open>get\<close> stands for the lookup functions of the drivers.\<close>

datatype block_drvr = USB_STOR | S_SII | S_4_SII | SATA2_460

definition block_drvrs :: "(string \<times> block_drvr) list" where
  "block_drvrs = [(''usb'', USB_STOR), (''ssii'', S_SII), (''s4sii'', S_4_SII), (''sata2-460'', SATA2_460)]"

fun get_dev_from :: "(string \<times> block_drvr) list \<Rightarrow> (block_drvr \<Rightarrow> int \<Rightarrow> block_dev_desc option) \<Rightarrow> string \<Rightarrow> int \<Rightarrow> block_dev_desc option" where
  "get_dev_from [] get ifname dev = None"
| "get_dev_from ((nm, drvr) # drvrs) get ifname dev =
     (if strncmp ifname nm (length nm) = 0 then get drvr dev else get_dev_from drvrs get ifname dev)"

definition get_dev :: "(block_drvr \<Rightarrow> int \<Rightarrow> block_dev_desc option) \<Rightarrow> string \<Rightarrow> int \<Rightarrow> block_dev_desc option" where
  "get_dev get ifname dev = get_dev_from block_drvrs get ifname dev"

section \<open>Describing a device\<close>

definition dev_identity :: "block_dev_desc \<Rightarrow> (string \<times> bool) option" where
  "dev_identity dev =
     (let strs = [VStr (Some (dd_vendor dev)), VStr (Some (dd_revision dev)), VStr (Some (dd_product dev))] in
      if dd_if_type dev = IF_TYPE_SCSI then do {
        out \<leftarrow> printf (''(%d:%d) Vendor: %s Prod.: %s Rev: %s'' @ nl)
          [VInt (ucast (dd_target dev)), VInt (ucast (dd_lun dev)), VStr (Some (dd_vendor dev)), VStr (Some (dd_product dev)), VStr (Some (dd_revision dev))];
        Some (out, True)
      }
      else if dd_if_type dev = IF_TYPE_ATAPI \<or> dd_if_type dev = IF_TYPE_IDE \<or> dd_if_type dev = IF_TYPE_SATA then do {
        out \<leftarrow> printf (''Model: %s Firm: %s Ser#: %s'' @ nl) strs;
        Some (out, True)
      }
      else if dd_if_type dev = IF_TYPE_SD \<or> dd_if_type dev = IF_TYPE_MMC \<or> dd_if_type dev = IF_TYPE_USB then do {
        out \<leftarrow> printf (''Vendor: %s Rev: %s Prod: %s'' @ nl) strs;
        Some (out, True)
      }
      else if dd_if_type dev = IF_TYPE_DOC then Some (''device type DOC'' @ nl, False)
      else if dd_if_type dev = IF_TYPE_UNKNOWN then Some (''device type unknown'' @ nl, False)
      else do { out \<leftarrow> printf (''Unhandled device type: %i'' @ nl) [VInt (dd_if_type dev)]; Some (out, False) })"

definition dev_kind :: "block_dev_desc \<Rightarrow> string option" where
  "dev_kind dev =
     (let t = dd_type dev AND 0x1F in
      if t = 0x00 then Some ''Hard Disk''
      else if t = 0x05 then Some ''CD ROM''
      else if t = 0x07 then Some ''Optical Device''
      else if t = 0x01 then Some ''Tape''
      else printf ''# %02X #'' [VInt (ucast t)])"

text \<open>The capacity in tenths of a megabyte and of a gigabyte. The number of blocks is multiplied as an \<open>unsigned long\<close>, then
  widened.\<close>

definition dev_mb :: "block_dev_desc \<Rightarrow> u32" where
  "dev_mb dev = (let lba512 = (ucast (dd_lba dev * (dd_blksz dev div 512)) :: u64) in ucast ((10 * lba512) div 2048))"

definition dev_capacity :: "block_dev_desc \<Rightarrow> string option" where
  "dev_capacity dev =
     (if dd_lba dev * dd_blksz dev > 0 then do {
        let mb = dev_mb dev;
        let mb_quot = mb div 10;
        let mb_rem = mb - (10 * mb_quot);
        let gb = mb div 1024;
        let gb_quot = gb div 10;
        let gb_rem = gb - (10 * gb_quot);
        cap \<leftarrow> printf (''            Capacity: %ld.%ld MB = %ld.%ld GB (%ld x %ld)'' @ nl)
          [VInt mb_quot, VInt mb_rem, VInt gb_quot, VInt gb_rem, VInt (dd_lba dev), VInt (dd_blksz dev)];
        Some ((if dd_lba48 dev \<noteq> 0 then ''            Supports 48-bit addressing'' @ nl else []) @ cap)
      } else Some (''            Capacity: not available'' @ nl))"

definition dev_print :: "block_dev_desc \<Rightarrow> string option" where
  "dev_print dev =
     (if dd_type dev = 0xff then Some (''not available'' @ nl)
      else do {
        (out, known) \<leftarrow> dev_identity dev;
        if \<not> known then Some out
        else do {
          kind \<leftarrow> dev_kind dev;
          cap \<leftarrow> dev_capacity dev;
          Some (out @ ''            Type: '' @ (if dd_removable dev \<noteq> 0 then ''Removable '' else []) @ kind @ nl @ cap)
        }
      })"

section \<open>Partition schemes\<close>

text \<open>\<open>init_part\<close>: the device with its partition type, which stays as it is when no scheme fits.\<close>

definition init_part :: "(string \<Rightarrow> string option) \<Rightarrow> block_dev_desc \<Rightarrow> part_state \<Rightarrow> (block_dev_desc \<times> part_state) option" where
  "init_part getenv dev st = do {
     (r, buf) \<leftarrow> test_part_iso dev (stk_info st) (iso_tmpbuf st);
     let st = st\<lparr>iso_tmpbuf := buf\<rparr>;
     if r = 0 then Some (dev\<lparr>dd_part_type := PART_TYPE_ISO\<rparr>, st)
     else do {
       r \<leftarrow> test_part_dos dev (stk_buffer st);
       if r = 0 then Some (dev\<lparr>dd_part_type := PART_TYPE_DOS\<rparr>, st)
       else do {
         (r, am) \<leftarrow> test_part_amiga getenv dev (amiga.truncate st);
         let st = st\<lparr>block_buffer := block_buffer am, rdb := rdb am, bootcode := bootcode am\<rparr>;
         if r = 0 then Some (dev\<lparr>dd_part_type := PART_TYPE_AMIGA\<rparr>, st)
         else Some (dev, st)
       }
     }
   }"

text \<open>\<open>get_partition_info\<close>: the result, the description, what is printed and the state.\<close>

definition get_partition_info ::
  "(string \<Rightarrow> string option) \<Rightarrow> block_dev_desc \<Rightarrow> int \<Rightarrow> disk_partition \<Rightarrow> part_state \<Rightarrow> (int \<times> disk_partition \<times> string \<times> part_state) option" where
  "get_partition_info getenv dev part info st =
     (if dd_part_type dev = PART_TYPE_DOS then do {
        (r, info, out) \<leftarrow> get_partition_info_dos dev (stk_buffer st) part info;
        Some (if r = 0 then 0 else -1, info, out, st)
      }
      else if dd_part_type dev = PART_TYPE_ISO then do {
        (r, info, out, buf) \<leftarrow> get_partition_info_iso dev part info (iso_tmpbuf st);
        Some (if r = 0 then 0 else -1, info, out, st\<lparr>iso_tmpbuf := buf\<rparr>)
      }
      else if dd_part_type dev = PART_TYPE_AMIGA then do {
        (r, info, am) \<leftarrow> get_partition_info_amiga getenv dev part info (amiga.truncate st);
        Some (if r = 0 then 0 else -1, info, [], st\<lparr>block_buffer := block_buffer am, rdb := rdb am, bootcode := bootcode am\<rparr>)
      }
      else Some (-1, info, [], st))"

definition print_part_header :: "string \<Rightarrow> block_dev_desc \<Rightarrow> string option" where
  "print_part_header type dev = do {
     let bus = (if dd_if_type dev = IF_TYPE_IDE then ''IDE'' else if dd_if_type dev = IF_TYPE_SATA then ''SATA''
       else if dd_if_type dev = IF_TYPE_SCSI then ''SCSI'' else if dd_if_type dev = IF_TYPE_ATAPI then ''ATAPI''
       else if dd_if_type dev = IF_TYPE_USB then ''USB'' else if dd_if_type dev = IF_TYPE_DOC then ''DOC'' else ''UNKNOWN'');
     line \<leftarrow> printf ('' device %d  --   Partition Type: %s'' @ nl @ nl) [VInt (dd_dev dev), VStr (Some type)];
     Some (nl @ ''Partition Map for '' @ bus @ line)
   }"

definition print_part :: "(string \<Rightarrow> string option) \<Rightarrow> block_dev_desc \<Rightarrow> part_state \<Rightarrow> (string \<times> part_state) option" where
  "print_part getenv dev st =
     (if dd_part_type dev = PART_TYPE_DOS then do {
        h \<leftarrow> print_part_header ''DOS'' dev;
        out \<leftarrow> print_part_dos dev (stk_buffer st);
        Some (h @ out, st)
      }
      else if dd_part_type dev = PART_TYPE_ISO then do {
        h \<leftarrow> print_part_header ''ISO'' dev;
        (out, buf) \<leftarrow> print_part_iso dev (stk_info st) (iso_tmpbuf st);
        Some (h @ out, st\<lparr>iso_tmpbuf := buf\<rparr>)
      }
      else if dd_part_type dev = PART_TYPE_AMIGA then do {
        h \<leftarrow> print_part_header ''AMIGA'' dev;
        (out, am) \<leftarrow> print_part_amiga getenv dev (amiga.truncate st);
        Some (h @ out, st\<lparr>block_buffer := block_buffer am, rdb := rdb am, bootcode := bootcode am\<rparr>)
      }
      else Some (''## Unknown partition table'' @ nl, st))"

section \<open>Amiga disks\<close>

text \<open>Block 16 is not a volume descriptor of a CD, and block 0 has no DOS signature.\<close>

definition not_iso :: "block_dev_desc \<Rightarrow> bool" where
  "not_iso dev \<longleftrightarrow> (\<forall>buf. length buf = 2048 \<longrightarrow>
     (\<exists>r buf'. block_read dev 0x10 1 buf = (r, buf') \<and> length buf' = 2048 \<and> (r = 1 \<longrightarrow> buf' ! 0 \<noteq> 1 \<or> take 5 (drop 1 buf') \<noteq> map byte_of ''CD001'')))"

definition not_dos :: "block_dev_desc \<Rightarrow> bool" where
  "not_dos dev \<longleftrightarrow> (\<forall>buf. length buf = 2048 \<longrightarrow>
     (\<exists>r buf'. block_read dev 0 1 buf = (r, buf') \<and> length buf' = 2048 \<and> (r = 1 \<longrightarrow> buf' ! 0x1fe \<noteq> 0x55 \<or> buf' ! 0x1ff \<noteq> 0xaa)))"

lemma test_part_iso_fails:
  assumes "not_iso dev" "length buf = 2048"
  shows "\<exists>buf'. test_part_iso dev info buf = Some (-1, buf') \<and> length buf' = 2048"
proof -
  obtain r buf' where b: "block_read dev 0x10 1 buf = (r, buf')" "length buf' = 2048"
      "r = 1 \<longrightarrow> buf' ! 0 \<noteq> 1 \<or> take 5 (drop 1 buf') \<noteq> map byte_of ''CD001''" using assms unfolding not_iso_def by blast
  then show ?thesis
    by (cases "r = 1"; cases "buf' ! 0 = 1") (simp_all add: test_part_iso_def get_partition_info_iso_verb_def iso_fail_def bytes_at_def)
qed

lemma test_part_dos_fails:
  assumes "not_dos dev" "length buf = 2048"
  shows "test_part_dos dev buf = Some (-1)"
proof -
  obtain r buf' where "block_read dev 0 1 buf = (r, buf')" "length buf' = 2048" "r = 1 \<longrightarrow> buf' ! 0x1fe \<noteq> 0x55 \<or> buf' ! 0x1ff \<noteq> 0xaa"
    using assms unfolding not_dos_def by blast
  then show ?thesis by (auto simp: test_part_dos_def)
qed

text \<open>The partition type of a device plays no role for the contents of its blocks.\<close>

lemma block_is_part_type [simp]: "block_is (dev\<lparr>dd_part_type := t\<rparr>) = block_is dev"
  by (intro ext) (simp add: block_is_def)

lemma part_chain_part_type [simp]: "part_chain (dev\<lparr>dd_part_type := t\<rparr>) s chain = part_chain dev s chain"
  by (induction chain arbitrary: s) auto

lemma amiga_disk_part_type: "amiga_disk getenv (dev\<lparr>dd_part_type := t\<rparr>) = amiga_disk getenv dev"
  by (intro ext) (simp add: amiga_disk_def skipped_def)

lemma test_part_amiga_finds:
  assumes "amiga_disk getenv dev rblk chain" "length (block_buffer st) = 2048"
    and "\<forall>j. 0 \<le> j \<and> j < scan_limit getenv \<longrightarrow> scannable dev AMIGA_ID_BOOT (of_int j)"
  shows "\<exists>st'. test_part_amiga getenv dev st = Some (0, st') \<and> length (block_buffer st') = 2048"
proof -
  obtain rest where r: "scan_blocks dev AMIGA_ID_RDISK (scan_limit getenv) 0 (block_buffer st) = Some (True, rblk @ rest)" "length (rblk @ rest) = 2048"
    using assms(1) scan_finds [OF _ _ _ _ _ assms(2)] unfolding amiga_disk_def by blast
  obtain found buf where s: "scan_blocks dev AMIGA_ID_BOOT (scan_limit getenv) 0 (rblk @ rest) = Some (found, buf)" "length buf = 2048"
    using scan_ends [OF assms(3) r(2)] by blast
  have "length rblk = 512" using assms(1) by (auto simp: amiga_disk_def good_block_def)
  then show ?thesis using r s by (simp add: test_part_amiga_def get_rdisk_def get_bootcode_def bytes_at_def)
qed


definition no_info :: disk_partition where
  "no_info = \<lparr>pi_start = 0, pi_size = 0, pi_blksz = 0, pi_name = [], pi_type = []\<rparr>"

definition fresh_state :: part_state where
  "fresh_state = \<lparr>block_buffer = replicate 2048 0, rdb = replicate 256 0, bootcode = replicate 512 0, iso_tmpbuf = replicate 2048 0,
     stk_buffer = replicate 2048 0, stk_info = no_info\<rparr>"

lemma example_skips:
  assumes "ident \<noteq> 0" "ident \<noteq> 0x5244534B" "ident \<noteq> 0x50415254"
  shows "skipped (make_dev example_amiga) ident s"
proof -
  have "get32 (example_amiga s @ rest) 0 \<noteq> Some ident" for rest
    using get32_append [OF get32_block_of [of 0 "longs []"], of rest] get32_append [OF get32_block_of [of 0 example_part], of rest]
      get32_append [OF get32_block_of [of 0 example_rdb], of rest] assms
    by (auto simp: example_amiga_def longs_nth example_part_def example_rdb_def)
  then show ?thesis by (simp add: skipped_def make_dev_def example_amiga_def length_block_of example_rdb_def example_part_def)
qed


text \<open>A disk whose size is a multiple of 4 GiB is reported as having no capacity: the product of the number of blocks and
  the block size is computed as an \<open>unsigned long\<close> and becomes 0.\<close>

lemma capacity_lost:
  "dd_lba dev = 0x800000 \<Longrightarrow> dd_blksz dev = 512 \<Longrightarrow> dev_capacity dev = Some (''            Capacity: not available'' @ nl)"
  by (simp add: dev_capacity_def)

end
