(* ===== verification/Elf.thy ===== *)
theory Elf
  imports Disk MemString BootA
begin

text \<open>
  common/cmd_elf.c: checking, loading and starting an ELF image that lies in memory. The headers are read from the
  byte-addressed memory each time the code looks at them, since loading a section may overwrite them. The data cache is a flag,
  flushing it has no effect on the memory; the program that is started is a parameter. The section names, which only
  debugging output uses, are left out.
\<close>

record Elf32_Ehdr =
  e_type :: u16
  e_entry :: u32
  e_shoff :: u32
  e_shnum :: u16

record Elf32_Shdr =
  sh_name :: u32
  sh_type :: u32
  sh_flags :: u32
  sh_addr :: u32
  sh_offset :: u32
  sh_size :: u32
  sh_link :: u32
  sh_info :: u32
  sh_addralign :: u32
  sh_entsize :: u32

abbreviation (input) "SHT_NOBITS \<equiv> (8 :: u32)"
abbreviation (input) "SHF_ALLOC \<equiv> (2 :: u32)"
abbreviation (input) "ET_EXEC \<equiv> (2 :: u16)"
abbreviation (input) "sizeof_Elf32_Shdr \<equiv> (40 :: u32)"

definition load_half :: "mem \<Rightarrow> u32 \<Rightarrow> u16" where
  "load_half m a = push_bit 8 (ucast (m a)) OR ucast (m (a + 1))"

text \<open>The fields of the headers that the code uses.\<close>

definition ehdr_at :: "mem \<Rightarrow> u32 \<Rightarrow> Elf32_Ehdr" where
  "ehdr_at m a = \<lparr>e_type = load_half m (a + 16), e_entry = load_word m (a + 24), e_shoff = load_word m (a + 32), e_shnum = load_half m (a + 48)\<rparr>"

definition shdr_at :: "mem \<Rightarrow> u32 \<Rightarrow> Elf32_Shdr" where
  "shdr_at m a = \<lparr>sh_name = load_word m a, sh_type = load_word m (a + 4), sh_flags = load_word m (a + 8), sh_addr = load_word m (a + 12),
     sh_offset = load_word m (a + 16), sh_size = load_word m (a + 20), sh_link = load_word m (a + 24), sh_info = load_word m (a + 28),
     sh_addralign = load_word m (a + 32), sh_entsize = load_word m (a + 36)\<rparr>"

definition IS_ELF :: "mem \<Rightarrow> u32 \<Rightarrow> bool" where
  "IS_ELF m a \<longleftrightarrow> m a = 0x7f \<and> m (a + 1) = 0x45 \<and> m (a + 2) = 0x4c \<and> m (a + 3) = 0x46"

text \<open>\<open>valid_elf_image\<close> on the memory, with what it prints.\<close>

definition valid_elf_image_at :: "mem \<Rightarrow> u32 \<Rightarrow> (bool \<times> string) option" where
  "valid_elf_image_at m addr =
     (if \<not> IS_ELF m addr then do { out \<leftarrow> printf (''## No elf image at address 0x%08lx'' @ nl) [VInt addr]; Some (False, out) }
      else if e_type (ehdr_at m addr) \<noteq> ET_EXEC then do { out \<leftarrow> printf (''## Not a 32-bit elf image at address 0x%08lx'' @ nl) [VInt addr]; Some (False, out) }
      else Some (True, []))"

text \<open>One section, and the loop over the section headers.\<close>

definition load_section :: "mem \<Rightarrow> u32 \<Rightarrow> Elf32_Shdr \<Rightarrow> mem" where
  "load_section m addr shdr =
     (if \<not> (sh_flags shdr AND SHF_ALLOC \<noteq> 0) \<or> sh_addr shdr = 0 \<or> sh_size shdr = 0 then m
      else if sh_type shdr = SHT_NOBITS then memset m (sh_addr shdr) 0 (sh_size shdr)
      else memcpy m (sh_addr shdr) (addr + sh_offset shdr) (sh_size shdr))"

function load_sections :: "mem \<Rightarrow> u32 \<Rightarrow> nat \<Rightarrow> mem" where
  "load_sections m addr i =
     (let ehdr = ehdr_at m addr in
      if i < unat (e_shnum ehdr)
      then load_sections (load_section m addr (shdr_at m (addr + e_shoff ehdr + of_nat i * sizeof_Elf32_Shdr))) addr (i + 1)
      else m)"
  by pat_completeness auto
termination
proof (relation "measure (\<lambda>(m, addr, i). 2 ^ 16 - i)")
  fix m addr i ehdr assume "ehdr = ehdr_at m addr" "i < unat (e_shnum ehdr)"
  moreover have "unat (e_shnum ehdr) < 2 ^ 16" using unsigned_less [of "e_shnum ehdr"] by simp
  ultimately show "((load_section m addr (shdr_at m (addr + e_shoff ehdr + of_nat i * 40)), addr, i + 1), m, addr, i) \<in> measure (\<lambda>(m, addr, i). 2 ^ 16 - i)"
    by simp
qed simp

declare load_sections.simps [simp del]

definition load_elf_image :: "mem \<Rightarrow> u32 \<Rightarrow> u32 \<times> mem" where
  "load_elf_image m addr = (let m = load_sections m addr 0 in (e_entry (ehdr_at m addr), m))"

section \<open>The command bootelf\<close>

record elf_state =
  elf_mem :: mem
  dcache :: bool
  elf_out :: string

text \<open>\<open>app entry args\<close> is what the program at \<open>entry\<close> does with the memory and the cache, and what it returns.\<close>

type_synonym elf_app = "u32 \<Rightarrow> string list \<Rightarrow> elf_state \<Rightarrow> u32 \<times> elf_state"

definition do_bootelf_exec :: "elf_app \<Rightarrow> u32 \<Rightarrow> string list \<Rightarrow> elf_state \<Rightarrow> u32 \<times> elf_state" where
  "do_bootelf_exec app entry argv st =
     (let d = dcache st;
          st = (if d then st\<lparr>dcache := False\<rparr> else st);
          (ret, st) = app entry argv st;
          st = (if d then st\<lparr>dcache := True\<rparr> else st)
      in (ret, st))"

definition do_bootelf :: "elf_app \<Rightarrow> u32 \<Rightarrow> string list \<Rightarrow> elf_state \<Rightarrow> (int \<times> elf_state) option" where
  "do_bootelf app load_addr argv st = do {
     let addr = (if length argv < 2 then load_addr else fst (simple_strtoul (argv ! 1) 16));
     (valid, out) \<leftarrow> valid_elf_image_at (elf_mem st) addr;
     if \<not> valid then Some (1, st\<lparr>elf_out := elf_out st @ out\<rparr>)
     else do {
       let (entry, m) = load_elf_image (elf_mem st) addr;
       start \<leftarrow> printf (''## Starting application at 0x%08lx ...'' @ nl) [VInt entry];
       let (rc, st) = do_bootelf_exec app entry (tl argv) (st\<lparr>elf_mem := m, elf_out := elf_out st @ out @ start\<rparr>);
       finish \<leftarrow> printf (''## Application terminated, rc = 0x%lx'' @ nl) [VInt rc];
       Some (if rc \<noteq> 0 then 1 else 0, st\<lparr>elf_out := elf_out st @ finish\<rparr>)
     }
   }"

section \<open>The memory after loading\<close>

definition loads :: "Elf32_Shdr \<Rightarrow> bool" where
  "loads s \<longleftrightarrow> sh_flags s AND 2 \<noteq> 0 \<and> sh_addr s \<noteq> 0 \<and> sh_size s \<noteq> 0"

definition region :: "u32 \<Rightarrow> nat \<Rightarrow> u32 set" where
  "region a n = {x. a \<le> x \<and> unat x < unat a + n}"

abbreviation segment :: "Elf32_Shdr \<Rightarrow> u32 set" where
  "segment s \<equiv> region (sh_addr s) (unat (sh_size s))"

text \<open>An image of \<open>len\<close> bytes at \<open>addr\<close> with the section headers \<open>secs\<close>: the headers and the contents of the sections lie
  within the image, and no section is loaded over it.\<close>

definition elf_image :: "mem \<Rightarrow> u32 \<Rightarrow> nat \<Rightarrow> Elf32_Shdr list \<Rightarrow> bool" where
  "elf_image m addr len secs \<longleftrightarrow>
     unat addr + len \<le> 2 ^ 32 \<and> 52 \<le> len \<and> length secs = unat (e_shnum (ehdr_at m addr)) \<and>
     unat (e_shoff (ehdr_at m addr)) + 40 * length secs \<le> len \<and>
     (\<forall>i < length secs. secs ! i = shdr_at m (addr + e_shoff (ehdr_at m addr) + of_nat i * 40)) \<and>
     (\<forall>s \<in> set secs. loads s \<longrightarrow> unat (sh_addr s) + unat (sh_size s) \<le> 2 ^ 32 \<and> segment s \<inter> region addr len = {} \<and>
        (sh_type s \<noteq> 8 \<longrightarrow> unat (sh_offset s) + unat (sh_size s) \<le> len))"

text \<open>The memory that loading shall produce: where sections overlap, the last one counts.\<close>

definition loaded :: "mem \<Rightarrow> u32 \<Rightarrow> Elf32_Shdr list \<Rightarrow> mem" where
  "loaded m addr secs = (\<lambda>a. case find (\<lambda>s. loads s \<and> a \<in> segment s) (rev secs) of
     None \<Rightarrow> m a
   | Some s \<Rightarrow> if sh_type s = 8 then 0 else m (addr + sh_offset s + (a - sh_addr s)))"

lemma fill_up_region:
  "unat d + n \<le> 2 ^ 32 \<Longrightarrow> fill_up n m d c = (\<lambda>a. if a \<in> region d n then c else m a)"
proof (induction n arbitrary: m d)
  case 0
  then show ?case by (auto simp: region_def word_le_nat_alt fun_eq_iff)
next
  case (Suc n)
  show ?case
  proof (cases "n = 0")
    case True
    have "a \<in> region d 1 \<longleftrightarrow> a = d" for a by (auto simp: region_def word_le_nat_alt word_unat_eq_iff)
    then show ?thesis using True by (auto simp: fun_eq_iff)
  next
    case False
    then have u: "unat (d + 1) = unat d + 1" using Suc.prems unat_Suc_wrap [of d n] by simp
    have "a \<in> region d (Suc n) \<longleftrightarrow> a = d \<or> a \<in> region (d + 1) n" for a
      using u by (auto simp: region_def word_le_nat_alt word_unat_eq_iff)
    moreover have ih: "fill_up n (m(d := c)) (d + 1) c = (\<lambda>a. if a \<in> region (d + 1) n then c else (m(d := c)) a)"
      by (rule Suc.IH) (use Suc.prems u in simp)
    ultimately show ?thesis unfolding fill_up.simps ih by (auto simp: fun_eq_iff)
  qed
qed

lemma region_offset:
  assumes "unat addr + len \<le> 2 ^ 32" "k < len"
  shows "addr + of_nat k \<in> region addr len"
proof -
  have "unat (addr + of_nat k) = unat addr + k" using assms by (subst unat_add_nowrap) (simp_all add: unat_of_nat take_bit_nat_eq_self)
  then show ?thesis using assms by (simp add: region_def word_le_nat_alt)
qed

lemma elf_imageD:
  assumes "elf_image m addr len secs"
  shows "unat addr + len \<le> 2 ^ 32" "52 \<le> len" "length secs = unat (e_shnum (ehdr_at m addr))"
    "unat (e_shoff (ehdr_at m addr)) + 40 * length secs \<le> len"
    "i < length secs \<Longrightarrow> shdr_at m (addr + e_shoff (ehdr_at m addr) + of_nat i * 40) = secs ! i"
    "s \<in> set secs \<Longrightarrow> loads s \<Longrightarrow> unat (sh_addr s) + unat (sh_size s) \<le> 2 ^ 32 \<and> segment s \<inter> region addr len = {} \<and>
        (sh_type s \<noteq> 8 \<longrightarrow> unat (sh_offset s) + unat (sh_size s) \<le> len)"
  using assms by (auto simp: elf_image_def)

text \<open>Loading leaves the image itself alone.\<close>

lemma loaded_in_image:
  assumes "elf_image m addr len secs" "set ss \<subseteq> set secs" "a \<in> region addr len"
  shows "loaded m addr ss a = m a"
proof -
  have "find (\<lambda>s. loads s \<and> a \<in> segment s) (rev ss) = None"
    using elf_imageD(6) [OF assms(1)] assms(2,3) by (auto simp: find_None_iff)
  then show ?thesis by (simp add: loaded_def)
qed

lemma same_fields:
  assumes "\<And>a. a \<in> region addr len \<Longrightarrow> m' a = m a" "unat addr + len \<le> 2 ^ 32"
  shows "k + 4 \<le> len \<Longrightarrow> load_word m' (addr + of_nat k) = load_word m (addr + of_nat k)"
    and "k + 2 \<le> len \<Longrightarrow> load_half m' (addr + of_nat k) = load_half m (addr + of_nat k)"
proof -
  have s: "m' (addr + of_nat k) = m (addr + of_nat k)" if "k < len" for k
    by (rule assms(1)) (rule region_offset [OF assms(2) that])
  show "k + 4 \<le> len \<Longrightarrow> load_word m' (addr + of_nat k) = load_word m (addr + of_nat k)"
    using s [of k] s [of "k + 1"] s [of "k + 2"] s [of "k + 3"] by (simp add: load_word_def ac_simps)
  show "k + 2 \<le> len \<Longrightarrow> load_half m' (addr + of_nat k) = load_half m (addr + of_nat k)"
    using s [of k] s [of "k + 1"] by (simp add: load_half_def ac_simps)
qed

lemma same_headers:
  assumes "\<And>a. a \<in> region addr len \<Longrightarrow> m' a = m a" "unat addr + len \<le> 2 ^ 32"
  shows "52 \<le> len \<Longrightarrow> ehdr_at m' addr = ehdr_at m addr"
    and "k + 40 \<le> len \<Longrightarrow> shdr_at m' (addr + of_nat k) = shdr_at m (addr + of_nat k)"
proof -
  note f = same_fields [OF assms]
  show "52 \<le> len \<Longrightarrow> ehdr_at m' addr = ehdr_at m addr"
    using f(1) [where k = 24] f(1) [where k = 32] f(2) [where k = 16] f(2) [where k = 48] by (simp add: ehdr_at_def)
  have w: "load_word m' (addr + of_nat k + of_nat j) = load_word m (addr + of_nat k + of_nat j)" if "k + j + 4 \<le> len" for j
    using f(1) [where k = "k + j"] that by (simp add: add.assoc)
  show "k + 40 \<le> len \<Longrightarrow> shdr_at m' (addr + of_nat k) = shdr_at m (addr + of_nat k)"
    using w [of 0] w [of 4] w [of 8] w [of 12] w [of 16] w [of 20] w [of 24] w [of 28] w [of 32] w [of 36] by (simp add: shdr_at_def)
qed

lemma load_section_step:
  assumes "elf_image m addr len secs" "set ss \<subseteq> set secs" "s \<in> set secs"
  shows "load_section (loaded m addr ss) addr s = loaded m addr (ss @ [s])"
proof (cases "loads s")
  case False
  then have "load_section (loaded m addr ss) addr s = loaded m addr ss" by (auto simp: load_section_def loads_def)
  moreover have "loaded m addr (ss @ [s]) = loaded m addr ss" using False by (auto simp: loaded_def fun_eq_iff)
  ultimately show ?thesis by simp
next
  case True
  let ?m = "loaded m addr ss" and ?d = "sh_addr s" and ?n = "unat (sh_size s)" and ?s = "addr + sh_offset s"
  note d = elf_imageD(6) [OF assms(1,3) True]
  have after: "loaded m addr (ss @ [s]) a = (if a \<in> segment s then if sh_type s = 8 then 0 else m (?s + (a - ?d)) else ?m a)" for a
    using True by (simp add: loaded_def)
  show ?thesis
  proof (cases "sh_type s = 8")
    case nobits: True
    have "load_section ?m addr s = fill_up ?n ?m ?d 0" using True nobits by (simp add: load_section_def loads_def memset_eq)
    then show ?thesis using d nobits by (auto simp: fill_up_region after fun_eq_iff)
  next
    case bits: False
    have n: "0 < ?n" using True by (simp add: loads_def unat_gt_0)
    have off: "unat (sh_offset s) + ?n \<le> len" using d bits by simp
    have u: "unat ?s = unat addr + unat (sh_offset s)" using off n elf_imageD(1) [OF assms(1)] by (subst unat_add_nowrap) simp_all
    have dj: "x \<notin> segment s \<or> x \<notin> region addr len" for x using d by auto
    have "?d \<le> ?s \<or> unat ?s + ?n \<le> unat ?d"
      using dj [of addr] dj [of ?d] n off u by (auto simp: region_def word_le_nat_alt)
    then have "load_section ?m addr s = block_copy ?n ?m ?d ?s"
      using True bits d u off elf_imageD(1) [OF assms(1)] by (simp add: load_section_def loads_def memcpy_eq copy_up_block)
    moreover have "?m (?s + (a - ?d)) = m (?s + (a - ?d))" if "a \<in> segment s" for a
    proof (rule loaded_in_image [OF assms(1,2)])
      have "unat (?s + (a - ?d)) = unat ?s + (unat a - unat ?d)"
        using that u off elf_imageD(1) [OF assms(1)] by (intro unat_offset [where n = ?n]) (auto simp: region_def)
      then show "?s + (a - ?d) \<in> region addr len" using that u off by (auto simp: region_def word_le_nat_alt)
    qed
    ultimately show ?thesis using bits by (auto simp: block_copy_def after region_def fun_eq_iff)
  qed
qed

lemma load_sections_from:
  assumes "elf_image m addr len secs" "i \<le> length secs"
  shows "load_sections (loaded m addr (take i secs)) addr i = loaded m addr secs"
  using assms(2)
proof (induction "length secs - i" arbitrary: i)
  case 0
  let ?m = "loaded m addr (take i secs)"
  have "ehdr_at ?m addr = ehdr_at m addr"
    using elf_imageD(1,2) [OF assms(1)] by (intro same_headers(1) [of addr len]) (auto intro: loaded_in_image [OF assms(1) set_take_subset])
  then show ?case using 0 elf_imageD(3) [OF assms(1)] by (subst load_sections.simps) simp
next
  case (Suc n)
  let ?m = "loaded m addr (take i secs)" and ?off = "e_shoff (ehdr_at m addr)"
  have i: "i < length secs" using Suc.hyps(2) by simp
  have sub: "set (take i secs) \<subseteq> set secs" by (rule set_take_subset)
  have same: "\<And>a. a \<in> region addr len \<Longrightarrow> ?m a = m a" by (rule loaded_in_image [OF assms(1) sub])
  have e: "ehdr_at ?m addr = ehdr_at m addr" using elf_imageD(1,2) [OF assms(1)] by (intro same_headers(1) [of addr len] same)
  have k: "addr + ?off + of_nat i * 40 = addr + of_nat (unat ?off + 40 * i)" by (simp add: algebra_simps)
  have "unat ?off + 40 * i + 40 \<le> len" using elf_imageD(4) [OF assms(1)] i by simp
  from same_headers(2) [of addr len ?m m, OF same elf_imageD(1) [OF assms(1)] this]
  have "shdr_at ?m (addr + ?off + of_nat i * 40) = secs ! i" unfolding k [symmetric] elf_imageD(5) [OF assms(1) i] .
  moreover have "load_section ?m addr (secs ! i) = loaded m addr (take (Suc i) secs)"
    using load_section_step [OF assms(1) sub, of "secs ! i"] i by (simp add: take_Suc_conv_app_nth)
  ultimately have "load_sections ?m addr i = load_sections (loaded m addr (take (Suc i) secs)) addr (Suc i)"
    using i elf_imageD(3) [OF assms(1)] by (subst load_sections.simps) (simp add: e)
  also have "\<dots> = loaded m addr secs" using Suc.hyps i by simp
  finally show ?case .
qed

lemma started_text: "\<exists>s. printf (''## Starting application at 0x%08lx ...'' @ nl) [VInt w] = Some s"
  by (simp add: printf_def sprintf_def conv_simps flag_set_def)

lemma finished_text: "\<exists>s. printf (''## Application terminated, rc = 0x%lx'' @ nl) [VInt w] = Some s"
  by (simp add: printf_def sprintf_def conv_simps flag_set_def)


section \<open>An example\<close>

definition example_bytes :: "u8 list" where
  "example_bytes =
     [0x7f, 0x45, 0x4c, 0x46] @ replicate 12 0 @ [0, 2, 0, 20, 0, 0, 0, 1] @ store_be32 0x4000 @ [0, 0, 0, 0] @ store_be32 52 @
     replicate 12 0 @ [0, 2, 0, 0] @
     concat (map store_be32 [0, 1, 2, 0x4000, 132, 2, 0, 0, 0, 0]) @ concat (map store_be32 [0, 8, 2, 0x4002, 0, 2, 0, 0, 0, 0]) @ [0xde, 0xad]"

definition example_mem :: mem where
  "example_mem a = (let k = unat (a - 0x1000) in if k < 134 then example_bytes ! k else 0xff)"

definition text_section :: Elf32_Shdr where
  "text_section = \<lparr>sh_name = 0, sh_type = 1, sh_flags = 2, sh_addr = 0x4000, sh_offset = 132, sh_size = 2, sh_link = 0, sh_info = 0,
     sh_addralign = 0, sh_entsize = 0\<rparr>"

definition bss_section :: Elf32_Shdr where
  "bss_section = \<lparr>sh_name = 0, sh_type = 8, sh_flags = 2, sh_addr = 0x4002, sh_offset = 0, sh_size = 2, sh_link = 0, sh_info = 0,
     sh_addralign = 0, sh_entsize = 0\<rparr>"

lemma example_headers:
  "ehdr_at example_mem 0x1000 = \<lparr>e_type = 2, e_entry = 0x4000, e_shoff = 52, e_shnum = 2\<rparr>"
  "shdr_at example_mem 0x1034 = text_section" "shdr_at example_mem 0x105c = bss_section" "IS_ELF example_mem 0x1000"
  by code_simp+

lemma example_image: "elf_image example_mem 0x1000 134 [text_section, bss_section]"
proof -
  have "[text_section, bss_section] ! i = shdr_at example_mem (0x1000 + 52 + of_nat i * 40)" if "i < 2" for i
    using that example_headers by (cases i) auto
  moreover have "segment text_section \<inter> region 0x1000 134 = {}" "segment bss_section \<inter> region 0x1000 134 = {}"
    by (auto simp: region_def word_le_nat_alt text_section_def bss_section_def)
  ultimately show ?thesis by (simp add: elf_image_def example_headers(1)) (simp add: text_section_def bss_section_def)
qed


end
