(* ===== verification/Console.thy ===== *)
theory Console
  imports VsprintfSpec MemString
begin

text \<open>
  Printing on the console: \<open>printf\<close> of common/console.c, with its buffer of \<open>CONFIG_SYS_PBSIZE\<close>
  bytes on the stack, which \<open>vsprintf\<close> fills without a limit. The board's value is the size of
  the input buffer (100), of the prompt with its terminator (3), and 16. The texts of the
  commands below are built by the model of lib/vsprintf.c.
\<close>

abbreviation (input) CONFIG_SYS_PBSIZE :: nat where
  "CONFIG_SYS_PBSIZE \<equiv> 119"

text \<open>The characters \<open>printf\<close> hands to \<open>puts\<close>; \<open>None\<close> when the text and its terminator do not fit
  into \<open>printbuffer\<close> (the bytes behind it on the stack are overwritten) or an argument is missing.\<close>

definition printf_buf :: "string \<Rightarrow> vararg list \<Rightarrow> string option" where
  "printf_buf fmt args = do {
     (s, w) \<leftarrow> vsprintf (\<lambda>_. 0) fmt args;
     if length s < CONFIG_SYS_PBSIZE then Some s else None
   }"

section \<open>Conversions of strings\<close>

lemma strnlen_all: "NUL \<notin> set s \<Longrightarrow> length s \<le> unat n \<Longrightarrow> strnlen s n = length s"
proof (induction s arbitrary: n)
  case (Cons c s)
  then have "n \<noteq> 0" by auto
  then have "unat (n - 1) = unat n - 1" by (simp add: unat_minus_one)
  then show ?case using Cons \<open>n \<noteq> 0\<close> by auto
qed simp

lemma spaces_replicate: "fst (spaces len fw) = replicate (nat (fw - len)) CHR '' ''"
proof (induction len fw rule: spaces.induct)
  case (1 len fw)
  show ?case
  proof (cases "len < fw")
    case True
    then have "nat (fw - len) = Suc (nat (fw - 1 - len))" by simp
    then show ?thesis using 1 True by (subst spaces.simps) (simp add: case_prod_beta)
  qed (subst spaces.simps, simp)
qed

lemma spaces_end: "snd (spaces len fw) = (if len < fw then len - 1 else fw - 1)"
proof (induction len fw rule: spaces.induct)
  case (1 len fw)
  then show ?case by (subst spaces.simps) (auto simp: case_prod_beta)
qed

lemma unat_all_ones: "unat (- 1 :: u32) = 2 ^ 32 - 1"
  by (simp add: unsigned_minus_1_eq_mask mask_eq_exp_minus_1)

text \<open>A string no longer than an address space, in a field padded on the left or on the right.\<close>

lemma string_padded:
  assumes "NUL \<notin> set s" "length s < 2 ^ 32"
  shows "string (Some s) fw (-1) flags =
    (if flag_set flags LEFT then s @ replicate (nat fw - length s) CHR '' ''
     else replicate (nat fw - length s) CHR '' '' @ s)"
proof -
  have n: "strnlen s (of_int (-1)) = length s" using assms unat_all_ones by (intro strnlen_all) simp_all
  obtain l1 z1 where l: "spaces (int (length s)) fw = (l1, z1)" by fastforce
  obtain l2 z2 where r: "spaces (int (length s)) z1 = (l2, z2)" by fastforce
  have "l1 = replicate (nat fw - length s) CHR '' ''"
    using spaces_replicate [of "int (length s)" fw] l by (simp add: nat_diff_distrib')
  moreover have "l2 = []"
    using spaces_replicate [of "int (length s)" z1] spaces_end [of "int (length s)" fw] l r by (auto split: if_splits)
  ultimately show ?thesis using n l r by (simp add: string_def)
qed

lemma vsprintf_loop_s:
  assumes "NUL \<notin> set s" "length s < 2 ^ 32"
  shows "vsprintf_loop mem (CHR ''%'' # CHR ''s'' # fmt) (VStr (Some s) # args) out st = vsprintf_loop mem fmt args (out @ s) st"
  using string_padded [OF assms, of "-1" 0] by (simp add: conv_simps flag_set_def)

text \<open>\<open>%-*s\<close>: the string left-justified in a field whose width is an argument.\<close>

lemma vsprintf_loop_left:
  assumes "NUL \<notin> set s" "length s < 2 ^ 32" "0 \<le> sint w"
  shows "vsprintf_loop mem (CHR ''%'' # CHR ''-'' # CHR ''*'' # CHR ''s'' # fmt) (VInt w # VStr (Some s) # args) out st =
    vsprintf_loop mem fmt args (out @ s @ replicate (nat (sint w) - length s) CHR '' '') st"
  using string_padded [OF assms(1,2), of "sint w" 16] assms(3) by (simp add: conv_simps flag_set_def)

lemma vsprintf_loop_end: "vsprintf_loop mem [] args out st = Some (out, st)"
  by (simp add: vsprintf_loop.simps)

lemmas text_simps = vsprintf_loop_s vsprintf_loop_left vsprintf_loop_d vsprintf_loop_char vsprintf_loop_end

text \<open>A message around one word fits exactly if the whole is shorter than the buffer.\<close>

definition around :: "string \<Rightarrow> string \<Rightarrow> string" where
  "around pre post = pre @ ''%s'' @ post"

lemma vsprintf_loop_plain:
  "CHR ''%'' \<notin> set pre \<Longrightarrow> vsprintf_loop mem (pre @ fmt) args out st = vsprintf_loop mem fmt args (out @ pre) st"
  by (induction pre arbitrary: out) (auto simp: vsprintf_loop_char)

lemma printf_buf_around:
  assumes "NUL \<notin> set s" "length s < 2 ^ 32" "CHR ''%'' \<notin> set pre" "CHR ''%'' \<notin> set post"
  shows "printf_buf (around pre post) [VStr (Some s)] =
    (if length pre + length s + length post < CONFIG_SYS_PBSIZE then Some (pre @ s @ post) else None)"
proof -
  have "vsprintf_loop (\<lambda>_. 0) (around pre post) [VStr (Some s)] [] [] = Some (pre @ s @ post, [])"
    using assms vsprintf_loop_plain [OF assms(4), of "\<lambda>_. 0" "[]"]
    by (simp add: around_def vsprintf_loop_plain vsprintf_loop_s vsprintf_loop_end)
  then show ?thesis by (simp add: printf_buf_def vsprintf_def)
qed

section \<open>Conversions of numbers\<close>

lemma radix_length: "2 \<le> b \<Longrightarrow> n < b ^ k \<Longrightarrow> 0 < k \<Longrightarrow> length (radix_rev b small n) \<le> k"
proof (induction k arbitrary: n)
  case (Suc k)
  show ?case
  proof (cases "n < b")
    case True
    then show ?thesis by (subst radix_rev.simps) simp
  next
    case False
    then have "n div b < b ^ k" "0 < k"
      using Suc.prems by (auto simp: less_mult_imp_div_less mult.commute intro: gr0I)
    then show ?thesis using Suc.IH [of "n div b"] Suc.prems(1) False by (subst radix_rev.simps) simp
  qed
qed simp

text \<open>A 32-bit number in hexadecimal, and with a sign in decimal.\<close>

lemma number_hex_length:
  assumes "\<not> flag_set type SIGN" "\<not> flag_set type SPECIAL" "sz \<le> 8"
  shows "length (number (ucast (w :: u32)) 16 sz (-1) type) \<le> 8"
proof -
  have "unat (ucast w :: u64) < 16 ^ 8" using unsigned_less [of w, where ?'a = nat] by (simp add: unat_ucast_32_64)
  then have "length (num_digits type 16 (ucast w)) \<le> 8"
    using assms(1) radix_length [of 16 _ 8] by (simp add: num_digits_def num_magnitude_def)
  then show ?thesis
    using number_layout [of 16 "ucast w" sz "-1" type] assms nat_mono [OF assms(3)] by (auto simp: Let_def num_sign_def num_prefix_def)
qed

lemma number_dec_length: "length (number (scast (w :: u32)) 10 (-1) (-1) 2) \<le> 11"
proof -
  have s: "sint (scast w :: u64) = sint w" by (rule sint_up_scast) (simp add: is_up)
  define n where "n = nat \<bar>sint w\<bar>"
  have "n < 10 ^ 10" using sint_lt [of w] sint_ge [of w] by (simp add: n_def)
  then have "length (radix_rev 10 False n) \<le> 10" by (intro radix_length) auto
  moreover have "number (scast w) 10 (-1) (-1) 2 = (if sint w < 0 then ''-'' else []) @ rev (radix_rev 10 False n)"
    using number_default [of 10 "scast w" 2] s
    by (simp add: num_sign_def num_prefix_def num_digits_def num_magnitude_def flag_set_def n_def [symmetric])
  ultimately show ?thesis by simp
qed

definition decimal :: "nat \<Rightarrow> string" where
  "decimal n = rev (radix_rev 10 False n)"

lemma vsprintf_loop_ld:
  assumes "unat w < 2 ^ 31"
  shows "vsprintf_loop mem (CHR ''%'' # CHR ''l'' # CHR ''d'' # fmt) (VInt w # args) out st = vsprintf_loop mem fmt args (out @ decimal (unat w)) st"
proof -
  have s: "sint (scast w :: u64) = int (unat w)" using sint_small [OF assms] by (subst sint_up_scast) (simp_all add: is_up)
  have "number (scast w) 10 (-1) (-1) 2 = decimal (unat w)"
    using number_default [of 10 "scast w" 2]
    by (simp add: num_sign_def num_prefix_def num_digits_def num_magnitude_def flag_set_def s decimal_def)
  then show ?thesis by (simp add: conv_simps flag_set_def)
qed

lemma decimal_length: "n < 10000 \<Longrightarrow> length (decimal n) \<le> 4"
  using radix_length [of 10 n 4 False] by (simp add: decimal_def)

section \<open>Memory that commands read and write\<close>

text \<open>The bytes at an address, and the memory after a store.\<close>

definition mem_bytes :: "mem \<Rightarrow> u32 \<Rightarrow> nat \<Rightarrow> u8 list" where
  "mem_bytes m a n = map (\<lambda>i. m (a + of_nat i)) [0..<n]"

definition mem_put :: "mem \<Rightarrow> u32 \<Rightarrow> u8 list \<Rightarrow> mem" where
  "mem_put m a bs = (\<lambda>x. if unat (x - a) < length bs then bs ! unat (x - a) else m x)"

lemma length_mem_bytes [simp]: "length (mem_bytes m a n) = n"
  by (simp add: mem_bytes_def)

end
