(* ===== verification/PrintEnv.thy ===== *)
theory PrintEnv
  imports EnvSpec Console
begin

text \<open>
  The command \<open>printenv\<close>: \<open>do_printenv\<close> of common/cmd_nvedit.c on top of the function \<open>printenv\<close>
  and of \<open>printf\<close>. The contents of the buffer on the stack before each call and the answers of
  \<open>ctrlc\<close> (for each call and position) are arguments.
\<close>

section \<open>The command\<close>

fun printenv_args ::
  "(nat \<Rightarrow> char option) \<Rightarrow> (nat \<Rightarrow> nat \<Rightarrow> bool) \<Rightarrow> nat \<Rightarrow> string list \<Rightarrow> string \<Rightarrow> int \<Rightarrow> string \<Rightarrow> (int \<times> string) option" where
  "printenv_args get ctrlc i [] buf rcode out = Some (rcode, out)"
| "printenv_args get ctrlc i (name # argv) buf rcode out = do {
     (r, s) \<leftarrow> printenv get (ctrlc i) name 2 buf;
     if r \<noteq> 0 then do {
       e \<leftarrow> printf_buf (''## Error: '' @ CHR 0x22 # ''%s'' @ CHR 0x22 # '' not defined'' @ [CHR 0x0a]) [VStr (Some name)];
       printenv_args get ctrlc (i + 1) argv buf (rcode + 1) (out @ s @ e)
     }
     else printenv_args get ctrlc (i + 1) argv buf rcode (out @ s)
   }"

definition do_printenv ::
  "(nat \<Rightarrow> char option) \<Rightarrow> (nat \<Rightarrow> nat \<Rightarrow> bool) \<Rightarrow> string list \<Rightarrow> string \<Rightarrow> (int \<times> string) option" where
  "do_printenv get ctrlc argv buf =
     (if length argv = 1 then do {
        (rcode, s) \<leftarrow> printenv get (ctrlc 0) [] 1 buf;
        if rcode < 0 then Some (1, s)
        else do {
          e \<leftarrow> printf_buf (CHR 0x0a # ''Environment size: %d/%ld bytes'' @ [CHR 0x0a]) [VInt (of_int rcode), VInt (of_nat ENV_SIZE)];
          Some (0, s @ e)
        }
      }
      else printenv_args get ctrlc 1 (tl argv) buf 0 [])"

section \<open>Printing one variable\<close>

lemma printenv_name_spec:
  assumes "list_all entry_ok es" "sees get i (encs es @ [NUL])" "line_buf buf" "name_ok name"
  shows "printenv_loop get (\<lambda>k. False) name 2 i buf out =
    (case find (\<lambda>e. entry_name e = name) es of
       None \<Rightarrow> Some (int (i + length (encs es)), out)
     | Some e \<Rightarrow> Some (0, out @ e @ [CHR 0x0a]))"
  using assms
proof (induction es arbitrary: i buf)
  case Nil
  then show ?case by (subst printenv_loop.simps) simp
next
  case (Cons e es)
  have e: "NUL \<notin> set e" "sees get i (e @ [NUL])" "entry_ok e" using Cons.prems by (auto simp: entry_ok_def)
  obtain c e' where ce: "e = c # e'" using entry_nonempty e(3) by (cases e) auto
  have c: "c \<noteq> NUL" "get i = Some c" using e ce by auto
  note m = envmatch_entry [OF e(3) Cons.prems(4) e(2)]
  show ?case
  proof (cases "entry_name e = name")
    case True
    obtain j' buf' out' where p: "printenv_entry get True i 0 buf out = Some (i + length e + 1, j', buf', out')"
        "out' @ (if j' \<noteq> 0 then puts buf' else []) = out @ e"
      using printenv_entry_spec [OF e(1,2) Cons.prems(3), of 0 True out] by auto
    define out'' where "out'' = out' @ (if j' \<noteq> 0 then puts buf' else []) @ [CHR 0x0a]"
    have "printenv_loop get (\<lambda>k. False) name 2 i buf out = printenv_loop get (\<lambda>k. False) name 0 (i + length e + 1) buf' out''"
      using p(1) c m True by (subst printenv_loop.simps) (simp add: Let_def out''_def)
    moreover have "out'' = out @ e @ [CHR 0x0a]" using p(2) unfolding out''_def by (metis append.assoc)
    ultimately show ?thesis using True by (simp add: printenv_loop.simps [of _ _ _ 0])
  next
    case False
    obtain j' buf' where p: "printenv_entry get False i 0 buf out = Some (i + length e + 1, j', buf', out)" "line_buf buf'"
      using printenv_entry_spec [OF e(1,2) Cons.prems(3), of 0 False out] by auto
    have "printenv_loop get (\<lambda>k. False) name 2 i buf out = printenv_loop get (\<lambda>k. False) name 2 (i + length e + 1) buf' out"
      using p(1) c m False by (subst printenv_loop.simps) (simp add: Let_def)
    then show ?thesis
      using Cons.IH [of "i + length e + 1" buf'] Cons.prems p(2) False by (auto split: option.splits)
  qed
qed

text \<open>How \<open>printenv\<close> sees an environment in memory.\<close>

lemma env_ok_sees:
  assumes "env_ok es st"
  shows "env_get_char r st = rd (env_data (env_ptr st))" "list_all entry_ok es"
    "sees (rd (env_data (env_ptr st))) 0 (encs es @ [NUL])" "length (encs es) < ENV_SIZE"
proof -
  let ?d = "env_data (env_ptr st)"
  obtain rest where d: "?d = encs es @ NUL # rest" "list_all entry_ok es" "length ?d = ENV_SIZE"
    using assms by (auto simp: env_ok_def env_repr_def)
  then show "list_all entry_ok es" "length (encs es) < ENV_SIZE" by auto
  show "env_get_char r st = rd ?d"
    using assms by (auto simp: env_get_char_def env_get_char_memory_def env_ok_def)
  show "sees (rd ?d) 0 (encs es @ [NUL])" using sees_rd [of "[]" "encs es @ [NUL]" rest] d by simp
qed

lemma line_buf_stack: "16 \<le> length buf \<Longrightarrow> line_buf (take 16 buf @ [NUL])"
  by (simp add: line_buf_def nth_append)

lemma printenv_name:
  assumes "env_ok es st" "16 \<le> length buf" "name_ok name"
  shows "printenv (env_get_char r st) (\<lambda>k. False) name 2 buf =
    (case find (\<lambda>e. entry_name e = name) es of
       None \<Rightarrow> Some (int (length (encs es)), [])
     | Some e \<Rightarrow> Some (0, e @ [CHR 0x0a]))"
  unfolding printenv_def env_ok_sees(1) [OF assms(1)]
  using printenv_name_spec [OF env_ok_sees(2,3) [OF assms(1)] line_buf_stack [OF assms(2)] assms(3), of "[]"] by (auto split: option.splits)

section \<open>What the command prints\<close>

lemma size_line:
  assumes "n < ENV_SIZE"
  shows "printf_buf (CHR 0x0a # ''Environment size: %d/%ld bytes'' @ [CHR 0x0a]) [VInt (of_int (int n)), VInt (of_nat ENV_SIZE)] =
    Some (CHR 0x0a # ''Environment size: '' @ decimal n @ CHR ''/'' # decimal ENV_SIZE @ '' bytes'' @ [CHR 0x0a])"
proof -
  have n: "unat (of_nat n :: u32) = n" using assms by (simp add: unat_of_nat)
  have "length (decimal n) \<le> 4" "length (decimal ENV_SIZE) \<le> 4" using assms decimal_length by simp_all
  then show ?thesis
    using n assms vsprintf_loop_d [of "of_nat n"] vsprintf_loop_ld [of "0x3fc"]
    by (simp add: printf_buf_def vsprintf_def text_simps decimal_def)
qed

text \<open>The line for one name: its entry, or the message.\<close>

definition printenv_line :: "string list \<Rightarrow> string \<Rightarrow> string" where
  "printenv_line es n =
     (case lookup es n of
        Some v \<Rightarrow> n @ CHR ''='' # v @ [CHR 0x0a]
      | None \<Rightarrow> ''## Error: '' @ CHR 0x22 # n @ CHR 0x22 # '' not defined'' @ [CHR 0x0a])"

lemma printenv_args_lines:
  assumes "env_ok es st" "16 \<le> length buf" "es \<noteq> []" "\<forall>n\<in>set names. name_ok n \<and> length n < 94"
  shows "printenv_args (env_get_char r st) (\<lambda>i k. False) i names buf rc out =
    Some (rc + int (length (filter (\<lambda>n. lookup es n = None) names)), out @ concat (map (printenv_line es) names))"
  using assms(4)
proof (induction names arbitrary: i rc out)
  case (Cons n names)
  have n: "name_ok n" "length n < 94" "NUL \<notin> set n" using Cons.prems by (auto simp: name_ok_def)
  note p = printenv_name [OF assms(1,2) n(1), of r]
  show ?case
  proof (cases "find (\<lambda>e. entry_name e = n) es")
    case None
    have "encs es \<noteq> []" using assms(3) by (cases es) auto
    moreover have "printf_buf (''## Error: '' @ CHR 0x22 # ''%s'' @ CHR 0x22 # '' not defined'' @ [CHR 0x0a]) [VStr (Some n)] = Some (printenv_line es n)"
      using n printf_buf_around [of n "''## Error: '' @ [CHR 0x22]" "CHR 0x22 # '' not defined'' @ [CHR 0x0a]"] None
      by (simp add: around_def printenv_line_def lookup_def)
    ultimately show ?thesis using None p Cons.IH Cons.prems by (simp add: lookup_def del: append_Cons append_Nil)
  next
    case (Some e)
    then have "e \<in> set es" "entry_name e = n" by (auto simp: find_Some_iff)
    then have "e = n @ CHR ''='' # entry_value e" using entry_split env_ok_sees(2) [OF assms(1)] by (auto simp: list_all_iff)
    then have "printenv_line es n = e @ [CHR 0x0a]" using Some by (simp add: printenv_line_def lookup_def)
    then show ?thesis using Some p Cons.IH Cons.prems by (simp add: lookup_def)
  qed
qed simp

text \<open>In an empty environment the number of bytes read is 0, which is also the result for a
  variable that was found: an undefined variable is not reported.\<close>

lemma printenv_empty_silent:
  assumes "env_ok [] st" "16 \<le> length buf" "name_ok n"
  shows "do_printenv (env_get_char r st) (\<lambda>i k. False) [c, n] buf = Some (0, [])"
  using printenv_name [OF assms, of r] by (simp add: do_printenv_def)

section \<open>Properties\<close>



end
