(* ===== verification/Help.thy ===== *)
theory Help
  imports CmdLine Console MemString "HOL-Library.List_Lexorder" "HOL-Library.Multiset"
begin

text \<open>
  The help command: \<open>_do_help\<close> and \<open>cmd_usage\<close> of common/command.c (with \<open>CONFIG_SYS_LONGHELP\<close> and
  \<open>CONFIG_SYS_HELP_CMD_WIDTH\<close> 8) and \<open>do_help\<close> of common/cmd_help.c, on the command table of the
  command line. The list of commands is sorted in place by exchanging neighbours; it is shown to
  be the stable sort of the table by name. The answers of \<open>ctrlc\<close> are an argument.
\<close>

abbreviation (input) LF :: char where
  "LF \<equiv> CHR 0x0a"

abbreviation (input) CONFIG_SYS_HELP_CMD_WIDTH :: u32 where
  "CONFIG_SYS_HELP_CMD_WIDTH \<equiv> 8"

section \<open>The commands\<close>

definition cmd_usage :: "'s cmd_tbl \<Rightarrow> (int \<times> string) option" where
  "cmd_usage cmdtp = do {
     s1 \<leftarrow> printf_buf (''%s - %s'' @ [LF, LF]) [VStr (Some (cmd_name cmdtp)), VStr (cmd_usage_text cmdtp)];
     s2 \<leftarrow> printf_buf (''Usage:'' @ LF # ''%s '') [VStr (Some (cmd_name cmdtp))];
     case cmd_help cmdtp of
       None \<Rightarrow> Some (1, s1 @ s2 @ ''- No additional help available.'' @ [LF])
     | Some h \<Rightarrow> Some (0, s1 @ s2 @ h @ [LF])
   }"

text \<open>The inner loop of the sort, from index \<open>j\<close> on; the array is \<open>cmd_array\<close>.\<close>

function help_pass :: "nat \<Rightarrow> nat \<Rightarrow> 's cmd_tbl list \<Rightarrow> nat \<Rightarrow> 's cmd_tbl list \<times> nat" where
  "help_pass i j cmd_array swaps =
     (if j < i then
        if strcmp (cmd_name (cmd_array ! j)) (cmd_name (cmd_array ! (j + 1))) > 0
        then help_pass i (j + 1) (cmd_array[j := cmd_array ! (j + 1), j + 1 := cmd_array ! j]) (swaps + 1)
        else help_pass i (j + 1) cmd_array swaps
      else (cmd_array, swaps))"
  by pat_completeness auto
termination
  by (relation "measure (\<lambda>(i, j, cmd_array, swaps). i - j)") auto

declare help_pass.simps [simp del]

fun help_sort :: "nat \<Rightarrow> 's cmd_tbl list \<Rightarrow> 's cmd_tbl list" where
  "help_sort 0 cmd_array = cmd_array"
| "help_sort (Suc i) cmd_array =
     (let (cmd_array, swaps) = help_pass (Suc i) 0 cmd_array 0
      in if swaps = 0 then cmd_array else help_sort i cmd_array)"

text \<open>The loop that prints the short descriptions, from index \<open>i\<close> on.\<close>

fun help_short :: "(nat \<Rightarrow> bool) \<Rightarrow> nat \<Rightarrow> 's cmd_tbl list \<Rightarrow> string \<Rightarrow> (int \<times> string) option" where
  "help_short ctrlc i [] out = Some (0, out)"
| "help_short ctrlc i (t # ts) out =
     (if ctrlc i then Some (1, out)
      else case cmd_usage_text t of
          None \<Rightarrow> help_short ctrlc (i + 1) ts out
        | Some u \<Rightarrow> do {
            s \<leftarrow> printf_buf (''%-*s- %s'' @ [LF]) [VInt CONFIG_SYS_HELP_CMD_WIDTH, VStr (Some (cmd_name t)), VStr (Some u)];
            help_short ctrlc (i + 1) ts (out @ s)
          })"

fun help_long :: "'s cmd_tbl list \<Rightarrow> string list \<Rightarrow> int \<Rightarrow> string \<Rightarrow> (int \<times> string) option" where
  "help_long table [] rcode out = Some (rcode, out)"
| "help_long table (a # argv) rcode out =
     (case find_cmd_tbl a table of
        Some cmdtp \<Rightarrow> do { (r, s) \<leftarrow> cmd_usage cmdtp; help_long table argv (rcode OR r) (out @ s) }
      | None \<Rightarrow> do {
          s \<leftarrow> printf_buf (''Unknown command '' @ CHR 0x27 # ''%s'' @ CHR 0x27 # '' - try '' @ CHR 0x27 # ''help'' @ CHR 0x27 #
                 '' without arguments for list of all known commands'' @ [LF, LF]) [VStr (Some a)];
          help_long table argv 1 (out @ s)
        })"

definition do_help :: "'s cmd_tbl list \<Rightarrow> (nat \<Rightarrow> bool) \<Rightarrow> string list \<Rightarrow> (int \<times> string) option" where
  "do_help table ctrlc argv =
     (if length argv = 1 then help_short ctrlc 0 (help_sort (length table - 1) table) []
      else help_long table (tl argv) 0 [])"

section \<open>Exchanging neighbours sorts\<close>

text \<open>One pass as a function on lists: the largest element seen so far is carried along.\<close>

fun bubble :: "('a \<Rightarrow> 'k :: linorder) \<Rightarrow> 'a \<Rightarrow> 'a list \<Rightarrow> 'a list \<times> nat" where
  "bubble key x [] = ([x], 0)"
| "bubble key x (y # ys) =
     (if key y < key x then let (r, n) = bubble key x ys in (y # r, n + 1)
      else let (r, n) = bubble key y ys in (x # r, n))"

lemma bubble_mset: "mset (fst (bubble key x ys)) = mset (x # ys)"
  by (induction key x ys rule: bubble.induct) (auto simp: Let_def case_prod_beta)

lemma bubble_stable: "filter (\<lambda>t. key t = k) (fst (bubble key x ys)) = filter (\<lambda>t. key t = k) (x # ys)"
  by (induction key x ys rule: bubble.induct) (auto simp: Let_def case_prod_beta)

lemma bubble_last: "\<exists>r m. fst (bubble key x ys) = r @ [m] \<and> (\<forall>t\<in>set (x # ys). key t \<le> key m)"
proof (induction key x ys rule: bubble.induct)
  case (2 key x y ys)
  show ?case
  proof (cases "key y < key x")
    case True
    then obtain r m where "fst (bubble key x ys) = r @ [m]" "\<forall>t\<in>set (x # ys). key t \<le> key m" using 2 by blast
    then show ?thesis using True by (intro exI [of _ "y # r"] exI [of _ m]) (auto simp: case_prod_beta)
  next
    case False
    then obtain r m where "fst (bubble key y ys) = r @ [m]" "\<forall>t\<in>set (y # ys). key t \<le> key m" using 2 by blast
    then show ?thesis using False by (intro exI [of _ "x # r"] exI [of _ m]) (auto simp: case_prod_beta)
  qed
qed simp

lemma bubble_no_swap: "snd (bubble key x ys) = 0 \<Longrightarrow> fst (bubble key x ys) = x # ys \<and> sorted (map key (x # ys))"
  by (induction key x ys rule: bubble.induct) (force simp: case_prod_beta split: if_splits)+

lemma sort_key_cong:
  assumes "mset xs = mset ys" "\<And>k. filter (\<lambda>t. key t = k) xs = filter (\<lambda>t. key t = k) ys"
  shows "sort_key key xs = sort_key key ys"
proof (rule properties_for_sort_key)
  fix k
  have "filter (\<lambda>t. key k = key t) zs = filter (\<lambda>t. key t = key k) zs" for zs by (rule filter_cong) auto
  then show "filter (\<lambda>t. key k = key t) (sort_key key ys) = filter (\<lambda>t. key k = key t) xs"
    by (simp only: sort_key_stable assms(2))
qed (simp_all add: assms(1))

section \<open>Comparing names\<close>

definition ascii_name :: "string \<Rightarrow> bool" where
  "ascii_name s \<longleftrightarrow> (\<forall>c\<in>set s. c \<noteq> NUL \<and> (of_char c :: nat) < 128)"

definition name_key :: "'s cmd_tbl \<Rightarrow> nat list" where
  "name_key t = map of_char (cmd_name t)"

text \<open>For ASCII strings the difference of two characters fits into the \<open>signed char\<close> of \<open>strcmp\<close>,
  which then compares lexicographically.\<close>

lemma char_diff_ascii:
  assumes "(of_char c :: nat) < 128" "(of_char d :: nat) < 128"
  shows "char_diff c d = int (of_char c) - int (of_char d)"
proof -
  have b: "uint (byte_of x) = int (of_char x)" for x using unat_byte_of [of x] by (metis of_nat_unat)
  have "byte_of c - byte_of d = word_of_int (int (of_char c) - int (of_char d))"
    by (simp add: b [symmetric])
  then have "sint (byte_of c - byte_of d) = signed_take_bit 7 (int (of_char c) - int (of_char d))"
    by (simp only: sint_sbintrunc') simp
  also have "\<dots> = int (of_char c) - int (of_char d)"
    using assms by (intro signed_take_bit_int_eq_self) auto
  finally show ?thesis by (simp add: char_diff_def)
qed

lemma strcmp_ascii:
  assumes "ascii_name s" "ascii_name t"
  shows "strcmp s t > 0 \<longleftrightarrow> map of_char t < (map of_char s :: nat list)"
  using assms
proof (induction s t rule: strcmp.induct)
  case (1 s t)
  have z: "(of_char NUL :: nat) = 0" by simp
  show ?case
  proof (cases s)
    case Nil
    have "(of_char (peek t 0) :: nat) < 128" using "1.prems" by (cases t) (auto simp: ascii_name_def)
    then have "char_diff NUL (peek t 0) \<le> 0" using char_diff_ascii [of NUL "peek t 0"] by simp
    then show ?thesis using Nil by (subst strcmp.simps) (simp add: Let_def)
  next
    case c: (Cons c s')
    show ?thesis
    proof (cases t)
      case Nil
      have "(of_char c :: nat) < 128" "c \<noteq> NUL" using "1.prems" c by (auto simp: ascii_name_def)
      moreover from this have "(of_char c :: nat) \<noteq> 0" using of_char_eq_iff [of c NUL, where ?'a = nat] z by metis
      ultimately have "char_diff c NUL = int (of_char c)" "(of_char c :: nat) \<noteq> 0"
        using char_diff_ascii [of c NUL] by simp_all
      then show ?thesis using c Nil by (subst strcmp.simps) (simp add: Let_def)
    next
      case d: (Cons d t')
      have diff: "char_diff c d = int (of_char c) - int (of_char d)"
        using 1 c d by (intro char_diff_ascii) (auto simp: ascii_name_def)
      show ?thesis
      proof (cases "c = d")
        case True
        then have "strcmp s' t' > 0 \<longleftrightarrow> map of_char t' < (map of_char s' :: nat list)"
          using 1 c d diff by (auto simp: ascii_name_def)
        then show ?thesis using c d diff True by (subst strcmp.simps) simp
      next
        case False
        then have "(of_char c :: nat) \<noteq> of_char d" by simp
        then show ?thesis using c d diff by (subst strcmp.simps) (auto simp: Let_def)
      qed
    qed
  qed
qed

section \<open>The list of commands\<close>

lemma help_pass_bubble:
  assumes "\<forall>t\<in>set (x # ys). ascii_name (cmd_name t)"
  shows "help_pass (length pre + length ys) (length pre) (pre @ x # ys @ zs) swaps =
    (pre @ fst (bubble name_key x ys) @ zs, swaps + snd (bubble name_key x ys))"
  using assms
proof (induction ys arbitrary: pre x swaps)
  case Nil
  then show ?case by (simp add: help_pass.simps)
next
  case (Cons y ys)
  have gt: "strcmp (cmd_name x) (cmd_name y) > 0 \<longleftrightarrow> name_key y < name_key x"
    using Cons.prems by (simp add: strcmp_ascii name_key_def)
  have nth: "(pre @ x # y # r) ! length pre = x" "(pre @ x # y # r) ! (length pre + 1) = y" for r
    by (simp_all add: nth_append)
  have upd: "(pre @ x # y # r)[length pre := y, length pre + 1 := x] = (pre @ [y]) @ x # r" for r
    by (simp add: list_update_append)
  show ?case
  proof (cases "name_key y < name_key x")
    case True
    have "help_pass (length (pre @ [y]) + length ys) (length (pre @ [y])) ((pre @ [y]) @ x # ys @ zs) (swaps + 1) =
        ((pre @ [y]) @ fst (bubble name_key x ys) @ zs, swaps + 1 + snd (bubble name_key x ys))"
      using Cons.prems by (intro Cons.IH) auto
    then show ?thesis
      using True gt nth [of "ys @ zs"] upd [of "ys @ zs"] by (subst help_pass.simps) (simp add: case_prod_beta)
  next
    case False
    have "help_pass (length (pre @ [x]) + length ys) (length (pre @ [x])) ((pre @ [x]) @ y # ys @ zs) swaps =
        ((pre @ [x]) @ fst (bubble name_key y ys) @ zs, swaps + snd (bubble name_key y ys))"
      using Cons.prems by (intro Cons.IH) auto
    then show ?thesis
      using False gt nth [of "ys @ zs"] by (subst help_pass.simps) (simp add: case_prod_beta)
  qed
qed

lemma help_sort_sorts:
  assumes "length xs = Suc i" "\<forall>t\<in>set xs. ascii_name (cmd_name t)" "sorted (map name_key zs)"
    and "\<forall>x\<in>set xs. \<forall>z\<in>set zs. name_key x \<le> name_key z"
  shows "help_sort i (xs @ zs) = sort_key name_key (xs @ zs)"
  using assms
proof (induction i arbitrary: xs zs)
  case 0
  then obtain x where "xs = [x]" by (auto simp: length_Suc_conv)
  then have "sorted (map name_key (xs @ zs))" using "0.prems" by simp
  then show ?case by (simp only: sort_key_id_if_sorted help_sort.simps)
next
  case (Suc i)
  then obtain x ys where xs: "xs = x # ys" "length ys = Suc i" by (auto simp: length_Suc_conv)
  let ?b = "bubble name_key x ys"
  have pass: "help_pass (Suc i) 0 (xs @ zs) 0 = (fst ?b @ zs, snd ?b)"
    using help_pass_bubble [of x ys "[]" zs 0] Suc.prems(2) xs by simp
  show ?case
  proof (cases "snd ?b = 0")
    case True
    then have "fst ?b = xs" "sorted (map name_key (xs @ zs))"
      using bubble_no_swap [OF True] Suc.prems(3,4) xs by (auto simp: sorted_append)
    then show ?thesis using pass True by (simp add: sort_key_id_if_sorted)
  next
    case False
    obtain r m where rm: "fst ?b = r @ [m]" "\<forall>t\<in>set xs. name_key t \<le> name_key m"
      using bubble_last [of name_key x ys] xs by auto
    have ms: "mset (r @ [m]) = mset xs" using bubble_mset [of name_key x ys] rm xs by simp
    then have set: "set (r @ [m]) = set xs" "length (r @ [m]) = length xs" by (metis mset_eq_setD, metis mset_eq_length)
    have "help_sort i (r @ m # zs) = sort_key name_key (r @ m # zs)"
      using Suc.prems rm set by (intro Suc.IH) auto
    moreover have "sort_key name_key ((r @ [m]) @ zs) = sort_key name_key (xs @ zs)"
    proof (rule sort_key_cong)
      show "filter (\<lambda>t. name_key t = k) ((r @ [m]) @ zs) = filter (\<lambda>t. name_key t = k) (xs @ zs)" for k
        using bubble_stable [of name_key k x ys] unfolding rm(1) xs(1) by (simp only: filter_append [of _ "r @ [m]"] filter_append [of _ "x # ys"])
    qed (use ms in simp)
    ultimately show ?thesis using pass False rm by simp
  qed
qed

text \<open>One line of the list.\<close>

definition help_line :: "'s cmd_tbl \<Rightarrow> string" where
  "help_line t = cmd_name t @ replicate (8 - length (cmd_name t)) CHR '' '' @ ''- '' @ the (cmd_usage_text t) @ [LF]"

text \<open>Names are ASCII and the line of the list fits into the buffer of \<open>printf\<close>.\<close>

definition help_entry_ok :: "'s cmd_tbl \<Rightarrow> bool" where
  "help_entry_ok t \<longleftrightarrow> ascii_name (cmd_name t) \<and>
     (case cmd_usage_text t of None \<Rightarrow> True | Some u \<Rightarrow> NUL \<notin> set u \<and> length (help_line t) < CONFIG_SYS_PBSIZE)"

lemma help_line_printed:
  assumes "help_entry_ok t" "cmd_usage_text t = Some u"
  shows "printf_buf (''%-*s- %s'' @ [LF]) [VInt CONFIG_SYS_HELP_CMD_WIDTH, VStr (Some (cmd_name t)), VStr (Some u)] =
    Some (help_line t)"
proof -
  have n: "NUL \<notin> set (cmd_name t)" "NUL \<notin> set u" "length (cmd_name t) < 2 ^ 32" "length u < 2 ^ 32"
    using assms by (auto simp: help_entry_ok_def ascii_name_def help_line_def)
  have "vsprintf_loop (\<lambda>_. 0) (''%-*s- %s'' @ [LF]) [VInt 8, VStr (Some (cmd_name t)), VStr (Some u)] [] [] = Some (help_line t, [])"
    using n assms(2) by (simp add: text_simps help_line_def)
  then show ?thesis using assms by (simp add: printf_buf_def vsprintf_def help_entry_ok_def)
qed

lemma help_short_all:
  assumes "\<forall>t\<in>set ts. help_entry_ok t"
  shows "help_short (\<lambda>i. False) i ts out =
    Some (0, out @ concat (map help_line (filter (\<lambda>t. cmd_usage_text t \<noteq> None) ts)))"
  using assms
proof (induction ts arbitrary: i out)
  case (Cons t ts)
  then show ?case
    using help_line_printed [of t] by (cases "cmd_usage_text t") simp_all
qed simp

section \<open>Messages that do not fit\<close>

text \<open>\<open>help\<close> with a word of more than 36 characters that is no command writes behind the buffer of
  \<open>printf\<close>; so does the message of \<open>run_command\<close> for an unknown command of more than 86 characters,
  although a line may have 98.\<close>

lemma help_unknown_overruns:
  assumes "find_cmd_tbl a table = None" "NUL \<notin> set a" "length a < 2 ^ 32"
  shows "do_help table ctrlc [c, a] = None \<longleftrightarrow> 36 < length a"
  using assms printf_buf_around [of a "''Unknown command '' @ [CHR 0x27]"
    "CHR 0x27 # '' - try '' @ CHR 0x27 # ''help'' @ CHR 0x27 # '' without arguments for list of all known commands'' @ [LF, LF]"]
  by (simp add: do_help_def around_def)

lemma unknown_command_overruns:
  assumes "NUL \<notin> set a" "length a < 2 ^ 32"
  shows "printf_buf (''Unknown command '' @ CHR 0x27 # ''%s'' @ CHR 0x27 # '' - try '' @ CHR 0x27 # ''help'' @ CHR 0x27 # [LF]) [VStr (Some a)] = None
    \<longleftrightarrow> 86 < length a"
  using assms printf_buf_around [of a "''Unknown command '' @ [CHR 0x27]" "CHR 0x27 # '' - try '' @ CHR 0x27 # ''help'' @ CHR 0x27 # [LF]"]
  by (simp add: around_def)

section \<open>Properties\<close>

text \<open>C25: Without arguments and if it is not interrupted, \<open>help\<close> returns 0 and prints one line for each command that
  has a description, in the order of the names: exactly the lines of the stable sort of the table.\<close>

theorem help_lists_sorted:
  assumes "\<forall>t\<in>set table. help_entry_ok t"
  shows "do_help table (\<lambda>i. False) [c] =
    Some (0, concat (map help_line (sort_key name_key (filter (\<lambda>t. cmd_usage_text t \<noteq> None) table))))"
proof -
  have "help_sort (length table - 1) table = sort_key name_key table"
    using assms help_sort_sorts [of table "length table - 1" "[]"]
    by (cases table) (auto simp: help_entry_ok_def)
  then show ?thesis using assms by (simp add: do_help_def help_short_all filter_sort)
qed

definition help_table :: "unit cmd_tbl list" where
  "help_table = map (\<lambda>(n, u). \<lparr>cmd_name = n, maxargs = 1, repeatable = 1, cmd = \<lambda>run flag argv st. Some (0, st),
      cmd_usage_text = u, cmd_help = None\<rparr>)
     [(''run'', Some ''run commands in an environment variable''), (''date'', Some ''get/set/reset date & time''),
      (''boota'', None), (''base'', Some ''print or set address offset'')]"

theorem help_lists_sorted_witness:
  "do_help help_table (\<lambda>i. False) [''help''] =
     Some (0, ''base    - print or set address offset'' @ LF # ''date    - get/set/reset date & time'' @ LF #
       ''run     - run commands in an environment variable'' @ [LF])"
proof -
  have "\<forall>t\<in>set help_table. help_entry_ok t" by code_simp
  moreover have "concat (map help_line (sort_key name_key (filter (\<lambda>t. cmd_usage_text t \<noteq> None) help_table))) =
      ''base    - print or set address offset'' @ LF # ''date    - get/set/reset date & time'' @ LF #
       ''run     - run commands in an environment variable'' @ [LF]"
    by code_simp
  ultimately show ?thesis using help_lists_sorted [of help_table "''help''"] by simp
qed

end
