(* ===== verification/EepromCmd.thy ===== *)
theory EepromCmd
  imports Eeprom Console
begin

text \<open>
  The command \<open>eeprom\<close>: \<open>do_eeprom\<close> of common/cmd_eeprom.c for \<open>CONFIG_SYS_I2C_MULTI_EEPROMS\<close>, on top of
  the transfers of that file. \<open>eeprom_init\<close> only initialises the I2C controller and is an
  argument, as is the text that \<open>cmd_usage\<close> prints.
\<close>

section \<open>The command\<close>

definition eeprom_fmt :: string where
  "eeprom_fmt = CHR 0x0a # ''EEPROM @0x%lX %s: addr %08lx  off %04lx  count %ld ... ''"

text \<open>The bytes a failing transfer leaves in memory are those that \<open>i2c_read\<close> gives.\<close>

definition do_eeprom ::
  "string \<Rightarrow> ('b \<Rightarrow> 'b) \<Rightarrow> 'b i2c_reader \<Rightarrow> 'b i2c_writer \<Rightarrow> string list \<Rightarrow> mem \<Rightarrow> 'b \<Rightarrow> (int \<times> string \<times> mem \<times> 'b) option" where
  "do_eeprom usage eeprom_init i2c_read i2c_write argv m bus =
     (if length argv = 6 then
        let dev_addr = fst (simple_strtoul (argv ! 2) 16);
            addr = fst (simple_strtoul (argv ! 3) 16);
            off = fst (simple_strtoul (argv ! 4) 16);
            cnt = fst (simple_strtoul (argv ! 5) 16);
            bus = eeprom_init bus
        in if strcmp (argv ! 1) ''read'' = 0 then do {
             s \<leftarrow> printf_buf eeprom_fmt [VInt dev_addr, VStr (Some (argv ! 1)), VInt addr, VInt off, VInt cnt];
             let (rcode, bytes, bus) = eeprom_read i2c_read dev_addr off cnt bus;
             Some (rcode, s @ ''done'' @ [CHR 0x0a], mem_put m addr bytes, bus)
           }
           else if strcmp (argv ! 1) ''write'' = 0 then do {
             s \<leftarrow> printf_buf eeprom_fmt [VInt dev_addr, VStr (Some (argv ! 1)), VInt addr, VInt off, VInt cnt];
             let (rcode, bus) = eeprom_write i2c_write dev_addr off (mem_bytes m addr (unat cnt)) cnt bus;
             Some (rcode, s @ ''done'' @ [CHR 0x0a], m, bus)
           }
           else Some (1, usage, m, bus)
      else Some (1, usage, m, bus))"

section \<open>The message fits\<close>

lemma eeprom_message:
  assumes "NUL \<notin> set c" "length c \<le> 5"
  shows "\<exists>s. printf_buf eeprom_fmt [VInt d, VStr (Some c), VInt a, VInt off, VInt n] = Some s"
proof -
  let ?n1 = "number (ucast d) 16 (-1) (-1) 0" and ?n2 = "number (ucast a) 16 8 (-1) 33" and ?n3 = "number (ucast off) 16 4 (-1) 33"
    and ?n4 = "number (scast n) 10 (-1) (-1) 2"
  have l: "length ?n1 \<le> 8" "length ?n2 \<le> 8" "length ?n3 \<le> 8" "length ?n4 \<le> 11"
    using number_hex_length [of 0 "-1" d] number_hex_length [of 33 8 a] number_hex_length [of 33 4 off] number_dec_length [of n]
    by (simp_all add: flag_set_def)
  have "vsprintf (\<lambda>_. 0) eeprom_fmt [VInt d, VStr (Some c), VInt a, VInt off, VInt n] =
      Some (CHR 0x0a # ''EEPROM @0x'' @ ?n1 @ CHR '' '' # c @ '': addr '' @ ?n2 @ ''  off '' @ ?n3 @ ''  count '' @ ?n4 @ '' ... '', [])"
    using string_padded [of c "-1" 0] assms by (simp add: eeprom_fmt_def conv_simps flag_set_def)
  then show ?thesis using l assms(2) by (simp add: printf_buf_def)
qed

section \<open>Moving memory through the device\<close>

text \<open>Writing memory to the device and reading it back to another place copies it there, leaves the
  rest of memory alone and changes nothing else of the device.\<close>

lemma eeprom_commands_copy:
  assumes chip: "chip_writes dev mem w" "chip_reads dev mem r" "\<And>b. mem (init b) = mem b"
    and args: "simple_strtoul d 16 = (dev, d')" "simple_strtoul a 16 = (A, a')" "simple_strtoul b 16 = (B, b')"
      "simple_strtoul f 16 = (off, f')" "simple_strtoul n 16 = (cnt, n')"
    and range: "unat off + unat cnt < 2 ^ 32"
  shows "\<exists>out1 bus1 out2 bus2. do_eeprom usage init r w [c, ''write'', d, a, f, n] m bus = Some (0, out1, m, bus1) \<and>
    do_eeprom usage init r w [c, ''read'', d, b, f, n] m bus1 = Some (0, out2, mem_put m B (mem_bytes m A (unat cnt)), bus2) \<and>
    (\<forall>x. x < unat off \<or> unat off + unat cnt \<le> x \<longrightarrow> mem bus1 x = mem bus x)"
proof -
  let ?buf = "mem_bytes m A (unat cnt)"
  have cmp: "strcmp ''read'' ''read'' = 0" "strcmp ''write'' ''read'' \<noteq> 0" "strcmp ''write'' ''write'' = 0" by code_simp+
  obtain bus1 where w: "eeprom_write w dev off ?buf cnt (init bus) = (0, bus1)" "mem bus1 = store (unat off) ?buf (mem bus)"
    using eeprom_write_ok [OF chip(1), of off ?buf "init bus"] range chip(3) by auto
  have r: "eeprom_read r dev off cnt (init bus1) = (0, ?buf, init bus1)"
    using eeprom_read_ok [OF chip(2), of off "unat cnt" "init bus1"] range w(2) chip(3) load_store [of "unat off" ?buf "mem bus"] by simp
  obtain s1 where s1: "printf_buf eeprom_fmt [VInt dev, VStr (Some ''write''), VInt A, VInt off, VInt cnt] = Some s1"
    using eeprom_message [of "''write''" dev A off cnt] by auto
  obtain s2 where s2: "printf_buf eeprom_fmt [VInt dev, VStr (Some ''read''), VInt B, VInt off, VInt cnt] = Some s2"
    using eeprom_message [of "''read''" dev B off cnt] by auto
  show ?thesis
    using cmp w r s1 s2 args by (auto simp: do_eeprom_def store_def)
qed

end
