(* ===== verification/MainLoop.thy ===== *)
theory MainLoop
  imports CmdLine
begin

text \<open>
  \<open>main_loop\<close> of common/main.c for the board's settings (\<open>CONFIG_VERSION_VARIABLE\<close> and
  \<open>CONFIG_SAM4XX\<close>; no boot delay, no preboot command, no hush parser, no retry time): it stores the
  version, runs the boot command and then reads and runs lines for ever. The loop is a step
  function on the state it keeps, the sequence of its iterations a reachability relation.
\<close>

section \<open>The loop\<close>

text \<open>What an iteration finds: the static \<open>lastcommand\<close>, the variable \<open>rc\<close>, the global
  \<open>console_buffer\<close> (of \<open>CONFIG_SYS_CBSIZE + 1\<close> bytes), the characters still to be typed, the text
  written by the loop itself, and the state the commands share.\<close>

record 's main_state =
  lastcommand :: string
  main_rc :: int
  console_buffer :: string
  main_in :: string
  main_out :: string
  main_st :: 's

abbreviation (input) CMD_FLAG_REPEAT :: int where
  "CMD_FLAG_REPEAT \<equiv> 1"

definition buf_text :: "string \<Rightarrow> string" where
  "buf_text buf = takeWhile (\<lambda>c. c \<noteq> NUL) buf"

text \<open>\<open>strcpy\<close> between two buffers; \<open>None\<close> when there is no terminator or the copy does not fit.\<close>

definition strcpy_buf :: "string \<Rightarrow> string \<Rightarrow> string option" where
  "strcpy_buf dst src =
     (let s = buf_text src in
      if length s < length src \<and> length s < length dst then Some (s @ NUL # drop (length s + 1) dst) else None)"

text \<open>An iteration, given \<open>run_command\<close>: its second half runs the command and keeps or forgets it.
  The value is \<open>None\<close> when the input ends before the line does, when a command does not return, or
  when memory outside the buffers would be accessed.\<close>

definition main_exec :: "'s runner \<Rightarrow> int \<Rightarrow> string \<Rightarrow> 's main_state \<Rightarrow> 's main_state option" where
  "main_exec run len lcmd m = do {
     let flag = (if len = 0 then CMD_FLAG_REPEAT else 0);
     (rc, m) \<leftarrow>
       (if len = -1 then Some (main_rc m, m\<lparr>main_out := main_out m @ ''<INTERRUPT>'' @ [CHR 0x0a]\<rparr>)
        else do {
          (rc, st) \<leftarrow> run (buf_text lcmd) flag (main_st m);
          Some (rc, m\<lparr>main_st := st\<rparr>)
        });
     lcmd \<leftarrow> (if rc \<le> 0 then wr lcmd 0 NUL else Some lcmd);
     Some (m\<lparr>lastcommand := lcmd, main_rc := rc\<rparr>)
   }"

definition main_iter :: "'s runner \<Rightarrow> 's main_state \<Rightarrow> 's main_state option" where
  "main_iter run m = do {
     (len, l, inp) \<leftarrow> readline ''] '' (console_buffer m) (main_in m);
     lcmd \<leftarrow> (if len > 0 then strcpy_buf (lastcommand m) (ln_buf l) else Some (lastcommand m));
     main_exec run len lcmd (m\<lparr>console_buffer := ln_buf l, main_in := inp, main_out := main_out m @ ln_out l\<rparr>)
   }"

text \<open>What comes before the loop. \<open>getenv\<close> may find no boot command: \<open>run_command\<close> treats \<open>NULL\<close>
  like the empty line. The buffers are static and therefore zero.\<close>

definition main_start ::
  "'s cmd_env \<Rightarrow> (string \<Rightarrow> string \<Rightarrow> 's \<Rightarrow> 's) \<Rightarrow> string \<Rightarrow> 's runner \<Rightarrow> string \<Rightarrow> 's \<Rightarrow> 's main_state option" where
  "main_start ce setenv version_string run inp st = do {
     let st = setenv ''ver'' version_string st;
     let s = (case ce_getenv ce st ''bootcmd'' of None \<Rightarrow> [] | Some s \<Rightarrow> s);
     (r, st) \<leftarrow> run s 1 st;
     Some \<lparr>lastcommand = replicate CONFIG_SYS_CBSIZE NUL, main_rc = 1, console_buffer = replicate (CONFIG_SYS_CBSIZE + 1) NUL,
       main_in = inp, main_out = [], main_st = st\<rparr>
   }"

text \<open>The states at the head of the loop.\<close>

inductive main_loop ::
  "'s cmd_env \<Rightarrow> (string \<Rightarrow> string \<Rightarrow> 's \<Rightarrow> 's) \<Rightarrow> string \<Rightarrow> 's runner \<Rightarrow> string \<Rightarrow> 's \<Rightarrow> 's main_state \<Rightarrow> bool"
  for ce setenv version_string run inp st where
  enter: "main_start ce setenv version_string run inp st = Some m \<Longrightarrow> main_loop ce setenv version_string run inp st m"
| again: "main_loop ce setenv version_string run inp st m \<Longrightarrow> main_iter run m = Some m' \<Longrightarrow>
    main_loop ce setenv version_string run inp st m'"

fun main_iters :: "nat \<Rightarrow> 's runner \<Rightarrow> 's main_state \<Rightarrow> 's main_state option" where
  "main_iters 0 run m = Some m"
| "main_iters (Suc n) run m = do { m' \<leftarrow> main_iter run m; main_iters n run m' }"

section \<open>The buffers\<close>

text \<open>The stored command is terminated inside its buffer, and it is empty after a command that
  cannot be repeated.\<close>

definition main_ok :: "'s main_state \<Rightarrow> bool" where
  "main_ok m \<longleftrightarrow> length (lastcommand m) = CONFIG_SYS_CBSIZE \<and> length (console_buffer m) = CONFIG_SYS_CBSIZE + 1 \<and>
     length (buf_text (lastcommand m)) \<le> CONFIG_SYS_CBSIZE - 2 \<and> (main_rc m \<le> 0 \<longrightarrow> buf_text (lastcommand m) = [])"

lemma buf_text_append [simp]: "NUL \<notin> set s \<Longrightarrow> buf_text (s @ NUL # r) = s"
  by (simp add: buf_text_def takeWhile_append)

lemma buf_text_no_nul: "NUL \<notin> set (buf_text s)"
  by (auto simp: buf_text_def dest: set_takeWhileD)

lemma buf_text_cut [simp]: "s \<noteq> [] \<Longrightarrow> buf_text (s[0 := NUL]) = []"
  by (cases s) (simp_all add: buf_text_def)

lemma buf_text_terminated: "i < length s \<Longrightarrow> s ! i = NUL \<Longrightarrow> length (buf_text s) \<le> i"
proof (rule ccontr)
  assume "i < length s" "s ! i = NUL" "\<not> length (buf_text s) \<le> i"
  then have "s ! i \<in> set (buf_text s)" unfolding buf_text_def by (metis linorder_not_le nth_mem takeWhile_nth)
  then show False using \<open>s ! i = NUL\<close> buf_text_no_nul [of s] by simp
qed

lemma strcpy_buf_Some:
  assumes "strcpy_buf dst src = Some b"
  shows "length b = length dst" "buf_text b = buf_text src"
proof -
  let ?s = "buf_text src"
  have b: "b = ?s @ NUL # drop (length ?s + 1) dst" "length ?s < length dst"
    using assms by (simp_all add: strcpy_buf_def Let_def split: if_splits)
  show "length b = length dst" using b by simp
  show "buf_text b = ?s" using b(1) buf_text_no_nul [of src] by simp
qed

text \<open>What \<open>readline\<close> leaves behind, whatever was typed.\<close>

lemma readline_loop_result:
  assumes "line_ok bsz plen l" "readline_loop plen inp l = Some (rc, l', rest)"
  shows "rc \<le> int (CONFIG_SYS_CBSIZE - 2) \<and> length (ln_buf l') = bsz \<and> -1 \<le> rc \<and> (0 \<le> rc \<longrightarrow> ln_buf l' ! nat rc = NUL)"
  using assms
proof (induction inp arbitrary: l)
  case (Cons c inp)
  from readline_char_ok [OF Cons.prems(1), of c] show ?case
  proof (elim disjE exE conjE)
    fix l1 assume "readline_char plen c l = Some (Inr l1)" "line_ok bsz plen l1"
    then show ?thesis using Cons by simp
  qed (use Cons.prems in auto)
qed simp

lemma line_start_ok:
  assumes "length buf = CONFIG_SYS_CBSIZE + 1"
  shows "readline prompt buf inp = readline_into_buffer prompt (buf[0 := NUL]) inp"
    "line_ok (CONFIG_SYS_CBSIZE + 1) (length prompt) \<lparr>ln_buf = buf[0 := NUL], ln_n = 0, ln_col = length prompt, ln_out = prompt\<rparr>"
  using assms by (simp_all add: readline_def line_ok_def)

lemma readline_result:
  assumes "readline prompt buf inp = Some (rc, l, rest)" "length buf = CONFIG_SYS_CBSIZE + 1"
  shows "rc \<le> int (CONFIG_SYS_CBSIZE - 2)" "length (ln_buf l) = CONFIG_SYS_CBSIZE + 1" "-1 \<le> rc"
    "0 \<le> rc \<Longrightarrow> length (buf_text (ln_buf l)) \<le> nat rc"
proof -
  have *: "rc \<le> int (CONFIG_SYS_CBSIZE - 2) \<and> length (ln_buf l) = CONFIG_SYS_CBSIZE + 1 \<and> -1 \<le> rc \<and> (0 \<le> rc \<longrightarrow> ln_buf l ! nat rc = NUL)"
    using assms line_start_ok [OF assms(2)] by (intro readline_loop_result) (simp_all add: readline_into_buffer_def)
  then show "rc \<le> int (CONFIG_SYS_CBSIZE - 2)" "length (ln_buf l) = CONFIG_SYS_CBSIZE + 1" "-1 \<le> rc" by simp_all
  show "0 \<le> rc \<Longrightarrow> length (buf_text (ln_buf l)) \<le> nat rc"
    using * by (intro buf_text_terminated) auto
qed

text \<open>The command that is stored after one with the result \<open>rc\<close>.\<close>

definition kept :: "int \<Rightarrow> string \<Rightarrow> string" where
  "kept rc lcmd = (if rc \<le> 0 then lcmd[0 := NUL] else lcmd)"

lemma main_exec_unfold:
  assumes "lcmd \<noteq> []"
  shows "main_exec run len lcmd m =
    (if len = -1
     then Some (m\<lparr>main_out := main_out m @ ''<INTERRUPT>'' @ [CHR 0x0a], lastcommand := kept (main_rc m) lcmd, main_rc := main_rc m\<rparr>)
     else map_option (\<lambda>(rc, st). m\<lparr>main_st := st, lastcommand := kept rc lcmd, main_rc := rc\<rparr>)
       (run (buf_text lcmd) (if len = 0 then 1 else 0) (main_st m)))"
  using assms
  by (cases "len = -1"; cases "run (buf_text lcmd) (if len = 0 then 1 else 0) (main_st m)")
    (auto simp: main_exec_def Let_def kept_def)

lemma main_exec_Some:
  assumes "main_exec run len lcmd m = Some m'" "lcmd \<noteq> []"
  shows "console_buffer m' = console_buffer m" "lastcommand m' = kept (main_rc m') lcmd"
  using assms by (auto simp: main_exec_unfold split: if_splits)

lemma main_iter_keeps_ok:
  assumes "main_ok m" "main_iter run m = Some m'"
  shows "main_ok m'"
proof -
  have ok: "length (lastcommand m) = CONFIG_SYS_CBSIZE" "length (console_buffer m) = CONFIG_SYS_CBSIZE + 1"
    "length (buf_text (lastcommand m)) \<le> CONFIG_SYS_CBSIZE - 2" using assms(1) by (simp_all add: main_ok_def)
  obtain len l inp lcmd where rl: "readline ''] '' (console_buffer m) (main_in m) = Some (len, l, inp)"
    and lcmd: "(if len > 0 then strcpy_buf (lastcommand m) (ln_buf l) else Some (lastcommand m)) = Some lcmd"
    and ex: "main_exec run len lcmd (m\<lparr>console_buffer := ln_buf l, main_in := inp, main_out := main_out m @ ln_out l\<rparr>) = Some m'"
    using assms(2) by (auto simp: main_iter_def bind_eq_Some_conv)
  note r = readline_result [OF rl ok(2)]
  have len: "length lcmd = CONFIG_SYS_CBSIZE" "length (buf_text lcmd) \<le> CONFIG_SYS_CBSIZE - 2"
    using lcmd ok r strcpy_buf_Some [of "lastcommand m" "ln_buf l" lcmd] by (auto split: if_splits)
  have "lcmd \<noteq> []" using len(1) by auto
  then show ?thesis using len r(2) main_exec_Some [OF ex] by (simp add: main_ok_def kept_def)
qed

lemma main_iter_total:
  assumes "main_ok m" "CHR 0x0d \<in> set (main_in m)" "\<And>c flag st. run c flag st \<noteq> None"
  shows "\<exists>m'. main_iter run m = Some m'"
proof -
  have ok: "length (lastcommand m) = CONFIG_SYS_CBSIZE" "length (console_buffer m) = CONFIG_SYS_CBSIZE + 1"
    using assms(1) by (simp_all add: main_ok_def)
  obtain len l inp where rl: "readline ''] '' (console_buffer m) (main_in m) = Some (len, l, inp)"
    using readline_safe [of "(console_buffer m)[0 := NUL]" "main_in m" "''] ''"] assms(2) ok(2) line_start_ok(1) [OF ok(2)] by auto
  note r = readline_result [OF rl ok(2)]
  obtain lcmd where lcmd: "(if len > 0 then strcpy_buf (lastcommand m) (ln_buf l) else Some (lastcommand m)) = Some lcmd"
  proof (cases "len > 0")
    case True
    then have "length (buf_text (ln_buf l)) \<le> nat len" using r(4) by simp
    then have "length (buf_text (ln_buf l)) < CONFIG_SYS_CBSIZE" using r(1) True by linarith
    then show ?thesis using r(2) ok that True by (simp add: strcpy_buf_def Let_def)
  qed (use that in simp)
  have "length lcmd = CONFIG_SYS_CBSIZE" using lcmd ok strcpy_buf_Some(1) [of "lastcommand m" "ln_buf l" lcmd] by (auto split: if_splits)
  then have "lcmd \<noteq> []" by auto
  moreover obtain rc st where "run (buf_text lcmd) (if len = 0 then 1 else 0) (main_st m) = Some (rc, st)"
    using assms(3) by fast
  ultimately show ?thesis using rl lcmd by (simp add: main_iter_def main_exec_unfold)
qed

lemma main_start_ok: "main_start ce setenv version_string run inp st = Some m \<Longrightarrow> main_ok m"
  by (auto simp: main_start_def main_ok_def buf_text_def bind_eq_Some_conv Let_def)

lemma main_loop_ok: "main_loop ce setenv version_string run inp st m \<Longrightarrow> main_ok m"
  by (induction rule: main_loop.induct) (auto intro: main_start_ok main_iter_keeps_ok)

section \<open>A session\<close>

text \<open>What a user does at the prompt: typing a line and ENTER, or part of a line and control-C.\<close>

datatype keys = Line string | Interrupt string

primrec key_text :: "keys \<Rightarrow> string" where
  "key_text (Line s) = s"
| "key_text (Interrupt s) = s"

primrec key_input :: "keys \<Rightarrow> string" where
  "key_input (Line s) = s @ [CHR 0x0d]"
| "key_input (Interrupt s) = s @ [CHR 0x03]"

definition keys_ok :: "keys \<Rightarrow> bool" where
  "keys_ok k \<longleftrightarrow> list_all typed_char (key_text k) \<and> length (key_text k) \<le> CONFIG_SYS_CBSIZE - 2"

text \<open>The commands a session runs: a line is run as typed, ENTER alone repeats the last command with
  the repeat flag, a command that failed or cannot be repeated is forgotten, and control-C
  changes nothing.\<close>

fun session :: "'s runner \<Rightarrow> keys list \<Rightarrow> string \<Rightarrow> 's \<Rightarrow> (string \<times> 's) option" where
  "session run [] prev st = Some (prev, st)"
| "session run (Interrupt s # ks) prev st = session run ks prev st"
| "session run (Line s # ks) prev st =
     (let c = (if s = [] then prev else s) in do {
        (rc, st') \<leftarrow> run c (if s = [] then CMD_FLAG_REPEAT else 0) st;
        session run ks (if rc \<le> 0 then [] else c) st'
      })"

lemma typed_no_nul: "list_all typed_char s \<Longrightarrow> NUL \<notin> set s"
  by (auto simp: list_all_iff typed_char_def)

lemma main_iter_line:
  assumes "main_ok m" "keys_ok (Line s)" "main_in m = s @ CHR 0x0d # rest"
    and c: "c = (if s = [] then buf_text (lastcommand m) else s)"
  shows "case run c (if s = [] then CMD_FLAG_REPEAT else 0) (main_st m) of
      None \<Rightarrow> main_iter run m = None
    | Some (rc, st) \<Rightarrow> (\<exists>m'. main_iter run m = Some m' \<and> main_in m' = rest \<and> main_st m' = st \<and>
        buf_text (lastcommand m') = (if rc \<le> 0 then [] else c))"
proof -
  have ok: "length (lastcommand m) = CONFIG_SYS_CBSIZE" "length (console_buffer m) = CONFIG_SYS_CBSIZE + 1"
    using assms(1) by (simp_all add: main_ok_def)
  obtain l where l: "readline ''] '' (console_buffer m) (main_in m) = Some (int (length s), l, rest)"
      "ln_buf l = s @ NUL # drop (length s + 1) ((console_buffer m)[0 := NUL])"
    using readline_reads [of s "(console_buffer m)[0 := NUL]" "''] ''" rest] assms(2,3) ok(2) line_start_ok(1) [OF ok(2)]
    by (auto simp: keys_ok_def)
  have s: "buf_text (ln_buf l) = s" "length s < length (ln_buf l)" "length s < length (lastcommand m)"
    using l(2) assms(2) typed_no_nul [of s] ok by (simp_all add: keys_ok_def)
  define lcmd where "lcmd = (if s = [] then lastcommand m else s @ NUL # drop (length s + 1) (lastcommand m))"
  have lcmd: "(if int (length s) > 0 then strcpy_buf (lastcommand m) (ln_buf l) else Some (lastcommand m)) = Some lcmd"
    using s by (simp add: lcmd_def strcpy_buf_def Let_def)
  have cl: "buf_text lcmd = c" using c assms(2) typed_no_nul [of s] by (simp add: lcmd_def keys_ok_def)
  have "lcmd \<noteq> []" using ok(1) by (auto simp: lcmd_def)
  then show ?thesis using l(1) lcmd cl by (auto simp: main_iter_def main_exec_unfold kept_def split: option.splits)
qed

lemma main_iter_interrupt:
  assumes "main_ok m" "keys_ok (Interrupt s)" "main_in m = s @ CHR 0x03 # rest"
  shows "\<exists>m'. main_iter run m = Some m' \<and> main_in m' = rest \<and> main_st m' = main_st m \<and>
    buf_text (lastcommand m') = buf_text (lastcommand m)"
proof -
  have ok: "lastcommand m \<noteq> []" "length (console_buffer m) = CONFIG_SYS_CBSIZE + 1" "main_rc m \<le> 0 \<longrightarrow> buf_text (lastcommand m) = []"
    using assms(1) by (auto simp: main_ok_def)
  obtain l where l: "readline ''] '' (console_buffer m) (main_in m) = Some (-1, l, rest)"
    using readline_interrupted [of s "(console_buffer m)[0 := NUL]" "''] ''" rest] assms(2,3) ok(2) line_start_ok(1) [OF ok(2)]
    by (auto simp: keys_ok_def)
  then show ?thesis using ok by (auto simp: main_iter_def main_exec_unfold kept_def)
qed

lemma main_iters_session:
  assumes "main_ok m" "list_all keys_ok ks" "main_in m = concat (map key_input ks) @ rest"
  shows "map_option (\<lambda>m. (buf_text (lastcommand m), main_in m, main_st m)) (main_iters (length ks) run m) =
    map_option (\<lambda>(lcmd, st). (lcmd, rest, st)) (session run ks (buf_text (lastcommand m)) (main_st m))"
  using assms
proof (induction ks arbitrary: m)
  case (Cons k ks)
  show ?case
  proof (cases k)
    case (Line s)
    let ?c = "if s = [] then buf_text (lastcommand m) else s"
    note step = main_iter_line [OF Cons.prems(1), of s "concat (map key_input ks) @ rest" ?c run]
    show ?thesis
    proof (cases "run ?c (if s = [] then CMD_FLAG_REPEAT else 0) (main_st m)")
      case None
      then show ?thesis using step Cons.prems Line by simp
    next
      case (Some p)
      obtain rc st where p: "p = (rc, st)" by fastforce
      obtain m' where m': "main_iter run m = Some m'" "main_in m' = concat (map key_input ks) @ rest" "main_st m' = st"
          "buf_text (lastcommand m') = (if rc \<le> 0 then [] else ?c)"
        using step Cons.prems Line Some p by auto
      then show ?thesis
        using Cons.IH [OF main_iter_keeps_ok [OF Cons.prems(1) m'(1)]] Cons.prems(2) Line Some p by (simp add: Let_def)
    qed
  next
    case (Interrupt s)
    obtain m' where m': "main_iter run m = Some m'" "main_in m' = concat (map key_input ks) @ rest" "main_st m' = main_st m"
        "buf_text (lastcommand m') = buf_text (lastcommand m)"
      using main_iter_interrupt [OF Cons.prems(1), of s "concat (map key_input ks) @ rest" run] Cons.prems Interrupt by auto
    then show ?thesis
      using Cons.IH [OF main_iter_keeps_ok [OF Cons.prems(1) m'(1)]] Cons.prems(2) Interrupt by simp
  qed
qed simp

section \<open>Properties\<close>

text \<open>C16: From power-on to the last key: \<open>main_loop\<close> runs the boot command once, with the version stored, and
  then exactly the commands of the session typed at the prompt, in order. ENTER alone repeats the last command with
  the repeat flag, unless it failed or cannot be repeated; control-C drops the line being typed and keeps the command
  to be repeated. If a command does not return, neither side gives a result.\<close>

theorem main_loop_session:
  assumes "list_all keys_ok ks"
  shows "map_option (\<lambda>m. (buf_text (lastcommand m), main_in m, main_st m))
      (Option.bind (main_start ce setenv version_string (run_command depth ce table below) (concat (map key_input ks) @ rest) st)
        (main_iters (length ks) (run_command depth ce table below))) =
    map_option (\<lambda>(prev, st). (prev, rest, st))
      (Option.bind
        (run_command depth ce table below
          (case ce_getenv ce (setenv ''ver'' version_string st) ''bootcmd'' of None \<Rightarrow> [] | Some s \<Rightarrow> s)
          CMD_FLAG_REPEAT (setenv ''ver'' version_string st))
        (\<lambda>(r, st). session (run_command depth ce table below) ks [] st))"
proof -
  let ?run = "run_command depth ce table below" and ?st = "setenv ''ver'' version_string st"
  let ?boot = "?run (case ce_getenv ce ?st ''bootcmd'' of None \<Rightarrow> [] | Some s \<Rightarrow> s) CMD_FLAG_REPEAT ?st"
  let ?inp = "concat (map key_input ks) @ rest"
  show ?thesis
  proof (cases ?boot)
    case None
    then show ?thesis by (simp add: main_start_def Let_def)
  next
    case (Some p)
    obtain r st' where p: "p = (r, st')" by fastforce
    obtain m where m: "main_start ce setenv version_string ?run ?inp st = Some m" "buf_text (lastcommand m) = []"
        "main_in m = ?inp" "main_st m = st'"
      using Some p by (simp add: main_start_def Let_def buf_text_def)
    then show ?thesis using main_iters_session [OF main_start_ok [OF m(1)] assms m(3), of ?run] Some p by simp
  qed
qed

text \<open>Two commands, an interrupted line between a command and its repetition, a failure and ENTER alone.\<close>

theorem main_loop_session_witness:
  "map_option (\<lambda>m. (buf_text (lastcommand m), main_in m, main_st m))
     (Option.bind (main_start count_env (\<lambda>n v st. st) ''U-Boot'' (run_command 1 count_env count_table NUL)
        (''inc'' @ CHR 0x0d # ''fa'' @ CHR 0x03 # CHR 0x0d # ''fail'' @ CHR 0x0d # CHR 0x0d # ''rest'') 0)
       (main_iters 5 (run_command 1 count_env count_table NUL))) = Some ([], ''rest'', 2)"
proof -
  let ?ks = "[Line ''inc'', Interrupt ''fa'', Line [], Line ''fail'', Line []]"
  let ?run = "run_command 1 count_env count_table NUL"
  have ok: "list_all keys_ok ?ks" by code_simp
  have inp: "concat (map key_input ?ks) @ ''rest'' =
      ''inc'' @ CHR 0x0d # ''fa'' @ CHR 0x03 # CHR 0x0d # ''fail'' @ CHR 0x0d # CHR 0x0d # ''rest''" "length ?ks = 5" by simp_all
  have "map_option (\<lambda>(prev, st). (prev, ''rest'', st))
      (Option.bind (?run (case ce_getenv count_env 0 ''bootcmd'' of None \<Rightarrow> [] | Some s \<Rightarrow> s) 1 0)
        (\<lambda>(r, st). session ?run ?ks [] st)) = Some ([], ''rest'', 2)"
    by code_simp
  then show ?thesis
    using main_loop_session [OF ok, of count_env "\<lambda>n v st. st" "''U-Boot''" 1 count_table NUL "''rest''" 0] unfolding inp by (rule trans [rotated])
qed

text \<open>C17: At the head of the main loop, whatever has been typed: the command kept for repetition is terminated inside
  its buffer and short enough to be run, and it is empty after a command that failed or cannot be
  repeated. If the commands return and ENTER is still to be typed, the next iteration ends without leaving the buffers.\<close>

theorem main_loop_safe:
  assumes "main_loop ce setenv version_string (run_command (Suc depth) ce table below) inp st m"
  shows "length (lastcommand m) = CONFIG_SYS_CBSIZE \<and> length (console_buffer m) = CONFIG_SYS_CBSIZE + 1 \<and>
    length (buf_text (lastcommand m)) \<le> CONFIG_SYS_CBSIZE - 2 \<and> (main_rc m \<le> 0 \<longrightarrow> buf_text (lastcommand m) = []) \<and>
    ((\<forall>t\<in>set table. \<forall>run flag argv st. cmd t run flag argv st \<noteq> None) \<and> CHR 0x0d \<in> set (main_in m) \<longrightarrow>
      (\<exists>m'. main_iter (run_command (Suc depth) ce table below) m = Some m'))"
proof -
  have ok: "main_ok m" using main_loop_ok [OF assms] .
  have "\<exists>m'. main_iter (run_command (Suc depth) ce table below) m = Some m'"
    if "\<forall>t\<in>set table. \<forall>run flag argv st. cmd t run flag argv st \<noteq> None" "CHR 0x0d \<in> set (main_in m)"
    by (rule main_iter_total [OF ok that(2) run_command_total [OF that(1)]])
  then show ?thesis using ok unfolding main_ok_def by blast
qed

theorem main_loop_safe_witness:
  "\<exists>m m'. main_loop count_env (\<lambda>n v st. st) ''U-Boot'' (run_command 1 count_env count_table NUL) (''inc'' @ CHR 0x0d # ''x'' @ [CHR 0x0d]) 0 m \<and>
     main_in m = ''x'' @ [CHR 0x0d] \<and> length (buf_text (lastcommand m)) \<le> 98 \<and> main_iter (run_command 1 count_env count_table NUL) m = Some m'"
proof -
  let ?run = "run_command 1 count_env count_table NUL" and ?inp = "''inc'' @ CHR 0x0d # ''x'' @ [CHR 0x0d]"
  have "map_option main_in (Option.bind (main_start count_env (\<lambda>n v st. st) ''U-Boot'' ?run ?inp (0 :: nat)) (main_iter ?run)) =
      Some (''x'' @ [CHR 0x0d])"
    by code_simp
  then obtain m0 m where m: "main_start count_env (\<lambda>n v st. st) ''U-Boot'' ?run ?inp 0 = Some m0" "main_iter ?run m0 = Some m"
      "main_in m = ''x'' @ [CHR 0x0d]" by (auto simp: bind_eq_Some_conv simp del: append.simps)
  then have r: "main_loop count_env (\<lambda>n v st. st) ''U-Boot'' (run_command (Suc 0) count_env count_table NUL) ?inp 0 m"
    using main_loop.again [OF main_loop.enter [OF m(1)] m(2)] by simp
  moreover have "\<forall>t\<in>set count_table. \<forall>run flag argv st. cmd t run flag argv st \<noteq> None" by (simp add: count_table_def)
  ultimately show ?thesis using main_loop_safe [OF r] m(3) by auto
qed

end
