(* ===== verification/MemCmd.thy ===== *)
theory MemCmd
  imports MainLoop Console Crc32
begin

text \<open>
  The memory commands of common/cmd_mem.c (\<open>md\<close>, \<open>mm\<close>, \<open>nm\<close>, \<open>mw\<close>, \<open>cmp\<close>, \<open>cp\<close>, \<open>base\<close>, \<open>crc32\<close>) and
  \<open>print_buffer\<close> of lib/display_options.c, for the board's settings (no flash, no data flash, no
  verification of checksums). Memory is a function from addresses to bytes, big-endian as the
  processor is; any address may be accessed at any width. The text of \<open>cmd_usage\<close>, the answers of
  \<open>ctrlc\<close> and the console input are arguments.
\<close>

section \<open>Objects of one, two and four bytes\<close>

definition load_short :: "mem \<Rightarrow> u32 \<Rightarrow> u32" where
  "load_short m a = push_bit 8 (ucast (m a)) OR ucast (m (a + 1))"

definition store_short :: "mem \<Rightarrow> u32 \<Rightarrow> u32 \<Rightarrow> mem" where
  "store_short m a w = m(a := ucast (drop_bit 8 w), a + 1 := ucast w)"

definition load_unit :: "u32 \<Rightarrow> mem \<Rightarrow> u32 \<Rightarrow> u32" where
  "load_unit sz m a = (if sz = 4 then load_word m a else if sz = 2 then load_short m a else ucast (m a))"

definition store_unit :: "u32 \<Rightarrow> mem \<Rightarrow> u32 \<Rightarrow> u32 \<Rightarrow> mem" where
  "store_unit sz m a w =
     (if sz = 4 then store_word m a w else if sz = 2 then store_short m a w else m(a := ucast w))"

definition unit_fmt :: "u32 \<Rightarrow> string" where
  "unit_fmt sz = (if sz = 4 then '' %08x'' else if sz = 2 then '' %04x'' else '' %02x'')"

definition unit_name :: "u32 \<Rightarrow> string" where
  "unit_name sz = (if sz = 4 then ''word'' else if sz = 2 then ''halfword'' else ''byte'')"

section \<open>Displaying memory\<close>

text \<open>The hexadecimal part of a line.\<close>

fun print_values :: "u32 \<Rightarrow> mem \<Rightarrow> nat \<Rightarrow> u32 \<Rightarrow> string option" where
  "print_values width m 0 data = Some []"
| "print_values width m (Suc n) data = do {
     s \<leftarrow> printf_buf (unit_fmt width) [VInt (load_unit width m data)];
     r \<leftarrow> print_values width m n (data + width);
     Some (s @ r)
   }"

definition ascii_of :: "u8 \<Rightarrow> char" where
  "ascii_of b = (if isprint (char_of_byte b) \<and> b < 0x80 then char_of_byte b else CHR ''.'')"

definition print_line :: "u32 \<Rightarrow> mem \<Rightarrow> u32 \<Rightarrow> u32 \<Rightarrow> u32 \<Rightarrow> string option" where
  "print_line width m addr data linelen = do {
     s \<leftarrow> printf_buf ''%08lx:'' [VInt addr];
     v \<leftarrow> print_values width m (unat linelen) data;
     Some (s @ v @ ''    '' @ map ascii_of (mem_bytes m data (unat (linelen * width))) @ [CHR 0x0a])
   }"

text \<open>The loop over the lines; a line of no values would be printed for ever.\<close>

function print_lines ::
  "(nat \<Rightarrow> bool) \<Rightarrow> nat \<Rightarrow> u32 \<Rightarrow> mem \<Rightarrow> u32 \<Rightarrow> u32 \<Rightarrow> u32 \<Rightarrow> u32 \<Rightarrow> string \<Rightarrow> (int \<times> string) option" where
  "print_lines ctrlc k width m addr data count linelen out =
     (if count = 0 then Some (0, out)
      else if linelen = 0 then None
      else
        let linelen = (if count < linelen then count else linelen) in do {
          s \<leftarrow> print_line width m addr data linelen;
          if ctrlc k then Some (-1, out @ s)
          else print_lines ctrlc (k + 1) width m (addr + linelen * width) (data + linelen * width) (count - linelen) linelen (out @ s)
        })"
  by pat_completeness auto
termination
  by (relation "measure (\<lambda>(ctrlc, k, width, m, addr, data, count, linelen, out). unat count)")
    (auto simp: unat_sub_le word_le_nat_alt word_less_nat_alt unat_gt_0)

declare print_lines.simps [simp del]

definition print_buffer :: "(nat \<Rightarrow> bool) \<Rightarrow> mem \<Rightarrow> u32 \<Rightarrow> u32 \<Rightarrow> u32 \<Rightarrow> u32 \<Rightarrow> u32 \<Rightarrow> (int \<times> string) option" where
  "print_buffer ctrlc m addr data width count linelen =
     (if width = 0 then None
      else
        let linelen = (if linelen * width > 64 then 64 div width else linelen);
            linelen = (if linelen < 1 then 16 div width else linelen)
        in print_lines ctrlc 0 width m addr data count linelen [])"

text \<open>The variables of cmd_mem.c, and memory.\<close>

record mem_vars =
  dp_last_addr :: u32
  dp_last_size :: u32
  dp_last_length :: u32
  mm_last_addr :: u32
  mm_last_size :: u32
  base_address :: u32
  ram :: mem

definition mem_vars_init :: "mem \<Rightarrow> mem_vars" where
  "mem_vars_init m = \<lparr>dp_last_addr = 0, dp_last_size = 0, dp_last_length = 0x40, mm_last_addr = 0, mm_last_size = 0, base_address = 0, ram = m\<rparr>"

definition hex_arg :: "string \<Rightarrow> u32" where
  "hex_arg s = fst (simple_strtoul s 16)"

text \<open>\<open>None\<close> stands for the division by a size of 0.\<close>

definition do_mem_md ::
  "string \<Rightarrow> (nat \<Rightarrow> bool) \<Rightarrow> int \<Rightarrow> string list \<Rightarrow> mem_vars \<Rightarrow> (int \<times> string \<times> mem_vars) option" where
  "do_mem_md usage ctrlc flag argv v =
     (if length argv < 2 then Some (1, usage, v)
      else
        let new = (flag AND CMD_FLAG_REPEAT = 0); dsz = cmd_get_data_size (argv ! 0) 4 in
        if new \<and> dsz < 0 then Some (1, [], v)
        else
          let addr = (if new then hex_arg (argv ! 1) + base_address v else dp_last_addr v);
              sz = (if new then of_int dsz else dp_last_size v);
              length = (if new \<and> length argv > 2 then hex_arg (argv ! 2) else dp_last_length v)
          in if sz = 0 then None
             else do {
               (r, out) \<leftarrow> print_buffer ctrlc (ram v) addr addr sz length (16 div sz);
               Some (0, out, v\<lparr>dp_last_addr := addr + sz * length, dp_last_length := length, dp_last_size := sz\<rparr>)
             })"

section \<open>Modifying memory\<close>

text \<open>The loop of \<open>mod_mem\<close>: address, memory, \<open>console_buffer\<close>, the input left and the output.\<close>

partial_function (option) mod_mem_loop ::
  "bool \<Rightarrow> u32 \<Rightarrow> u32 \<Rightarrow> mem \<Rightarrow> string \<Rightarrow> string \<Rightarrow> string \<Rightarrow> (u32 \<times> mem \<times> string \<times> string \<times> string) option" where
  [code]: "mod_mem_loop incrflag sz addr m buf inp out = do {
     s1 \<leftarrow> printf_buf ''%08lx:'' [VInt addr];
     s2 \<leftarrow> printf_buf (unit_fmt sz) [VInt (load_unit sz m addr)];
     (nbytes, l, inp) \<leftarrow> readline '' ? '' buf inp;
     let buf = ln_buf l;
     let out = out @ s1 @ s2 @ ln_out l;
     if nbytes = 0 \<or> nbytes = 1 \<and> peek buf 0 = CHR ''-'' then
       mod_mem_loop incrflag sz (if incrflag then if nbytes \<noteq> 0 then addr - sz else addr + sz else addr) m buf inp out
     else do {
       let (i, endp) = simple_strtoul (buf_text buf) 16;
       if length endp < length (buf_text buf) then
         mod_mem_loop incrflag sz (if incrflag then addr + sz else addr) (store_unit sz m addr i) buf inp out
       else Some (addr, m, buf, inp, out)
     }
   }"

definition mod_mem ::
  "string \<Rightarrow> bool \<Rightarrow> int \<Rightarrow> string list \<Rightarrow> string \<Rightarrow> string \<Rightarrow> mem_vars \<Rightarrow> (int \<times> string \<times> string \<times> string \<times> mem_vars) option" where
  "mod_mem usage incrflag flag argv buf inp v =
     (if length argv \<noteq> 2 then Some (1, usage, buf, inp, v)
      else
        let new = (flag AND CMD_FLAG_REPEAT = 0); dsz = cmd_get_data_size (argv ! 0) 4 in
        if new \<and> dsz < 0 then Some (1, [], buf, inp, v)
        else
          let addr = (if new then hex_arg (argv ! 1) + base_address v else mm_last_addr v);
              sz = (if new then of_int dsz else mm_last_size v)
          in do {
            (addr, m, buf, inp, out) \<leftarrow> mod_mem_loop incrflag sz addr (ram v) buf inp [];
            Some (0, out, buf, inp, v\<lparr>ram := m, mm_last_addr := addr, mm_last_size := sz\<rparr>)
          })"

definition do_mem_mm where
  "do_mem_mm usage flag argv buf inp v = mod_mem usage True flag argv buf inp v"

definition do_mem_nm where
  "do_mem_nm usage flag argv buf inp v = mod_mem usage False flag argv buf inp v"

section \<open>Filling, comparing and copying\<close>

fun mw_loop :: "u32 \<Rightarrow> nat \<Rightarrow> mem \<Rightarrow> u32 \<Rightarrow> u32 \<Rightarrow> mem" where
  "mw_loop sz 0 m addr writeval = m"
| "mw_loop sz (Suc n) m addr writeval = mw_loop sz n (store_unit sz m addr writeval) (addr + sz) writeval"

definition do_mem_mw :: "string \<Rightarrow> string list \<Rightarrow> mem_vars \<Rightarrow> int \<times> string \<times> mem_vars" where
  "do_mem_mw usage argv v =
     (if length argv < 3 \<or> length argv > 4 then (1, usage, v)
      else
        let sz = cmd_get_data_size (argv ! 0) 4 in
        if sz < 1 then (1, [], v)
        else
          let count = (if length argv = 4 then hex_arg (argv ! 3) else 1)
          in (0, [], v\<lparr>ram := mw_loop (of_int sz) (unat count) (ram v) (hex_arg (argv ! 1) + base_address v) (hex_arg (argv ! 2))\<rparr>))"

definition cmp_fmt :: "u32 \<Rightarrow> string" where
  "cmp_fmt sz =
     (if sz = 4 then ''word at 0x%08lx (0x%08lx) != word at 0x%08lx (0x%08lx)'' @ [CHR 0x0a]
      else if sz = 2 then ''halfword at 0x%08lx (0x%04x) != halfword at 0x%08lx (0x%04x)'' @ [CHR 0x0a]
      else ''byte at 0x%08lx (0x%02x) != byte at 0x%08lx (0x%02x)'' @ [CHR 0x0a])"

text \<open>The loop of \<open>cmp\<close>: \<open>rcode\<close>, the number of equal objects and the message.\<close>

fun cmp_loop :: "u32 \<Rightarrow> mem \<Rightarrow> nat \<Rightarrow> u32 \<Rightarrow> u32 \<Rightarrow> u32 \<Rightarrow> (int \<times> u32 \<times> string) option" where
  "cmp_loop sz m 0 addr1 addr2 ngood = Some (0, ngood, [])"
| "cmp_loop sz m (Suc n) addr1 addr2 ngood =
     (let v1 = load_unit sz m addr1; v2 = load_unit sz m addr2 in
      if v1 \<noteq> v2 then do {
        s \<leftarrow> printf_buf (cmp_fmt sz) [VInt addr1, VInt v1, VInt addr2, VInt v2];
        Some (1, ngood, s)
      }
      else cmp_loop sz m n (addr1 + sz) (addr2 + sz) (ngood + 1))"

definition do_mem_cmp :: "string \<Rightarrow> string list \<Rightarrow> mem_vars \<Rightarrow> (int \<times> string) option" where
  "do_mem_cmp usage argv v =
     (if length argv \<noteq> 4 then Some (1, usage)
      else
        let sz = cmd_get_data_size (argv ! 0) 4 in
        if sz < 0 then Some (1, [])
        else do {
          (rcode, ngood, s) \<leftarrow> cmp_loop (of_int sz) (ram v) (unat (hex_arg (argv ! 3)))
             (hex_arg (argv ! 1) + base_address v) (hex_arg (argv ! 2) + base_address v) 0;
          t \<leftarrow> printf_buf (''Total of %ld %s%s were the same'' @ [CHR 0x0a])
             [VInt ngood, VStr (Some (unit_name (of_int sz))), VStr (Some (if ngood = 1 then [] else ''s''))];
          Some (rcode, s @ t)
        })"

fun cp_loop :: "u32 \<Rightarrow> nat \<Rightarrow> mem \<Rightarrow> u32 \<Rightarrow> u32 \<Rightarrow> mem" where
  "cp_loop sz 0 m addr dest = m"
| "cp_loop sz (Suc n) m addr dest = cp_loop sz n (store_unit sz m dest (load_unit sz m addr)) (addr + sz) (dest + sz)"

definition do_mem_cp :: "string \<Rightarrow> string list \<Rightarrow> mem_vars \<Rightarrow> int \<times> string \<times> mem_vars" where
  "do_mem_cp usage argv v =
     (if length argv \<noteq> 4 then (1, usage, v)
      else
        let sz = cmd_get_data_size (argv ! 0) 4 in
        if sz < 0 then (1, [], v)
        else
          let count = hex_arg (argv ! 3) in
          if count = 0 then (1, ''Zero length ???'' @ [CHR 0x0a], v)
          else (0, [], v\<lparr>ram := cp_loop (of_int sz) (unat count) (ram v) (hex_arg (argv ! 1) + base_address v) (hex_arg (argv ! 2) + base_address v)\<rparr>))"

definition do_mem_base :: "string list \<Rightarrow> mem_vars \<Rightarrow> (int \<times> string \<times> mem_vars) option" where
  "do_mem_base argv v =
     (let v = (if length argv > 1 then v\<lparr>base_address := hex_arg (argv ! 1)\<rparr> else v) in do {
        s \<leftarrow> printf_buf (''Base Address: 0x%08lx'' @ [CHR 0x0a]) [VInt (base_address v)];
        Some (0, s, v)
      })"

definition do_mem_crc :: "string \<Rightarrow> string list \<Rightarrow> mem_vars \<Rightarrow> (int \<times> string \<times> mem_vars) option" where
  "do_mem_crc usage argv v =
     (if length argv < 3 then Some (1, usage, v)
      else
        let addr = hex_arg (argv ! 1) + base_address v;
            length' = hex_arg (argv ! 2);
            crc = crc32 0 (unat addr) (mem_bytes (ram v) addr (unat length'))
        in do {
          s \<leftarrow> printf_buf (''CRC32 for %08lx ... %08lx ==> %08lx'' @ [CHR 0x0a]) [VInt addr, VInt (addr + length' - 1), VInt crc];
          Some (0, s, if length argv > 3 then v\<lparr>ram := store_word (ram v) (hex_arg (argv ! 3)) crc\<rparr> else v)
        })"

section \<open>Objects and bytes\<close>

definition unit_size :: "u32 \<Rightarrow> bool" where
  "unit_size sz \<longleftrightarrow> sz = 1 \<or> sz = 2 \<or> sz = 4"

lemma unit_sizeE:
  assumes "unit_size sz"
  obtains "sz = 1" "unat sz = 1" | "sz = 2" "unat sz = 2" | "sz = 4" "unat sz = 4"
  using assms by (auto simp: unit_size_def)

lemma store_short_load_short:
  assumes "s + 1 \<noteq> d"
  shows "store_short m d (load_short m s) = copy_up 2 m d s"
proof -
  have "ucast (drop_bit 8 (load_short m s)) = m s" "ucast (load_short m s) = m (s + 1)"
    by (rule bit_word_eqI; simp add: load_short_def bit_simps bit_u8_ge)+
  moreover have "copy_up 2 m d s = copy_up (Suc (Suc 0)) m d s" by (rule arg_cong [where f = "\<lambda>n. copy_up n m d s"]) simp
  ultimately show ?thesis using assms by (simp add: store_short_def)
qed

text \<open>Copying one object is copying its bytes, unless the destination starts inside the source.\<close>

lemma copy_unit:
  assumes "unit_size sz" "\<And>k. 0 < k \<Longrightarrow> k < unat sz \<Longrightarrow> s + of_nat k \<noteq> d"
  shows "store_unit sz m d (load_unit sz m s) = copy_up (unat sz) m d s"
  using assms(1)
proof (cases rule: unit_sizeE)
  case 1
  moreover have "(ucast (ucast (m s) :: u32) :: u8) = m s" by (rule bit_word_eqI) (auto simp: bit_simps bit_u8_ge)
  ultimately show ?thesis by (simp add: store_unit_def load_unit_def)
next
  case 2
  then show ?thesis using assms(2) [of 1] store_short_load_short [of s d m] by (simp add: store_unit_def load_unit_def)
next
  case 3
  then show ?thesis using assms(2) [of 1] assms(2) [of 2] assms(2) [of 3] copy_word_apart [of s d m]
    by (simp add: store_unit_def load_unit_def)
qed

lemma load_unit_cong:
  assumes "unit_size sz" "\<And>k. k < unat sz \<Longrightarrow> m (a + of_nat k) = m (b + of_nat k)"
  shows "load_unit sz m a = load_unit sz m b"
  using assms(1)
proof (cases rule: unit_sizeE)
  case 1
  then show ?thesis using assms(2) [of 0] by (simp add: load_unit_def)
next
  case 2
  then show ?thesis using assms(2) [of 0] assms(2) [of 1] by (simp add: load_unit_def load_short_def)
next
  case 3
  then show ?thesis using assms(2) [of 0] assms(2) [of 1] assms(2) [of 2] assms(2) [of 3]
    by (simp add: load_unit_def load_word_def)
qed

section \<open>Copying and comparing\<close>

lemma offset_inside:
  assumes "unat (s :: u32) + n \<le> 2 ^ 32" "k < n"
  shows "unat (s + of_nat k) = unat s + k"
proof -
  have "unat (of_nat k :: u32) = k" using assms by (simp add: unat_of_nat)
  then show ?thesis using assms by (subst unat_add_nowrap) simp_all
qed

lemma cp_loop_bytes:
  assumes "unit_size sz" "unat d + unat sz * n \<le> 2 ^ 32" "unat s + unat sz * n \<le> 2 ^ 32" "d \<le> s \<or> unat s + unat sz * n \<le> unat d"
  shows "cp_loop sz n m s d = copy_up (unat sz * n) m d s"
  using assms(2-4)
proof (induction n arbitrary: m d s)
  case (Suc n)
  have sz: "0 < unat sz" using assms(1) by (cases rule: unit_sizeE) auto
  have apart: "s + of_nat k \<noteq> d" if k: "0 < k" "k < unat sz" for k
  proof -
    have "unat (s + of_nat k) = unat s + k" using Suc.prems(2) k by (intro offset_inside [where n = "unat sz"]) auto
    then have "unat (s + of_nat k) \<noteq> unat d" using Suc.prems(3) k unfolding word_le_nat_alt by auto
    then show ?thesis by metis
  qed
  have one: "store_unit sz m d (load_unit sz m s) = copy_up (unat sz) m d s" by (rule copy_unit [OF assms(1) apart])
  have "cp_loop sz n (copy_up (unat sz) m d s) (s + sz) (d + sz) = copy_up (unat sz * n) (copy_up (unat sz) m d s) (d + sz) (s + sz)"
  proof (cases "n = 0")
    case False
    then have "unat sz < unat sz * Suc n" using sz by simp
    then have "unat s + unat sz < 2 ^ 32" "unat d + unat sz < 2 ^ 32" using Suc.prems(1,2) by linarith+
    then have "unat (s + sz) = unat s + unat sz" "unat (d + sz) = unat d + unat sz"
      using unat_add_nowrap [of s sz] unat_add_nowrap [of d sz] by simp_all
    then show ?thesis using Suc.prems by (intro Suc.IH) (auto simp: word_le_nat_alt)
  qed simp
  then show ?case using one copy_up_append [of "unat sz" "unat sz * n" m d s] by (simp add: add.commute)
qed simp

lemma cmp_loop_same:
  assumes "\<And>i. i < n \<Longrightarrow> load_unit sz m (a1 + of_nat i * sz) = load_unit sz m (a2 + of_nat i * sz)"
  shows "cmp_loop sz m n a1 a2 ngood = Some (0, ngood + of_nat n, [])"
  using assms
proof (induction n arbitrary: a1 a2 ngood)
  case (Suc n)
  have "load_unit sz m a1 = load_unit sz m a2" using Suc.prems [of 0] by simp
  moreover have "cmp_loop sz m n (a1 + sz) (a2 + sz) (ngood + 1) = Some (0, ngood + 1 + of_nat n, [])"
    using Suc.prems [of "Suc i" for i] by (intro Suc.IH) (simp add: algebra_simps)
  ultimately show ?case by (simp add: algebra_simps)
qed simp

text \<open>The bytes of a block that has been copied to a place apart from it.\<close>

lemma block_copy_same:
  assumes "unat A + N \<le> 2 ^ 32" "unat B + N \<le> 2 ^ 32" "unat A + N \<le> unat B \<or> unat B + N \<le> unat A" "k < N"
  shows "block_copy N m B A (A + of_nat k) = block_copy N m B A (B + of_nat k)"
proof -
  have u: "unat (A + of_nat k) = unat A + k" "unat (B + of_nat k) = unat B + k"
    using assms by (auto intro!: offset_inside [where n = N])
  then have "\<not> (B \<le> A + of_nat k \<and> unat (A + of_nat k) < unat B + N)" "B \<le> B + of_nat k \<and> unat (B + of_nat k) < unat B + N"
    using assms(3,4) by (auto simp: word_le_nat_alt)
  then have "block_copy N m B A (A + of_nat k) = m (A + of_nat k)" "block_copy N m B A (B + of_nat k) = m (A + (B + of_nat k - B))"
    unfolding block_copy_def by presburger+
  then show ?thesis by simp
qed

lemma total_line:
  assumes "unat n < 2 ^ 31"
  shows "printf_buf (''Total of %ld %s%s were the same'' @ [CHR 0x0a]) [VInt n, VStr (Some (unit_name sz)), VStr (Some (if n = 1 then [] else ''s''))] =
    Some (''Total of '' @ decimal (unat n) @ CHR '' '' # unit_name sz @ (if n = 1 then [] else ''s'') @ '' were the same'' @ [CHR 0x0a])"
proof -
  have "length (decimal (unat n)) \<le> 10" using radix_length [of 10 "unat n" 10 False] assms by (simp add: decimal_def)
  moreover have "length (decimal (Suc 0)) \<le> 4" by (rule decimal_length) simp
  moreover have "NUL \<notin> set (unit_name sz)" "length (unit_name sz) \<le> 8" by (simp_all add: unit_name_def)
  ultimately show ?thesis using assms by (simp add: printf_buf_def vsprintf_def text_simps vsprintf_loop_ld)
qed

section \<open>Displaying and modifying\<close>

lemma hex8_printed: "\<exists>s. printf_buf ''%08lx:'' [VInt w] = Some s"
proof -
  have "length (number (ucast w) 16 8 (-1) 33) \<le> 8" by (rule number_hex_length) (simp_all add: flag_set_def)
  then show ?thesis by (simp add: printf_buf_def conv_simps flag_set_def)
qed

lemma unit_printed: "\<exists>s. printf_buf (unit_fmt sz) [VInt w] = Some s"
proof -
  have "length (number (ucast w) 16 8 (-1) 33) \<le> 8" "length (number (ucast w) 16 4 (-1) 33) \<le> 8" "length (number (ucast w) 16 2 (-1) 33) \<le> 8"
    by (rule number_hex_length; simp add: flag_set_def)+
  then show ?thesis by (simp add: unit_fmt_def printf_buf_def conv_simps flag_set_def)
qed

lemma print_values_total: "\<exists>s. print_values width m n data = Some s"
proof (induction n arbitrary: data)
  case (Suc n)
  obtain r where "print_values width m n (data + width) = Some r" using Suc.IH by blast
  moreover obtain s where "printf_buf (unit_fmt width) [VInt (load_unit width m data)] = Some s" using unit_printed by blast
  ultimately show ?case by simp
qed simp

lemma print_line_total: "\<exists>s. print_line width m addr data linelen = Some s"
proof -
  obtain v where "print_values width m (unat linelen) data = Some v" using print_values_total by blast
  moreover obtain s where "printf_buf ''%08lx:'' [VInt addr] = Some s" using hex8_printed by blast
  ultimately show ?thesis by (simp add: print_line_def)
qed

lemma print_lines_total: "linelen \<noteq> 0 \<Longrightarrow> \<exists>r out'. print_lines ctrlc k width m addr data count linelen out = Some (r, out')"
proof (induction ctrlc k width m addr data count linelen out rule: print_lines.induct)
  case (1 ctrlc k width m addr data count linelen out)
  show ?case
  proof (cases "count = 0")
    case True
    then show ?thesis by (subst print_lines.simps) simp
  next
    case False
    define ll where "ll = (if count < linelen then count else linelen)"
    obtain s where s: "print_line width m addr data ll = Some s" using print_line_total by blast
    have ll: "ll \<noteq> 0" using False 1(2) by (simp add: ll_def)
    have "\<exists>r out'. print_lines ctrlc (k + 1) width m (addr + ll * width) (data + ll * width) (count - ll) ll (out @ s) = Some (r, out')"
      if "\<not> ctrlc k" by (rule 1(1) [OF False 1(2) ll_def s that ll])
    then show ?thesis using False 1(2) s by (subst print_lines.simps) (auto simp: Let_def ll_def [symmetric])
  qed
qed

lemma print_buffer_total:
  assumes "unit_size sz"
  shows "\<exists>r out. print_buffer ctrlc m addr data sz count (16 div sz) = Some (r, out)"
  using assms print_lines_total by (cases rule: unit_sizeE) (simp_all add: print_buffer_def)

text \<open>\<open>md\<close> ends, and ENTER then displays as many objects of the same size that follow.\<close>

lemma md_repeats:
  assumes "cmd_get_data_size c 4 = int (unat sz)" "unit_size sz" "addr = hex_arg a + base_address v"
  shows "\<exists>out v'. do_mem_md usage ctrlc 0 [c, a, n] v = Some (0, out, v') \<and> ram v' = ram v \<and>
    do_mem_md usage ctrlc' CMD_FLAG_REPEAT [c, a, n] v' =
      map_option (\<lambda>(r, out). (0, out, v'\<lparr>dp_last_addr := addr + 2 * (sz * hex_arg n)\<rparr>))
        (print_buffer ctrlc' (ram v) (addr + sz * hex_arg n) (addr + sz * hex_arg n) sz (hex_arg n) (16 div sz))"
proof -
  obtain r out where "print_buffer ctrlc (ram v) addr addr sz (hex_arg n) (16 div sz) = Some (r, out)"
    using print_buffer_total [OF assms(2)] by blast
  moreover obtain r' out' where "print_buffer ctrlc' (ram v) (addr + sz * hex_arg n) (addr + sz * hex_arg n) sz (hex_arg n) (16 div sz) = Some (r', out')"
    using print_buffer_total [OF assms(2)] by blast
  moreover have "sz \<noteq> 0" using assms(2) by (auto simp: unit_size_def)
  ultimately show ?thesis using assms(1,3) by (simp add: do_mem_md_def Let_def algebra_simps)
qed

text \<open>The boot command is run with the repeat flag, before any size has been stored: \<open>md\<close> in it ignores
  its arguments and divides by zero.\<close>

lemma md_in_bootcmd_fails:
  "do_mem_md usage ctrlc CMD_FLAG_REPEAT [c, a] (mem_vars_init m) = None"
  by (simp add: do_mem_md_def mem_vars_init_def)

text \<open>Values typed at the prompt of \<open>mm\<close>, one per line, and a line that is no number.\<close>

fun store_units :: "u32 \<Rightarrow> mem \<Rightarrow> u32 \<Rightarrow> u32 list \<Rightarrow> mem" where
  "store_units sz m addr [] = m"
| "store_units sz m addr (w # ws) = store_units sz (store_unit sz m addr w) (addr + sz) ws"

definition mm_value :: "string \<Rightarrow> bool" where
  "mm_value s \<longleftrightarrow> keys_ok (Line s) \<and> s \<noteq> [] \<and> s \<noteq> ''-'' \<and> length (snd (simple_strtoul s 16)) < length s"

definition mm_exit :: "string \<Rightarrow> bool" where
  "mm_exit s \<longleftrightarrow> keys_ok (Line s) \<and> s \<noteq> [] \<and> s \<noteq> ''-'' \<and> snd (simple_strtoul s 16) = s"

lemma readline_line:
  assumes "keys_ok (Line s)" "length buf = CONFIG_SYS_CBSIZE + 1"
  shows "\<exists>l. readline prompt buf (s @ CHR 0x0d # rest) = Some (int (length s), l, rest) \<and> buf_text (ln_buf l) = s \<and>
    length (ln_buf l) = CONFIG_SYS_CBSIZE + 1 \<and> (s \<noteq> [] \<longrightarrow> peek (ln_buf l) 0 = hd s)"
proof -
  obtain l where l: "readline_into_buffer prompt (buf[0 := NUL]) (s @ CHR 0x0d # rest) = Some (int (length s), l, rest)"
      "ln_buf l = s @ NUL # drop (length s + 1) (buf[0 := NUL])"
    using readline_reads [of s "buf[0 := NUL]" prompt rest] assms by (auto simp: keys_ok_def)
  have "NUL \<notin> set s" using assms(1) typed_no_nul [of s] by (simp add: keys_ok_def)
  then have "buf_text (ln_buf l) = s" unfolding l(2) by (rule buf_text_append)
  moreover have "length (ln_buf l) = CONFIG_SYS_CBSIZE + 1" "s \<noteq> [] \<longrightarrow> peek (ln_buf l) 0 = hd s"
    using l(2) assms by (cases s; auto simp: keys_ok_def)+
  ultimately show ?thesis using l(1) line_start_ok(1) [OF assms(2)] by simp
qed

lemma mm_stores:
  assumes "list_all mm_value ss" "mm_exit e" "length buf = CONFIG_SYS_CBSIZE + 1"
  shows "\<exists>buf' out'. mod_mem_loop True sz addr m buf (concat (map (\<lambda>s. s @ [CHR 0x0d]) ss) @ e @ CHR 0x0d # rest) out =
    Some (addr + of_nat (length ss) * sz, store_units sz m addr (map hex_arg ss), buf', rest, out')"
  using assms(1,3)
proof (induction ss arbitrary: addr m buf out)
  case Nil
  obtain s1 s2 where s: "printf_buf ''%08lx:'' [VInt addr] = Some s1" "printf_buf (unit_fmt sz) [VInt (load_unit sz m addr)] = Some s2"
    using hex8_printed unit_printed by metis
  obtain l where l: "readline '' ? '' buf (e @ CHR 0x0d # rest) = Some (int (length e), l, rest)" "buf_text (ln_buf l) = e"
      "peek (ln_buf l) 0 = hd e"
    using readline_line [of e buf "'' ? ''" rest] Nil.prems(2) assms(2) by (auto simp: mm_exit_def)
  have "\<not> (int (length e) = 0 \<or> int (length e) = 1 \<and> hd e = CHR ''-'')"
    using assms(2) by (auto simp: mm_exit_def length_Suc_conv)
  then have "mod_mem_loop True sz addr m buf (e @ CHR 0x0d # rest) out = Some (addr, m, ln_buf l, rest, out @ s1 @ s2 @ ln_out l)"
    using s l assms(2) by (subst mod_mem_loop.simps) (auto simp: Let_def mm_exit_def case_prod_beta)
  then show ?case by simp
next
  case (Cons x ss)
  obtain s1 s2 where s: "printf_buf ''%08lx:'' [VInt addr] = Some s1" "printf_buf (unit_fmt sz) [VInt (load_unit sz m addr)] = Some s2"
    using hex8_printed unit_printed by metis
  let ?rest = "concat (map (\<lambda>s. s @ [CHR 0x0d]) ss) @ e @ CHR 0x0d # rest"
  obtain l where l: "readline '' ? '' buf (x @ CHR 0x0d # ?rest) = Some (int (length x), l, ?rest)" "buf_text (ln_buf l) = x"
      "length (ln_buf l) = CONFIG_SYS_CBSIZE + 1" "peek (ln_buf l) 0 = hd x"
    using readline_line [of x buf "'' ? ''" ?rest] Cons.prems by (auto simp: mm_value_def)
  have "\<not> (int (length x) = 0 \<or> int (length x) = 1 \<and> hd x = CHR ''-'')"
    using Cons.prems(1) by (auto simp: mm_value_def length_Suc_conv)
  then have "mod_mem_loop True sz addr m buf (x @ CHR 0x0d # ?rest) out =
      mod_mem_loop True sz (addr + sz) (store_unit sz m addr (hex_arg x)) (ln_buf l) ?rest (out @ s1 @ s2 @ ln_out l)"
    using s l Cons.prems(1) by (subst mod_mem_loop.simps) (auto simp: Let_def mm_value_def case_prod_beta hex_arg_def)
  moreover obtain buf' out' where "mod_mem_loop True sz (addr + sz) (store_unit sz m addr (hex_arg x)) (ln_buf l) ?rest (out @ s1 @ s2 @ ln_out l) =
      Some (addr + sz + of_nat (length ss) * sz, store_units sz (store_unit sz m addr (hex_arg x)) (addr + sz) (map hex_arg ss), buf', rest, out')"
    using Cons.IH [of "ln_buf l"] Cons.prems(1) l(3) by fastforce
  ultimately show ?case by (simp add: algebra_simps)
qed

section \<open>Properties\<close>

text \<open>C24: \<open>cp\<close> between areas that do not overlap copies exactly the requested objects, of one, two or four bytes, and
  changes nothing else of memory; \<open>cmp\<close> of the two areas then finds all of them equal.\<close>

theorem cp_then_cmp:
  assumes "cmd_get_data_size c 4 = int (unat sz)" "cmd_get_data_size c' 4 = int (unat sz)" "unit_size sz"
    and "A = hex_arg a + base_address v" "B = hex_arg b + base_address v"
    and "0 < hex_arg n" "unat (hex_arg n) < 2 ^ 31" "N = unat sz * unat (hex_arg n)"
    and "unat A + N \<le> 2 ^ 32" "unat B + N \<le> 2 ^ 32" "unat A + N \<le> unat B \<or> unat B + N \<le> unat A"
  shows "\<exists>v'. do_mem_cp usage [c, a, b, n] v = (0, [], v') \<and>
    ram v' = (\<lambda>x. if B \<le> x \<and> unat x < unat B + N then ram v (A + (x - B)) else ram v x) \<and>
    do_mem_cmp usage' [c', a, b, n] v' =
      Some (0, ''Total of '' @ decimal (unat (hex_arg n)) @ CHR '' '' # unit_name sz @ (if hex_arg n = 1 then [] else ''s'') @
        '' were the same'' @ [CHR 0x0a])"
proof -
  let ?n = "unat (hex_arg n)" and ?m = "block_copy N (ram v) B A"
  have sz: "of_int (int (unat sz)) = sz" by simp
  have "B \<le> A \<or> unat A + N \<le> unat B" using assms(11) by (auto simp: word_le_nat_alt)
  then have cp: "cp_loop sz ?n (ram v) A B = ?m"
    using cp_loop_bytes [OF assms(3), of B ?n A "ram v"] copy_up_block [of B N A "ram v"] assms(8-10) by simp
  have "cmp_loop sz ?m ?n A B 0 = Some (0, 0 + of_nat ?n, [])"
  proof (rule cmp_loop_same)
    fix i assume i: "i < ?n"
    show "load_unit sz ?m (A + of_nat i * sz) = load_unit sz ?m (B + of_nat i * sz)"
    proof (rule load_unit_cong [OF assms(3)])
      fix k assume k: "k < unat sz"
      have "unat sz * i + unat sz \<le> N" using i mult_le_mono2 [of "Suc i" ?n "unat sz"] by (simp add: assms(8))
      then have "unat sz * i + k < N" using k by linarith
      moreover have "x + of_nat i * sz + of_nat k = x + of_nat (unat sz * i + k)" for x by (simp add: mult.commute)
      ultimately show "?m (A + of_nat i * sz + of_nat k) = ?m (B + of_nat i * sz + of_nat k)"
        using block_copy_same [OF assms(9-11), of "unat sz * i + k" "ram v"] by metis
    qed
  qed
  then have "do_mem_cmp usage' [c', a, b, n] (v\<lparr>ram := ?m\<rparr>) = Some (0, ''Total of '' @ decimal ?n @ CHR '' '' # unit_name sz @
      (if hex_arg n = 1 then [] else ''s'') @ '' were the same'' @ [CHR 0x0a])"
    using assms(2,4,5,7) total_line [of "hex_arg n" sz] by (simp add: do_mem_cmp_def)
  moreover have "do_mem_cp usage [c, a, b, n] v = (0, [], v\<lparr>ram := ?m\<rparr>)"
    using assms(1,4-6) cp by (simp add: do_mem_cp_def Let_def)
  ultimately show ?thesis by (intro exI [of _ "v\<lparr>ram := ?m\<rparr>"]) (simp add: block_copy_def)
qed

theorem cp_then_cmp_witness:
  "\<exists>v'. do_mem_cp [] [''cp.w'', ''1000'', ''2000'', ''3''] (mem_vars_init (\<lambda>a. ucast a)) = (0, [], v') \<and> ram v' 0x2003 = 3 \<and>
     do_mem_cmp [] [''cmp.w'', ''1000'', ''2000'', ''3''] v' = Some (0, ''Total of 3 halfwords were the same'' @ [CHR 0x0a])"
proof -
  let ?v = "mem_vars_init (\<lambda>a. ucast a)"
  have h: "hex_arg ''1000'' = 0x1000" "hex_arg ''2000'' = 0x2000" "hex_arg ''3'' = 3" by code_simp+
  have d: "cmd_get_data_size ''cp.w'' 4 = int (unat (2 :: u32))" "cmd_get_data_size ''cmp.w'' 4 = int (unat (2 :: u32))"
    by (simp_all add: cmd_get_data_size_def)
  have "decimal 3 = ''3''" by code_simp
  moreover have "(ucast (0x1000 + (0x2003 - 0x2000) :: u32) :: u8) = 3" by simp
  moreover have "\<exists>v'. do_mem_cp [] [''cp.w'', ''1000'', ''2000'', ''3''] ?v = (0, [], v') \<and>
      ram v' = (\<lambda>x. if 0x2000 \<le> x \<and> unat x < unat (0x2000 :: u32) + 6 then ram ?v (0x1000 + (x - 0x2000)) else ram ?v x) \<and>
      do_mem_cmp [] [''cmp.w'', ''1000'', ''2000'', ''3''] v' =
        Some (0, ''Total of '' @ decimal (unat (hex_arg ''3'')) @ CHR '' '' # unit_name 2 @ (if hex_arg ''3'' = 1 then [] else ''s'') @
          '' were the same'' @ [CHR 0x0a])"
    by (rule cp_then_cmp [OF d]) (simp_all add: h unit_size_def mem_vars_init_def)
  ultimately show ?thesis by (auto simp: h unit_name_def mem_vars_init_def)
qed

end
