(* ===== verification/Spec2Isabelle.thy ===== *)
theory Spec2Isabelle
  imports Lmb EnvSpec CmdLine VsprintfSpec MemString BootASpec NetInv BootpSpec RtcSpec Part Elf PrintEnv Help EepromCmd MemCmd
begin

text \<open>
  Verification of the core of U-Boot for the ACube Sam460ex, a board with a big-endian 32-bit PowerPC 460EX. The
  configuration is the one of include/configs/Sam460ex.h; code that it does not compile in is not looked at.

  \<^bold>\<open>The program.\<close> U-Boot is started from flash, brings up the hardware, loads its environment (a small store of
  text variables) from a serial EEPROM behind the I2C bus and then runs commands, typed at the console or taken from
  variables. The commands edit and save the environment, show and change memory, set the clock, fetch files over the network (BOOTP, RARP and TFTP
  above UDP and ARP, driven by one polling loop), look at the partitions of disks and CDs, load and start ELF images, and run the
  first-level bootloader of the board, which searches disks, CDs and the network for a second-level bootloader. All of
  this rests on a small C library: memory and string functions, number parsing and printing, 64-bit division, CRC-32, and the
  logical memory blocks that place images in memory.

  \<^bold>\<open>Conventions.\<close> Machine integers are words (\<open>u8\<close>, \<open>u16\<close>, \<open>u32\<close>, \<open>u64\<close>) and wrap around; signed values are read with
  \<open>sint\<close>, and a C \<open>int\<close> that cannot come near its limits is an \<open>int\<close>. File-level variables are the fields of a record
  that every function takes and returns. A result of type \<open>option\<close> is \<open>None\<close> where the C code has no defined result (an access
  outside an array, an unset pointer) and, for a \<open>partial_function\<close>, where it does not return. What is printed is part of the result
  where a property speaks about it. A string argument is the list of its characters before the NUL; memory that is addressed is a
  function from 32-bit addresses to bytes.

  \<^bold>\<open>The theories.\<close>
  \<^item> \<open>Prelude\<close>: integer types, byte order, checked array access (\<open>rd\<close>, \<open>wr\<close>), facts on words, a calculus for
    partial correctness (\<open>yields\<close>), and the locale \<open>stepwise\<close> of invariants over runs.
  \<^item> \<open>Crc32\<close> (lib/crc32.c): the table, its generator, the word loop for aligned data. It equals the bit-serial polynomial
    division, can be computed in pieces (locale \<open>running_checksum\<close>), and notices every error within a byte.
  \<^item> \<open>Lmb\<close> (lib/lmb.c): the tables of memory and of reservations as sets of addresses; adding, freeing and allocating refine
    the set operations and keep the tables sorted (locale \<open>range_table\<close>); an allocation is free, aligned and below its limit.
  \<^item> \<open>Strtoul\<close> (lib/ctype.c and the parsers of lib/vsprintf.c), \<open>Div64\<close> (lib/div64.c), \<open>Vsprintf\<close> and \<open>VsprintfSpec\<close>
    (the formatted output of lib/vsprintf.c): parsing computes the number written, division is division, digits found without
    division are the right ones, and printed numbers read back.
  \<^item> \<open>MemString\<close> (lib/string.c): block functions with overlap, string functions.
  \<^item> \<open>Eeprom\<close> (common/cmd_eeprom.c): reading and writing in pages and blocks. The I2C bus is a parameter; the hypothesis is
    that a chip stores what is written within a page and returns it.
  \<^item> \<open>Env\<close> and \<open>EnvSpec\<close> (common/cmd_nvedit.c, env_common.c, env_eeprom.c): the byte array of the environment refines a
    finite map from names to values (locale \<open>variable_store\<close>, interpreted on \<open>getenv\<close> and \<open>setenv\<close>), a saved environment is loaded
    again after a restart, and a damaged one is replaced by the default.
  \<^item> \<open>CmdLine\<close> (common/main.c, command.c): line input, splitting, replacement of variables, lookup and execution of
    commands. Buffers are never overrun, and a line runs its commands in order. The depth of nested \<open>run\<close> commands is an argument
    of \<open>run_command\<close>; a line returns at every depth if its commands do, and a variable that runs itself exceeds every depth.
  \<^item> \<open>MainLoop\<close> (\<open>main_loop\<close> of common/main.c): the boot command and the loop at the prompt as a reachability relation. It runs
    exactly the session typed, with repetition by ENTER, and the kept command stays inside its buffer.
  \<^item> \<open>Console\<close> (\<open>printf\<close> of common/console.c, with its buffer of fixed size), \<open>Help\<close> (common/command.c, cmd_help.c), \<open>PrintEnv\<close>
    (\<open>do_printenv\<close>), \<open>EepromCmd\<close> (\<open>do_eeprom\<close>) and \<open>MemCmd\<close> (common/cmd_mem.c, \<open>print_buffer\<close> of lib/display_options.c): commands with the
    texts they print. The list of commands is the stable sort of the table, variables are printed completely, memory goes through
    the EEPROM unchanged, and what \<open>cp\<close> copies \<open>cmp\<close> finds equal. Messages that overrun the buffer of \<open>printf\<close> are shown too.
  \<^item> \<open>BootA\<close> and \<open>BootASpec\<close> (board/ACube/common/cmd_boota.c, sys_dep.c): the first-level bootloader. A chain of boot
    blocks is loaded completely into the buffer that was measured for it, and nothing but ELF images is started.
  \<^item> \<open>Eth\<close> (net/eth.c), \<open>Net\<close> and \<open>NetSpec\<close> (net/net.c), \<open>Tftp\<close> and \<open>TftpSpec\<close> (net/tftp.c, lib/net_utils.c), \<open>Bootp\<close> and
    \<open>BootpSpec\<close> (net/bootp.c, net/rarp.c), \<open>NetLoop\<close>, \<open>NetLoopSpec\<close> and \<open>NetInv\<close> (the loop of net/net.c and common/cmd_net.c). Their
    records extend each other: devices, network state, TFTP state. What happens between two rounds of the loop (a frame, a timeout,
    a key) is a list of inputs, so that every finite run of the loop is covered. Datagrams arrive as they were sent, addresses are
    resolved before a waiting datagram goes out, a transfer stores exactly the file and ends also past 65535 blocks and with
    repeated packets, timeouts give up, \<open>tftpboot\<close> and \<open>bootp\<close> reach their goals from the command on, and the state stays well formed
    whatever arrives. Starting a driver is a parameter; the environment is an abstract map here, whose contract is what \<open>EnvSpec\<close>
    proves of the byte array.
  \<^item> \<open>Rtc\<close> and \<open>RtcSpec\<close> (drivers/rtc/date.c, m41t62.c, include/bcd.h, common/cmd_date.c): calendar, clock chip and the
    command \<open>date\<close>. The two calendar functions are inverse for every time until 2038, and \<open>date\<close> sets a clock that stores its registers.
  \<^item> \<open>Disk\<close> (include/part.h), \<open>PartDos\<close> and \<open>PartDosSpec\<close> (disk/part_dos.c), \<open>PartAmiga\<close> and \<open>PartAmigaSpec\<close>
    (disk/part_amiga.c), \<open>PartIso\<close> and \<open>PartIsoSpec\<close> (disk/part_iso.c), \<open>Part\<close> (disk/part.c): partitions. The driver of a device is
    a field of its record, as in the code. On an intact disk every lookup ends with the entry of the list of its partitions or
    with -1; damaged disks on which the code does not end are shown too.
  \<^item> \<open>Elf\<close> (common/cmd_elf.c): loading produces exactly the memory the section headers describe, and the program is started in it.

  \<^bold>\<open>Loops and fuel.\<close> Loops that end are functions with a measure. Those that may not end are partial functions: the chains of boot
  blocks, of partition blocks and of extended partition tables, the rotation of Ethernet devices, printing the environment, modifying memory at the
  prompt, and the copy loops of the string functions; the properties state that they return on the inputs described. The only fuel is the nesting depth of \<open>run_command\<close>.

  \<^bold>\<open>Not modelled.\<close> The start-up code, the memory controller and everything else that sets registers in a fixed order; the drivers of
  devices (Ethernet, USB, SATA, IDE, video, flash, I2C and serial controllers), which are parameters here; the emulation of
  x86 code for the BIOS of graphics cards; file systems; the image formats of \<open>bootm\<close> with their decompressors, and flattened
  device trees; the allocator; the menus and the logo of the board; the memory test, and commands that only dump registers; and all code for
  other boards. These parts either consist of input and output whose meaning is that of hardware that the sources do not define,
  or are imported libraries, or are not part of the program for this board.
\<close>

end
